(* ===== verification/Prelude.thy ===== *)
theory Prelude
  imports Main "HOL-Library.Word" "HOL-Library.AList" "HOL-Library.Sublist"
begin

text \<open>
  Shared vocabulary of the development: the machine integers of the Rust sources,
  results as sums, the loop-free fragments of the standard library the code calls
  (\<open>checked_add\<close>, \<open>checked_mul\<close>, \<open>div_ceil\<close>, \<open>Option::then_some\<close>), and the lemmas
  on lists, association lists and words that several components use.  Rust's
  \<open>usize\<close> is 64 bits wide on every supported target (\<open>build_support/manifest.rs\<close>,
  \<open>SUPPORTED_CARGO_TARGETS\<close>); lengths are natural numbers and the checked operations
  on them compare with \<open>usize_limit\<close>.
\<close>

unbundle bit_operations_syntax

named_theorems wf_intros \<open>introduction rules for well-formedness invariants\<close>
named_theorems native_simps \<open>projections to and from the native value layouts\<close>

subsection \<open>Machine integers\<close>

type_synonym u8 = "8 word"
type_synonym u16 = "16 word"
type_synonym u32 = "32 word"
type_synonym u64 = "64 word"
type_synonym i32 = "32 word"
type_synonym i64 = "64 word"
type_synonym bytes = "8 word list"

abbreviation (input) i64_min :: int where "i64_min \<equiv> - 9223372036854775808"
abbreviation (input) i64_max :: int where "i64_max \<equiv> 9223372036854775807"
abbreviation (input) u64_max :: u64 where "u64_max \<equiv> - 1"
abbreviation (input) usize_limit :: nat where "usize_limit \<equiv> 18446744073709551616"

definition i64_in_range :: "int \<Rightarrow> bool" where
  "i64_in_range x \<longleftrightarrow> i64_min \<le> x \<and> x \<le> i64_max"

text \<open>\<open>i64::checked_add\<close> and its relatives: the exact result, or nothing.\<close>

definition to_i64 :: "int \<Rightarrow> i64 option" where
  "to_i64 x = (if i64_in_range x then Some (word_of_int x) else None)"

definition i64_checked_add :: "i64 \<Rightarrow> i64 \<Rightarrow> i64 option" where
  "i64_checked_add a b = to_i64 (sint a + sint b)"

definition i64_checked_sub :: "i64 \<Rightarrow> i64 \<Rightarrow> i64 option" where
  "i64_checked_sub a b = to_i64 (sint a - sint b)"

definition i64_checked_mul :: "i64 \<Rightarrow> i64 \<Rightarrow> i64 option" where
  "i64_checked_mul a b = to_i64 (sint a * sint b)"

text \<open>Rust's signed division truncates towards zero.\<close>

definition quot :: "int \<Rightarrow> int \<Rightarrow> int" where
  "quot a b = sgn a * sgn b * (\<bar>a\<bar> div \<bar>b\<bar>)"

definition i64_checked_div :: "i64 \<Rightarrow> i64 \<Rightarrow> i64 option" where
  "i64_checked_div a b = (if sint b = 0 then None else to_i64 (quot (sint a) (sint b)))"

definition u64_checked_succ :: "u64 \<Rightarrow> u64 option" where
  "u64_checked_succ a = (if a = u64_max then None else Some (a + 1))"

definition usize_checked_mul :: "nat \<Rightarrow> nat \<Rightarrow> nat option" where
  "usize_checked_mul a b = (if a * b < usize_limit then Some (a * b) else None)"

definition usize_checked_add :: "nat \<Rightarrow> nat \<Rightarrow> nat option" where
  "usize_checked_add a b = (if a + b < usize_limit then Some (a + b) else None)"

definition div_ceil :: "nat \<Rightarrow> nat \<Rightarrow> nat" where
  "div_ceil a b = (a + b - 1) div b"

subsection \<open>IEEE doubles, by their bits\<close>

text \<open>
  A rate update compares two \<open>f64\<close> frame rates with \<open>PartialEq\<close>: NaN is different from
  everything, the two zeros are equal, all other values are equal when their bits are.
\<close>

type_synonym f64 = "64 word"

definition f64_is_nan :: "f64 \<Rightarrow> bool" where
  "f64_is_nan x \<longleftrightarrow> drop_bit 52 x AND 0x7FF = 0x7FF \<and> x AND 0xFFFFFFFFFFFFF \<noteq> 0"

definition f64_is_zero :: "f64 \<Rightarrow> bool" where
  "f64_is_zero x \<longleftrightarrow> x AND 0x7FFFFFFFFFFFFFFF = 0"

definition f64_eq :: "f64 \<Rightarrow> f64 \<Rightarrow> bool" where
  "f64_eq x y \<longleftrightarrow>
     \<not> f64_is_nan x \<and> \<not> f64_is_nan y \<and> (x = y \<or> f64_is_zero x \<and> f64_is_zero y)"

subsection \<open>Results\<close>

type_synonym ('e, 'a) result = "'e + 'a"

definition and_then :: "('e, 'a) result \<Rightarrow> ('a \<Rightarrow> ('e, 'b) result) \<Rightarrow> ('e, 'b) result" where
  "and_then r k = (case r of Inl e \<Rightarrow> Inl e | Inr a \<Rightarrow> k a)"

definition ok_or :: "'a option \<Rightarrow> 'e \<Rightarrow> ('e, 'a) result" where
  "ok_or x e = (case x of None \<Rightarrow> Inl e | Some a \<Rightarrow> Inr a)"

definition then_some :: "bool \<Rightarrow> 'a \<Rightarrow> 'a option" where
  "then_some b a = (if b then Some a else None)"

definition is_ok :: "('e, 'a) result \<Rightarrow> bool" where
  "is_ok r \<longleftrightarrow> (case r of Inl _ \<Rightarrow> False | Inr _ \<Rightarrow> True)"

lemma and_then_simps [simp]:
  "and_then (Inl e) k = Inl e"
  "and_then (Inr a) k = k a"
  by (simp_all add: and_then_def)

lemma and_then_assoc: "and_then (and_then r k) k' = and_then r (\<lambda>a. and_then (k a) k')"
  by (cases r) simp_all

lemma and_then_eq_Inr: "and_then r k = Inr b \<longleftrightarrow> (\<exists>a. r = Inr a \<and> k a = Inr b)"
  by (cases r) auto

lemma ok_or_simps [simp]:
  "ok_or None e = Inl e"
  "ok_or (Some a) e = Inr a"
  by (simp_all add: ok_or_def)

lemma ok_or_eq_Inr: "ok_or x e = Inr a \<longleftrightarrow> x = Some a"
  by (cases x) auto

lemma is_ok_simps [simp]: "\<not> is_ok (Inl e)" "is_ok (Inr a)"
  by (simp_all add: is_ok_def)

lemma then_some_simps [simp]:
  "then_some True a = Some a"
  "then_some False a = None"
  by (simp_all add: then_some_def)

subsection \<open>Association lists as hash maps\<close>

text \<open>
  A \<open>HashMap\<close> is an association list with distinct keys: its iteration order is not
  specified, and nothing below depends on it.  Sums over the entries (sizes, counts) lose
  exactly the removed entry's share.
\<close>

abbreviation keys :: "('k \<times> 'v) list \<Rightarrow> 'k list" where
  "keys al \<equiv> List.map fst al"

definition entry_sum :: "('v \<Rightarrow> nat) \<Rightarrow> ('k \<times> 'v) list \<Rightarrow> nat" where
  "entry_sum f al = (\<Sum>(k, v) \<leftarrow> al. f v)"

lemma entry_sum_simps [simp]:
  "entry_sum f [] = 0"
  "entry_sum f ((k, v) # al) = f v + entry_sum f al"
  "entry_sum f (al @ bl) = entry_sum f al + entry_sum f bl"
  by (simp_all add: entry_sum_def)

lemma delete_fresh [simp]: "k \<notin> set (keys al) \<Longrightarrow> AList.delete k al = al"
  by (induction al) auto

lemma update_fresh: "k \<notin> set (keys al) \<Longrightarrow> AList.update k v al = al @ [(k, v)]"
  by (induction al) auto

lemma entry_sum_delete:
  "distinct (keys al) \<Longrightarrow> map_of al k = Some v \<Longrightarrow>
     f v + entry_sum f (AList.delete k al) = entry_sum f al"
  by (induction al) (auto split: if_splits)

lemma length_delete_present:
  "distinct (keys al) \<Longrightarrow> map_of al k = Some v \<Longrightarrow>
     Suc (length (AList.delete k al)) = length al"
  by (induction al) (auto split: if_splits)

lemma entry_sum_ge: "map_of al k = Some v \<Longrightarrow> f v \<le> entry_sum f al"
  by (induction al) (auto split: if_splits)

lemma map_of_in_keys: "k \<in> set (keys al) \<longleftrightarrow> map_of al k \<noteq> None"
  by (auto simp: map_of_eq_None_iff)

lemma delete_not_key: "k \<notin> set (keys (AList.delete k al))"
  by (induction al) auto

lemma distinct_filter_remove: "distinct xs \<Longrightarrow> filter (\<lambda>y. y \<noteq> x) xs = remove1 x xs"
  by (induction xs) (auto simp: filter_id_conv)

subsection \<open>Word facts the components share\<close>

lemma sint_range_i64: "i64_min \<le> sint (x :: i64)" "sint (x :: i64) \<le> i64_max"
  using sint_greater_eq [of x] sint_less [of x] by simp_all

lemma sint_of_int_i64:
  "i64_min \<le> x \<Longrightarrow> x \<le> i64_max \<Longrightarrow> sint (word_of_int x :: i64) = x"
  by (simp add: sint_sbintrunc' signed_take_bit_int_eq_self)

lemma sint_to_i64: "to_i64 x = Some w \<Longrightarrow> sint w = x"
  by (auto simp: to_i64_def i64_in_range_def sint_of_int_i64 split: if_splits)

lemma to_i64_sint: "to_i64 (sint x) = Some x"
  using sint_range_i64 [of x] by (simp add: to_i64_def i64_in_range_def)

lemma u64_checked_succ_unat: "u64_checked_succ a = Some b \<Longrightarrow> unat b = unat a + 1"
  using unatSuc [of a]
  by (auto simp: u64_checked_succ_def add_eq_0_iff add.commute [of a] split: if_splits)

lemma u64_checked_succ_None: "u64_checked_succ a = None \<longleftrightarrow> a = u64_max"
  by (simp add: u64_checked_succ_def)

end
