(* ===== verification/CodecValues.thy ===== *)
theory CodecValues
  imports Prelude
begin

text \<open>
  The value types of \<open>src/codec.rs\<close> and their projections to and from the bridge layouts
  (\<open>ffi::Ffi...\<close> structs of \<open>src/lib.rs\<close>): codec formats, packetizer metadata, encoder
  settings, rate control, loss notifications and codec errors.  Rust strings are byte
  lists here as in HOL (\<open>string\<close>); a double is kept by its bits; fixed-size arrays are
  lists whose length the constructing function fixes.  The projections that must not
  lose information instantiate the locale \<open>native_projection\<close>.
\<close>

subsection \<open>Errors and statuses\<close>

datatype video_factory_query_error =
    LegacyFormatBytes
  | LegacyOptionalFormatFields
  | LegacyUnknownScalabilityMode
  | LegacyModeBytes
  | LegacySignedResolution
  | ProviderPanickedQuery
  | UnsafeNativeFormatFormatting
  | NativeParameterCountOverflow
  | CodecInfoFailed
  | CodecFeedbackFailed
  | CodecCreationFailed

fun query_error_raw :: "video_factory_query_error \<Rightarrow> u8" where
  "query_error_raw LegacyFormatBytes = 1"
| "query_error_raw LegacyOptionalFormatFields = 2"
| "query_error_raw LegacyUnknownScalabilityMode = 3"
| "query_error_raw LegacyModeBytes = 4"
| "query_error_raw LegacySignedResolution = 5"
| "query_error_raw ProviderPanickedQuery = 6"
| "query_error_raw UnsafeNativeFormatFormatting = 7"
| "query_error_raw NativeParameterCountOverflow = 8"
| "query_error_raw CodecInfoFailed = 9"
| "query_error_raw CodecFeedbackFailed = 10"
| "query_error_raw CodecCreationFailed = 11"

text \<open>\<open>from_raw\<close> panics (\<open>unreachable!\<close>) outside \<open>0..=11\<close>; the outer option is the panic.\<close>

definition query_error_from_raw :: "u8 \<Rightarrow> video_factory_query_error option option" where
  "query_error_from_raw raw =
     (if raw = 0 then Some None
      else if raw = 1 then Some (Some LegacyFormatBytes)
      else if raw = 2 then Some (Some LegacyOptionalFormatFields)
      else if raw = 3 then Some (Some LegacyUnknownScalabilityMode)
      else if raw = 4 then Some (Some LegacyModeBytes)
      else if raw = 5 then Some (Some LegacySignedResolution)
      else if raw = 6 then Some (Some ProviderPanickedQuery)
      else if raw = 7 then Some (Some UnsafeNativeFormatFormatting)
      else if raw = 8 then Some (Some NativeParameterCountOverflow)
      else if raw = 9 then Some (Some CodecInfoFailed)
      else if raw = 10 then Some (Some CodecFeedbackFailed)
      else if raw = 11 then Some (Some CodecCreationFailed)
      else None)"

datatype codec_error =
    UnsupportedFormat
  | ConstructionFailed
  | InvalidConfiguration
  | InvalidFrame
  | CallbackUnavailable
  | Released
  | ProviderPanicked
  | FormatProjection video_factory_query_error

definition CODEC_OK :: i32 where "CODEC_OK = 0"
definition CODEC_ERROR :: i32 where "CODEC_ERROR = - 1"
definition CODEC_PARAMETER :: i32 where "CODEC_PARAMETER = - 4"
definition CODEC_UNINITIALIZED :: i32 where "CODEC_UNINITIALIZED = - 7"

lemmas codec_status_defs =
  CODEC_OK_def CODEC_ERROR_def CODEC_PARAMETER_def CODEC_UNINITIALIZED_def

fun codec_status :: "(codec_error, unit) result \<Rightarrow> i32" where
  "codec_status (Inr ()) = CODEC_OK"
| "codec_status (Inl InvalidConfiguration) = CODEC_PARAMETER"
| "codec_status (Inl InvalidFrame) = CODEC_PARAMETER"
| "codec_status (Inl Released) = CODEC_UNINITIALIZED"
| "codec_status (Inl CallbackUnavailable) = CODEC_UNINITIALIZED"
| "codec_status (Inl _) = CODEC_ERROR"

text \<open>Errors of the peer layer (\<open>src/peer.rs\<close>).\<close>

datatype peer_error_kind =
    UnsupportedOperation | UnsupportedParameter | InvalidParameter | InvalidRange | Syntax
  | InvalidState | InvalidModification | Network | ResourceExhausted | Internal | Operation
  | Closed | NativeConstruction | DescriptionNotUtf8 | MessageNotUtf8
  | UnrepresentableCodecCapability | AudioProcessingAdmission | AudioDeviceAdmission

record peer_error =
  pe_kind :: peer_error_kind
  pe_message :: string

subsection \<open>Formats\<close>

record codec_parameter =
  param_key :: string
  param_value :: string

datatype scalability_mode = ScalabilityMode (mode_str: string)

record video_codec_format =
  fmt_name :: string
  parameters :: "codec_parameter list"
  scalability_modes :: "scalability_mode list"

definition new_format :: "string \<Rightarrow> video_codec_format" where
  "new_format n = \<lparr>fmt_name = n, parameters = [], scalability_modes = []\<rparr>"

definition with_parameter :: "video_codec_format \<Rightarrow> string \<Rightarrow> string \<Rightarrow> video_codec_format" where
  "with_parameter f k v = f\<lparr>parameters := parameters f @ [\<lparr>param_key = k, param_value = v\<rparr>]\<rparr>"

definition with_scalability_mode :: "video_codec_format \<Rightarrow> scalability_mode \<Rightarrow> video_codec_format"
  where
  "with_scalability_mode f m = f\<lparr>scalability_modes := scalability_modes f @ [m]\<rparr>"

text \<open>\<open>VideoScalabilityMode::parse\<close> asks the engine which names it knows
  (\<open>mode_valid\<close>, an SDK query).\<close>

definition parse_scalability_mode ::
  "(string \<Rightarrow> bool) \<Rightarrow> string \<Rightarrow> (codec_error, scalability_mode) result" where
  "parse_scalability_mode mode_valid name =
     ok_or (then_some (mode_valid name) (ScalabilityMode name)) UnsupportedFormat"

record ffi_codec_parameter =
  ffi_key :: string
  ffi_value :: string

record ffi_codec_format =
  ffi_name :: string
  ffi_parameters :: "ffi_codec_parameter list"
  ffi_scalability_modes :: "string list"

definition to_ffi_format :: "video_codec_format \<Rightarrow> ffi_codec_format" where
  "to_ffi_format f =
     \<lparr>ffi_name = fmt_name f,
      ffi_parameters = map (\<lambda>p. \<lparr>ffi_key = param_key p, ffi_value = param_value p\<rparr>) (parameters f),
      ffi_scalability_modes = map mode_str (scalability_modes f)\<rparr>"

definition from_ffi_format :: "ffi_codec_format \<Rightarrow> video_codec_format" where
  "from_ffi_format f =
     \<lparr>fmt_name = ffi_name f,
      parameters = map (\<lambda>p. \<lparr>param_key = ffi_key p, param_value = ffi_value p\<rparr>) (ffi_parameters f),
      scalability_modes = map ScalabilityMode (ffi_scalability_modes f)\<rparr>"

subsection \<open>Frames and packetizer metadata\<close>

datatype video_frame_type = Key | Delta

record codec_support =
  supported :: bool
  power_efficient :: bool

datatype encoded_video_codec =
    Vp8 (non_reference: bool) (layer_sync: bool) (key_index: "u8 option")
  | Vp9 (first_frame_in_picture: bool) (inter_picture_predicted: bool) (flexible_mode: bool)
      (num_spatial_layers: u8) (inter_layer_predicted: bool) (temporal_up_switch: bool)
  | H264 (base_layer_sync: bool)
  | Av1
  | H265

record encoded_video_metadata =
  md_codec :: encoded_video_codec
  simulcast_index :: "u8 option"
  spatial_index :: "u8 option"
  temporal_index :: "u8 option"
  end_of_picture :: bool

record encoded_video_frame =
  evf_data :: bytes
  evf_width :: u32
  evf_height :: u32
  evf_rtp_timestamp :: u32
  evf_frame_type :: video_frame_type
  evf_qp :: "u8 option"

record ffi_encoded_video_metadata =
  f_codec :: u8
  f_simulcast_index :: i32
  f_spatial_index :: i32
  f_temporal_index :: i32
  f_end_of_picture :: bool
  f_non_reference :: bool
  f_layer_sync :: bool
  f_key_index :: i32
  f_first_frame_in_picture :: bool
  f_inter_picture_predicted :: bool
  f_flexible_mode :: bool
  f_num_spatial_layers :: u8
  f_inter_layer_predicted :: bool
  f_temporal_up_switch :: bool

text \<open>\<open>Option<u8>::map_or(-1, i32::from)\<close>: absence is the native \<open>-1\<close>.\<close>

definition opt_u8_i32 :: "u8 option \<Rightarrow> i32" where
  "opt_u8_i32 x = (case x of None \<Rightarrow> - 1 | Some v \<Rightarrow> ucast v)"

definition metadata_ffi :: "encoded_video_metadata \<Rightarrow> ffi_encoded_video_metadata" where
  "metadata_ffi m =
     (let (codec, nr, ls, ki, ff, ip, fm, sl, il, tu) =
        (case md_codec m of
           Vp8 nr ls ki \<Rightarrow> (1, nr, ls, opt_u8_i32 ki, False, False, False, 1, False, False)
         | Vp9 ff ip fm sl il tu \<Rightarrow> (2, False, False, - 1, ff, ip, fm, sl, il, tu)
         | H264 bs \<Rightarrow> (3, False, bs, - 1, False, False, False, 1, False, False)
         | Av1 \<Rightarrow> (4, False, False, - 1, False, False, False, 1, False, False)
         | H265 \<Rightarrow> (5, False, False, - 1, False, False, False, 1, False, False))
      in \<lparr>f_codec = codec,
          f_simulcast_index = opt_u8_i32 (simulcast_index m),
          f_spatial_index = opt_u8_i32 (spatial_index m),
          f_temporal_index = opt_u8_i32 (temporal_index m),
          f_end_of_picture = end_of_picture m,
          f_non_reference = nr, f_layer_sync = ls, f_key_index = ki,
          f_first_frame_in_picture = ff, f_inter_picture_predicted = ip,
          f_flexible_mode = fm, f_num_spatial_layers = sl,
          f_inter_layer_predicted = il, f_temporal_up_switch = tu\<rparr>)"

text \<open>The reading of the native layout that undoes \<open>metadata_ffi\<close> (a specification: the
  native packetizer adapter is the reader).\<close>

definition i32_opt_u8 :: "i32 \<Rightarrow> u8 option" where
  "i32_opt_u8 x = (if x = - 1 then None else Some (ucast x))"

definition metadata_of_ffi :: "ffi_encoded_video_metadata \<Rightarrow> encoded_video_metadata" where
  "metadata_of_ffi f =
     \<lparr>md_codec =
        (if f_codec f = 1 then Vp8 (f_non_reference f) (f_layer_sync f) (i32_opt_u8 (f_key_index f))
         else if f_codec f = 2 then Vp9 (f_first_frame_in_picture f) (f_inter_picture_predicted f)
           (f_flexible_mode f) (f_num_spatial_layers f) (f_inter_layer_predicted f)
           (f_temporal_up_switch f)
         else if f_codec f = 3 then H264 (f_layer_sync f)
         else if f_codec f = 4 then Av1 else H265),
      simulcast_index = i32_opt_u8 (f_simulcast_index f),
      spatial_index = i32_opt_u8 (f_spatial_index f),
      temporal_index = i32_opt_u8 (f_temporal_index f),
      end_of_picture = f_end_of_picture f\<rparr>"

subsection \<open>Encoder settings and rate control\<close>

record video_simulcast_stream =
  ss_width :: u32
  ss_height :: u32
  ss_active :: bool
  ss_temporal_layers :: u8

record video_encoder_settings =
  es_width :: u32
  es_height :: u32
  es_start_bitrate_bps :: u32
  es_max_bitrate_bps :: u32
  es_min_bitrate_bps :: u32
  es_max_framerate :: u32
  es_cores :: u32
  es_max_payload_size :: u32
  es_scalability_mode :: "scalability_mode option"
  es_h264_temporal_layers :: "u8 option"
  es_simulcast_temporal_layers :: "u8 list"
  es_simulcast_streams :: "video_simulcast_stream list"

record ffi_encoder_settings =
  fs_width :: u32
  fs_height :: u32
  fs_start_bitrate_bps :: u32
  fs_max_bitrate_bps :: u32
  fs_min_bitrate_bps :: u32
  fs_max_framerate :: u32
  fs_cores :: u32
  fs_max_payload_size :: u32
  fs_has_scalability_mode :: bool
  fs_scalability_mode :: string
  fs_has_h264_temporal_layers :: bool
  fs_h264_temporal_layers :: u8
  fs_simulcast_temporal_layers :: "u8 list"
  fs_simulcast_streams :: "video_simulcast_stream list"

definition encoder_settings_from_ffi :: "ffi_encoder_settings \<Rightarrow> video_encoder_settings" where
  "encoder_settings_from_ffi s =
     \<lparr>es_width = fs_width s, es_height = fs_height s,
      es_start_bitrate_bps = fs_start_bitrate_bps s,
      es_max_bitrate_bps = fs_max_bitrate_bps s,
      es_min_bitrate_bps = fs_min_bitrate_bps s,
      es_max_framerate = fs_max_framerate s, es_cores = fs_cores s,
      es_max_payload_size = fs_max_payload_size s,
      es_scalability_mode =
        then_some (fs_has_scalability_mode s) (ScalabilityMode (fs_scalability_mode s)),
      es_h264_temporal_layers =
        then_some (fs_has_h264_temporal_layers s) (fs_h264_temporal_layers s),
      es_simulcast_temporal_layers = fs_simulcast_temporal_layers s,
      es_simulcast_streams = fs_simulcast_streams s\<rparr>"

text \<open>The \<open>[[Option<u32>; 4]; 5]\<close> layer grids, spatial slot first.\<close>

type_synonym layer_grid = "u32 option list list"

definition grid_of :: "bool list list \<Rightarrow> u32 list list \<Rightarrow> layer_grid" where
  "grid_of has value =
     map (\<lambda>sp. map (\<lambda>t. then_some (has ! sp ! t) (value ! sp ! t)) [0..<4]) [0..<5]"

definition is_grid :: "'a list list \<Rightarrow> bool" where
  "is_grid g \<longleftrightarrow> length g = 5 \<and> (\<forall>row \<in> set g. length row = 4)"

record video_rate_control =
  rc_bitrate_bps :: u32
  rc_target_bitrate_bps :: u32
  rc_framerate_fps :: f64
  rc_bandwidth_bps :: u64
  rc_bandwidth_limited :: bool
  rc_target_bandwidth_limited :: bool
  rc_layer_bitrates_bps :: layer_grid
  rc_target_layer_bitrates_bps :: layer_grid

record ffi_rate_control =
  fr_bitrate_bps :: u32
  fr_target_bitrate_bps :: u32
  fr_framerate_fps :: f64
  fr_bandwidth_bps :: u64
  fr_bandwidth_limited :: bool
  fr_target_bandwidth_limited :: bool
  fr_layer_bitrates_bps :: "u32 list list"
  fr_has_layer_bitrate :: "bool list list"
  fr_target_layer_bitrates_bps :: "u32 list list"
  fr_has_target_layer_bitrate :: "bool list list"

definition rate_control_from_ffi :: "ffi_rate_control \<Rightarrow> video_rate_control" where
  "rate_control_from_ffi r =
     \<lparr>rc_bitrate_bps = fr_bitrate_bps r,
      rc_target_bitrate_bps = fr_target_bitrate_bps r,
      rc_framerate_fps = fr_framerate_fps r,
      rc_bandwidth_bps = fr_bandwidth_bps r,
      rc_bandwidth_limited = fr_bandwidth_limited r,
      rc_target_bandwidth_limited = fr_target_bandwidth_limited r,
      rc_layer_bitrates_bps = grid_of (fr_has_layer_bitrate r) (fr_layer_bitrates_bps r),
      rc_target_layer_bitrates_bps =
        grid_of (fr_has_target_layer_bitrate r) (fr_target_layer_bitrates_bps r)\<rparr>"

text \<open>The derived \<open>PartialEq\<close> of \<open>VideoRateControl\<close>: the frame rate compares as a double.\<close>

definition rate_control_eq :: "video_rate_control \<Rightarrow> video_rate_control \<Rightarrow> bool" where
  "rate_control_eq a b \<longleftrightarrow>
     rc_bitrate_bps a = rc_bitrate_bps b
     \<and> rc_target_bitrate_bps a = rc_target_bitrate_bps b
     \<and> f64_eq (rc_framerate_fps a) (rc_framerate_fps b)
     \<and> rc_bandwidth_bps a = rc_bandwidth_bps b
     \<and> rc_bandwidth_limited a = rc_bandwidth_limited b
     \<and> rc_target_bandwidth_limited a = rc_target_bandwidth_limited b
     \<and> rc_layer_bitrates_bps a = rc_layer_bitrates_bps b
     \<and> rc_target_layer_bitrates_bps a = rc_target_layer_bitrates_bps b"

subsection \<open>Bitrate allocations\<close>

record video_bitrate_allocation =
  ba_layer_bitrates_bps :: layer_grid
  ba_bandwidth_limited :: bool

record ffi_video_bitrate_allocation =
  fb_layer_bitrates_bps :: "u32 list list"
  fb_has_layer_bitrate :: "bool list list"
  fb_bandwidth_limited :: bool

definition u32_checked_add :: "u32 \<Rightarrow> u32 \<Rightarrow> u32 option" where
  "u32_checked_add a b = (if unat a + unat b < 2 ^ 32 then Some (a + b) else None)"

definition opt_u32 :: "u32 option \<Rightarrow> u32" where
  "opt_u32 x = (case x of None \<Rightarrow> 0 | Some v \<Rightarrow> v)"

fun try_sum :: "u32 \<Rightarrow> u32 option list \<Rightarrow> u32 option" where
  "try_sum acc [] = Some acc"
| "try_sum acc (r # rs) =
     (case u32_checked_add acc (opt_u32 r) of None \<Rightarrow> None | Some acc' \<Rightarrow> try_sum acc' rs)"

definition sum_bps :: "video_bitrate_allocation \<Rightarrow> u32 option" where
  "sum_bps a = try_sum 0 (concat (ba_layer_bitrates_bps a))"

definition allocation_from_native :: "ffi_video_bitrate_allocation \<Rightarrow> video_bitrate_allocation"
  where
  "allocation_from_native v =
     \<lparr>ba_layer_bitrates_bps = grid_of (fb_has_layer_bitrate v) (fb_layer_bitrates_bps v),
      ba_bandwidth_limited = fb_bandwidth_limited v\<rparr>"

definition allocation_native ::
  "video_bitrate_allocation \<Rightarrow> ffi_video_bitrate_allocation option" where
  "allocation_native a =
     (case sum_bps a of
        None \<Rightarrow> None
      | Some _ \<Rightarrow> Some
          \<lparr>fb_layer_bitrates_bps = map (map opt_u32) (ba_layer_bitrates_bps a),
           fb_has_layer_bitrate = map (map (\<lambda>r. r \<noteq> None)) (ba_layer_bitrates_bps a),
           fb_bandwidth_limited = ba_bandwidth_limited a\<rparr>)"

subsection \<open>Loss notifications\<close>

record video_encoder_loss_notification =
  timestamp_of_last_decodable :: u32
  timestamp_of_last_received :: u32
  dependencies_of_last_received_decodable :: "bool option"
  last_received_decodable :: "bool option"

record ffi_loss_notification =
  fl_last_decodable :: u32
  fl_last_received :: u32
  fl_has_dependencies_decodable :: bool
  fl_dependencies_decodable :: bool
  fl_has_received_decodable :: bool
  fl_received_decodable :: bool

definition loss_native :: "video_encoder_loss_notification \<Rightarrow> ffi_loss_notification" where
  "loss_native v =
     \<lparr>fl_last_decodable = timestamp_of_last_decodable v,
      fl_last_received = timestamp_of_last_received v,
      fl_has_dependencies_decodable = dependencies_of_last_received_decodable v \<noteq> None,
      fl_dependencies_decodable = (dependencies_of_last_received_decodable v = Some True),
      fl_has_received_decodable = last_received_decodable v \<noteq> None,
      fl_received_decodable = (last_received_decodable v = Some True)\<rparr>"

definition loss_from_native :: "ffi_loss_notification \<Rightarrow> video_encoder_loss_notification" where
  "loss_from_native f =
     \<lparr>timestamp_of_last_decodable = fl_last_decodable f,
      timestamp_of_last_received = fl_last_received f,
      dependencies_of_last_received_decodable =
        then_some (fl_has_dependencies_decodable f) (fl_dependencies_decodable f),
      last_received_decodable =
        then_some (fl_has_received_decodable f) (fl_received_decodable f)\<rparr>"

subsection \<open>Lossless projections\<close>

text \<open>
  A native projection is lossless on the values it accepts when the other direction reads
  them back.  Everything the adapters say about forwarding unchanged values rests on
  this law.
\<close>

locale native_projection =
  fixes to_native :: "'a \<Rightarrow> 'n" and from_native :: "'n \<Rightarrow> 'a" and representable :: "'a \<Rightarrow> bool"
  assumes reads_back: "representable a \<Longrightarrow> from_native (to_native a) = a"
begin

lemma to_native_eq:
  "representable a \<Longrightarrow> representable b \<Longrightarrow> to_native a = to_native b \<longleftrightarrow> a = b"
  using reads_back by metis

lemma to_native_inj: "inj_on to_native (Collect representable)"
  by (auto simp: inj_on_def to_native_eq)

lemma reads_back_list: "list_all representable as \<Longrightarrow> map from_native (map to_native as) = as"
  by (induction as) (auto simp: reads_back)

end

lemma opt_u8_i32_simps [native_simps]:
  "opt_u8_i32 None = - 1" "opt_u8_i32 (Some v) = ucast v"
  by (simp_all add: opt_u8_i32_def)

lemma ucast_i32_u8: "(ucast (ucast (v :: u8) :: i32) :: u8) = v"
  by (simp add: ucast_up_ucast_id is_up)

lemma ucast_u8_i32_neq: "(ucast (v :: u8) :: i32) \<noteq> - 1"
proof
  assume h: "(ucast v :: i32) = - 1"
  then have "v = ucast (- 1 :: i32)" using ucast_i32_u8 [of v] by simp
  moreover have "(- 1 :: i32) = 4294967295" by simp
  ultimately have "v = ucast (4294967295 :: i32)" by simp
  then have "v = 255" by simp
  with h show False by simp
qed

lemma i32_opt_u8_reads_back [native_simps]: "i32_opt_u8 (opt_u8_i32 x) = x"
  by (cases x) (simp_all add: i32_opt_u8_def opt_u8_i32_simps ucast_u8_i32_neq ucast_i32_u8)

interpretation meta: native_projection metadata_ffi metadata_of_ffi "\<lambda>_. True"
proof
  fix m :: encoded_video_metadata
  show "metadata_of_ffi (metadata_ffi m) = m"
    by (cases m; cases "md_codec m")
      (auto simp: metadata_of_ffi_def metadata_ffi_def native_simps)
qed

interpretation fmt: native_projection to_ffi_format from_ffi_format "\<lambda>_. True"
  by unfold_locales (auto simp: to_ffi_format_def from_ffi_format_def comp_def
      intro!: video_codec_format.equality map_idI codec_parameter.equality)

interpretation loss: native_projection loss_native loss_from_native "\<lambda>_. True"
proof
  fix v :: video_encoder_loss_notification
  show "loss_from_native (loss_native v) = v"
    by (cases v; cases "dependencies_of_last_received_decodable v";
        cases "last_received_decodable v")
      (auto simp: loss_native_def loss_from_native_def)
qed

interpretation qerr: native_projection query_error_raw
  "\<lambda>raw. the (the (query_error_from_raw raw))" "\<lambda>_. True"
proof
  fix e :: video_factory_query_error
  show "the (the (query_error_from_raw (query_error_raw e))) = e"
    by (cases e) (simp_all add: query_error_from_raw_def)
qed

lemma nth_grid:
  assumes "is_grid g" "i < 5" "j < 4"
  shows "i < length g" "j < length (g ! i)"
  using assms by (auto simp: is_grid_def)

lemma grid_of_reads_back:
  assumes "is_grid g"
  shows "grid_of (map (map (\<lambda>r. r \<noteq> None)) g) (map (map opt_u32) g) = g"
proof (rule nth_equalityI)
  show "length (grid_of (map (map (\<lambda>r. r \<noteq> None)) g) (map (map opt_u32) g)) = length g"
    using assms by (simp add: grid_of_def is_grid_def)
  fix i assume "i < length (grid_of (map (map (\<lambda>r. r \<noteq> None)) g) (map (map opt_u32) g))"
  then have i: "i < 5" by (simp add: grid_of_def)
  show "grid_of (map (map (\<lambda>r. r \<noteq> None)) g) (map (map opt_u32) g) ! i = g ! i"
  proof (rule nth_equalityI)
    show "length (grid_of (map (map (\<lambda>r. r \<noteq> None)) g) (map (map opt_u32) g) ! i)
        = length (g ! i)"
      using assms i by (simp add: grid_of_def is_grid_def)
    fix j
    assume "j < length (grid_of (map (map (\<lambda>r. r \<noteq> None)) g) (map (map opt_u32) g) ! i)"
    then have j: "j < 4" using i by (simp add: grid_of_def)
    from nth_grid [OF assms i j] i j
    show "grid_of (map (map (\<lambda>r. r \<noteq> None)) g) (map (map opt_u32) g) ! i ! j = g ! i ! j"
      by (cases "g ! i ! j") (simp_all add: grid_of_def then_some_def opt_u32_def)
  qed
qed

interpretation alloc: native_projection
  "\<lambda>a. the (allocation_native a)" allocation_from_native
  "\<lambda>a. is_grid (ba_layer_bitrates_bps a) \<and> sum_bps a \<noteq> None"
  by unfold_locales
    (auto simp: allocation_native_def allocation_from_native_def
      intro!: video_bitrate_allocation.equality grid_of_reads_back [simplified])

subsection \<open>Allocation sums\<close>

lemma u32_checked_add_Some:
  "u32_checked_add a b = Some c \<longleftrightarrow> unat a + unat b < 2 ^ 32 \<and> unat c = unat a + unat b"
proof -
  have "c = a + b \<longleftrightarrow> unat c = unat a + unat b" if "unat a + unat b < 2 ^ 32"
    using that by (auto simp: word_unat_eq_iff unat_word_ariths)
  then show ?thesis by (auto simp: u32_checked_add_def)
qed

definition grid_total :: "u32 option list \<Rightarrow> nat" where
  "grid_total rs = (\<Sum>r \<leftarrow> rs. unat (opt_u32 r))"

lemma try_sum_Some:
  "try_sum acc rs = Some s \<longleftrightarrow>
     unat acc + grid_total rs < 2 ^ 32 \<and> unat s = unat acc + grid_total rs"
proof (induction rs arbitrary: acc)
  case Nil
  then show ?case
    using unsigned_less [of acc] by (auto simp: grid_total_def word_unat_eq_iff)
next
  case (Cons r rs)
  show ?case
  proof (cases "u32_checked_add acc (opt_u32 r)")
    case None
    then show ?thesis by (auto simp: u32_checked_add_def grid_total_def split: if_splits)
  next
    case (Some acc')
    then have "unat acc' = unat acc + unat (opt_u32 r)" by (simp add: u32_checked_add_Some)
    with Some Cons.IH [of acc'] show ?thesis by (simp add: grid_total_def add.assoc)
  qed
qed

subsection \<open>Properties\<close>

text \<open>Packetizer metadata reaches the native layout without loss: two metadata values
  have the same bridge representation exactly when they are equal, so no codec variant,
  layer identity or absence (the native \<open>-1\<close>) is confused with another.\<close>

theorem metadata_forwarded_losslessly: "metadata_ffi a = metadata_ffi b \<longleftrightarrow> a = b"
  by (rule meta.to_native_eq) simp_all

text \<open>The allocation sum is exact on 32 bits: \<open>sum_bps\<close> returns the mathematical sum of
  the set cells when it fits \<open>u32\<close>, and nothing otherwise (never a wrapped value).\<close>

theorem sum_bps_exact:
  "sum_bps a = Some s \<longleftrightarrow>
     grid_total (concat (ba_layer_bitrates_bps a)) < 2 ^ 32
     \<and> unat s = grid_total (concat (ba_layer_bitrates_bps a))"
  by (simp add: sum_bps_def try_sum_Some)

text \<open>A bitrate allocation that the native side accepts is read back unchanged: unset
  cells stay unset, explicit zeros stay explicit.\<close>

theorem allocation_roundtrip:
  assumes "is_grid (ba_layer_bitrates_bps a)" and "allocation_native a = Some v"
  shows "allocation_from_native v = a"
proof -
  from assms(2) have "sum_bps a \<noteq> None"
    by (auto simp: allocation_native_def split: option.splits)
  with assms alloc.reads_back [of a] show ?thesis by simp
qed

theorem allocation_roundtrip_witness:
  "allocation_from_native
     \<lparr>fb_layer_bitrates_bps =
        [[0, 7, 0, 0], [0, 0, 0, 0], [0, 0, 0, 0], [0, 0, 0, 0], [0, 0, 0, 0]],
      fb_has_layer_bitrate =
        [[True, True, False, False], [False, False, False, False], [False, False, False, False],
         [False, False, False, False], [False, False, False, False]],
      fb_bandwidth_limited = True\<rparr>
   = \<lparr>ba_layer_bitrates_bps =
        [[Some 0, Some 7, None, None], [None, None, None, None], [None, None, None, None],
         [None, None, None, None], [None, None, None, None]],
      ba_bandwidth_limited = True\<rparr>"
  by (rule allocation_roundtrip)
    (simp_all add: is_grid_def allocation_native_def sum_bps_def u32_checked_add_def
      opt_u32_def)

end
