(* ===== verification/FrameBuffers.thy ===== *)
theory FrameBuffers
  imports CodecValues
begin

text \<open>
  Raw frame storage of \<open>src/codec.rs\<close>: packed I420 buffers, strided I420 and NV12 planes
  and the conversions between them.  Lengths and strides are natural numbers; every
  multiplication and addition the code checks against \<open>usize\<close> is a checked operation
  here.  The allocator is the parameter \<open>reserve\<close> (whether \<open>Vec::try_reserve_exact\<close>
  succeeds for a length).
\<close>

subsection \<open>Data and helpers\<close>

record video_plane =
  stride :: nat
  plane_data :: bytes

record nv12_planes =
  nv12_y :: video_plane
  nv12_uv :: video_plane

datatype video_frame_buffer = FrameBuffer (buffer_data: bytes)

text \<open>\<open>slice::chunks_exact\<close>; the size is never zero where
  the code uses it.\<close>

function chunks_exact :: "nat \<Rightarrow> 'a list \<Rightarrow> 'a list list" where
  "chunks_exact n xs =
     (if n = 0 \<or> length xs < n then [] else take n xs # chunks_exact n (drop n xs))"
  by pat_completeness auto
termination by (relation "measure (\<lambda>(n, xs). length xs)") auto

declare chunks_exact.simps [simp del]

definition dimensions :: "u32 \<Rightarrow> u32 \<Rightarrow> (codec_error, nat \<times> nat) result" where
  "dimensions width height =
     (if width = 0 \<or> height = 0 then Inl InvalidFrame else Inr (unat width, unat height))"

definition check_plane :: "video_plane \<Rightarrow> nat \<Rightarrow> nat \<Rightarrow> (codec_error, unit) result" where
  "check_plane plane row_bytes rows =
     (if stride plane < row_bytes
         \<or> usize_checked_mul (stride plane) rows \<noteq> Some (length (plane_data plane))
      then Inl InvalidFrame else Inr ())"

definition append_plane :: "bytes \<Rightarrow> video_plane \<Rightarrow> nat \<Rightarrow> nat \<Rightarrow> (codec_error, bytes) result" where
  "append_plane out plane row_bytes rows =
     and_then (check_plane plane row_bytes rows) (\<lambda>_.
       Inr (out @ concat (map (take row_bytes) (chunks_exact (stride plane) (plane_data plane)))))"

definition i420_len :: "u32 \<Rightarrow> u32 \<Rightarrow> (codec_error, nat) result" where
  "i420_len width height =
     and_then (ok_or (usize_checked_mul (unat width) (unat height)) InvalidFrame) (\<lambda>y.
       let cw = div_ceil (unat width) 2; ch = div_ceil (unat height) 2 in
       and_then (ok_or (Option.bind (usize_checked_mul cw ch) (\<lambda>c. usize_checked_mul c 2))
           InvalidFrame) (\<lambda>c.
         ok_or (usize_checked_add y c) InvalidFrame))"

subsection \<open>Buffers\<close>

definition fb_i420 :: "u32 \<Rightarrow> u32 \<Rightarrow> bytes \<Rightarrow> (codec_error, video_frame_buffer) result" where
  "fb_i420 width height data =
     (if width = 0 \<or> height = 0 then Inl InvalidFrame
      else and_then (i420_len width height) (\<lambda>n.
        if length data \<noteq> n then Inl InvalidFrame else Inr (FrameBuffer data)))"

definition reserve_exact :: "(nat \<Rightarrow> bool) \<Rightarrow> nat \<Rightarrow> (codec_error, unit) result" where
  "reserve_exact reserve n = (if reserve n then Inr () else Inl InvalidFrame)"

definition fb_i420_strided ::
  "(nat \<Rightarrow> bool) \<Rightarrow> u32 \<Rightarrow> u32 \<Rightarrow> video_plane \<Rightarrow> video_plane \<Rightarrow> video_plane
     \<Rightarrow> (codec_error, video_frame_buffer) result" where
  "fb_i420_strided reserve width height y u v =
     and_then (dimensions width height) (\<lambda>(w, h).
       let cw = div_ceil w 2; ch = div_ceil h 2 in
       and_then (i420_len width height) (\<lambda>n.
       and_then (reserve_exact reserve n) (\<lambda>_.
       and_then (append_plane [] y w h) (\<lambda>d.
       and_then (append_plane d u cw ch) (\<lambda>d.
       and_then (append_plane d v cw ch) (\<lambda>d. Inr (FrameBuffer d)))))))"

definition deinterleave :: "nat \<Rightarrow> nat \<Rightarrow> video_plane \<Rightarrow> bytes" where
  "deinterleave cw channel uv =
     concat (map (\<lambda>row. map (\<lambda>col. row ! (2 * col + channel)) [0..<cw])
       (chunks_exact (stride uv) (plane_data uv)))"

definition fb_nv12_strided ::
  "(nat \<Rightarrow> bool) \<Rightarrow> u32 \<Rightarrow> u32 \<Rightarrow> video_plane \<Rightarrow> video_plane
     \<Rightarrow> (codec_error, video_frame_buffer) result" where
  "fb_nv12_strided reserve width height y uv =
     and_then (dimensions width height) (\<lambda>(w, h).
       let cw = div_ceil w 2; ch = div_ceil h 2 in
       and_then (check_plane y w h) (\<lambda>_.
       and_then (ok_or (usize_checked_mul cw 2) InvalidFrame) (\<lambda>uw.
       and_then (check_plane uv uw ch) (\<lambda>_.
       and_then (i420_len width height) (\<lambda>n.
       and_then (reserve_exact reserve n) (\<lambda>_.
       and_then (append_plane [] y w h) (\<lambda>d.
       Inr (FrameBuffer (d @ deinterleave cw 0 uv @ deinterleave cw 1 uv)))))))))"

definition fb_to_nv12 ::
  "(nat \<Rightarrow> bool) \<Rightarrow> video_frame_buffer \<Rightarrow> u32 \<Rightarrow> u32 \<Rightarrow> (codec_error, nv12_planes) result" where
  "fb_to_nv12 reserve b width height =
     and_then (dimensions width height) (\<lambda>(w, h).
     and_then (i420_len width height) (\<lambda>n.
       if length (buffer_data b) \<noteq> n then Inl InvalidFrame else
       and_then (ok_or (usize_checked_mul w h) InvalidFrame) (\<lambda>y_len.
       and_then (ok_or (usize_checked_mul (div_ceil w 2) (div_ceil h 2)) InvalidFrame)
         (\<lambda>chroma_len.
       and_then (ok_or (usize_checked_mul chroma_len 2) InvalidFrame) (\<lambda>uv_len.
       and_then (reserve_exact reserve uv_len) (\<lambda>_.
         let data = buffer_data b;
           uv = concat (map (\<lambda>col. [data ! (y_len + col), data ! (y_len + chroma_len + col)])
             [0..<chroma_len])
         in Inr \<lparr>nv12_y = \<lparr>stride = w, plane_data = take y_len data\<rparr>,
                 nv12_uv = \<lparr>stride = div_ceil w 2 * 2, plane_data = uv\<rparr>\<rparr>))))))"

subsection \<open>Frames\<close>

datatype video_rotation = RotNone | Clockwise90 | Clockwise180 | Clockwise270

definition rotation_from_degrees :: "u16 \<Rightarrow> video_rotation" where
  "rotation_from_degrees d =
     (if d = 90 then Clockwise90 else if d = 180 then Clockwise180
      else if d = 270 then Clockwise270 else RotNone)"

record video_frame =
  vf_width :: u32
  vf_height :: u32
  vf_timestamp_us :: i64
  vf_rtp_timestamp :: u32
  vf_rotation :: video_rotation
  vf_buffer :: video_frame_buffer

definition frame_i420 ::
  "u32 \<Rightarrow> u32 \<Rightarrow> bytes \<Rightarrow> i64 \<Rightarrow> u32 \<Rightarrow> (codec_error, video_frame) result" where
  "frame_i420 width height data ts rtp =
     and_then (fb_i420 width height data) (\<lambda>b.
       Inr \<lparr>vf_width = width, vf_height = height, vf_timestamp_us = ts, vf_rtp_timestamp = rtp,
            vf_rotation = RotNone, vf_buffer = b\<rparr>)"

definition frame_nv12 ::
  "(nat \<Rightarrow> bool) \<Rightarrow> u32 \<Rightarrow> u32 \<Rightarrow> nv12_planes \<Rightarrow> i64 \<Rightarrow> u32 \<Rightarrow> (codec_error, video_frame) result"
  where
  "frame_nv12 reserve width height planes ts rtp =
     and_then (fb_nv12_strided reserve width height (nv12_y planes) (nv12_uv planes)) (\<lambda>b.
       Inr \<lparr>vf_width = width, vf_height = height, vf_timestamp_us = ts, vf_rtp_timestamp = rtp,
            vf_rotation = RotNone, vf_buffer = b\<rparr>)"

definition frame_to_nv12 :: "(nat \<Rightarrow> bool) \<Rightarrow> video_frame \<Rightarrow> (codec_error, nv12_planes) result" where
  "frame_to_nv12 reserve f = fb_to_nv12 reserve (vf_buffer f) (vf_width f) (vf_height f)"

definition with_rotation :: "video_frame \<Rightarrow> video_rotation \<Rightarrow> video_frame" where
  "with_rotation f r = f\<lparr>vf_rotation := r\<rparr>"

subsection \<open>Uniform blocks\<close>

lemma concat_uniform_length:
  "(\<And>i. i < k \<Longrightarrow> length (f i) = m) \<Longrightarrow> length (concat (map f [0..<k])) = k * m"
  by (induction k) simp_all

lemma concat_uniform_nth:
  "(\<And>i. i < k \<Longrightarrow> length (f i) = m) \<Longrightarrow> r < k \<Longrightarrow> c < m \<Longrightarrow>
     concat (map f [0..<k]) ! (r * m + c) = f r ! c"
proof (induction k)
  case 0
  then show ?case by simp
next
  case (Suc k)
  have len: "length (concat (map f [0..<k])) = k * m"
    using Suc.prems(1) by (intro concat_uniform_length) simp
  show ?case
  proof (cases "r < k")
    case True
    have "r * m + c < Suc r * m" using Suc.prems(3) by simp
    also have "\<dots> \<le> k * m" using True by (intro mult_le_mono1) simp
    finally show ?thesis using Suc True len by (simp add: nth_append)
  next
    case False
    then have "r = k" using Suc.prems(2) by simp
    then show ?thesis using Suc.prems len by (simp add: nth_append)
  qed
qed

lemma chunks_exact_uniform:
  "0 < n \<Longrightarrow> length xs = k * n \<Longrightarrow>
     chunks_exact n xs = map (\<lambda>i. take n (drop (i * n) xs)) [0..<k]"
proof (induction k arbitrary: xs)
  case 0
  then show ?case by (subst chunks_exact.simps) simp
next
  case (Suc k)
  have "chunks_exact n xs = take n xs # chunks_exact n (drop n xs)"
    using Suc.prems by (simp add: chunks_exact.simps [of n xs])
  also have "chunks_exact n (drop n xs) =
      map (\<lambda>i. take n (drop (i * n) (drop n xs))) [0..<k]"
    using Suc.prems by (intro Suc.IH) simp_all
  also have "take n xs # \<dots> = map (\<lambda>i. take n (drop (i * n) xs)) [0..<Suc k]"
    by (simp add: upt_conv_Cons map_Suc_upt [symmetric] comp_def add.commute
        del: upt_Suc map_Suc_upt)
  finally show ?case .
qed

lemma concat_chunks_exact:
  assumes "0 < n" "length xs = k * n"
  shows "concat (chunks_exact n xs) = xs"
proof (rule nth_equalityI)
  have len: "length (take n (drop (i * n) xs)) = n" if "i < k" for i
  proof -
    have "Suc i * n \<le> k * n" using that by (intro mult_le_mono1) simp
    then show ?thesis using assms(2) by simp
  qed
  have chunks: "chunks_exact n xs = map (\<lambda>i. take n (drop (i * n) xs)) [0..<k]"
    using assms by (rule chunks_exact_uniform)
  show "length (concat (chunks_exact n xs)) = length xs"
    using concat_uniform_length [OF len] assms(2) by (simp add: chunks)
  fix i assume "i < length (concat (chunks_exact n xs))"
  then have "i < k * n" using concat_uniform_length [OF len] by (simp add: chunks)
  then have r: "i div n < k" and c: "i mod n < n"
    using assms(1) by (simp_all add: less_mult_imp_div_less)
  have "concat (chunks_exact n xs) ! (i div n * n + i mod n) =
      take n (drop (i div n * n) xs) ! (i mod n)"
    unfolding chunks by (rule concat_uniform_nth) (use len r c in auto)
  also have "\<dots> = xs ! (i div n * n + i mod n)"
  proof -
    have "i div n * n \<le> length xs"
      using \<open>i < k * n\<close> assms(2) div_times_less_eq_dividend [of i n] by linarith
    with c show ?thesis by (simp del: div_mult_mod_eq)
  qed
  finally show "concat (chunks_exact n xs) ! i = xs ! i" by simp
qed

subsection \<open>Dimensions and lengths\<close>

lemma dimensions_Inr [simp]:
  "dimensions width height = Inr wh \<longleftrightarrow>
     width \<noteq> 0 \<and> height \<noteq> 0 \<and> wh = (unat width, unat height)"
  by (auto simp: dimensions_def)

lemma usize_checked_mul_Some: "usize_checked_mul a b = Some c \<longleftrightarrow> c = a * b \<and> a * b < usize_limit"
  by (auto simp: usize_checked_mul_def)

lemma usize_checked_add_Some: "usize_checked_add a b = Some c \<longleftrightarrow> c = a + b \<and> a + b < usize_limit"
  by (auto simp: usize_checked_add_def)

lemma check_plane_Inr:
  "check_plane p rb rows = Inr u \<longleftrightarrow>
     rb \<le> stride p \<and> length (plane_data p) = stride p * rows \<and> stride p * rows < usize_limit"
  by (auto simp: check_plane_def usize_checked_mul_def)

lemma div_ceil_pos: "0 < a \<Longrightarrow> 0 < b \<Longrightarrow> 0 < div_ceil a b"
  by (simp add: div_ceil_def div_greater_zero_iff)

definition packed_len :: "nat \<Rightarrow> nat \<Rightarrow> nat" where
  "packed_len w h = w * h + 2 * (div_ceil w 2 * div_ceil h 2)"

lemma i420_len_Inr:
  "i420_len width height = Inr n \<longleftrightarrow>
     n = packed_len (unat width) (unat height) \<and> n < usize_limit"
  by (auto simp: i420_len_def packed_len_def and_then_eq_Inr ok_or_eq_Inr Let_def
      usize_checked_mul_Some usize_checked_add_Some bind_eq_Some_conv mult.commute
      intro!: exI)

lemma append_plane_Inr:
  "append_plane out p rb rows = Inr d \<longleftrightarrow>
     check_plane p rb rows = Inr ()
     \<and> d = out @ concat (map (take rb) (chunks_exact (stride p) (plane_data p)))"
  by (auto simp: append_plane_def and_then_eq_Inr)

lemma reserve_exact_Inr [simp]: "reserve_exact reserve n = Inr u \<longleftrightarrow> reserve n"
  by (auto simp: reserve_exact_def)

subsection \<open>Planes\<close>

text \<open>The visible part of a plane: \<open>rows\<close> rows of \<open>rb\<close> bytes.\<close>

definition visible :: "video_plane \<Rightarrow> nat \<Rightarrow> bytes" where
  "visible p rb = concat (map (take rb) (chunks_exact (stride p) (plane_data p)))"

lemma visible_rows:
  assumes "check_plane p rb rows = Inr ()" "0 < rb"
  shows "visible p rb = concat (map (\<lambda>i. take rb (drop (i * stride p) (plane_data p))) [0..<rows])"
    and "\<And>i. i < rows \<Longrightarrow> length (take rb (drop (i * stride p) (plane_data p))) = rb"
proof -
  have st: "0 < stride p" "rb \<le> stride p" and len: "length (plane_data p) = rows * stride p"
    using assms by (auto simp: check_plane_Inr)
  from chunks_exact_uniform [OF st(1) len] st(2)
  show "visible p rb =
      concat (map (\<lambda>i. take rb (drop (i * stride p) (plane_data p))) [0..<rows])"
    by (simp add: visible_def comp_def min_absorb1)
  fix i assume "i < rows"
  then have "Suc i * stride p \<le> rows * stride p" by (intro mult_le_mono1) simp
  with st(2) show "length (take rb (drop (i * stride p) (plane_data p))) = rb"
    by (simp add: len)
qed

lemma visible_length:
  assumes "check_plane p rb rows = Inr ()" "0 < rb"
  shows "length (visible p rb) = rows * rb"
  using visible_rows [OF assms] by (simp add: concat_uniform_length)

lemma visible_pixel:
  assumes "check_plane p rb rows = Inr ()" "r < rows" "c < rb"
  shows "visible p rb ! (r * rb + c) = plane_data p ! (r * stride p + c)"
proof -
  have pos: "0 < rb" using assms(3) by simp
  have "r * stride p \<le> length (plane_data p)"
    using assms(1,2) by (auto simp: check_plane_Inr mult.commute [of r])
  moreover have "visible p rb ! (r * rb + c) = take rb (drop (r * stride p) (plane_data p)) ! c"
    unfolding visible_rows(1) [OF assms(1) pos]
    by (rule concat_uniform_nth) (use visible_rows(2) [OF assms(1) pos] assms in auto)
  ultimately show ?thesis using assms(3) by simp
qed

lemma visible_tight:
  assumes "check_plane p (stride p) rows = Inr ()" "0 < stride p"
  shows "visible p (stride p) = plane_data p"
proof -
  have len: "length (plane_data p) = rows * stride p"
    using assms(1) by (auto simp: check_plane_Inr)
  have "map (take (stride p)) (chunks_exact (stride p) (plane_data p)) =
      chunks_exact (stride p) (plane_data p)"
    using chunks_exact_uniform [OF assms(2) len] by (simp add: comp_def)
  with concat_chunks_exact [OF assms(2) len] show ?thesis by (simp add: visible_def)
qed

lemma append_plane_visible:
  "append_plane out p rb rows = Inr d \<longleftrightarrow> check_plane p rb rows = Inr () \<and> d = out @ visible p rb"
  by (simp add: append_plane_Inr visible_def)

lemma deinterleave_nth:
  assumes "check_plane uv (2 * cw) rows = Inr ()" "stride uv = 2 * cw" "0 < cw" "c < 2"
  shows "deinterleave cw c uv = map (\<lambda>i. plane_data uv ! (2 * i + c)) [0..<rows * cw]"
proof -
  have len: "length (plane_data uv) = rows * (2 * cw)"
    using assms by (auto simp: check_plane_Inr)
  define f where "f i = map (\<lambda>col. take (2 * cw) (drop (i * (2 * cw)) (plane_data uv))
      ! (2 * col + c)) [0..<cw]" for i
  have eq: "deinterleave cw c uv = concat (map f [0..<rows])"
    using chunks_exact_uniform [of "2 * cw", OF _ len] assms(2,3)
    by (simp add: deinterleave_def f_def [abs_def] comp_def)
  have flen: "length (f i) = cw" for i by (simp add: f_def)
  show ?thesis
  proof (rule nth_equalityI)
    show "length (deinterleave cw c uv) =
        length (map (\<lambda>i. plane_data uv ! (2 * i + c)) [0..<rows * cw])"
      using concat_uniform_length [of rows f cw] flen eq by simp
    fix i assume "i < length (deinterleave cw c uv)"
    then have i: "i < rows * cw" using concat_uniform_length [of rows f cw] flen eq by simp
    then have r: "i div cw < rows" and col: "i mod cw < cw"
      using assms(3) by (simp_all add: less_mult_imp_div_less)
    have bound: "i div cw * (2 * cw) \<le> length (plane_data uv)"
      using r len by simp
    have "deinterleave cw c uv ! (i div cw * cw + i mod cw) = f (i div cw) ! (i mod cw)"
      unfolding eq by (rule concat_uniform_nth) (use flen r col in auto)
    also have "\<dots> = plane_data uv ! (i div cw * (2 * cw) + (2 * (i mod cw) + c))"
      using col assms(4) bound by (simp add: f_def)
    also have "i div cw * (2 * cw) + (2 * (i mod cw) + c) = 2 * i + c"
    proof -
      have "i div cw * (2 * cw) = 2 * (i div cw * cw)" by simp
      with div_mult_mod_eq [of i cw] show ?thesis by linarith
    qed
    finally show "deinterleave cw c uv ! i =
        map (\<lambda>i. plane_data uv ! (2 * i + c)) [0..<rows * cw] ! i"
      using i by simp
  qed
qed

lemma interleave_nth:
  assumes "i < m" "c < 2"
  shows "concat (map (\<lambda>col. [a col, b col]) [0..<m]) ! (2 * i + c) = (if c = 0 then a i else b i)"
proof -
  have "concat (map (\<lambda>col. [a col, b col]) [0..<m]) ! (i * 2 + c) = [a i, b i] ! c"
    by (rule concat_uniform_nth) (use assms in auto)
  with assms(2) show ?thesis by (cases c) (auto simp: mult.commute)
qed

lemma interleave_length: "length (concat (map (\<lambda>col. [a col, b col]) [0..<m])) = m * 2"
  by (rule concat_uniform_length) simp

lemma map_nth_slice: "k + m \<le> length xs \<Longrightarrow> map (\<lambda>i. xs ! (k + i)) [0..<m] = take m (drop k xs)"
  by (rule nth_equalityI) simp_all

lemma interleaved_channel:
  assumes "uv = \<lparr>stride = 2 * cw, plane_data =
      concat (map (\<lambda>col. [d ! (k + col), d ! (k + rows * cw + col)]) [0..<rows * cw])\<rparr>"
    and "check_plane uv (2 * cw) rows = Inr ()" "0 < cw"
    and "length d = k + 2 * (rows * cw)"
  shows "deinterleave cw 0 uv @ deinterleave cw 1 uv = drop k d"
proof -
  have nth: "plane_data uv ! (2 * i) = d ! (k + i)"
      "plane_data uv ! Suc (2 * i) = d ! (k + rows * cw + i)" if "i < rows * cw" for i
    using interleave_nth [OF that, of 0 "\<lambda>col. d ! (k + col)" "\<lambda>col. d ! (k + rows * cw + col)"]
      interleave_nth [OF that, of 1 "\<lambda>col. d ! (k + col)" "\<lambda>col. d ! (k + rows * cw + col)"]
    by (simp_all add: assms(1))
  have st: "stride uv = 2 * cw" by (simp add: assms(1))
  have "deinterleave cw 0 uv = map (\<lambda>i. d ! (k + i)) [0..<rows * cw]"
    using deinterleave_nth [OF assms(2) st assms(3), of 0] nth by simp
  moreover have "deinterleave cw 1 uv = map (\<lambda>i. d ! (k + rows * cw + i)) [0..<rows * cw]"
    using deinterleave_nth [OF assms(2) st assms(3), of 1] nth by simp
  ultimately have "deinterleave cw 0 uv @ deinterleave cw 1 uv =
      take (rows * cw) (drop k d) @ take (rows * cw) (drop (k + rows * cw) d)"
    using assms(4) by (simp only: map_nth_slice)
  also have "\<dots> = drop k d"
    using assms(4) append_take_drop_id [of "rows * cw" "drop k d"] by (simp add: add.commute)
  finally show ?thesis .
qed

subsection \<open>Properties\<close>

text \<open>The strided I420 conversion is pixel exact: on success the packed buffer has
  exactly the I420 length and holds, plane after plane and row after row, the visible
  samples of the three strided planes (padding dropped, nothing shifted).\<close>

theorem i420_strided_pixels:
  assumes "fb_i420_strided reserve width height y u v = Inr (FrameBuffer d)"
    and "w = unat width" "h = unat height" "cw = div_ceil w 2" "ch = div_ceil h 2"
  shows "length d = packed_len w h
    \<and> (\<forall>r<h. \<forall>c<w. d ! (r * w + c) = plane_data y ! (r * stride y + c))
    \<and> (\<forall>r<ch. \<forall>c<cw. d ! (w * h + (r * cw + c)) = plane_data u ! (r * stride u + c))
    \<and> (\<forall>r<ch. \<forall>c<cw.
        d ! (w * h + cw * ch + (r * cw + c)) = plane_data v ! (r * stride v + c))"
proof -
  from assms have ok: "check_plane y w h = Inr ()" "check_plane u cw ch = Inr ()"
      "check_plane v cw ch = Inr ()"
    and pos: "0 < w" "0 < h"
    and d: "d = visible y w @ visible u cw @ visible v cw"
    by (auto simp: fb_i420_strided_def and_then_eq_Inr append_plane_visible Let_def unat_gt_0)
  have cpos: "0 < cw" "0 < ch" using pos assms(4,5) by (simp_all add: div_ceil_pos)
  have len: "length (visible y w) = w * h" "length (visible u cw) = cw * ch"
      "length (visible v cw) = cw * ch"
    using ok pos cpos by (simp_all add: visible_length mult.commute)
  then have total: "length d = packed_len w h"
    using assms(4,5) by (simp add: d packed_len_def)
  have row: "r * n + c < n * m" if "r < m" "c < n" for r c n m :: nat
  proof -
    have "r * n + c < Suc r * n" using that(2) by simp
    also have "\<dots> \<le> n * m" using mult_le_mono1 [of "Suc r" m n] that(1) by (simp add: mult.commute)
    finally show ?thesis .
  qed
  have "d ! (r * w + c) = plane_data y ! (r * stride y + c)" if "r < h" "c < w" for r c
    using visible_pixel [OF ok(1) that] row [OF that] len by (simp add: d nth_append)
  moreover have "d ! (w * h + (r * cw + c)) = plane_data u ! (r * stride u + c)"
    if "r < ch" "c < cw" for r c
    using visible_pixel [OF ok(2) that] row [OF that] len by (simp add: d nth_append)
  moreover have "d ! (w * h + cw * ch + (r * cw + c)) = plane_data v ! (r * stride v + c)"
    if "r < ch" "c < cw" for r c
    using visible_pixel [OF ok(3) that] row [OF that] len by (simp add: d nth_append)
  ultimately show ?thesis using total by blast
qed

theorem i420_strided_pixels_witness:
  "fb_i420_strided (\<lambda>_. True) 2 2 \<lparr>stride = 3, plane_data = [1, 2, 0, 3, 4, 0]\<rparr>
     \<lparr>stride = 1, plane_data = [5]\<rparr> \<lparr>stride = 1, plane_data = [6]\<rparr>
   = Inr (FrameBuffer [1, 2, 3, 4, 5, 6])
   \<and> ([1, 2, 3, 4, 5, 6] :: bytes) ! (1 * 2 + 0) = [1, 2, 0, 3, 4, 0] ! (1 * 3 + 0)"
proof -
  have run: "fb_i420_strided (\<lambda>_. True) 2 2 \<lparr>stride = 3, plane_data = [1, 2, 0, 3, 4, 0]\<rparr>
       \<lparr>stride = 1, plane_data = [5]\<rparr> \<lparr>stride = 1, plane_data = [6]\<rparr>
     = Inr (FrameBuffer [1, 2, 3, 4, 5, 6])"
    by (simp add: fb_i420_strided_def dimensions_def append_plane_def check_plane_def
        i420_len_def usize_checked_mul_def usize_checked_add_def reserve_exact_def
        div_ceil_def chunks_exact.simps Let_def)
  with i420_strided_pixels [OF run refl refl refl refl] show ?thesis
    by (auto dest: spec [where x = 1])
qed

text \<open>C27. Splitting a packed buffer into NV12 planes and converting these planes back
  gives the same bytes: whenever the buffer was accepted and memory can be reserved, both
  directions succeed and compose to the identity.\<close>

theorem nv12_roundtrip:
  assumes "fb_i420 width height data = Inr b" and "\<And>n. n \<le> length data \<Longrightarrow> reserve n"
  shows "\<exists>p. fb_to_nv12 reserve b width height = Inr p
    \<and> fb_nv12_strided reserve width height (nv12_y p) (nv12_uv p) = Inr b"
proof -
  define w h where "w = unat width" and "h = unat height"
  define cw ch where "cw = div_ceil w 2" and "ch = div_ceil h 2"
  from assms(1) have nz: "width \<noteq> 0" "height \<noteq> 0" and b: "b = FrameBuffer data"
    and len: "length data = packed_len w h" "packed_len w h < usize_limit"
    by (auto simp: fb_i420_def and_then_eq_Inr i420_len_Inr w_def h_def split: if_splits)
  have pos: "0 < w" "0 < cw" "0 < ch"
    using nz by (simp_all add: w_def h_def cw_def ch_def div_ceil_pos unat_gt_0)
  have plen: "packed_len w h = w * h + 2 * (ch * cw)"
    by (simp add: packed_len_def cw_def ch_def mult.commute)
  have fits: "cw * 2 < usize_limit"
  proof -
    have "1 * cw \<le> ch * cw" using pos(3) by (intro mult_le_mono1) simp
    with len plen show ?thesis by linarith
  qed
  define y uv where "y = \<lparr>stride = w, plane_data = take (w * h) data\<rparr>"
    and "uv = \<lparr>stride = 2 * cw, plane_data = concat (map (\<lambda>col.
       [data ! (w * h + col), data ! (w * h + ch * cw + col)]) [0..<ch * cw])\<rparr>"
  have cy: "check_plane y w h = Inr ()" and cuv: "check_plane uv (2 * cw) ch = Inr ()"
    using len plen by (simp_all add: check_plane_Inr y_def uv_def interleave_length)
  have to: "fb_to_nv12 reserve b width height = Inr \<lparr>nv12_y = y, nv12_uv = uv\<rparr>"
    using nz len plen assms(2) [of "cw * ch * 2"]
    by (simp add: fb_to_nv12_def dimensions_def i420_len_Inr [THEN iffD2]
        usize_checked_mul_def reserve_exact_def y_def uv_def b
        mult.commute flip: w_def h_def cw_def ch_def)
  have "visible y w = take (w * h) data"
    using visible_tight [of y h] cy pos(1) by (simp add: y_def)
  moreover have "deinterleave cw 0 uv @ deinterleave cw 1 uv = drop (w * h) data"
    by (rule interleaved_channel [OF uv_def cuv pos(2)]) (use len plen in simp)
  ultimately have "fb_nv12_strided reserve width height y uv = Inr b"
    using nz len plen cy cuv fits assms(2) [of "length data"]
    by (simp add: fb_nv12_strided_def dimensions_def i420_len_Inr [THEN iffD2]
        usize_checked_mul_def reserve_exact_def b append_plane_visible [THEN iffD2]
        mult.commute flip: w_def h_def cw_def ch_def)
  with to show ?thesis by auto
qed

theorem nv12_roundtrip_witness:
  "\<exists>p. fb_to_nv12 (\<lambda>n. n < 100) (FrameBuffer [1, 2, 3, 4, 5, 6]) 2 2 = Inr p
    \<and> fb_nv12_strided (\<lambda>n. n < 100) 2 2 (nv12_y p) (nv12_uv p)
      = Inr (FrameBuffer [1, 2, 3, 4, 5, 6])"
  by (rule nv12_roundtrip [where data = "[1, 2, 3, 4, 5, 6]"])
    (simp_all add: fb_i420_def i420_len_def usize_checked_mul_def usize_checked_add_def
      div_ceil_def Let_def)

end
