(* ===== verification/Bitstream.thy ===== *)
theory Bitstream
  imports CodecValues
begin

text \<open>
  Structural validation of encoded input (\<open>src/encoded_video.rs\<close>): the access unit type,
  the VP8 frame header check, and the H.264 Annex-B scanner.  Whether two H.264 formats
  name the same codec is decided by the SDK (\<open>SdpVideoFormat::is_same_codec\<close>), the
  parameter \<open>sdk_same\<close> below.  The scanner is proved equivalent to a declarative
  description of start-code-delimited NAL units.
\<close>

subsection \<open>Access units and formats\<close>

definition MAX_PENDING :: nat where "MAX_PENDING = 16"
definition MAX_PENDING_BYTES :: nat where "MAX_PENDING_BYTES = 8 * 1024 * 1024"

record h264_access_unit =
  h264_data :: bytes
  h264_width :: u32
  h264_height :: u32
  h264_timestamp_us :: i64
  h264_key_frame :: bool
  h264_qp :: "u8 option"

record access_unit =
  au_data :: bytes
  au_width :: u32
  au_height :: u32
  au_timestamp_us :: i64
  au_key_frame :: bool
  au_qp :: "u8 option"
  au_metadata :: encoded_video_metadata

definition h264_format :: "string \<Rightarrow> video_codec_format" where
  "h264_format profile_level_id =
     with_parameter (with_parameter (with_parameter (new_format ''H264'')
       ''level-asymmetry-allowed'' ''1'') ''packetization-mode'' ''1'')
       ''profile-level-id'' profile_level_id"

definition default_format :: video_codec_format where
  "default_format = h264_format ''42e01f''"

type_synonym sdk_same_codec = "video_codec_format \<Rightarrow> video_codec_format \<Rightarrow> bool"

definition same_codec_format :: "sdk_same_codec \<Rightarrow> video_codec_format \<Rightarrow> video_codec_format \<Rightarrow> bool"
  where
  "same_codec_format sdk_same a b =
     (if fmt_name a = ''H264'' \<and> fmt_name b = ''H264'' then sdk_same a b
      else fmt_name a = fmt_name b \<and> parameters a = parameters b)"

subsection \<open>VP8\<close>

definition le16 :: "u8 \<Rightarrow> u8 \<Rightarrow> u16" where
  "le16 a b = ucast a OR push_bit 8 (ucast b)"

definition valid_vp8 :: "access_unit \<Rightarrow> bool" where
  "valid_vp8 frame =
     (let data = au_data frame in
      if length data < 3 then False
      else
        let tag = (ucast (data ! 0) :: u32) OR push_bit 8 (ucast (data ! 1))
              OR push_bit 16 (ucast (data ! 2)) in
        if (tag AND 1 = 0) \<noteq> au_key_frame frame \<or> unat (drop_bit 5 tag) > length data - 3
        then False
        else if \<not> au_key_frame frame then True
        else 10 \<le> length data
          \<and> take 3 (drop 3 data) = [0x9d, 0x01, 0x2a]
          \<and> ucast (le16 (data ! 6) (data ! 7) AND 0x3fff) = au_width frame
          \<and> ucast (le16 (data ! 8) (data ! 9) AND 0x3fff) = au_height frame)"

subsection \<open>Annex B\<close>

definition hex_digit :: "nat \<Rightarrow> char" where
  "hex_digit d = char_of (if d < 10 then 48 + d else 87 + d)"

definition hex_byte :: "u8 \<Rightarrow> string" where
  "hex_byte b = [hex_digit (unat b div 16), hex_digit (unat b mod 16)]"

definition start_code :: "bytes \<Rightarrow> nat \<Rightarrow> nat option" where
  "start_code data cursor =
     (if prefix [0, 0, 0, 1] (drop cursor data) then Some 4
      else if prefix [0, 0, 1] (drop cursor data) then Some 3 else None)"

definition next_code :: "bytes \<Rightarrow> nat \<Rightarrow> nat" where
  "next_code data start =
     (case find (\<lambda>at. prefix [0, 0, 1] (drop at data)) [start..<length data] of
        None \<Rightarrow> length data | Some at \<Rightarrow> at)"

definition nal_type :: "bytes \<Rightarrow> u8" where
  "nal_type nal = hd nal AND 0x1f"

text \<open>The per-NAL checks, on the slice \<open>data[start..end]\<close> (nonempty when it is called).\<close>

definition nal_accepted :: "sdk_same_codec \<Rightarrow> bytes \<Rightarrow> bool" where
  "nal_accepted sdk_same nal \<longleftrightarrow>
     hd nal AND 0x80 = 0
     \<and> (nal_type nal = 7 \<longrightarrow>
          4 \<le> length nal
          \<and> same_codec_format sdk_same
              (h264_format (hex_byte (nal ! 1) @ hex_byte (nal ! 2) @ hex_byte (nal ! 3)))
              default_format)
     \<and> nal_type nal \<in> {1, 5, 6, 7, 8, 9}"

text \<open>The scan loop; \<open>None\<close> is the early \<open>return false\<close>.\<close>

function nal_loop :: "sdk_same_codec \<Rightarrow> bytes \<Rightarrow> nat \<Rightarrow> u8 list \<Rightarrow> u8 list option" where
  "nal_loop sdk_same data cursor nal_types =
     (if cursor < length data then
        (case start_code data cursor of
           None \<Rightarrow> None
         | Some code \<Rightarrow>
             let start = cursor + code in
             if length data \<le> start then None
             else
               let end = next_code data start in
               if start = end \<or> \<not> nal_accepted sdk_same (take (end - start) (drop start data))
               then None
               else nal_loop sdk_same data end
                      (nal_types @ [nal_type (take (end - start) (drop start data))]))
      else Some nal_types)"
  by pat_completeness auto

lemma next_code_bounds: "start \<le> length data \<Longrightarrow> start \<le> next_code data start \<and> next_code data start \<le> length data"
  by (auto simp: next_code_def find_Some_iff split: option.splits)

lemma next_code_decreases:
  "cursor < start \<Longrightarrow> start < length data \<Longrightarrow>
     length data - next_code data start < length data - cursor"
  using next_code_bounds [of start data] by linarith

termination nal_loop
  by (relation "measure (\<lambda>(s, data, cursor, t). length data - cursor)")
    (auto simp: start_code_def split: if_splits intro!: next_code_decreases)

declare nal_loop.simps [simp del]

definition nal_types_ok :: "bool \<Rightarrow> u8 list \<Rightarrow> bool" where
  "nal_types_ok key nal_types =
     (let idr = 5 \<in> set nal_types in
      if key then idr \<and> 7 \<in> set nal_types \<and> 8 \<in> set nal_types
      else \<not> idr \<and> 1 \<in> set nal_types)"

definition valid_annex_b :: "sdk_same_codec \<Rightarrow> bytes \<Rightarrow> bool \<Rightarrow> bool" where
  "valid_annex_b sdk_same data key =
     (if data = [] \<or> MAX_PENDING_BYTES < length data then False
      else case nal_loop sdk_same data 0 [] of
        None \<Rightarrow> False
      | Some nal_types \<Rightarrow> nal_types_ok key nal_types)"

subsection \<open>What the scanner accepts\<close>

text \<open>An Annex-B stream: NAL units, each behind a three- or four-byte start code, none
  containing a start code of its own.\<close>

definition start_codes :: "bytes set" where
  "start_codes = {[0, 0, 1], [0, 0, 0, 1]}"

fun segment_bytes :: "bytes \<times> bytes \<Rightarrow> bytes" where
  "segment_bytes (code, nal) = code @ nal"

definition flatten :: "(bytes \<times> bytes) list \<Rightarrow> bytes" where
  "flatten segs = concat (map segment_bytes segs)"

definition code_free :: "bytes \<Rightarrow> bool" where
  "code_free nal \<longleftrightarrow> (\<forall>i < length nal. \<not> prefix [0, 0, 1] (drop i nal))"

definition segment_ok :: "sdk_same_codec \<Rightarrow> bytes \<times> bytes \<Rightarrow> bool" where
  "segment_ok sdk_same seg \<longleftrightarrow>
     fst seg \<in> start_codes \<and> snd seg \<noteq> [] \<and> code_free (snd seg)
     \<and> nal_accepted sdk_same (snd seg)"

lemma flatten_simps [simp]:
  "flatten [] = []" "flatten ((c, n) # segs) = c @ n @ flatten segs"
  by (simp_all add: flatten_def)

lemma find_upt_Some:
  "find P [a..<b] = Some k \<longleftrightarrow> a \<le> k \<and> k < b \<and> P k \<and> (\<forall>j. a \<le> j \<and> j < k \<longrightarrow> \<not> P j)"
proof
  assume "find P [a..<b] = Some k"
  then obtain i where i: "i < b - a" "P (a + i)" "k = a + i" "\<forall>j<i. \<not> P (a + j)"
    by (auto simp: find_Some_iff nth_upt)
  have "\<not> P j" if "a \<le> j" "j < k" for j
    using i(4) [rule_format, of "j - a"] that i(3) by simp
  with i show "a \<le> k \<and> k < b \<and> P k \<and> (\<forall>j. a \<le> j \<and> j < k \<longrightarrow> \<not> P j)" by auto
next
  assume k: "a \<le> k \<and> k < b \<and> P k \<and> (\<forall>j. a \<le> j \<and> j < k \<longrightarrow> \<not> P j)"
  then show "find P [a..<b] = Some k"
    by (auto simp: find_Some_iff nth_upt intro!: exI [of _ "k - a"])
qed

lemma find_upt_None: "find P [a..<b] = None \<longleftrightarrow> (\<forall>k. a \<le> k \<and> k < b \<longrightarrow> \<not> P k)"
  by (auto simp: find_None_iff)

lemma code_not_straddling:
  assumes "i < length nal" "rest = [] \<or> prefix [0, 0] rest"
    and "prefix [0, 0, 1] (drop i nal @ rest)"
  shows "prefix [0, 0, 1 :: u8] (drop i nal)"
proof -
  obtain x xs where d: "drop i nal = x # xs"
    using assms(1) by (cases "drop i nal") auto
  show ?thesis
  proof (cases xs)
    case Nil
    with d assms(2,3) show ?thesis by (auto simp: prefix_def)
  next
    case (Cons y ys)
    with d assms(2,3) show ?thesis by (cases ys) (auto simp: prefix_def)
  qed
qed

lemma code_free_inside:
  assumes "drop start data = nal @ rest" "code_free nal" "rest = [] \<or> prefix [0, 0] rest"
    and "start \<le> at" "at < start + length nal"
  shows "\<not> prefix [0, 0, 1] (drop at data)"
proof
  assume p: "prefix [0, 0, 1] (drop at data)"
  have "drop at data = drop (at - start) (drop start data)" using assms(4) by simp
  also have "\<dots> = drop (at - start) nal @ rest" using assms(1,4,5) by simp
  finally have "prefix [0, 0, 1] (drop (at - start) nal)"
    using p assms(3,4,5) code_not_straddling [of "at - start" nal rest] by simp
  with assms(2,4,5) show False by (simp add: code_free_def)
qed

lemma next_code_last:
  assumes "drop start data = nal" "code_free nal" "start \<le> length data"
  shows "next_code data start = length data"
proof -
  have "start + length nal = length data" using assms(1,3) by auto
  then have "find (\<lambda>at. prefix [0, 0, 1] (drop at data)) [start..<length data] = None"
    using code_free_inside [of start data nal "[]"] assms by (auto simp: find_upt_None)
  then show ?thesis by (simp add: next_code_def)
qed

lemma next_code_three:
  assumes "drop start data = nal @ [0, 0, 1] @ rest" "code_free nal"
  shows "next_code data start = start + length nal"
proof -
  have "drop (start + length nal) data = [0, 0, 1] @ rest"
    using arg_cong [OF assms(1), of "drop (length nal)"] by (simp add: add.commute)
  then have here: "prefix [0, 0, 1] (drop (start + length nal) data)"
      "drop (start + length nal) data \<noteq> []"
    by simp_all
  then have "start + length nal < length data" by (simp only: drop_eq_Nil not_le)
  have "find (\<lambda>at. prefix [0, 0, 1] (drop at data)) [start..<length data]
      = Some (start + length nal)"
    using here \<open>start + length nal < length data\<close>
      code_free_inside [of start data nal "[0, 0, 1] @ rest"] assms
    by (auto simp: find_upt_Some)
  then show ?thesis by (simp add: next_code_def)
qed

lemma code_free_snoc: "code_free nal \<Longrightarrow> code_free (nal @ [0])"
  unfolding code_free_def
proof (intro allI impI notI)
  fix i assume free: "\<forall>i<length nal. \<not> prefix [0, 0, 1] (drop i nal)"
    and i: "i < length (nal @ [0])" and p: "prefix [0, 0, 1] (drop i (nal @ [0]))"
  from p have "length [0, 0, 1 :: u8] \<le> length (drop i (nal @ [0]))" by (rule prefix_length_le)
  then have "i < length nal" by simp
  with p free i show False
    by (auto simp: prefix_def append_eq_append_conv2 append_eq_Cons_conv Cons_eq_append_conv)
qed

lemma nal_accepted_snoc:
  assumes "nal_accepted sdk_same nal" "nal \<noteq> []"
  shows "nal_accepted sdk_same (nal @ [0])" "nal_type (nal @ [0]) = nal_type nal"
  using assms by (auto simp: nal_accepted_def nal_type_def nth_append)

lemma nal_loop_done: "length data \<le> cursor \<Longrightarrow> nal_loop s data cursor ts = Some ts"
  by (subst nal_loop.simps) simp

lemma start_code_present:
  assumes "drop cursor data = code @ rest" "code \<in> start_codes"
  shows "start_code data cursor = Some (length code)"
  using assms by (auto simp: start_code_def start_codes_def)

lemma nal_loop_step:
  assumes "drop cursor data = code @ nal @ rest" "code \<in> start_codes" "nal \<noteq> []"
    and "next_code data (cursor + length code) = cursor + length code + length nal"
    and "nal_accepted sdk_same nal"
  shows "nal_loop sdk_same data cursor ts =
     nal_loop sdk_same data (cursor + length code + length nal) (ts @ [nal_type nal])"
proof -
  have start: "drop (cursor + length code) data = nal @ rest"
    using arg_cong [OF assms(1), of "drop (length code)"] by (simp add: add.commute)
  have "cursor < length data" "cursor + length code < length data"
    using assms(1,3) start by (auto simp: not_le [symmetric] start_codes_def)
  with assms start start_code_present [OF assms(1,2)] show ?thesis
    by (subst nal_loop.simps) (simp add: Let_def)
qed

lemma nal_loop_complete:
  assumes "drop cursor data = code @ nal @ flatten segs" "segment_ok sdk_same (code, nal)"
    and "list_all (segment_ok sdk_same) segs"
  shows "nal_loop sdk_same data cursor ts = Some (ts @ nal_type nal # map (nal_type \<circ> snd) segs)"
  using assms
proof (induction segs arbitrary: cursor code nal ts)
  case Nil
  then have ok: "code \<in> start_codes" "nal \<noteq> []" "code_free nal" "nal_accepted sdk_same nal"
    by (simp_all add: segment_ok_def)
  from Nil.prems(1) have start: "drop (cursor + length code) data = nal"
    by (metis (no_types) add.commute append_Nil2 append_eq_conv_conj drop_drop flatten_simps(1))
  have stop: "cursor + length code + length nal = length data"
    using start ok(2) by (metis add.commute drop_eq_Nil le_add_diff_inverse2 length_drop nat_le_linear)
  have "next_code data (cursor + length code) = cursor + length code + length nal"
    using next_code_last [OF start ok(3)] stop by simp
  with nal_loop_step [of cursor data code nal "[]"] Nil.prems(1) ok stop show ?case
    by (simp add: nal_loop_done)
next
  case (Cons seg segs)
  obtain code' nal' where seg: "seg = (code', nal')" by fastforce
  from Cons.prems(2) have ok: "code \<in> start_codes" "nal \<noteq> []" "code_free nal"
      "nal_accepted sdk_same nal"
    by (simp_all add: segment_ok_def)
  from Cons.prems(3) have ok': "segment_ok sdk_same (code', nal')"
      "list_all (segment_ok sdk_same) segs"
    by (simp_all add: seg)
  have tail: "segment_ok sdk_same ([0, 0, 1], nal')"
    using ok'(1) by (simp add: segment_ok_def start_codes_def)
  have start: "drop (cursor + length code) data = nal @ code' @ nal' @ flatten segs"
    using arg_cong [OF Cons.prems(1), of "drop (length code)"] by (simp add: add.commute seg)
  from ok'(1) consider "code' = [0, 0, 1]" | "code' = [0] @ [0, 0, 1]"
    by (auto simp: segment_ok_def start_codes_def)
  then show ?case
  proof cases
    case 1
    have next1: "next_code data (cursor + length code) = cursor + length code + length nal"
      using start 1 ok(3) by (intro next_code_three) simp_all
    have "drop (cursor + length code + length nal) data = [0, 0, 1] @ nal' @ flatten segs"
      using arg_cong [OF start, of "drop (length nal)"] 1 by (simp add: add.commute)
    from Cons.IH [OF this tail ok'(2)] nal_loop_step [OF Cons.prems(1) ok(1,2) next1 ok(4)]
    show ?thesis by (simp add: seg)
  next
    case 2
    let ?nal = "nal @ [0]"
    have next2: "next_code data (cursor + length code) = cursor + length code + length ?nal"
      using start 2 code_free_snoc [OF ok(3)] by (intro next_code_three) simp_all
    have "drop (cursor + length code + length ?nal) data = [0, 0, 1] @ nal' @ flatten segs"
      using arg_cong [OF start, of "drop (length ?nal)"] 2 by (simp add: add.commute)
    from Cons.IH [OF this tail ok'(2)]
      nal_loop_step [of cursor data code ?nal "[0, 0, 1] @ nal' @ flatten segs"]
      next2 nal_accepted_snoc [OF ok(4,2)] ok(1) Cons.prems(1)
    show ?thesis by (simp add: seg 2)
  qed
qed

text \<open>Conversely, an accepted scan has cut the input into such units.\<close>

lemma take_drop_cut: "start \<le> stop \<Longrightarrow> stop \<le> length data \<Longrightarrow>
    drop start data = take (stop - start) (drop start data) @ drop stop data"
  by (metis append_take_drop_id drop_drop le_add_diff_inverse2)

lemma next_code_free:
  assumes "start \<le> length data"
  shows "code_free (take (next_code data start - start) (drop start data))"
  unfolding code_free_def
proof (intro allI impI notI)
  let ?stop = "next_code data start"
  fix i assume i: "i < length (take (?stop - start) (drop start data))"
    and p: "prefix [0, 0, 1] (drop i (take (?stop - start) (drop start data)))"
  have before: "start + i < ?stop" "start + i < length data" using i by auto
  have "prefix [0, 0, 1] (drop (start + i) data)"
    using p take_is_prefix [of "?stop - start - i" "drop (start + i) data"]
    by (auto simp: drop_take add.commute intro: prefix_order.trans)
  moreover have "\<not> prefix [0, 0, 1] (drop (start + i) data)"
    using before by (auto simp: next_code_def find_upt_Some find_upt_None split: option.splits)
  ultimately show False by blast
qed

lemma start_code_cut:
  assumes "start_code data cursor = Some k"
  shows "\<exists>code \<in> start_codes. length code = k \<and> drop cursor data = code @ drop (cursor + k) data"
proof -
  have "\<exists>code \<in> start_codes. length code = k \<and> prefix code (drop cursor data)"
    using assms by (auto simp: start_code_def start_codes_def split: if_splits)
  then obtain code rest where code: "code \<in> start_codes" "length code = k"
      "drop cursor data = code @ rest"
    by (auto simp: prefix_def)
  have "drop (cursor + k) data = drop k (drop cursor data)" by (simp add: add.commute)
  also have "\<dots> = rest" using code(2,3) by auto
  finally have "drop (cursor + k) data = rest" .
  with code show ?thesis by blast
qed

lemma nal_loop_sound:
  assumes "nal_loop s data cursor ts = Some us" "cursor \<le> length data"
  shows "\<exists>segs. drop cursor data = flatten segs \<and> list_all (segment_ok s) segs
           \<and> us = ts @ map (nal_type \<circ> snd) segs"
  using assms
proof (induction s data cursor ts rule: nal_loop.induct)
  case (1 s data cursor ts)
  show ?case
  proof (cases "cursor < length data")
    case False
    with "1.prems" show ?thesis by (intro exI [of _ "[]"]) (simp add: nal_loop_done)
  next
    case True
    from "1.prems"(1) True obtain k where k: "start_code data cursor = Some k"
      by (subst (asm) nal_loop.simps) (simp split: option.splits)
    let ?start = "cursor + k" and ?stop = "next_code data (cursor + k)"
    let ?nal = "take (?stop - ?start) (drop ?start data)"
    from "1.prems"(1) True k have step: "?start < length data" "?start \<noteq> ?stop" "nal_accepted s ?nal"
        "nal_loop s data ?stop (ts @ [nal_type ?nal]) = Some us"
      by (subst (asm) nal_loop.simps, simp add: Let_def split: if_splits)+
    have bounds: "?start < ?stop" "?stop \<le> length data"
      using next_code_bounds [of ?start data] step(1,2) by auto
    from "1.IH" [OF True k refl _ refl] step bounds obtain segs where segs:
      "drop ?stop data = flatten segs" "list_all (segment_ok s) segs"
      "us = (ts @ [nal_type ?nal]) @ map (nal_type \<circ> snd) segs"
      by auto
    from start_code_cut [OF k] obtain code where code: "code \<in> start_codes"
      "drop cursor data = code @ drop ?start data" by blast
    have "drop cursor data = flatten ((code, ?nal) # segs)"
      using code(2) take_drop_cut [of ?start ?stop data] bounds segs(1) by simp
    moreover have "segment_ok s (code, ?nal)"
      using code(1) bounds step(3) next_code_free [of ?start data] by (auto simp: segment_ok_def)
    ultimately show ?thesis
      using segs(2,3) by (intro exI [of _ "(code, ?nal) # segs"]) simp
  qed
qed

lemma nal_loop_iff:
  "nal_loop s data 0 [] = Some us \<longleftrightarrow>
     (\<exists>segs. data = flatten segs \<and> list_all (segment_ok s) segs \<and> us = map (nal_type \<circ> snd) segs)"
proof
  assume "nal_loop s data 0 [] = Some us"
  from nal_loop_sound [OF this] show "\<exists>segs. data = flatten segs \<and> list_all (segment_ok s) segs
      \<and> us = map (nal_type \<circ> snd) segs"
    by simp
next
  assume "\<exists>segs. data = flatten segs \<and> list_all (segment_ok s) segs \<and> us = map (nal_type \<circ> snd) segs"
  then obtain segs where segs: "data = flatten segs" "list_all (segment_ok s) segs"
    "us = map (nal_type \<circ> snd) segs" by blast
  show "nal_loop s data 0 [] = Some us"
  proof (cases segs)
    case Nil
    with segs show ?thesis by (simp add: nal_loop_done)
  next
    case (Cons seg segs')
    then obtain code nal where "seg = (code, nal)" by fastforce
    with Cons segs show ?thesis
      using nal_loop_complete [of 0 data code nal segs' s "[]"] by simp
  qed
qed

text \<open>C22. An access unit passes the Annex-B check exactly when it is nonempty, at most 8 MiB,
  and some sequence of NAL units, each behind a three- or four-byte start code and free of
  start codes itself, spells it out: every unit acceptable to the per-unit checks, a key unit
  carrying SPS, PPS and an IDR slice, a delta unit a non-IDR slice and no IDR slice.\<close>

theorem valid_annex_b_iff_segments:
  "valid_annex_b sdk_same data key \<longleftrightarrow>
     data \<noteq> [] \<and> length data \<le> MAX_PENDING_BYTES
     \<and> (\<exists>segs. data = flatten segs \<and> list_all (segment_ok sdk_same) segs
          \<and> (let ts = map (nal_type \<circ> snd) segs in
               if key then {5, 7, 8} \<subseteq> set ts else 5 \<notin> set ts \<and> 1 \<in> set ts))"
proof -
  have types: "nal_types_ok key ts \<longleftrightarrow>
      (if key then {5, 7, 8} \<subseteq> set ts else 5 \<notin> set ts \<and> 1 \<in> set ts)" for ts
    by (auto simp: nal_types_ok_def Let_def)
  have "(case nal_loop sdk_same data 0 [] of None \<Rightarrow> False | Some ts \<Rightarrow> nal_types_ok key ts)
      \<longleftrightarrow> (\<exists>segs. data = flatten segs \<and> list_all (segment_ok sdk_same) segs
            \<and> nal_types_ok key (map (nal_type \<circ> snd) segs))"
  proof (cases "nal_loop sdk_same data 0 []")
    case None
    then have "\<not> (\<exists>segs. data = flatten segs \<and> list_all (segment_ok sdk_same) segs)"
      using nal_loop_iff [of sdk_same data] by force
    with None show ?thesis by auto
  next
    case (Some ts)
    then obtain segs where segs: "data = flatten segs" "list_all (segment_ok sdk_same) segs"
        "ts = map (nal_type \<circ> snd) segs"
      using nal_loop_iff by blast
    have same: "map (nal_type \<circ> snd) segs' = ts"
      if "data = flatten segs'" "list_all (segment_ok sdk_same) segs'" for segs'
      using that Some nal_loop_iff [of sdk_same data "map (nal_type \<circ> snd) segs'"] by auto
    show ?thesis
    proof
      assume "case nal_loop sdk_same data 0 [] of None \<Rightarrow> False | Some ts \<Rightarrow> nal_types_ok key ts"
      with Some segs show "\<exists>segs. data = flatten segs \<and> list_all (segment_ok sdk_same) segs
          \<and> nal_types_ok key (map (nal_type \<circ> snd) segs)"
        by (intro exI [of _ segs]) simp
    next
      assume "\<exists>segs. data = flatten segs \<and> list_all (segment_ok sdk_same) segs
          \<and> nal_types_ok key (map (nal_type \<circ> snd) segs)"
      then have "nal_types_ok key ts" using same by metis
      with Some show "case nal_loop sdk_same data 0 [] of None \<Rightarrow> False
          | Some ts \<Rightarrow> nal_types_ok key ts"
        by simp
    qed
  qed
  then show ?thesis
    unfolding valid_annex_b_def Let_def types [symmetric] by (simp add: not_le)
qed

end
