(* ===== verification/Readiness.thy ===== *)
theory Readiness
  imports Prelude
begin

text \<open>
  The level-triggered activity signal of \<open>src/readiness.rs\<close>.  \<open>Readiness\<close> is a mutex
  around a changed flag and one registered waker; \<open>notify\<close> and \<open>poll\<close> each hold the
  lock for their whole update, so every concurrent execution is a sequence of these two
  atomic steps.  The waker that \<open>notify\<close> takes out is invoked after the lock is
  released; a panic of the executor's code is contained there and changes no state, so
  the model returns the waker as the step's output.  \<open>Waker::will_wake\<close> compares the
  data pointer and the vtable.
\<close>

subsection \<open>State and operations\<close>

datatype waker = Waker (waker_data: nat) (waker_vtable: nat)

definition will_wake :: "waker \<Rightarrow> waker \<Rightarrow> bool" where
  "will_wake a b \<longleftrightarrow> waker_data a = waker_data b \<and> waker_vtable a = waker_vtable b"

record readiness =
  changed :: bool
  waker_slot :: "waker option"

definition readiness_default :: readiness where
  "readiness_default = \<lparr>changed = False, waker_slot = None\<rparr>"

datatype poll = Ready | Pending

definition notify :: "readiness \<Rightarrow> waker option \<times> readiness" where
  "notify r = (waker_slot r, r\<lparr>changed := True, waker_slot := None\<rparr>)"

definition poll_readiness :: "readiness \<Rightarrow> waker \<Rightarrow> poll \<times> readiness" where
  "poll_readiness r cx =
     (if changed r then (Ready, r\<lparr>changed := False, waker_slot := None\<rparr>)
      else (Pending,
        if \<not> (case waker_slot r of None \<Rightarrow> False | Some w \<Rightarrow> will_wake w cx)
        then r\<lparr>waker_slot := Some cx\<rparr> else r))"

definition drop_readiness :: "readiness \<Rightarrow> readiness" where
  "drop_readiness r = r\<lparr>waker_slot := None\<rparr>"

subsection \<open>Executions\<close>

datatype activity = Notify | Poll waker
datatype observation = Woke "waker option" | Polled poll

fun activity_step :: "readiness \<Rightarrow> activity \<Rightarrow> observation \<times> readiness" where
  "activity_step r Notify = (let (w, r') = notify r in (Woke w, r'))"
| "activity_step r (Poll cx) = (let (p, r') = poll_readiness r cx in (Polled p, r'))"

fun run_activity :: "readiness \<Rightarrow> activity list \<Rightarrow> observation list \<times> readiness" where
  "run_activity r [] = ([], r)"
| "run_activity r (e # es) =
     (let (ob, r') = activity_step r e; (obs, r'') = run_activity r' es in (ob # obs, r''))"

text \<open>What the signal promises: idle, waiting with one registered waiter, or signalled.\<close>

datatype signal = Idle | Waiting waker | Signalled

fun signal_step :: "signal \<Rightarrow> activity \<Rightarrow> observation \<times> signal" where
  "signal_step (Waiting w) Notify = (Woke (Some w), Signalled)"
| "signal_step _ Notify = (Woke None, Signalled)"
| "signal_step Signalled (Poll cx) = (Polled Ready, Idle)"
| "signal_step _ (Poll cx) = (Polled Pending, Waiting cx)"

fun run_signal :: "signal \<Rightarrow> activity list \<Rightarrow> observation list \<times> signal" where
  "run_signal s [] = ([], s)"
| "run_signal s (e # es) =
     (let (ob, s') = signal_step s e; (obs, s'') = run_signal s' es in (ob # obs, s''))"

definition signal_of :: "readiness \<Rightarrow> signal" where
  "signal_of r =
     (if changed r then Signalled else case waker_slot r of None \<Rightarrow> Idle | Some w \<Rightarrow> Waiting w)"

definition readiness_inv :: "readiness \<Rightarrow> bool" where
  "readiness_inv r \<longleftrightarrow> (changed r \<longrightarrow> waker_slot r = None)"

subsection \<open>Lemmas\<close>

lemma will_wake_iff [simp]: "will_wake a b \<longleftrightarrow> a = b"
  by (cases a; cases b) (simp add: will_wake_def)

lemma readiness_default_inv [wf_intros]: "readiness_inv readiness_default"
  by (simp add: readiness_inv_def readiness_default_def)

lemma activity_step_refines:
  "readiness_inv r \<Longrightarrow>
     readiness_inv (snd (activity_step r e))
     \<and> signal_step (signal_of r) e =
         (fst (activity_step r e), signal_of (snd (activity_step r e)))"
  by (cases e) (auto simp: readiness_inv_def signal_of_def notify_def poll_readiness_def
      split: option.splits)

lemma run_activity_refines:
  "readiness_inv r \<Longrightarrow>
     readiness_inv (snd (run_activity r es))
     \<and> run_signal (signal_of r) es =
         (fst (run_activity r es), signal_of (snd (run_activity r es)))"
proof (induction es arbitrary: r)
  case Nil
  then show ?case by simp
next
  case (Cons e es)
  from activity_step_refines [OF Cons.prems, of e]
    Cons.IH [of "snd (activity_step r e)"]
  show ?case by (auto simp: Let_def split: prod.splits)
qed

lemma run_activity_append:
  "run_activity r (es @ es') =
     (let (obs, r') = run_activity r es; (obs', r'') = run_activity r' es'
      in (obs @ obs', r''))"
  by (induction es arbitrary: r) (auto simp: Let_def split: prod.splits)

fun is_wake :: "observation \<Rightarrow> bool" where
  "is_wake (Woke w) = (w \<noteq> None)"
| "is_wake (Polled p) = False"

definition wakes :: "observation list \<Rightarrow> nat" where
  "wakes obs = length (filter is_wake obs)"

definition pendings :: "observation list \<Rightarrow> nat" where
  "pendings obs = length (filter (\<lambda>ob. ob = Polled Pending) obs)"

definition armed :: "signal \<Rightarrow> nat" where
  "armed s = (case s of Waiting _ \<Rightarrow> 1 | _ \<Rightarrow> 0)"

lemma signal_step_balance:
  "wakes [fst (signal_step s e)] + armed (snd (signal_step s e))
     \<le> pendings [fst (signal_step s e)] + armed s"
  by (cases s; cases e) (auto simp: armed_def wakes_def pendings_def)

lemma counts_Cons:
  "wakes (ob # obs) = wakes [ob] + wakes obs"
  "pendings (ob # obs) = pendings [ob] + pendings obs"
  by (auto simp: wakes_def pendings_def)

lemma run_signal_balance:
  "wakes (fst (run_signal s es)) + armed (snd (run_signal s es))
     \<le> pendings (fst (run_signal s es)) + armed s"
proof (induction es arbitrary: s)
  case Nil
  then show ?case by (simp add: wakes_def pendings_def)
next
  case (Cons e es)
  obtain ob s' where step: "signal_step s e = (ob, s')" by fastforce
  from signal_step_balance [of s e] Cons.IH [of s'] step
    counts_Cons [of ob "fst (run_signal s' es)"]
  show ?case by (auto simp: Let_def split: prod.splits)
qed

subsection \<open>The interface its clients rely on\<close>

text \<open>
  Encoder callbacks raise the signal and the session polls it; all they rely on is that a
  raised signal makes the next poll ready, that polling a lowered signal registers the
  poller, and that raising it hands out the registered waker.
\<close>

locale level_signal =
  fixes raise :: "'s \<Rightarrow> 'w option \<times> 's"
    and observe :: "'s \<Rightarrow> 'w \<Rightarrow> poll \<times> 's"
    and raised :: "'s \<Rightarrow> bool"
    and waiter :: "'s \<Rightarrow> 'w option"
  assumes raise_raised: "raised (snd (raise s))"
    and raise_waiter: "fst (raise s) = waiter s"
    and observe_ready: "fst (observe s w) = (if raised s then Ready else Pending)"
    and observe_lowers: "\<not> raised (snd (observe s w))"
    and observe_registers: "\<not> raised s \<Longrightarrow> waiter (snd (observe s w)) = Some w"
begin

lemma raise_then_ready: "fst (observe (snd (raise s)) w) = Ready"
  by (simp add: observe_ready raise_raised)

lemma raises_coalesce:
  "fst (observe (snd (raise (snd (raise s)))) w) = Ready
   \<and> fst (observe (snd (observe (snd (raise (snd (raise s)))) w)) w) = Pending"
  by (simp add: observe_ready observe_lowers raise_raised)

lemma pending_is_woken:
  "fst (observe s w) = Pending \<Longrightarrow> fst (raise (snd (observe s w))) = Some w"
  by (simp add: observe_ready observe_registers raise_waiter split: if_splits)

end

interpretation rd: level_signal notify poll_readiness changed waker_slot
  by unfold_locales (auto simp: notify_def poll_readiness_def split: option.splits)

subsection \<open>Properties\<close>

text \<open>C26. Under every interleaving of notifications and polls, the mutex-protected flag
  and waker slot behave as the three-state signal (idle, waiting with one waiter,
  signalled): the same observations at every step, and the same final state.\<close>

theorem readiness_refines_signal:
  "run_signal Idle es =
     (fst (run_activity readiness_default es),
      signal_of (snd (run_activity readiness_default es)))"
proof -
  have "signal_of readiness_default = Idle"
    by (simp add: signal_of_def readiness_default_def)
  with run_activity_refines [OF readiness_default_inv, of es] show ?thesis by simp
qed

text \<open>No wake-up is lost: once a poll by \<open>cx\<close> has returned \<open>Pending\<close>, further polls
  by any tasks \<open>cxs\<close> stay \<open>Pending\<close>, the next notification wakes exactly the last poller,
  and the poll after it (by anyone) is \<open>Ready\<close>.\<close>

theorem readiness_no_lost_wakeup:
  assumes "poll_readiness r cx = (Pending, r')"
  shows "fst (run_activity r' (map Poll cxs @ [Notify, Poll other])) =
    replicate (length cxs) (Polled Pending) @ [Woke (Some (last (cx # cxs))), Polled Ready]"
proof -
  have "fst (run_activity q (map Poll cxs @ [Notify, Poll other])) =
      replicate (length cxs) (Polled Pending) @ [Woke (Some (last (cx # cxs))), Polled Ready]"
    if "\<not> changed q" "waker_slot q = Some cx" for q cx
    using that
  proof (induction cxs arbitrary: q cx)
    case Nil
    then show ?case by (simp add: notify_def poll_readiness_def)
  next
    case (Cons c cxs)
    obtain p q' where step: "poll_readiness q c = (p, q')" by fastforce
    with Cons.prems rd.observe_ready [of q c] rd.observe_lowers [of q c]
      rd.observe_registers [of q c]
    have "p = Pending" "\<not> changed q'" "waker_slot q' = Some c" by simp_all
    with Cons.IH [of q' c] step show ?case by (auto simp: Let_def split: prod.splits)
  qed
  moreover from assms have "\<not> changed r'" "waker_slot r' = Some cx"
    using rd.observe_lowers [of r cx] rd.observe_registers [of r cx] rd.observe_ready [of r cx]
    by (simp_all split: if_splits)
  ultimately show ?thesis by blast
qed

theorem readiness_no_lost_wakeup_witness:
  "fst (run_activity \<lparr>changed = False, waker_slot = Some (Waker 1 2)\<rparr>
       [Poll (Waker 5 6), Notify, Poll (Waker 3 4)]) =
     [Polled Pending, Woke (Some (Waker 5 6)), Polled Ready]"
  using readiness_no_lost_wakeup
    [of readiness_default "Waker 1 2" "\<lparr>changed = False, waker_slot = Some (Waker 1 2)\<rparr>"
       "[Waker 5 6]" "Waker 3 4"]
  by (simp add: readiness_default_def poll_readiness_def)

text \<open>Notifications coalesce: over any execution the executor's waker is invoked at
  most once per poll that returned \<open>Pending\<close>.\<close>

theorem readiness_wakes_bounded:
  "wakes (fst (run_activity readiness_default es))
     \<le> pendings (fst (run_activity readiness_default es))"
  using run_signal_balance [of Idle es] run_activity_refines [OF readiness_default_inv, of es]
  by (simp add: signal_of_def readiness_default_def armed_def)

end
