(* ===== verification/SourceFeedback.thy ===== *)
theory SourceFeedback
  imports Readiness CodecValues
begin

text \<open>
  Per-source feedback (\<open>SourceFeedback\<close> of \<open>src/encoded_video.rs\<close>) and the shared cells
  it lives in.  A source handle, the queued batches of the broker and the encoder adapter
  hold \<open>Arc\<close>s to the same feedback, drop counter and readiness objects, so these are
  cells of an explicit store, named by addresses.  Each operation is one critical section
  followed by its notification; the notification's waker calls are recorded in order.
  Tracing to standard error (\<open>trace_input\<close>) has no effect on the state and is left out.
\<close>

subsection \<open>The store\<close>

type_synonym addr = nat

record feedback =
  retired :: bool
  submitted :: u64
  keyframe_requested :: bool
  encoding_keyframes :: u8
  rates :: "video_rate_control option"
  encoder_error :: "codec_error option"
  fb_readiness :: "addr option"

record world =
  feedbacks :: "addr \<Rightarrow> feedback"
  droppeds :: "addr \<Rightarrow> u64"
  readinesses :: "addr \<Rightarrow> readiness"
  woken :: "waker list"
  next_addr :: addr

definition feedback_default :: "addr option \<Rightarrow> feedback" where
  "feedback_default readiness =
     \<lparr>retired = False, submitted = 0, keyframe_requested = False, encoding_keyframes = 0,
      rates = None, encoder_error = None, fb_readiness = readiness\<rparr>"

definition modify_feedback :: "addr \<Rightarrow> (feedback \<Rightarrow> feedback) \<Rightarrow> world \<Rightarrow> world" where
  "modify_feedback a f w = w\<lparr>feedbacks := (feedbacks w)(a := f (feedbacks w a))\<rparr>"

text \<open>\<open>dropped.fetch_add(n)\<close>: wrapping, as every atomic addition.\<close>

definition add_dropped :: "addr \<Rightarrow> nat \<Rightarrow> world \<Rightarrow> world" where
  "add_dropped a n w = w\<lparr>droppeds := (droppeds w)(a := droppeds w a + of_nat n)\<rparr>"

subsection \<open>Operations\<close>

definition fb_notify :: "addr \<Rightarrow> world \<Rightarrow> world" where
  "fb_notify a w =
     (case fb_readiness (feedbacks w a) of
        None \<Rightarrow> w
      | Some r \<Rightarrow>
          (let (waker, r') = notify (readinesses w r) in
           w\<lparr>readinesses := (readinesses w)(r := r'),
             woken := woken w @ (case waker of None \<Rightarrow> [] | Some k \<Rightarrow> [k])\<rparr>))"

definition fb_retire :: "addr \<Rightarrow> world \<Rightarrow> world" where
  "fb_retire a w = modify_feedback a (\<lambda>f. f\<lparr>retired := True\<rparr>) w"

text \<open>\<open>*previous != Some(rates)\<close> is the derived comparison of options.\<close>

definition rates_differ :: "video_rate_control option \<Rightarrow> video_rate_control \<Rightarrow> bool" where
  "rates_differ previous new =
     (case previous of None \<Rightarrow> True | Some old \<Rightarrow> \<not> rate_control_eq old new)"

definition fb_set_rates :: "addr \<Rightarrow> video_rate_control \<Rightarrow> world \<Rightarrow> world" where
  "fb_set_rates a new w =
     (if retired (feedbacks w a) then w
      else
        let differs = rates_differ (rates (feedbacks w a)) new;
            w' = modify_feedback a (\<lambda>f. f\<lparr>rates := Some new\<rparr>) w
        in if differs then fb_notify a w' else w')"

definition fb_request_keyframe :: "addr \<Rightarrow> world \<Rightarrow> world" where
  "fb_request_keyframe a w =
     (if retired (feedbacks w a) then w
      else
        let previous = keyframe_requested (feedbacks w a);
            w' = modify_feedback a (\<lambda>f. f\<lparr>keyframe_requested := True\<rparr>) w
        in if \<not> previous then fb_notify a w' else w')"

definition fb_request_encoding_keyframe :: "addr \<Rightarrow> nat \<Rightarrow> world \<Rightarrow> world" where
  "fb_request_encoding_keyframe a index w =
     (if retired (feedbacks w a) then w
      else
        let bit = push_bit index 1;
            differs = encoding_keyframes (feedbacks w a) AND bit = 0;
            w1 = modify_feedback a (\<lambda>f. f\<lparr>encoding_keyframes := encoding_keyframes f OR bit\<rparr>) w;
            w2 = fb_request_keyframe a w1
        in if differs then fb_notify a w2 else w2)"

definition fb_record_error :: "addr \<Rightarrow> codec_error \<Rightarrow> world \<Rightarrow> world" where
  "fb_record_error a e w = fb_notify a (modify_feedback a (\<lambda>f. f\<lparr>encoder_error := Some e\<rparr>) w)"

text \<open>The consuming reads of \<open>EncodedH264Source\<close>.\<close>

definition take_keyframe_request :: "addr \<Rightarrow> world \<Rightarrow> bool \<times> world" where
  "take_keyframe_request a w =
     (keyframe_requested (feedbacks w a),
      modify_feedback a (\<lambda>f. f\<lparr>keyframe_requested := False\<rparr>) w)"

definition take_encoding_keyframe_requests :: "addr \<Rightarrow> world \<Rightarrow> bool list \<times> world" where
  "take_encoding_keyframe_requests a w =
     (map (\<lambda>index. encoding_keyframes (feedbacks w a) AND push_bit index 1 \<noteq> 0) [0..<3],
      modify_feedback a (\<lambda>f. f\<lparr>encoding_keyframes := 0\<rparr>) w)"

definition latest_rate_control :: "addr \<Rightarrow> world \<Rightarrow> video_rate_control option" where
  "latest_rate_control a w = rates (feedbacks w a)"

definition take_encoder_error :: "addr \<Rightarrow> world \<Rightarrow> codec_error option \<times> world" where
  "take_encoder_error a w =
     (encoder_error (feedbacks w a), modify_feedback a (\<lambda>f. f\<lparr>encoder_error := None\<rparr>) w)"

subsection \<open>Frame lemmas\<close>

lemma modify_feedback_cells [simp]:
  "feedbacks (modify_feedback a f w) b = (if b = a then f (feedbacks w a) else feedbacks w b)"
  "droppeds (modify_feedback a f w) = droppeds w"
  "readinesses (modify_feedback a f w) = readinesses w"
  "woken (modify_feedback a f w) = woken w"
  "next_addr (modify_feedback a f w) = next_addr w"
  by (simp_all add: modify_feedback_def)

lemma add_dropped_cells [simp]:
  "feedbacks (add_dropped a n w) = feedbacks w"
  "droppeds (add_dropped a n w) b = (if b = a then droppeds w a + of_nat n else droppeds w b)"
  "readinesses (add_dropped a n w) = readinesses w"
  "woken (add_dropped a n w) = woken w"
  "next_addr (add_dropped a n w) = next_addr w"
  by (simp_all add: add_dropped_def)

lemma fb_notify_cells [simp]:
  "feedbacks (fb_notify a w) = feedbacks w"
  "droppeds (fb_notify a w) = droppeds w"
  "next_addr (fb_notify a w) = next_addr w"
  by (simp_all add: fb_notify_def Let_def split: option.splits prod.splits)

lemma fb_ops_droppeds [simp]:
  "droppeds (fb_retire a w) = droppeds w"
  "droppeds (fb_set_rates a r w) = droppeds w"
  "droppeds (fb_request_keyframe a w) = droppeds w"
  "droppeds (fb_request_encoding_keyframe a i w) = droppeds w"
  "droppeds (fb_record_error a e w) = droppeds w"
  by (simp_all add: fb_retire_def fb_set_rates_def fb_request_keyframe_def
      fb_request_encoding_keyframe_def fb_record_error_def Let_def)

lemma fb_ops_feedbacks [simp]:
  "feedbacks (fb_retire a w) b = (if b = a then (feedbacks w a)\<lparr>retired := True\<rparr> else feedbacks w b)"
  "feedbacks (fb_set_rates a r w) b =
     (if b = a \<and> \<not> retired (feedbacks w a) then (feedbacks w a)\<lparr>rates := Some r\<rparr>
      else feedbacks w b)"
  "feedbacks (fb_request_keyframe a w) b =
     (if b = a \<and> \<not> retired (feedbacks w a) then (feedbacks w a)\<lparr>keyframe_requested := True\<rparr>
      else feedbacks w b)"
  "feedbacks (fb_request_encoding_keyframe a i w) b =
     (if b = a \<and> \<not> retired (feedbacks w a)
      then (feedbacks w a)\<lparr>keyframe_requested := True,
        encoding_keyframes := encoding_keyframes (feedbacks w a) OR push_bit i 1\<rparr>
      else feedbacks w b)"
  "feedbacks (fb_record_error a e w) b =
     (if b = a then (feedbacks w a)\<lparr>encoder_error := Some e\<rparr> else feedbacks w b)"
  by (simp_all add: fb_retire_def fb_set_rates_def fb_request_keyframe_def
      fb_request_encoding_keyframe_def fb_record_error_def Let_def)

lemma fb_submitted [simp]:
  "submitted (feedbacks (fb_set_rates a r w) b) = submitted (feedbacks w b)"
  "submitted (feedbacks (fb_request_keyframe a w) b) = submitted (feedbacks w b)"
  "submitted (feedbacks (fb_request_encoding_keyframe a i w) b) = submitted (feedbacks w b)"
  "submitted (feedbacks (fb_record_error a e w) b) = submitted (feedbacks w b)"
  "submitted (feedbacks (fb_retire a w) b) = submitted (feedbacks w b)"
  by simp_all

subsection \<open>Properties\<close>

datatype feedback_op =
    SetRates video_rate_control
  | RequestKeyframe
  | RequestEncodingKeyframe nat
  | RecordError codec_error

fun feedback_step :: "addr \<Rightarrow> feedback_op \<Rightarrow> world \<Rightarrow> world" where
  "feedback_step a (SetRates r) = fb_set_rates a r"
| "feedback_step a RequestKeyframe = fb_request_keyframe a"
| "feedback_step a (RequestEncodingKeyframe i) = fb_request_encoding_keyframe a i"
| "feedback_step a (RecordError e) = fb_record_error a e"

text \<open>What a poller of the source can tell apart: everything but rates that are equal as
  the code compares them (the signs of a zero frame rate).\<close>

definition same_rates :: "video_rate_control option \<Rightarrow> video_rate_control option \<Rightarrow> bool" where
  "same_rates r s \<longleftrightarrow>
     r = s \<or> (case (r, s) of (Some a, Some b) \<Rightarrow> rate_control_eq a b | _ \<Rightarrow> False)"

definition same_feedback :: "feedback \<Rightarrow> feedback \<Rightarrow> bool" where
  "same_feedback f g \<longleftrightarrow>
     keyframe_requested f = keyframe_requested g \<and> encoding_keyframes f = encoding_keyframes g
     \<and> same_rates (rates f) (rates g) \<and> encoder_error f = encoder_error g"

definition raised :: "addr \<Rightarrow> world \<Rightarrow> bool" where
  "raised a w \<longleftrightarrow> (case fb_readiness (feedbacks w a) of
     None \<Rightarrow> False | Some r \<Rightarrow> changed (readinesses w r))"

lemma raised_iff: "fb_readiness (feedbacks w a) = Some r \<Longrightarrow> raised a w = changed (readinesses w r)"
  by (simp add: raised_def)

lemma fb_notify_raised:
  "fb_readiness (feedbacks w a) = Some r \<Longrightarrow> raised a (fb_notify a w)"
  using rd.raise_raised [of "readinesses w r"]
  by (auto simp: raised_def fb_notify_def Let_def split: prod.splits)

lemma or_bit_new:
  fixes m :: u8
  assumes "m OR push_bit i 1 \<noteq> m"
  shows "m AND push_bit i 1 = 0"
proof (rule bit_eqI)
  fix n
  from assms have "\<exists>k. bit (m OR push_bit i 1) k \<noteq> bit m k" by (metis bit_eqI)
  then have "\<not> bit m i" by (auto simp: bit_simps)
  then show "bit (m AND push_bit i 1) n = bit 0 n" by (auto simp: bit_simps)
qed

text \<open>Every feedback operation that changes what the source's owner can observe - a
  keyframe request, an encoding's bit, rates the code counts as different, a recorded
  error - leaves the source's readiness signal raised, so the owner's next poll is ready.\<close>

theorem feedback_changes_signalled:
  assumes "fb_readiness (feedbacks w a) = Some r"
    and "\<not> same_feedback (feedbacks w a) (feedbacks (feedback_step a op w) a)"
  shows "raised a (feedback_step a op w)"
proof (cases op)
  case (SetRates new)
  with assms have "\<not> retired (feedbacks w a)" "rates_differ (rates (feedbacks w a)) new"
    by (auto simp: same_feedback_def same_rates_def rates_differ_def split: option.splits if_splits)
  then show ?thesis
    using SetRates assms(1) by (auto simp: fb_set_rates_def Let_def intro!: fb_notify_raised)
next
  case RequestKeyframe
  with assms have "\<not> retired (feedbacks w a)" "\<not> keyframe_requested (feedbacks w a)"
    by (auto simp: same_feedback_def same_rates_def split: option.splits if_splits)
  then show ?thesis
    using RequestKeyframe assms(1)
    by (auto simp: fb_request_keyframe_def Let_def intro!: fb_notify_raised)
next
  case (RequestEncodingKeyframe i)
  let ?f = "feedbacks w a"
  from RequestEncodingKeyframe assms have live: "\<not> retired ?f"
    by (auto simp: same_feedback_def same_rates_def split: option.splits if_splits)
  show ?thesis
  proof (cases "encoding_keyframes ?f AND push_bit i 1 = 0")
    case True
    with live RequestEncodingKeyframe assms(1) show ?thesis
      by (auto simp: fb_request_encoding_keyframe_def Let_def intro!: fb_notify_raised)
  next
    case False
    then have "encoding_keyframes ?f OR push_bit i 1 = encoding_keyframes ?f"
      using or_bit_new by blast
    with live RequestEncodingKeyframe assms have "\<not> keyframe_requested ?f"
      by (auto simp: same_feedback_def same_rates_def split: option.splits if_splits)
    with live False RequestEncodingKeyframe assms(1) show ?thesis
      by (auto simp: fb_request_encoding_keyframe_def fb_request_keyframe_def Let_def
          intro!: fb_notify_raised)
  qed
next
  case (RecordError e)
  with assms(1) show ?thesis by (auto simp: fb_record_error_def intro!: fb_notify_raised)
qed

definition sample_world :: world where
  "sample_world =
     \<lparr>feedbacks = (\<lambda>_. feedback_default (Some 0)), droppeds = (\<lambda>_. 0),
      readinesses = (\<lambda>_. readiness_default), woken = [], next_addr = 1\<rparr>"

theorem feedback_changes_signalled_witness:
  "raised 7 (feedback_step 7 (RequestEncodingKeyframe 1) sample_world)"
  by (rule feedback_changes_signalled [where r = 0])
    (simp_all add: sample_world_def feedback_default_def same_feedback_def)

text \<open>The mask after a sequence of requests, bit by bit.\<close>

lemma requests_mask:
  assumes "\<not> retired (feedbacks w a)"
  shows "encoding_keyframes (feedbacks (fold (fb_request_encoding_keyframe a) is w) a)
      = fold (\<lambda>i m. m OR push_bit i 1) is (encoding_keyframes (feedbacks w a))
    \<and> \<not> retired (feedbacks (fold (fb_request_encoding_keyframe a) is w) a)
    \<and> keyframe_requested (feedbacks (fold (fb_request_encoding_keyframe a) is w) a)
      = (keyframe_requested (feedbacks w a) \<or> is \<noteq> [])"
  using assms by (induction "is" arbitrary: w) simp_all

lemma fold_or_bit:
  "bit (fold (\<lambda>i m. m OR push_bit i (1 :: u8)) is m) k \<longleftrightarrow> bit m k \<or> k < 8 \<and> k \<in> set is"
  by (induction "is" arbitrary: m) (auto simp: bit_simps)

lemma mask_bit: "(m :: u8) AND push_bit i 1 \<noteq> 0 \<longleftrightarrow> bit m i"
proof
  assume "bit m i"
  then have "bit (m AND push_bit i 1) i"
    using bit_imp_le_length [of m i] by (auto simp: bit_simps)
  then show "m AND push_bit i 1 \<noteq> 0" by auto
next
  assume "m AND push_bit i 1 \<noteq> 0"
  then obtain n where "bit (m AND push_bit i 1) n" using bit_eqI [of "m AND push_bit i 1" 0] by auto
  then show "bit m i" by (auto simp: bit_simps)
qed

lemma take_encoding_fst:
  "fst (take_encoding_keyframe_requests a w)
     = [bit (encoding_keyframes (feedbacks w a)) 0, bit (encoding_keyframes (feedbacks w a)) 1,
        bit (encoding_keyframes (feedbacks w a)) 2]"
proof -
  have three: "[0..<3] = [0, 1, 2]" by (simp add: upt_rec)
  show ?thesis
    unfolding take_encoding_keyframe_requests_def fst_conv mask_bit three by simp
qed

text \<open>No encoding's keyframe request is lost or invented: after native requests for the
  encodings \<open>is\<close> on a live source, in any order and multiplicity, the owner's next read
  reports exactly those and the ones pending before, raises the aggregate request when there
  was one, and a second read reports none.\<close>

theorem encoding_requests_reported:
  assumes "\<not> retired (feedbacks w a)"
    and "w' = fold (fb_request_encoding_keyframe a) is w"
  shows "fst (take_encoding_keyframe_requests a w') =
      map (\<lambda>i. bit (encoding_keyframes (feedbacks w a)) i \<or> i \<in> set is) [0, 1, 2]
    \<and> keyframe_requested (feedbacks w' a) = (keyframe_requested (feedbacks w a) \<or> is \<noteq> [])
    \<and> fst (take_encoding_keyframe_requests a (snd (take_encoding_keyframe_requests a w')))
      = [False, False, False]"
proof -
  have cleared: "encoding_keyframes (feedbacks (snd (take_encoding_keyframe_requests a u)) a) = 0"
    for u by (simp add: take_encoding_keyframe_requests_def)
  note masks = requests_mask [OF assms(1), of "is"]
  then have "bit (encoding_keyframes (feedbacks w' a)) i
      \<longleftrightarrow> bit (encoding_keyframes (feedbacks w a)) i \<or> i \<in> set is" if "i < 8" for i
    using that fold_or_bit [of "is"] assms(2) by simp
  with masks assms(2) cleared [of w'] show ?thesis by (simp add: take_encoding_fst)
qed

theorem encoding_requests_reported_witness:
  "fst (take_encoding_keyframe_requests 7
      (fold (fb_request_encoding_keyframe 7) [2, 0, 2] sample_world)) = [True, False, True]"
  using encoding_requests_reported [of sample_world 7 _ "[2, 0, 2]", OF _ refl]
  by (simp add: sample_world_def feedback_default_def)

end
