(* ===== verification/Broker.thy ===== *)
theory Broker
  imports Bitstream SourceFeedback
begin

text \<open>
  The bounded broker of \<open>src/encoded_video.rs\<close> between the sources that submit encoded
  access units and the encoder adapter that the engine calls: \<open>Pending\<close> batches under
  presentation tokens, at most 16 of them and 8 MiB of payload, oldest evicted first.  The
  hash map is an association list with distinct keys; the broker's mutex is held for each
  operation, so an operation is one step.  A batch refers to the cells of its source by
  address.
\<close>

subsection \<open>Batches\<close>

record pending_batch =
  source_id :: u64
  sequence :: u64
  pb_dropped :: addr
  pb_feedback :: addr
  frames :: "access_unit list"

definition units_size :: "access_unit list \<Rightarrow> nat" where
  "units_size fs = sum_list (map (length \<circ> au_data) fs)"

fun decodable_units ::
  "pending_batch \<Rightarrow> bool list \<Rightarrow> bool list \<Rightarrow> world \<Rightarrow> bool list \<times> world" where
  "decodable_units p previous selected w =
     fold (\<lambda>(index, unit) (out, w).
        let decodable = selected ! index \<and> (au_key_frame unit \<or> previous ! index);
            w' = (if selected ! index \<and> \<not> decodable
                  then fb_request_encoding_keyframe (pb_feedback p) index w else w)
        in (out @ [decodable], w'))
      (enumerate 0 (frames p)) ([], w)"

definition reject :: "pending_batch \<Rightarrow> codec_error \<Rightarrow> world \<Rightarrow> codec_error \<times> world" where
  "reject p e w =
     (e, fb_record_error (pb_feedback p) e (add_dropped (pb_dropped p) (length (frames p)) w))"

text \<open>\<open>frame_types.get(index) == Some(&Key)\<close>: out of range is no request.\<close>

definition requested_key :: "video_frame_type list \<Rightarrow> nat \<Rightarrow> bool" where
  "requested_key frame_types index \<longleftrightarrow>
     index < length frame_types \<and> frame_types ! index = Key"

definition check_keyframe_requests ::
  "pending_batch \<Rightarrow> video_frame_type list \<Rightarrow> bool list \<Rightarrow> world
     \<Rightarrow> (codec_error, unit) result \<times> world" where
  "check_keyframe_requests p frame_types selected w =
     (let (missing, w') =
        fold (\<lambda>(index, unit) (missing, w).
          if requested_key frame_types index
          then (missing \<or> \<not> au_key_frame unit, fb_request_encoding_keyframe (pb_feedback p) index w)
          else (missing, w))
        (filter (\<lambda>(index, unit). selected ! index) (enumerate 0 (frames p))) (False, w)
      in if missing then (let (e, w'') = reject p InvalidFrame w' in (Inl e, w''))
         else (Inr (), w'))"

subsection \<open>The broker\<close>

record broker =
  next_token :: i64
  next_source :: u64
  bytes_held :: nat
  pending :: "(i64 \<times> pending_batch) list"
  order :: "i64 list"

definition broker_default :: broker where
  "broker_default =
     \<lparr>next_token = 0, next_source = 0, bytes_held = 0, pending = [], order = []\<rparr>"

definition over_budget :: "nat \<Rightarrow> broker \<Rightarrow> bool" where
  "over_budget sz b \<longleftrightarrow>
     MAX_PENDING \<le> length (pending b) \<or> MAX_PENDING_BYTES - sz < bytes_held b"

text \<open>One turn of the eviction loop, for the popped token.\<close>

definition evict_one :: "i64 \<Rightarrow> broker \<Rightarrow> world \<Rightarrow> broker \<times> world" where
  "evict_one old b w =
     (case map_of (pending b) old of
        None \<Rightarrow> (b, w)
      | Some previous \<Rightarrow>
          (b\<lparr>pending := AList.delete old (pending b),
             bytes_held := bytes_held b - units_size (frames previous)\<rparr>,
           add_dropped (pb_dropped previous) (length (frames previous)) w))"

function evict ::
  "nat \<Rightarrow> broker \<Rightarrow> world \<Rightarrow> (codec_error, unit) result \<times> broker \<times> world" where
  "evict sz b w =
     (if over_budget sz b then
        (case order b of
           [] \<Rightarrow> (Inl InvalidFrame, b, w)
         | old # rest \<Rightarrow>
             (let (b', w') = evict_one old (b\<lparr>order := rest\<rparr>) w in evict sz b' w'))
      else (Inr (), b, w))"
  by pat_completeness auto

lemma evict_one_order [simp]: "order (fst (evict_one old b w)) = order b"
  by (simp add: evict_one_def split: option.splits)

lemma evict_one_order' [simp]: "evict_one old b w = (b', w') \<Longrightarrow> order b' = order b"
  using evict_one_order [of old b w] by simp

termination evict
  by (relation "measure (\<lambda>(sz, b, w). length (order b))")
    (auto dest!: sym [of "(_, _)"])

declare evict.simps [simp del]

definition broker_insert ::
  "u64 \<Rightarrow> addr \<Rightarrow> addr \<Rightarrow> access_unit list \<Rightarrow> broker \<Rightarrow> world
     \<Rightarrow> (codec_error, i64) result \<times> broker \<times> world" where
  "broker_insert source dropped fb fs b w =
     (let sz = units_size fs in
      if MAX_PENDING_BYTES < sz \<or> next_token b = word_of_int i64_max then (Inl InvalidFrame, b, w)
      else
        (case evict sz b w of
           (Inl e, b, w) \<Rightarrow> (Inl e, b, w)
         | (Inr _, b, w) \<Rightarrow>
             (case u64_checked_succ (submitted (feedbacks w fb)) of
                None \<Rightarrow> (Inl InvalidFrame, b, w)
              | Some next \<Rightarrow>
                  (let seq = submitted (feedbacks w fb);
                       w = modify_feedback fb (\<lambda>f. f\<lparr>submitted := next\<rparr>) w;
                       token = next_token b + 1;
                       batch = \<lparr>source_id = source, sequence = seq, pb_dropped = dropped,
                                pb_feedback = fb, frames = fs\<rparr>
                   in (Inr token,
                       b\<lparr>next_token := token, bytes_held := bytes_held b + sz,
                         order := order b @ [token],
                         pending := AList.update token batch (pending b)\<rparr>,
                       w)))))"

definition broker_take :: "i64 \<Rightarrow> broker \<Rightarrow> pending_batch option \<times> broker" where
  "broker_take token b =
     (case map_of (pending b) token of
        None \<Rightarrow> (None, b)
      | Some p \<Rightarrow>
          (Some p,
           b\<lparr>pending := AList.delete token (pending b),
             bytes_held := bytes_held b - units_size (frames p),
             order := filter (\<lambda>queued. queued \<noteq> token) (order b)\<rparr>))"

definition remove_source :: "u64 \<Rightarrow> broker \<Rightarrow> broker" where
  "remove_source source b =
     (let tokens = map fst (filter (\<lambda>(token, p). source_id p = source) (pending b))
      in fold (\<lambda>token b. snd (broker_take token b)) tokens b)"

subsection \<open>Invariant and abstract queue\<close>

definition batch_size :: "pending_batch \<Rightarrow> nat" where
  "batch_size p = units_size (frames p)"

text \<open>Keys, order and byte count agree, and tokens are issued upwards.\<close>

definition broker_core :: "broker \<Rightarrow> bool" where
  "broker_core b \<longleftrightarrow>
     distinct (keys (pending b)) \<and> set (order b) = set (keys (pending b))
     \<and> sorted_wrt (\<lambda>s t. sint s < sint t) (order b)
     \<and> bytes_held b = entry_sum batch_size (pending b)
     \<and> 0 \<le> sint (next_token b)
     \<and> (\<forall>t \<in> set (order b). 0 < sint t \<and> sint t \<le> sint (next_token b))"

definition broker_inv :: "broker \<Rightarrow> bool" where
  "broker_inv b \<longleftrightarrow>
     broker_core b \<and> length (pending b) \<le> MAX_PENDING \<and> bytes_held b \<le> MAX_PENDING_BYTES"

definition held :: "broker \<Rightarrow> i64 \<Rightarrow> pending_batch option" where
  "held b t = map_of (pending b) t"

definition queue :: "broker \<Rightarrow> (i64 \<times> pending_batch) list" where
  "queue b = map (\<lambda>t. (t, the (held b t))) (order b)"

definition queue_bytes :: "(i64 \<times> pending_batch) list \<Rightarrow> nat" where
  "queue_bytes q = sum_list (map (batch_size \<circ> snd) q)"

definition fits :: "nat \<Rightarrow> (i64 \<times> pending_batch) list \<Rightarrow> bool" where
  "fits sz q \<longleftrightarrow> length q < MAX_PENDING \<and> queue_bytes q + sz \<le> MAX_PENDING_BYTES"

text \<open>Drop from the front until the new batch fits.\<close>

fun keep_newest :: "nat \<Rightarrow> (i64 \<times> pending_batch) list \<Rightarrow> (i64 \<times> pending_batch) list" where
  "keep_newest sz [] = []"
| "keep_newest sz (x # q) = (if fits sz (x # q) then x # q else keep_newest sz q)"

definition evicted :: "nat \<Rightarrow> (i64 \<times> pending_batch) list \<Rightarrow> (i64 \<times> pending_batch) list" where
  "evicted sz q = take (length q - length (keep_newest sz q)) q"

definition count_dropped :: "(i64 \<times> pending_batch) list \<Rightarrow> world \<Rightarrow> world" where
  "count_dropped q = fold (\<lambda>(t, p). add_dropped (pb_dropped p) (length (frames p))) q"

lemma sorted_distinct: "sorted_wrt (\<lambda>s t. sint s < sint t) (ts :: i64 list) \<Longrightarrow> distinct ts"
  by (induction ts) auto

lemma core_distinct: "broker_core b \<Longrightarrow> distinct (order b)"
  by (simp add: broker_core_def sorted_distinct)

lemma entry_sum_keys:
  "distinct (keys al) \<Longrightarrow> entry_sum f al = (\<Sum>k \<in> set (keys al). f (the (map_of al k)))"
proof (induction al)
  case Nil
  then show ?case by simp
next
  case (Cons kv al)
  then have "map_of (kv # al) k = map_of al k" if "k \<in> set (keys al)" for k
    using that by (cases kv) auto
  then have "(\<Sum>k \<in> set (keys al). f (the (map_of (kv # al) k)))
      = (\<Sum>k \<in> set (keys al). f (the (map_of al k)))"
    by (intro sum.cong refl) simp
  with Cons show ?case by (cases kv) (auto simp del: set_map)
qed

lemma queue_bytes_core: "broker_core b \<Longrightarrow> queue_bytes (queue b) = bytes_held b"
proof -
  assume core: "broker_core b"
  have "queue_bytes (queue b) = sum_list (map (\<lambda>t. batch_size (the (held b t))) (order b))"
    by (simp add: queue_bytes_def queue_def comp_def)
  also have "\<dots> = (\<Sum>t \<in> set (order b). batch_size (the (held b t)))"
    using core_distinct [OF core] by (rule sum_list_distinct_conv_sum_set)
  also have "\<dots> = bytes_held b"
    using core entry_sum_keys [of "pending b" batch_size] by (simp add: broker_core_def held_def)
  finally show ?thesis .
qed

lemma queue_length_core: "broker_core b \<Longrightarrow> length (queue b) = length (pending b)"
  using distinct_card [OF core_distinct] distinct_card [of "keys (pending b)"]
  by (simp add: queue_def broker_core_def)

lemma over_budget_iff:
  "broker_core b \<Longrightarrow> sz \<le> MAX_PENDING_BYTES \<Longrightarrow> over_budget sz b \<longleftrightarrow> \<not> fits sz (queue b)"
  using queue_bytes_core [of b] queue_length_core [of b]
  by (auto simp: over_budget_def fits_def)

lemma queue_fst [simp]: "map fst (queue b) = order b"
  by (simp add: queue_def comp_def)

lemma held_iff: "broker_core b \<Longrightarrow> held b t \<noteq> None \<longleftrightarrow> t \<in> set (order b)"
  using map_of_eq_None_iff [of "pending b" t] by (auto simp: broker_core_def held_def)

lemma queue_map_of: "broker_core b \<Longrightarrow> map_of (queue b) t = held b t"
proof -
  assume core: "broker_core b"
  have "map_of (map (\<lambda>t. (t, f t)) ts) t = (if t \<in> set ts then Some (f t) else None)"
    for f :: "i64 \<Rightarrow> pending_batch" and ts
    by (induction ts) auto
  with held_iff [OF core, of t] show ?thesis by (auto simp: queue_def)
qed

text \<open>Dropping one key.\<close>

definition drop_token :: "i64 \<Rightarrow> broker \<Rightarrow> broker" where
  "drop_token t b = snd (broker_take t b)"

lemma drop_token_core:
  assumes "broker_core b"
  shows "broker_core (drop_token t b)"
    and "order (drop_token t b) = filter (\<lambda>u. u \<noteq> t) (order b)"
    and "held (drop_token t b) = (held b)(t := None)"
    and "next_token (drop_token t b) = next_token b" "next_source (drop_token t b) = next_source b"
proof -
  note inv = assms [unfolded broker_core_def]
  show order: "order (drop_token t b) = filter (\<lambda>u. u \<noteq> t) (order b)"
    using inv map_of_in_keys [of t "pending b"]
    by (auto simp: drop_token_def broker_take_def intro!: filter_id_conv [THEN iffD2, symmetric]
        split: option.splits)
  show held: "held (drop_token t b) = (held b)(t := None)"
    by (auto simp: held_def drop_token_def broker_take_def delete_conv' split: option.splits)
  show "next_token (drop_token t b) = next_token b" "next_source (drop_token t b) = next_source b"
    by (auto simp: drop_token_def broker_take_def split: option.splits)
  show "broker_core (drop_token t b)"
  proof (cases "map_of (pending b) t")
    case None
    with assms show ?thesis by (simp add: drop_token_def broker_take_def)
  next
    case (Some p)
    then have "bytes_held b - units_size (frames p) = entry_sum batch_size (AList.delete t (pending b))"
      using inv entry_sum_delete [of "pending b" t p batch_size] by (simp add: batch_size_def)
    then show ?thesis
      using inv Some order
      by (auto simp: broker_core_def drop_token_def broker_take_def distinct_removeAll delete_keys
          sorted_wrt_filter)
  qed
qed


lemma evict_one_drop:
  assumes "broker_core b" "order b = old # rest"
  shows "evict_one old (b\<lparr>order := rest\<rparr>) w
    = (drop_token old b, count_dropped [(old, the (held b old))] w)"
proof -
  from core_distinct [OF assms(1)] assms(2)
  have rest: "filter (\<lambda>u. u \<noteq> old) (order b) = rest" by (auto simp: filter_id_conv)
  from held_iff [OF assms(1), of old] assms(2) obtain p where "map_of (pending b) old = Some p"
    by (auto simp: held_def)
  with rest show ?thesis
    by (simp add: evict_one_def drop_token_def broker_take_def held_def count_dropped_def)
qed

lemma queue_drop_head:
  assumes "broker_core b" "order b = old # rest"
  shows "queue (drop_token old b) = tl (queue b)"
proof -
  from core_distinct [OF assms(1)] assms(2)
  have "filter (\<lambda>u. u \<noteq> old) (order b) = rest" "old \<notin> set rest"
    by (auto simp: filter_id_conv)
  with drop_token_core [OF assms(1), of old] assms(2) show ?thesis
    by (auto simp: queue_def)
qed

lemma keep_newest_suffix: "length (keep_newest sz q) \<le> length q"
  by (induction q) auto

lemma evicted_Cons:
  "evicted sz (x # q) = (if fits sz (x # q) then [] else x # evicted sz q)"
  using keep_newest_suffix [of sz q] by (simp add: evicted_def Suc_diff_le)

lemma evict_correct:
  assumes "broker_core b" "sz \<le> MAX_PENDING_BYTES"
  shows "\<exists>b'. evict sz b w = (Inr (), b', count_dropped (evicted sz (queue b)) w)
    \<and> broker_core b' \<and> queue b' = keep_newest sz (queue b) \<and> fits sz (queue b')
    \<and> next_token b' = next_token b \<and> next_source b' = next_source b"
  using assms
proof (induction sz b w rule: evict.induct)
  case (1 sz b w)
  note core = "1.prems"(1)
  show ?case
  proof (cases "over_budget sz b")
    case False
    with over_budget_iff [OF "1.prems"] have "fits sz (queue b)" by simp
    then have "keep_newest sz (queue b) = queue b" by (cases "queue b") auto
    with False core \<open>fits sz (queue b)\<close> show ?thesis
      by (subst evict.simps) (simp add: evicted_def count_dropped_def)
  next
    case True
    then have nofit: "\<not> fits sz (queue b)" using over_budget_iff [OF "1.prems"] by simp
    have "order b \<noteq> []"
    proof
      assume "order b = []"
      with nofit "1.prems"(2) show False
        by (simp add: queue_def fits_def queue_bytes_def MAX_PENDING_def)
    qed
    then obtain old rest where order: "order b = old # rest" by (cases "order b") auto
    then have q: "queue b = (old, the (held b old)) # tl (queue b)" by (simp add: queue_def)
    note step = evict_one_drop [OF core order]
    from "1.IH" [OF True order step [symmetric] refl drop_token_core(1) [OF core] "1.prems"(2)]
    obtain b' where b':
      "evict sz (drop_token old b) (count_dropped [(old, the (held b old))] w)
         = (Inr (), b', count_dropped (evicted sz (tl (queue b)))
              (count_dropped [(old, the (held b old))] w))"
      "broker_core b'" "queue b' = keep_newest sz (tl (queue b))" "fits sz (queue b')"
      "next_token b' = next_token b" "next_source b' = next_source b"
      using queue_drop_head [OF core order] drop_token_core(4,5) [OF core, of old] by auto
    have "evict sz b w = evict sz (drop_token old b) (count_dropped [(old, the (held b old))] w)"
      using True order step by (subst evict.simps) simp
    moreover have "keep_newest sz (queue b) = keep_newest sz (tl (queue b))"
      using nofit q by (metis keep_newest.simps(2))
    moreover have "evicted sz (queue b) = (old, the (held b old)) # evicted sz (tl (queue b))"
      using nofit q evicted_Cons by metis
    ultimately show ?thesis using b' by (auto simp: count_dropped_def)
  qed
qed

definition new_batch ::
  "u64 \<Rightarrow> addr \<Rightarrow> addr \<Rightarrow> access_unit list \<Rightarrow> world \<Rightarrow> pending_batch" where
  "new_batch source dropped fb fs w =
     \<lparr>source_id = source, sequence = submitted (feedbacks w fb), pb_dropped = dropped,
      pb_feedback = fb, frames = fs\<rparr>"

definition insert_refused :: "addr \<Rightarrow> access_unit list \<Rightarrow> broker \<Rightarrow> world \<Rightarrow> bool" where
  "insert_refused fb fs b w \<longleftrightarrow>
     MAX_PENDING_BYTES < units_size fs \<or> next_token b = word_of_int i64_max
     \<or> submitted (feedbacks w fb) = u64_max"

lemma count_dropped_feedbacks [simp]: "feedbacks (count_dropped q w) = feedbacks w"
  by (induction q arbitrary: w) (auto simp: count_dropped_def)

lemma next_token_below:
  assumes "next_token b \<noteq> word_of_int i64_max"
  shows "sint (next_token b + 1) = sint (next_token b) + 1"
proof -
  have "sint (next_token b) \<noteq> i64_max"
  proof
    assume "sint (next_token b) = i64_max"
    then have "sint (next_token b) = sint (word_of_int i64_max :: i64)" by simp
    then have "next_token b = word_of_int i64_max" by (rule signed_word_eqI)
    with assms show False by simp
  qed
  then have "sint (next_token b) + 1 \<le> i64_max" using sint_range_i64(2) [of "next_token b"] by linarith
  then have "sint (word_of_int (sint (next_token b) + 1) :: i64) = sint (next_token b) + 1"
    using sint_range_i64(1) [of "next_token b"] by (intro sint_of_int_i64) linarith+
  then show ?thesis by (simp add: wi_hom_syms(1))
qed

lemma append_batch_core:
  assumes "broker_core b" "next_token b \<noteq> word_of_int i64_max"
    and "b' = b\<lparr>next_token := next_token b + 1, bytes_held := bytes_held b + batch_size p,
        order := order b @ [next_token b + 1],
        pending := AList.update (next_token b + 1) p (pending b)\<rparr>"
  shows "broker_core b'" "queue b' = queue b @ [(next_token b + 1, p)]"
    "held b' = (held b)(next_token b + 1 \<mapsto> p)" "next_token b + 1 \<notin> set (order b)"
proof -
  let ?t = "next_token b + 1"
  note inv = assms(1) [unfolded broker_core_def] and succ = next_token_below [OF assms(2)]
  show fresh: "?t \<notin> set (order b)" using inv succ by force
  then have fresh': "?t \<notin> set (keys (pending b))" using inv by simp
  from fresh' show held: "held b' = (held b)(?t \<mapsto> p)"
    by (intro ext) (simp add: assms(3) held_def update_conv')
  show "queue b' = queue b @ [(?t, p)]"
    using fresh held by (auto simp: queue_def assms(3))
  from inv succ have positive: "0 < sint ?t"
    and sorted: "sorted_wrt (\<lambda>s t. sint s < sint t) (order b)" by simp_all
  have old: "0 < sint t" "sint t < sint ?t" if "t \<in> set (order b)" for t
    using inv succ that by force+
  have "\<forall>t \<in> set (order b'). 0 < sint t \<and> sint t \<le> sint (next_token b')"
    "sorted_wrt (\<lambda>s t. sint s < sint t) (order b')"
    using old positive sorted by (auto simp: assms(3) sorted_wrt_append dest: less_imp_le)
  with inv succ fresh' show "broker_core b'"
    unfolding broker_core_def by (simp add: assms(3) update_fresh)
qed

definition with_batch :: "pending_batch \<Rightarrow> broker \<Rightarrow> broker" where
  "with_batch p b = b\<lparr>next_token := next_token b + 1, bytes_held := bytes_held b + batch_size p,
     order := order b @ [next_token b + 1],
     pending := AList.update (next_token b + 1) p (pending b)\<rparr>"

lemma broker_insert_early:
  "MAX_PENDING_BYTES < units_size fs \<or> next_token b = word_of_int i64_max \<Longrightarrow>
     broker_insert source dropped fb fs b w = (Inl InvalidFrame, b, w)"
  by (auto simp: broker_insert_def)

lemma broker_insert_late:
  assumes "broker_core b" "units_size fs \<le> MAX_PENDING_BYTES" "next_token b \<noteq> word_of_int i64_max"
  obtains b1 w1 where "broker_core b1" "queue b1 = keep_newest (units_size fs) (queue b)"
    "fits (units_size fs) (queue b1)"
    "next_token b1 = next_token b" "next_source b1 = next_source b"
    "w1 = count_dropped (evicted (units_size fs) (queue b)) w"
    "broker_insert source dropped fb fs b w =
       (case u64_checked_succ (submitted (feedbacks w fb)) of
          None \<Rightarrow> (Inl InvalidFrame, b1, w1)
        | Some n \<Rightarrow> (Inr (next_token b + 1), with_batch (new_batch source dropped fb fs w) b1,
            modify_feedback fb (\<lambda>f. f\<lparr>submitted := n\<rparr>) w1))"
proof -
  from evict_correct [OF assms(1,2), of w] obtain b1 where b1:
    "evict (units_size fs) b w = (Inr (), b1, count_dropped (evicted (units_size fs) (queue b)) w)"
    "broker_core b1" "queue b1 = keep_newest (units_size fs) (queue b)"
    "fits (units_size fs) (queue b1)" "next_token b1 = next_token b" "next_source b1 = next_source b"
    by blast
  have "broker_insert source dropped fb fs b w =
       (case u64_checked_succ (submitted (feedbacks w fb)) of
          None \<Rightarrow> (Inl InvalidFrame, b1, count_dropped (evicted (units_size fs) (queue b)) w)
        | Some n \<Rightarrow> (Inr (next_token b + 1), with_batch (new_batch source dropped fb fs w) b1,
            modify_feedback fb (\<lambda>f. f\<lparr>submitted := n\<rparr>)
              (count_dropped (evicted (units_size fs) (queue b)) w)))"
    using b1 assms(2,3)
    by (simp add: broker_insert_def new_batch_def with_batch_def batch_size_def Let_def
        split: option.splits)
  with b1 show thesis by (blast intro: that)
qed

lemma with_batch_core:
  assumes "broker_core b" "next_token b \<noteq> word_of_int i64_max"
  shows "broker_core (with_batch p b)" "queue (with_batch p b) = queue b @ [(next_token b + 1, p)]"
    "held (with_batch p b) = (held b)(next_token b + 1 \<mapsto> p)"
  using append_batch_core(1-3) [OF assms refl, where p = p] by (simp_all add: with_batch_def)

lemma inv_fits: "broker_core b \<Longrightarrow> fits sz (queue b) \<Longrightarrow> broker_inv b"
  using queue_bytes_core [of b] queue_length_core [of b] by (simp add: broker_inv_def fits_def)

lemma with_batch_inv:
  assumes "broker_core b" "next_token b \<noteq> word_of_int i64_max" "fits (batch_size p) (queue b)"
  shows "broker_inv (with_batch p b)"
  using with_batch_core [OF assms(1,2), of p] queue_bytes_core [of "with_batch p b"]
    queue_length_core [of "with_batch p b"] assms(3)
  by (simp add: broker_inv_def fits_def queue_bytes_def)

lemma broker_insert_inv [wf_intros]:
  assumes "broker_inv b"
  shows "broker_inv (fst (snd (broker_insert source dropped fb fs b w)))"
proof (cases "MAX_PENDING_BYTES < units_size fs \<or> next_token b = word_of_int i64_max")
  case True
  with assms show ?thesis by (simp add: broker_insert_early)
next
  case False
  with assms have ok: "broker_core b" "units_size fs \<le> MAX_PENDING_BYTES"
    "next_token b \<noteq> word_of_int i64_max" by (simp_all add: broker_inv_def)
  show ?thesis
  proof (rule broker_insert_late [OF ok, of w source dropped fb])
    fix b1 w1
    assume b1: "broker_core b1" "fits (units_size fs) (queue b1)" "next_token b1 = next_token b"
      "broker_insert source dropped fb fs b w =
         (case u64_checked_succ (submitted (feedbacks w fb)) of
            None \<Rightarrow> (Inl InvalidFrame, b1, w1)
          | Some n \<Rightarrow> (Inr (next_token b + 1), with_batch (new_batch source dropped fb fs w) b1,
              modify_feedback fb (\<lambda>f. f\<lparr>submitted := n\<rparr>) w1))"
    have "batch_size (new_batch source dropped fb fs w) = units_size fs"
      by (simp add: batch_size_def new_batch_def)
    with b1 ok inv_fits [OF b1(1,2)] with_batch_inv [OF b1(1)] show ?thesis
      by (simp split: option.splits)
  qed
qed

lemma drop_token_inv [wf_intros]: "broker_inv b \<Longrightarrow> broker_inv (drop_token t b)"
proof -
  assume inv: "broker_inv b"
  then have core: "broker_core b" by (simp add: broker_inv_def)
  have "length (pending (drop_token t b)) \<le> length (pending b)"
    "bytes_held (drop_token t b) \<le> bytes_held b"
    using length_delete_le [of t "pending b"]
    by (auto simp: drop_token_def broker_take_def split: option.splits)
  with inv drop_token_core(1) [OF core, of t] show ?thesis by (simp add: broker_inv_def)
qed

lemma remove_source_fold:
  "remove_source s b = fold drop_token (map fst (filter (\<lambda>(t, p). source_id p = s) (pending b))) b"
  by (simp add: remove_source_def drop_token_def [abs_def])

lemma fold_drop_inv: "broker_inv b \<Longrightarrow> broker_inv (fold drop_token ts b)"
  by (induction ts arbitrary: b) (auto intro: wf_intros)

lemma remove_source_inv [wf_intros]: "broker_inv b \<Longrightarrow> broker_inv (remove_source s b)"
  by (simp add: remove_source_fold fold_drop_inv)

lemma fold_drop_next:
  "broker_core b \<Longrightarrow> next_token (fold drop_token ts b) = next_token b"
  by (induction ts arbitrary: b) (simp_all add: drop_token_core)

lemma queue_drop_token:
  assumes "broker_core b"
  shows "queue (drop_token t b) = filter (\<lambda>(u, p). u \<noteq> t) (queue b)"
  using drop_token_core(2,3) [OF assms, of t] by (simp add: queue_def filter_map comp_def)

lemma fold_drop_queue:
  "broker_core b \<Longrightarrow> broker_core (fold drop_token ts b)
     \<and> queue (fold drop_token ts b) = filter (\<lambda>(u, p). u \<notin> set ts) (queue b)"
proof (induction ts arbitrary: b)
  case Nil
  then show ?case by simp
next
  case (Cons t ts)
  with drop_token_core(1) [OF Cons.prems, of t] queue_drop_token [OF Cons.prems, of t]
  show ?case by (auto simp: filter_filter intro!: filter_cong)
qed

lemma remove_source_queue:
  assumes "broker_core b"
  shows "queue (remove_source s b) = filter (\<lambda>(t, p). source_id p \<noteq> s) (queue b)"
proof -
  have al: "distinct (keys (pending b))" using assms by (simp add: broker_core_def)
  let ?ts = "map fst (filter (\<lambda>(t, p). source_id p = s) (pending b))"
  have "t \<in> set ?ts \<longleftrightarrow> source_id p = s" if "(t, p) \<in> set (queue b)" for t p
  proof -
    from that have "t \<in> set (order b)" "p = the (held b t)" by (auto simp: queue_def)
    with held_iff [OF assms, of t] have "map_of (pending b) t = Some p" by (auto simp: held_def)
    with al show ?thesis by (force simp: map_of_eq_Some_iff [OF al] dest: eq_key_imp_eq_value)
  qed
  with fold_drop_queue [OF assms, of ?ts] show ?thesis
    by (auto simp: remove_source_fold intro!: filter_cong)
qed


subsection \<open>Executions\<close>

datatype broker_op =
    Insert u64 addr addr "access_unit list"
  | Take i64
  | RemoveSource u64

fun broker_step :: "broker_op \<Rightarrow> broker \<times> world \<Rightarrow> broker \<times> world" where
  "broker_step (Insert s d fb fs) (b, w) = snd (broker_insert s d fb fs b w)"
| "broker_step (Take t) (b, w) = (snd (broker_take t b), w)"
| "broker_step (RemoveSource s) (b, w) = (remove_source s b, w)"

lemma take_is_drop: "snd (broker_take t b) = drop_token t b"
  by (simp add: drop_token_def)

lemma broker_step_inv [wf_intros]: "broker_inv (fst s) \<Longrightarrow> broker_inv (fst (broker_step op s))"
  by (cases s; cases op) (auto simp: take_is_drop intro: wf_intros)

lemma broker_default_inv [wf_intros]: "broker_inv broker_default"
  by (simp add: broker_inv_def broker_core_def broker_default_def)

lemma queue_default: "queue broker_default = []"
  by (simp add: queue_def broker_default_def)

text \<open>C20. In every reachable state of the broker: the queue order lists exactly the keys
  held, without repetition and in the order of issue; the byte counter is the exact sum of the
  payloads held (so its subtractions never underflow); at most 16 batches and 8 MiB are held.\<close>

theorem broker_always_consistent:
  "let b = fst (fold broker_step ops (broker_default, w)) in
     distinct (keys (pending b)) \<and> set (order b) = set (keys (pending b))
     \<and> sorted_wrt (\<lambda>s t. sint s < sint t) (order b)
     \<and> bytes_held b = entry_sum batch_size (pending b)
     \<and> length (pending b) \<le> 16 \<and> bytes_held b \<le> 8388608"
proof -
  have "broker_inv (fst (fold broker_step ops s))" if "broker_inv (fst s)" for s
    using that by (induction ops arbitrary: s) (simp_all add: broker_step_inv)
  from this [of "(broker_default, w)"] broker_default_inv
  have "broker_inv (fst (fold broker_step ops (broker_default, w)))" by simp
  then show ?thesis
    by (simp add: Let_def broker_inv_def broker_core_def MAX_PENDING_def MAX_PENDING_BYTES_def)
qed

text \<open>C2. Insertion refines a bounded FIFO: it fails (always with \<open>InvalidFrame\<close>) exactly
  when the batch alone exceeds the budget or a counter is exhausted; otherwise the oldest
  batches are evicted, just as many as needed for the new one to fit, each evicted unit is
  counted on its own source's drop counter, and the new batch goes to the back under a fresh
  token with the source's next sequence number.\<close>

theorem broker_insert_fifo:
  assumes "broker_inv b"
  shows "let (r, b', w') = broker_insert source dropped fb fs b w in
    (if insert_refused fb fs b w then r = Inl InvalidFrame
     else r = Inr (next_token b + 1)
       \<and> held b (next_token b + 1) = None
       \<and> queue b' = keep_newest (units_size fs) (queue b)
            @ [(next_token b + 1, new_batch source dropped fb fs w)]
       \<and> droppeds w' = droppeds (count_dropped (evicted (units_size fs) (queue b)) w)
       \<and> unat (submitted (feedbacks w' fb)) = unat (submitted (feedbacks w fb)) + 1)"
proof (cases "MAX_PENDING_BYTES < units_size fs \<or> next_token b = word_of_int i64_max")
  case True
  then show ?thesis by (auto simp: broker_insert_early insert_refused_def)
next
  case False
  with assms have ok: "broker_core b" "units_size fs \<le> MAX_PENDING_BYTES"
    "next_token b \<noteq> word_of_int i64_max" by (simp_all add: broker_inv_def)
  have fresh: "held b (next_token b + 1) = None"
    using append_batch_core(4) [OF ok(1,3) refl] held_iff [OF ok(1), of "next_token b + 1"] by auto
  show ?thesis
  proof (rule broker_insert_late [OF ok, of w source dropped fb])
    fix b1 w1
    assume b1: "broker_core b1" "queue b1 = keep_newest (units_size fs) (queue b)"
      "next_token b1 = next_token b" "w1 = count_dropped (evicted (units_size fs) (queue b)) w"
      "broker_insert source dropped fb fs b w =
         (case u64_checked_succ (submitted (feedbacks w fb)) of
            None \<Rightarrow> (Inl InvalidFrame, b1, w1)
          | Some n \<Rightarrow> (Inr (next_token b + 1), with_batch (new_batch source dropped fb fs w) b1,
              modify_feedback fb (\<lambda>f. f\<lparr>submitted := n\<rparr>) w1))"
    show ?thesis
    proof (cases "u64_checked_succ (submitted (feedbacks w fb))")
      case None
      then have "insert_refused fb fs b w"
        by (simp add: insert_refused_def u64_checked_succ_None)
      with None b1 show ?thesis by simp
    next
      case (Some n)
      then have "\<not> insert_refused fb fs b w"
        using ok by (auto simp: insert_refused_def u64_checked_succ_None [symmetric])
      with Some b1 ok fresh with_batch_core(2) [OF b1(1), of "new_batch source dropped fb fs w"]
        u64_checked_succ_unat [OF Some]
      show ?thesis by simp
    qed
  qed
qed


definition tiny_unit :: "nat \<Rightarrow> access_unit" where
  "tiny_unit n =
     \<lparr>au_data = replicate n 0, au_width = 16, au_height = 16, au_timestamp_us = 0,
      au_key_frame = True, au_qp = None,
      au_metadata = \<lparr>md_codec = Av1, simulcast_index = None, spatial_index = None,
        temporal_index = None, end_of_picture = True\<rparr>\<rparr>"

theorem broker_insert_fifo_witness:
  "fst (broker_insert 1 0 0 [tiny_unit 2] broker_default sample_world) = Inr 1"
proof -
  have "\<not> insert_refused 0 [tiny_unit 2] broker_default sample_world"
    by (simp add: insert_refused_def broker_default_def sample_world_def feedback_default_def
        tiny_unit_def units_size_def MAX_PENDING_BYTES_def)
  moreover have "next_token broker_default = 0" by (simp add: broker_default_def)
  ultimately show ?thesis
    using broker_insert_fifo [OF broker_default_inv, of 1 0 0 "[tiny_unit 2]" sample_world]
    by (auto simp: Let_def split: prod.splits)
qed

subsection \<open>Unit accounting\<close>

text \<open>Units of the sources that count drops in cell \<open>d\<close>.\<close>

definition units_for :: "addr \<Rightarrow> (i64 \<times> pending_batch) list \<Rightarrow> nat" where
  "units_for d q = sum_list (map (\<lambda>(t, p). if pb_dropped p = d then length (frames p) else 0) q)"

fun accepted :: "addr \<Rightarrow> broker_op \<Rightarrow> broker \<times> world \<Rightarrow> nat" where
  "accepted d (Insert s d' fb fs) (b, w) =
     (if d = d' \<and> is_ok (fst (broker_insert s d' fb fs b w)) then length fs else 0)"
| "accepted d _ _ = 0"

text \<open>Units that leave by being taken for encoding or withdrawn with their source.\<close>

fun departed :: "addr \<Rightarrow> broker_op \<Rightarrow> broker \<times> world \<Rightarrow> nat" where
  "departed d (Take t) (b, w) = units_for d (filter (\<lambda>(u, p). u = t) (queue b))"
| "departed d (RemoveSource s) (b, w) = units_for d (filter (\<lambda>(u, p). source_id p = s) (queue b))"
| "departed d _ _ = 0"

fun ledger :: "addr \<Rightarrow> broker_op list \<Rightarrow> broker \<times> world \<Rightarrow> nat \<times> nat" where
  "ledger d [] s = (0, 0)"
| "ledger d (op # ops) s =
     (let (i, out) = ledger d ops (broker_step op s)
      in (accepted d op s + i, departed d op s + out))"

lemma units_for_simps [simp]:
  "units_for d [] = 0"
  "units_for d ((t, p) # q) = (if pb_dropped p = d then length (frames p) else 0) + units_for d q"
  "units_for d (q @ r) = units_for d q + units_for d r"
  by (simp_all add: units_for_def)

lemma units_for_split:
  "units_for d q = units_for d (filter P q) + units_for d (filter (\<lambda>x. \<not> P x) q)"
  by (induction q) auto

lemma evicted_keep: "evicted sz q @ keep_newest sz q = q"
  by (induction q) (auto simp: evicted_Cons, simp add: evicted_def)

lemma droppeds_count_dropped:
  "droppeds (count_dropped q w) d = droppeds w d + of_nat (units_for d q)"
  unfolding count_dropped_def by (induction q arbitrary: w) auto

lemma broker_step_balance:
  assumes "broker_inv (fst s)"
  shows "droppeds (snd (broker_step op s)) d + of_nat (units_for d (queue (fst (broker_step op s))))
      + of_nat (departed d op s)
    = droppeds (snd s) d + of_nat (units_for d (queue (fst s))) + of_nat (accepted d op s)"
proof -
  obtain b w where s: "s = (b, w)" by fastforce
  have core: "broker_core b" using assms s by (simp add: broker_inv_def)
  show ?thesis
  proof (cases op)
    case (Insert src d' fb fs)
    show ?thesis
    proof (cases "MAX_PENDING_BYTES < units_size fs \<or> next_token b = word_of_int i64_max")
      case True
      with Insert s show ?thesis by (auto simp: broker_insert_early)
    next
      case False
      then have ok: "units_size fs \<le> MAX_PENDING_BYTES" "next_token b \<noteq> word_of_int i64_max"
        by simp_all
      have whole: "units_for d (queue b)
          = units_for d (evicted (units_size fs) (queue b)) + units_for d (keep_newest (units_size fs) (queue b))"
        using evicted_keep [of "units_size fs" "queue b"] units_for_simps(3) by metis
      show ?thesis
      proof (rule broker_insert_late [OF core ok, of w src d' fb])
        fix b1 w1
        assume "broker_core b1" "queue b1 = keep_newest (units_size fs) (queue b)"
          "next_token b1 = next_token b" "w1 = count_dropped (evicted (units_size fs) (queue b)) w"
          "broker_insert src d' fb fs b w =
             (case u64_checked_succ (submitted (feedbacks w fb)) of
                None \<Rightarrow> (Inl InvalidFrame, b1, w1)
              | Some n \<Rightarrow> (Inr (next_token b + 1), with_batch (new_batch src d' fb fs w) b1,
                  modify_feedback fb (\<lambda>f. f\<lparr>submitted := n\<rparr>) w1))"
        then show ?thesis
          using Insert s whole ok with_batch_core(2) [of b1 "new_batch src d' fb fs w"]
          by (auto simp: droppeds_count_dropped new_batch_def split: option.splits)
      qed
    qed
  next
    case (Take t)
    then show ?thesis
      using s queue_drop_token [OF core, of t] units_for_split [of d "queue b" "\<lambda>(u, p). u = t"]
      by (simp add: take_is_drop case_prod_unfold)
  next
    case (RemoveSource src)
    then show ?thesis
      using s remove_source_queue [OF core, of src]
        units_for_split [of d "queue b" "\<lambda>(u, p). source_id p = src"]
      by (simp add: case_prod_unfold)
  qed
qed

text \<open>C21. No unit is lost from the accounts: over any execution, the units a source's drop
  counter gained are exactly those accepted minus those taken for encoding or withdrawn
  minus those still queued (the counter wraps at 64 bits, as its atomic addition does).\<close>

theorem broker_units_conserved:
  "let (i, out) = ledger d ops (broker_default, w);
       (b', w') = fold broker_step ops (broker_default, w) in
     droppeds w' d = droppeds w d + of_nat i - of_nat out - of_nat (units_for d (queue b'))"
proof -
  have "droppeds (snd (fold broker_step ops s)) d
      = droppeds (snd s) d + of_nat (units_for d (queue (fst s))) + of_nat (fst (ledger d ops s))
        - of_nat (snd (ledger d ops s)) - of_nat (units_for d (queue (fst (fold broker_step ops s))))"
    if "broker_inv (fst s)" for s
    using that
  proof (induction ops arbitrary: s)
    case Nil
    then show ?case by simp
  next
    case (Cons op ops)
    let ?s = "broker_step op s"
    have step: "droppeds (snd ?s) d + of_nat (units_for d (queue (fst ?s)))
        = droppeds (snd s) d + of_nat (units_for d (queue (fst s))) + of_nat (accepted d op s)
          - of_nat (departed d op s)"
      using broker_step_balance [OF Cons.prems, of op d] by (simp only: eq_diff_eq)
    have more: "fst (ledger d (op # ops) s) = accepted d op s + fst (ledger d ops ?s)"
      "snd (ledger d (op # ops) s) = departed d op s + snd (ledger d ops ?s)"
      by (simp_all add: case_prod_unfold Let_def)
    show ?case
      unfolding more fold_simps o_apply Cons.IH [OF broker_step_inv [OF Cons.prems, of op]] step
        of_nat_add
      by (simp only: diff_conv_add_uminus minus_add_distrib add.assoc add.commute add.left_commute)
  qed
  from this [of "(broker_default, w)"] show ?thesis
    by (simp add: broker_default_inv queue_default case_prod_unfold Let_def)
qed


subsection \<open>What the encoder adapter relies on\<close>

text \<open>
  The adapter redeems a presentation token for the batch submitted under it.  It relies on
  a token naming at most one batch ever, whatever else happens to the broker in between: \<open>step\<close> is any
  operation, \<open>spares\<close> says which of them leave a batch alone.
\<close>

locale token_broker =
  fixes submit :: "'i \<Rightarrow> 's \<Rightarrow> 't option \<times> 's"
    and redeem :: "'t \<Rightarrow> 's \<Rightarrow> 'p option \<times> 's"
    and step :: "'op \<Rightarrow> 's \<Rightarrow> 's"
    and spares :: "'op \<Rightarrow> 't \<Rightarrow> 'p \<Rightarrow> bool"
    and holds :: "'s \<Rightarrow> 't \<Rightarrow> 'p option"
    and issued :: "'s \<Rightarrow> 't \<Rightarrow> bool"
    and carries :: "'p \<Rightarrow> 'i \<Rightarrow> bool"
    and ok :: "'s \<Rightarrow> bool"
  assumes submit_ok: "ok s \<Longrightarrow> ok (snd (submit i s))"
    and submit_fresh: "ok s \<Longrightarrow> fst (submit i s) = Some t \<Longrightarrow>
      issued (snd (submit i s)) t \<and> (\<exists>p. holds (snd (submit i s)) t = Some p \<and> carries p i)"
    and redeem_ok: "ok s \<Longrightarrow> ok (snd (redeem t s))"
    and redeem_holds: "ok s \<Longrightarrow> fst (redeem t s) = holds s t"
    and redeem_removes: "ok s \<Longrightarrow> holds (snd (redeem t s)) t = None"
    and redeem_issued: "ok s \<Longrightarrow> issued (snd (redeem t s)) u = issued s u"
    and step_ok: "ok s \<Longrightarrow> ok (step op s)"
    and step_issued: "ok s \<Longrightarrow> issued s u \<Longrightarrow> issued (step op s) u"
    and step_holds: "ok s \<Longrightarrow> issued s u \<Longrightarrow>
      holds (step op s) u = holds s u \<or> holds (step op s) u = None"
    and step_spares: "ok s \<Longrightarrow> issued s u \<Longrightarrow> holds s u = Some p \<Longrightarrow> spares op u p \<Longrightarrow>
      holds (step op s) u = Some p"
begin

lemma run_ok: "ok s \<Longrightarrow> issued s t \<Longrightarrow> ok (fold step ops s) \<and> issued (fold step ops s) t"
  by (induction ops arbitrary: s) (simp_all add: step_ok step_issued)

lemma run_holds: "ok s \<Longrightarrow> issued s t \<Longrightarrow>
    holds (fold step ops s) t = holds s t \<or> holds (fold step ops s) t = None"
proof (induction ops arbitrary: s)
  case (Cons op ops)
  from Cons.IH [OF step_ok [OF Cons.prems(1), of op] step_issued [OF Cons.prems, of op]]
    step_holds [OF Cons.prems, of op]
  show ?case by simp metis
qed simp

lemma run_spares: "ok s \<Longrightarrow> issued s t \<Longrightarrow> holds s t = Some p \<Longrightarrow> \<forall>op\<in>set ops. spares op t p \<Longrightarrow>
    holds (fold step ops s) t = Some p"
  by (induction ops arbitrary: s) (simp_all add: step_ok step_issued step_spares)

lemma redeemed_later:
  assumes "ok s" "fst (submit i s) = Some t" "r = redeem t (fold step ops (snd (submit i s)))"
  shows "(\<forall>p. fst r = Some p \<longrightarrow> carries p i) \<and> fst (redeem t (fold step ops' (snd r))) = None
    \<and> ((\<forall>op\<in>set ops. \<forall>p. carries p i \<longrightarrow> spares op t p) \<longrightarrow> fst r \<noteq> None)"
proof -
  let ?s = "snd (submit i s)"
  from submit_fresh [OF assms(1,2)] obtain p where p: "issued ?s t" "holds ?s t = Some p" "carries p i" by blast
  note o = run_ok [OF submit_ok [OF assms(1)] p(1)]
  have r: "fst r = holds (fold step ops ?s) t" using o by (simp add: assms(3) redeem_holds)
  from o have n: "ok (snd r)" "issued (snd r) t" "holds (snd r) t = None"
    by (simp_all add: assms(3) redeem_ok redeem_issued redeem_removes)
  from run_holds [OF n(1,2)] n(3) run_ok [OF n(1,2)] have "fst (redeem t (fold step ops' (snd r))) = None"
    by (auto simp: redeem_holds)
  moreover have "fst r = Some p \<or> fst r = None"
    using run_holds [OF submit_ok [OF assms(1)] p(1), of ops] p(2) r by auto
  moreover have "fst r = Some p" if "\<forall>op\<in>set ops. spares op t p"
    using run_spares [OF submit_ok [OF assms(1)] p(1,2) that] r by simp
  ultimately show ?thesis using p(3) by auto
qed

end

fun submit_batch :: "u64 \<times> addr \<times> addr \<times> access_unit list \<Rightarrow> broker \<times> world
    \<Rightarrow> i64 option \<times> broker \<times> world" where
  "submit_batch (source, dropped, fb, fs) (b, w) =
     (case broker_insert source dropped fb fs b w of
        (Inl e, s) \<Rightarrow> (None, s) | (Inr t, s) \<Rightarrow> (Some t, s))"

fun redeem_token :: "i64 \<Rightarrow> broker \<times> world \<Rightarrow> pending_batch option \<times> broker \<times> world" where
  "redeem_token t (b, w) = (let (p, b') = broker_take t b in (p, b', w))"

definition token_issued :: "broker \<Rightarrow> i64 \<Rightarrow> bool" where
  "token_issued b t \<longleftrightarrow> 0 < sint t \<and> sint t \<le> sint (next_token b)"

definition carries_input :: "pending_batch \<Rightarrow> u64 \<times> addr \<times> addr \<times> access_unit list \<Rightarrow> bool" where
  "carries_input p i \<longleftrightarrow> (source_id p, pb_dropped p, pb_feedback p, frames p) = i"


lemma keep_newest_held:
  assumes "broker_core b" "broker_core b1" "queue b1 = keep_newest sz (queue b)"
  shows "held b1 u = held b u \<or> held b1 u = None"
proof (cases "held b1 u")
  case (Some p)
  have "distinct (map fst (queue b))" using core_distinct [OF assms(1)] by simp
  moreover have "(u, p) \<in> set (queue b)"
    using Some queue_map_of [OF assms(2), of u] evicted_keep [of sz "queue b"] assms(3)
    by (metis Un_iff map_of_SomeD set_append)
  ultimately have "map_of (queue b) u = Some p" by simp
  with Some show ?thesis using queue_map_of [OF assms(1), of u] by simp
qed simp

lemma submit_batch_facts:
  assumes "broker_inv b"
    and "submit_batch (source, dropped, fb, fs) (b, w) = (r, b', w')"
  shows "sint (next_token b) \<le> sint (next_token b')
    \<and> (r = Some t \<longrightarrow> sint t = sint (next_token b) + 1 \<and> next_token b' = t
         \<and> held b' t = Some (new_batch source dropped fb fs w))
    \<and> (r \<noteq> Some u \<longrightarrow> held b' u = held b u \<or> held b' u = None)"
proof (cases "MAX_PENDING_BYTES < units_size fs \<or> next_token b = word_of_int i64_max")
  case True
  with assms(2) show ?thesis by (auto simp: broker_insert_early)
next
  case False
  with assms(1) have ok: "broker_core b" "units_size fs \<le> MAX_PENDING_BYTES"
    "next_token b \<noteq> word_of_int i64_max" by (simp_all add: broker_inv_def)
  show ?thesis
  proof (rule broker_insert_late [OF ok, of w source dropped fb])
    fix b1 w1
    assume b1: "broker_core b1" "queue b1 = keep_newest (units_size fs) (queue b)"
      "next_token b1 = next_token b"
      "broker_insert source dropped fb fs b w =
         (case u64_checked_succ (submitted (feedbacks w fb)) of
            None \<Rightarrow> (Inl InvalidFrame, b1, w1)
          | Some n \<Rightarrow> (Inr (next_token b + 1), with_batch (new_batch source dropped fb fs w) b1,
              modify_feedback fb (\<lambda>f. f\<lparr>submitted := n\<rparr>) w1))"
    have token: "next_token (with_batch p b1) = next_token b1 + 1" for p
      by (simp add: with_batch_def)
    show ?thesis
      using b1 assms(2) ok next_token_below [OF ok(3)]
        keep_newest_held [OF ok(1) b1(1,2), of u] token
        with_batch_core(3) [OF b1(1), of "new_batch source dropped fb fs w"]
      by (auto split: option.splits)
  qed
qed

lemma submit_batch_inv: "broker_inv b \<Longrightarrow> broker_inv (fst (snd (submit_batch i (b, w))))"
proof -
  assume inv: "broker_inv b"
  obtain src d fb fs where i: "i = (src, d, fb, fs)" by (metis prod.exhaust)
  obtain r s where r: "broker_insert src d fb fs b w = (r, s)" by (metis prod.exhaust)
  with broker_insert_inv [OF inv, of src d fb fs w] show ?thesis
    unfolding i by (cases r) simp_all
qed

text \<open>What the broker spares: a redemption of another token, a withdrawal of another source.\<close>

fun spares_batch :: "broker_op \<Rightarrow> i64 \<Rightarrow> pending_batch \<Rightarrow> bool" where
  "spares_batch (Insert s d fb fs) t p = False"
| "spares_batch (Take u) t p = (u \<noteq> t)"
| "spares_batch (RemoveSource s) t p = (s \<noteq> source_id p)"

lemma broker_step_holds:
  assumes "broker_inv b" "token_issued b u" "broker_step op (b, w) = (b', w')"
  shows "(held b' u = held b u \<or> held b' u = None) \<and> sint (next_token b) \<le> sint (next_token b')
    \<and> (held b u = Some p \<and> spares_batch op u p \<longrightarrow> held b' u = Some p)"
proof (cases op)
  case (Insert src d fb fs)
  obtain r where r: "submit_batch (src, d, fb, fs) (b, w) = (r, b', w')"
    using assms(3) Insert by (cases "broker_insert src d fb fs b w"; cases "fst (broker_insert src d fb fs b w)") auto
  note f = submit_batch_facts [OF assms(1) r]
  have "r \<noteq> Some u" using f [of u] assms(2) by (auto simp: token_issued_def)
  with f [of _ u] Insert show ?thesis by simp
next
  case (Take t)
  with assms(3) have "b' = drop_token t b" by (simp add: take_is_drop)
  with drop_token_core(3,4) [of b t] assms(1) Take show ?thesis by (simp add: broker_inv_def)
next
  case (RemoveSource s)
  with assms(3) have b': "b' = remove_source s b" by simp
  from assms(1) have core: "broker_core b" "broker_core b'"
    using remove_source_inv [OF assms(1), of s] b' by (simp_all add: broker_inv_def)
  have q: "queue b' = filter (\<lambda>(_, p). source_id p \<noteq> s) (queue b)"
    using remove_source_queue [OF core(1)] b' by simp
  have d: "distinct (map fst (queue b))" using core_distinct [OF core(1)] by simp
  have h: "held b' u = Some p \<longleftrightarrow> held b u = Some p \<and> source_id p \<noteq> s" for p
    using d by (simp add: queue_map_of [OF core(1), symmetric] queue_map_of [OF core(2), symmetric] q
      map_of_eq_Some_iff distinct_map_filter)
  have "held b' u = held b u \<or> held b' u = None"
  proof (cases "held b' u")
    case (Some a)
    with h [of a] show ?thesis by simp
  qed simp
  moreover have "next_token b' = next_token b"
    unfolding b' remove_source_fold by (rule fold_drop_next [OF core(1)])
  ultimately show ?thesis using h RemoveSource by auto
qed

interpretation tb: token_broker submit_batch redeem_token broker_step spares_batch "\<lambda>s. held (fst s)"
  "\<lambda>s. token_issued (fst s)" carries_input "\<lambda>s. broker_inv (fst s)"
proof (unfold_locales, goal_cases)
  case (1 s i)
  then show ?case using submit_batch_inv [of "fst s" i "snd s"] by simp
next
  case (2 s i t)
  obtain b w src d fb fs r b' w' where s: "s = (b, w)" "i = (src, d, fb, fs)"
    "submit_batch (src, d, fb, fs) (b, w) = (r, b', w')"
    by (metis prod.exhaust)
  have "0 \<le> sint (next_token b)" using 2 s by (simp add: broker_inv_def broker_core_def)
  with 2 s submit_batch_facts [of b src d fb fs w r b' w' t] show ?case
    by (simp del: submit_batch.simps add: token_issued_def carries_input_def new_batch_def)
next
  case (3 s t)
  then show ?case
    using drop_token_inv [of "fst s" t]
    by (cases s) (simp add: drop_token_def case_prod_unfold Let_def)
next
  case (4 s t)
  then show ?case
    by (cases s) (simp add: broker_take_def held_def case_prod_unfold Let_def split: option.splits)
next
  case (5 s t)
  then show ?case
    using drop_token_core(3) [of "fst s" t]
    by (cases s) (simp add: broker_inv_def drop_token_def case_prod_unfold Let_def)
next
  case (6 s t u)
  then show ?case
    using drop_token_core(4) [of "fst s" t]
    by (cases s) (simp add: broker_inv_def drop_token_def token_issued_def case_prod_unfold Let_def)
next
  case (7 s op)
  then show ?case by (rule broker_step_inv)
next
  case (8 s u op)
  then show ?case
    using broker_step_holds [of "fst s" u op "snd s" "fst (broker_step op s)" "snd (broker_step op s)" undefined]
    by (simp add: token_issued_def)
next
  case (9 s u op)
  then show ?case
    using broker_step_holds [of "fst s" u op "snd s" "fst (broker_step op s)" "snd (broker_step op s)"] by auto
next
  case (10 s u p op)
  then show ?case
    using broker_step_holds [of "fst s" u op "snd s" "fst (broker_step op s)" "snd (broker_step op s)" p] by auto
qed

text \<open>C19. A presentation token redeems the batch submitted under it, and at most once.  After a
  submission that returned \<open>t\<close>, and whatever submissions, redemptions and withdrawals follow, \<open>t\<close> redeems
  exactly its units, source and cells, or nothing; once it has been presented it redeems nothing,
  whatever follows again; and it does redeem the batch when what came between was only redemptions of
  other tokens and withdrawals of other sources.\<close>

theorem token_redeemed_exactly_once:
  assumes "broker_inv b" "submit_batch i (b, w) = (Some t, s)"
    and "redeem_token t (fold broker_step ops s) = (r, s')"
  shows "(case r of Some p \<Rightarrow> carries_input p i | None \<Rightarrow>
        \<exists>op\<in>set ops. case op of Insert _ _ _ _ \<Rightarrow> True | Take u \<Rightarrow> u = t | RemoveSource x \<Rightarrow> x = fst i)
    \<and> fst (redeem_token t (fold broker_step ops' s')) = None"
proof -
  have s: "s = snd (submit_batch i (b, w))" and t: "fst (submit_batch i (b, w)) = Some t" and ok: "broker_inv (fst (b, w))"
    using assms(1,2) by simp_all
  note l = tb.redeemed_later [OF ok t refl, of ops ops', folded s, unfolded assms(3) fst_conv snd_conv]
  have "\<exists>op\<in>set ops. case op of Insert _ _ _ _ \<Rightarrow> True | Take u \<Rightarrow> u = t | RemoveSource x \<Rightarrow> x = fst i"
    if "r = None"
  proof -
    from l that obtain op p where o: "op \<in> set ops" "carries_input p i" "\<not> spares_batch op t p" by blast
    then show ?thesis by (intro bexI [OF _ o(1)]) (cases op; auto simp: carries_input_def)
  qed
  with l show ?thesis by (auto split: option.split)
qed

lemma tiny_insert:
  "fst (broker_insert 1 0 0 [tiny_unit 2] broker_default sample_world) = Inr 1"
  by (simp add: broker_insert_def broker_default_def sample_world_def feedback_default_def
      tiny_unit_def units_size_def MAX_PENDING_BYTES_def MAX_PENDING_def evict.simps
      over_budget_def u64_checked_succ_def)

theorem token_redeemed_exactly_once_witness:
  "\<exists>p s'. redeem_token 1 (fold broker_step [Take 7, RemoveSource 9]
         (snd (submit_batch (1, 0, 0, [tiny_unit 2]) (broker_default, sample_world)))) = (Some p, s')
     \<and> carries_input p (1, 0, 0, [tiny_unit 2]) \<and> fst (redeem_token 1 (broker_step (Take 7) s')) = None"
proof -
  let ?i = "(1, 0, 0, [tiny_unit 2])"
  let ?r = "submit_batch ?i (broker_default, sample_world)"
  let ?ops = "[Take 7, RemoveSource 9]"
  have "fst ?r = Some 1" using tiny_insert by (auto split: sum.splits prod.splits)
  then have r: "?r = (Some 1, snd ?r)" by (metis prod.collapse)
  obtain q s' where q: "redeem_token 1 (fold broker_step ?ops (snd ?r)) = (q, s')" by (metis prod.exhaust)
  from token_redeemed_exactly_once [OF broker_default_inv r q, of "[Take 7]"] q show ?thesis
    by (cases q) (simp_all del: broker_step.simps submit_batch.simps)
qed

end
