(* ===== verification/EncodedInput.thy ===== *)
theory EncodedInput
  imports Broker
begin

text \<open>
  The encoded input factory and its sources (\<open>EncodedH264Input\<close>, \<open>EncodedH264Source\<close> of
  \<open>src/encoded_video.rs\<close>).  A source's \<open>Cell\<close>s are fields of its record, returned
  updated; the broker and the shared cells are passed along.  The native source object is
  its closed flag and the frames pushed into the engine (\<open>video_source_push_encoded_trigger\<close>
  and \<open>close_video_source\<close> of \<open>native/video.cc\<close>).  Parameters: the SDK's format identity
  \<open>sdk_same\<close>, its list of scalability modes \<open>mode_valid\<close>, and whether the engine
  could construct the native factory, source or track the code asks it for.
\<close>

subsection \<open>Data\<close>

datatype direct_encoded_video =
    DeH264 | DeH264L1T3 | DeH264Simulcast | DeVp8 | DeVp9 | DeAv1 | DeH265

datatype h264_source_profile = L1T1 | L1T3 | SimulcastL1T1

record encoded_input =
  in_format :: video_codec_format
  in_codec :: direct_encoded_video
  in_temporal_fps :: "u8 list option"
  in_simulcast :: bool

record native_video_source =
  nv_closed :: bool
  nv_pushed :: "(u32 \<times> u32 \<times> i64 \<times> i64) list"
  nv_controlled :: bool

record encoded_source =
  so_native :: native_video_source
  so_format :: video_codec_format
  so_codec :: direct_encoded_video
  so_id :: u64
  so_closed :: bool
  so_last_timestamp_us :: "i64 option"
  so_seen_keyframe :: bool
  so_dropped :: addr
  so_feedback :: addr

subsection \<open>Building an input factory\<close>

definition has_parameter :: "video_codec_format \<Rightarrow> string \<Rightarrow> bool" where
  "has_parameter f k = list_ex (\<lambda>p. param_key p = k) (parameters f)"

text \<open>The three defaulting steps of \<open>build\<close>, in order.\<close>

definition default_parameters :: "video_codec_format \<Rightarrow> video_codec_format" where
  "default_parameters f =
     (let f = (if fmt_name f = ''VP9'' \<and> \<not> has_parameter f ''profile-id''
               then with_parameter f ''profile-id'' ''0'' else f);
          f = (if fmt_name f = ''AV1'' \<and> parameters f = []
               then with_parameter (with_parameter (with_parameter f
                      ''level-idx'' ''5'') ''profile'' ''0'') ''tier'' ''0'' else f)
      in if fmt_name f = ''H265'' \<and> parameters f = []
         then with_parameter (with_parameter f ''level-id'' ''93'') ''tx-mode'' ''SRST'' else f)"

text \<open>The codec choice; \<open>None\<close> is the \<open>unreachable!\<close> arm.\<close>

definition direct_codec ::
  "string \<Rightarrow> u8 list option \<Rightarrow> bool \<Rightarrow> direct_encoded_video option" where
  "direct_codec name temporal_fps simulcast =
     (if name = ''H264'' \<and> simulcast then Some DeH264Simulcast
      else if name = ''H264'' \<and> temporal_fps \<noteq> None then Some DeH264L1T3
      else if name = ''H264'' then Some DeH264
      else if name = ''VP8'' then Some DeVp8
      else if name = ''VP9'' then Some DeVp9
      else if name = ''AV1'' then Some DeAv1
      else if name = ''H265'' then Some DeH265
      else None)"

definition build_rejects ::
  "sdk_same_codec \<Rightarrow> video_codec_format \<Rightarrow> u8 list option \<Rightarrow> bool" where
  "build_rejects sdk_same f temporal_fps \<longleftrightarrow>
     fmt_name f \<notin> {''H264'', ''VP8'', ''VP9'', ''AV1'', ''H265''}
     \<or> fmt_name f = ''H264''
       \<and> (\<not> same_codec_format sdk_same f default_format
          \<or> temporal_fps = None \<and> scalability_modes f \<noteq> [])"

text \<open>\<open>provider_ok\<close>: the engine constructed the native encoder factory.  The outer option
  is a panic.\<close>

definition build_input ::
  "sdk_same_codec \<Rightarrow> bool \<Rightarrow> video_codec_format \<Rightarrow> u8 list option \<Rightarrow> bool
     \<Rightarrow> (codec_error, encoded_input \<times> broker) result option" where
  "build_input sdk_same provider_ok f temporal_fps simulcast =
     (let f = default_parameters f in
      if build_rejects sdk_same f temporal_fps then Some (Inl UnsupportedFormat)
      else
        (case direct_codec (fmt_name f) temporal_fps simulcast of
           None \<Rightarrow> None
         | Some codec \<Rightarrow>
             Some (if \<not> provider_ok then Inl ConstructionFailed
                   else Inr (\<lparr>in_format = f, in_codec = codec, in_temporal_fps = temporal_fps,
                              in_simulcast = simulcast\<rparr>, broker_default))))"

definition new_for_format where
  "new_for_format sdk_same provider_ok f = build_input sdk_same provider_ok f None False"

definition fps_invalid :: "u8 list \<Rightarrow> bool" where
  "fps_invalid fps \<longleftrightarrow>
     fps ! 0 = 0 \<or> fps ! 1 < fps ! 0 \<or> fps ! 2 < fps ! 1 \<or> fps ! 2 \<noteq> 255"

text \<open>\<open>fps\<close> is a \<open>[u8; 3]\<close>.\<close>

definition new_l1t3_for_format ::
  "sdk_same_codec \<Rightarrow> (string \<Rightarrow> bool) \<Rightarrow> bool \<Rightarrow> video_codec_format \<Rightarrow> u8 list
     \<Rightarrow> (codec_error, encoded_input \<times> broker) result option" where
  "new_l1t3_for_format sdk_same mode_valid provider_ok f fps =
     (if fmt_name f \<noteq> ''H264'' \<or> \<not> same_codec_format sdk_same f default_format
      then Some (Inl UnsupportedFormat)
      else if list_ex (\<lambda>m. mode_str m \<notin> {''L1T1'', ''L1T3''}) (scalability_modes f)
      then Some (Inl UnsupportedFormat)
      else if fps_invalid fps then Some (Inl InvalidConfiguration)
      else
        (case parse_scalability_mode mode_valid ''L1T1'' of
           Inl e \<Rightarrow> Some (Inl e)
         | Inr m1 \<Rightarrow>
             (case parse_scalability_mode mode_valid ''L1T3'' of
                Inl e \<Rightarrow> Some (Inl e)
              | Inr m3 \<Rightarrow>
                  build_input sdk_same provider_ok
                    (with_scalability_mode (with_scalability_mode f m1) m3) (Some fps) False)))"

definition new_h264_profiles_for_format ::
  "sdk_same_codec \<Rightarrow> (string \<Rightarrow> bool) \<Rightarrow> bool \<Rightarrow> video_codec_format \<Rightarrow> u8 list
     \<Rightarrow> (codec_error, encoded_input \<times> broker) result option" where
  "new_h264_profiles_for_format sdk_same mode_valid provider_ok f fps =
     (case new_l1t3_for_format sdk_same mode_valid provider_ok f fps of
        None \<Rightarrow> None
      | Some (Inl e) \<Rightarrow> Some (Inl e)
      | Some (Inr (input, _)) \<Rightarrow>
          build_input sdk_same provider_ok (in_format input) (Some fps) True)"

definition new_simulcast_for_format ::
  "sdk_same_codec \<Rightarrow> bool \<Rightarrow> video_codec_format
     \<Rightarrow> (codec_error, encoded_input \<times> broker) result option" where
  "new_simulcast_for_format sdk_same provider_ok f =
     (if fmt_name f \<noteq> ''H264'' \<or> scalability_modes f \<noteq> [] then Some (Inl UnsupportedFormat)
      else build_input sdk_same provider_ok f None True)"

subsection \<open>Creating sources\<close>

definition input_mismatch :: peer_error where
  "input_mismatch =
     \<lparr>pe_kind = InvalidParameter,
      pe_message = ''factory is not configured with this encoded video input''\<rparr>"

definition source_exhausted :: peer_error where
  "source_exhausted =
     \<lparr>pe_kind = InvalidState, pe_message = ''encoded source identifier exhausted''\<rparr>"

definition profile_unsupported :: peer_error where
  "profile_unsupported =
     \<lparr>pe_kind = UnsupportedParameter,
      pe_message = ''profile is not supported by this installed input factory''\<rparr>"

definition track_refused :: peer_error where
  "track_refused =
     \<lparr>pe_kind = InvalidParameter,
      pe_message = ''encoded source is closed or belongs to another factory''\<rparr>"

text \<open>Fresh cells for a new source: \<open>Arc::new\<close> of the drop counter and of the feedback.\<close>

definition alloc_source :: "addr option \<Rightarrow> world \<Rightarrow> addr \<times> addr \<times> world" where
  "alloc_source readiness w =
     (let d = next_addr w; f = Suc d in
      (d, f, w\<lparr>droppeds := (droppeds w)(d := 0),
               feedbacks := (feedbacks w)(f := feedback_default readiness),
               next_addr := Suc f\<rparr>))"

text \<open>\<open>uses_encoder\<close>: the peer factory was built with this input's encoder factory;
  \<open>native\<close>: the engine's answer to \<open>create_video_source\<close>.\<close>

definition create_source_with_readiness ::
  "encoded_input \<Rightarrow> bool \<Rightarrow> (peer_error, native_video_source) result \<Rightarrow> addr option
     \<Rightarrow> broker \<Rightarrow> world \<Rightarrow> (peer_error, encoded_source) result \<times> broker \<times> world" where
  "create_source_with_readiness input uses_encoder native readiness b w =
     (if \<not> uses_encoder then (Inl input_mismatch, b, w)
      else
        (case native of
           Inl e \<Rightarrow> (Inl e, b, w)
         | Inr nv \<Rightarrow>
             (case u64_checked_succ (next_source b) of
                None \<Rightarrow> (Inl source_exhausted, b, w)
              | Some source \<Rightarrow>
                  (let (d, f, w) = alloc_source readiness w in
                   (Inr \<lparr>so_native = nv, so_format = in_format input, so_codec = in_codec input,
                         so_id = source, so_closed = False, so_last_timestamp_us = None,
                         so_seen_keyframe = False, so_dropped = d, so_feedback = f\<rparr>,
                    b\<lparr>next_source := source\<rparr>, w)))))"

definition profile_codec :: "encoded_input \<Rightarrow> h264_source_profile \<Rightarrow> direct_encoded_video option"
  where
  "profile_codec input profile =
     (case profile of
        L1T1 \<Rightarrow> then_some (fmt_name (in_format input) = ''H264'') DeH264
      | L1T3 \<Rightarrow> then_some (in_temporal_fps input \<noteq> None) DeH264L1T3
      | SimulcastL1T1 \<Rightarrow> then_some (in_simulcast input) DeH264Simulcast)"

definition create_profile_source_with_readiness where
  "create_profile_source_with_readiness input uses_encoder native profile readiness b w =
     (case profile_codec input profile of
        None \<Rightarrow> (Inl profile_unsupported, b, w)
      | Some codec \<Rightarrow>
          (case create_source_with_readiness input uses_encoder native readiness b w of
             (Inl e, b, w) \<Rightarrow> (Inl e, b, w)
           | (Inr source, b, w) \<Rightarrow> (Inr (source\<lparr>so_codec := codec\<rparr>), b, w)))"

text \<open>\<open>create_track\<close>: the track remembers which direct codec feeds it (\<open>'t\<close> is the native
  track).\<close>

definition create_track ::
  "encoded_source \<Rightarrow> bool \<Rightarrow> (peer_error, 't) result
     \<Rightarrow> (peer_error, 't \<times> direct_encoded_video) result" where
  "create_track source owns native =
     (if so_closed source \<or> \<not> owns then Inl track_refused
      else and_then native (\<lambda>track. Inr (track, so_codec source)))"

subsection \<open>Validation and submission\<close>

definition max_controlled_micros :: int where
  "max_controlled_micros = (4294967295 - 2208988800) * 1000000 + 999999"

fun matching_codec :: "string \<Rightarrow> encoded_video_codec \<Rightarrow> bool" where
  "matching_codec name (H264 _) = (name = ''H264'')"
| "matching_codec name (Vp8 _ _ _) = (name = ''VP8'')"
| "matching_codec name (Vp9 _ _ _ _ _ _) = (name = ''VP9'')"
| "matching_codec name Av1 = (name = ''AV1'')"
| "matching_codec name H265 = (name = ''H265'')"

definition bad_vp8_key :: "encoded_video_codec \<Rightarrow> bool" where
  "bad_vp8_key c = (case c of Vp8 _ _ (Some index) \<Rightarrow> 31 < index | _ \<Rightarrow> False)"

definition bad_vp9_layers :: "encoded_video_codec \<Rightarrow> bool" where
  "bad_vp9_layers c = (case c of Vp9 _ _ _ layers _ _ \<Rightarrow> layers \<noteq> 1 | _ \<Rightarrow> False)"

definition bad_temporal_index :: "direct_encoded_video \<Rightarrow> access_unit \<Rightarrow> bool" where
  "bad_temporal_index codec frame =
     (let t = temporal_index (au_metadata frame) in
      if codec = DeH264L1T3 then
        \<not> (case t of Some i \<Rightarrow> i \<le> 2 | None \<Rightarrow> False) \<or> au_key_frame frame \<and> t \<noteq> Some 0
      else t \<noteq> None)"

definition validate_unit ::
  "sdk_same_codec \<Rightarrow> encoded_source \<Rightarrow> access_unit \<Rightarrow> u8 option \<Rightarrow> (codec_error, unit) result"
  where
  "validate_unit sdk_same so frame index =
     (if so_closed so then Inl Released
      else if au_width frame = 0
        \<or> au_height frame = 0
        \<or> 4096 < au_width frame
        \<or> 4096 < au_height frame
        \<or> sint (au_timestamp_us frame) < 0
        \<or> nv_controlled (so_native so) \<and> max_controlled_micros < sint (au_timestamp_us frame)
        \<or> fmt_name (so_format so) = ''VP8'' \<and> \<not> valid_vp8 frame
        \<or> (case so_last_timestamp_us so of
             None \<Rightarrow> False | Some prior \<Rightarrow> sint (au_timestamp_us frame) \<le> sint prior)
        \<or> \<not> so_seen_keyframe so \<and> \<not> au_key_frame frame
        \<or> fmt_name (so_format so) = ''H264'' \<and> (case au_qp frame of None \<Rightarrow> False | Some qp \<Rightarrow> 51 < qp)
        \<or> bad_vp8_key (md_codec (au_metadata frame))
        \<or> bad_vp9_layers (md_codec (au_metadata frame))
        \<or> \<not> matching_codec (fmt_name (so_format so)) (md_codec (au_metadata frame))
        \<or> simulcast_index (au_metadata frame) \<noteq> index
        \<or> spatial_index (au_metadata frame) \<noteq> None
        \<or> bad_temporal_index (so_codec so) frame
        \<or> \<not> end_of_picture (au_metadata frame)
        \<or> au_data frame = []
        \<or> MAX_PENDING_BYTES < length (au_data frame)
        \<or> fmt_name (so_format so) = ''H264'' \<and> \<not> valid_annex_b sdk_same (au_data frame) (au_key_frame frame)
      then Inl InvalidFrame
      else Inr ())"

definition push_encoded_trigger ::
  "native_video_source \<Rightarrow> u32 \<Rightarrow> u32 \<Rightarrow> i64 \<Rightarrow> i64 \<Rightarrow> bool \<times> native_video_source" where
  "push_encoded_trigger nv width height ts token =
     (if nv_closed nv \<or> width = 0 \<or> height = 0 \<or> 4096 < width \<or> 4096 < height
         \<or> sint token \<le> 0 \<or> sint ts < 0
      then (False, nv)
      else (True, nv\<lparr>nv_pushed := nv_pushed nv @ [(width, height, ts, token)]\<rparr>))"

type_synonym 'r source_step = "(codec_error, 'r) result \<times> encoded_source \<times> broker \<times> world"

definition enqueue ::
  "access_unit list \<Rightarrow> encoded_source \<Rightarrow> broker \<Rightarrow> world \<Rightarrow> unit source_step" where
  "enqueue fs so b w =
     (if fs = [] then (Inl InvalidFrame, so, b, w)
      else
        let largest = last fs;
            key = list_all au_key_frame fs
        in (case broker_insert (so_id so) (so_dropped so) (so_feedback so) fs b w of
              (Inl e, b, w) \<Rightarrow> (Inl e, so, b, w)
            | (Inr token, b, w) \<Rightarrow>
                (case push_encoded_trigger (so_native so) (au_width largest) (au_height largest)
                        (au_timestamp_us largest) token of
                   (False, nv) \<Rightarrow>
                     (Inl Released, so\<lparr>so_native := nv\<rparr>, snd (broker_take token b), w)
                 | (True, nv) \<Rightarrow>
                     (Inr (),
                      so\<lparr>so_native := nv,
                         so_last_timestamp_us := Some (au_timestamp_us largest),
                         so_seen_keyframe := so_seen_keyframe so \<or> key\<rparr>,
                      b, w))))"

definition push_encoded ::
  "sdk_same_codec \<Rightarrow> access_unit \<Rightarrow> encoded_source \<Rightarrow> broker \<Rightarrow> world \<Rightarrow> unit source_step" where
  "push_encoded sdk_same frame so b w =
     (if so_codec so = DeH264Simulcast then (Inl InvalidConfiguration, so, b, w)
      else
        (case validate_unit sdk_same so frame None of
           Inl e \<Rightarrow> (Inl e, so, b, w)
         | Inr _ \<Rightarrow> enqueue [frame] so b w))"

definition push_h264 ::
  "sdk_same_codec \<Rightarrow> h264_access_unit \<Rightarrow> encoded_source \<Rightarrow> broker \<Rightarrow> world \<Rightarrow> unit source_step"
  where
  "push_h264 sdk_same frame =
     push_encoded sdk_same
       \<lparr>au_data = h264_data frame, au_width = h264_width frame, au_height = h264_height frame,
        au_timestamp_us = h264_timestamp_us frame, au_key_frame = h264_key_frame frame,
        au_qp = h264_qp frame,
        au_metadata = \<lparr>md_codec = H264 False, simulcast_index = None, spatial_index = None,
          temporal_index = None, end_of_picture = True\<rparr>\<rparr>"

text \<open>The loop over the three rungs: each is validated, then compared with its predecessor.\<close>

fun check_rungs ::
  "sdk_same_codec \<Rightarrow> encoded_source \<Rightarrow> i64 \<Rightarrow> nat \<Rightarrow> access_unit option \<Rightarrow> access_unit list
     \<Rightarrow> (codec_error, unit) result" where
  "check_rungs sdk_same so time index previous [] = Inr ()"
| "check_rungs sdk_same so time index previous (frame # rest) =
     (case validate_unit sdk_same so frame (Some (of_nat index)) of
        Inl e \<Rightarrow> Inl e
      | Inr _ \<Rightarrow>
          (if au_timestamp_us frame \<noteq> time
              \<or> (case previous of
                   None \<Rightarrow> False
                 | Some p \<Rightarrow> au_width frame \<le> au_width p \<or> au_height frame \<le> au_height p)
           then Inl InvalidFrame
           else check_rungs sdk_same so time (Suc index) (Some frame) rest))"

text \<open>\<open>frames\<close> is a \<open>[EncodedVideoAccessUnit; 3]\<close>.\<close>

definition push_simulcast ::
  "sdk_same_codec \<Rightarrow> access_unit list \<Rightarrow> encoded_source \<Rightarrow> broker \<Rightarrow> world \<Rightarrow> unit source_step"
  where
  "push_simulcast sdk_same fs so b w =
     (if so_codec so \<noteq> DeH264Simulcast then (Inl InvalidConfiguration, so, b, w)
      else
        (case check_rungs sdk_same so (au_timestamp_us (fs ! 0)) 0 None fs of
           Inl e \<Rightarrow> (Inl e, so, b, w)
         | Inr _ \<Rightarrow> enqueue fs so b w))"

definition pending_frames :: "encoded_source \<Rightarrow> broker \<Rightarrow> nat" where
  "pending_frames so b =
     sum_list (map (length \<circ> frames) (filter (\<lambda>p. source_id p = so_id so) (map snd (pending b))))"

definition dropped_frames :: "encoded_source \<Rightarrow> world \<Rightarrow> u64" where
  "dropped_frames so w = droppeds w (so_dropped so)"

text \<open>\<open>close_video_source\<close> answers true for a source the engine constructed.\<close>

definition close_source ::
  "encoded_source \<Rightarrow> broker \<Rightarrow> world \<Rightarrow> unit source_step" where
  "close_source so b w =
     (if so_closed so then (Inr (), so, b, w)
      else
        (Inr (),
         so\<lparr>so_closed := True, so_native := (so_native so)\<lparr>nv_closed := True\<rparr>\<rparr>,
         remove_source (so_id so) b,
         fb_retire (so_feedback so) w))"

subsection \<open>Lemmas\<close>

lemma default_parameters_name [simp]:
  "fmt_name (default_parameters f) = fmt_name f"
  "scalability_modes (default_parameters f) = scalability_modes f"
  by (simp_all add: default_parameters_def with_parameter_def Let_def)

lemma with_scalability_mode_simps [simp]:
  "fmt_name (with_scalability_mode f m) = fmt_name f"
  "parameters (with_scalability_mode f m) = parameters f"
  "scalability_modes (with_scalability_mode f m) = scalability_modes f @ [m]"
  by (simp_all add: with_scalability_mode_def)

definition late_enough :: "encoded_source \<Rightarrow> access_unit \<Rightarrow> bool" where
  "late_enough so frame \<longleftrightarrow> (case so_last_timestamp_us so of
     None \<Rightarrow> True | Some prior \<Rightarrow> sint prior < sint (au_timestamp_us frame))"

lemma validate_unit_iff:
  "validate_unit sdk_same so frame index = Inr () \<longleftrightarrow>
     \<not> so_closed so
     \<and> au_width frame \<noteq> 0 \<and> au_height frame \<noteq> 0
     \<and> au_width frame \<le> 4096 \<and> au_height frame \<le> 4096
     \<and> 0 \<le> sint (au_timestamp_us frame)
     \<and> (nv_controlled (so_native so) \<longrightarrow> sint (au_timestamp_us frame) \<le> max_controlled_micros)
     \<and> (fmt_name (so_format so) = ''VP8'' \<longrightarrow> valid_vp8 frame)
     \<and> late_enough so frame
     \<and> (so_seen_keyframe so \<or> au_key_frame frame)
     \<and> \<not> (fmt_name (so_format so) = ''H264''
            \<and> (case au_qp frame of None \<Rightarrow> False | Some qp \<Rightarrow> 51 < qp))
     \<and> \<not> bad_vp8_key (md_codec (au_metadata frame))
     \<and> \<not> bad_vp9_layers (md_codec (au_metadata frame))
     \<and> matching_codec (fmt_name (so_format so)) (md_codec (au_metadata frame))
     \<and> simulcast_index (au_metadata frame) = index
     \<and> spatial_index (au_metadata frame) = None
     \<and> \<not> bad_temporal_index (so_codec so) frame
     \<and> end_of_picture (au_metadata frame)
     \<and> au_data frame \<noteq> [] \<and> length (au_data frame) \<le> MAX_PENDING_BYTES
     \<and> (fmt_name (so_format so) = ''H264'' \<longrightarrow>
          valid_annex_b sdk_same (au_data frame) (au_key_frame frame))"
proof -
  have late: "\<not> (case so_last_timestamp_us so of
      None \<Rightarrow> False | Some prior \<Rightarrow> sint (au_timestamp_us frame) \<le> sint prior)
      \<longleftrightarrow> late_enough so frame"
    by (simp add: late_enough_def not_le split: option.split)
  show ?thesis
    unfolding validate_unit_def late [symmetric]
    by (cases "so_closed so")
      (simp_all only: if_True if_False if_split_eq1 sum.distinct simp_thms de_Morgan_disj de_Morgan_conj not_not
        not_less not_le not_imp imp_conv_disj conj_assoc disj_assoc)

qed

lemma check_rungs_ok:
  assumes "check_rungs sdk_same so time index previous fs = Inr ()"
  shows "\<forall>u \<in> set fs. au_timestamp_us u = time \<and> (\<exists>i. validate_unit sdk_same so u i = Inr ())"
  using assms
proof (induction fs arbitrary: index previous)
  case Nil
  then show ?case by simp
next
  case (Cons u us)
  from Cons.prems have "validate_unit sdk_same so u (Some (of_nat index)) = Inr ()"
    by (simp split: sum.splits)
  moreover from Cons.prems this have "au_timestamp_us u = time"
    "check_rungs sdk_same so time (Suc index) (Some u) us = Inr ()"
    by (simp_all split: if_splits)
  ultimately show ?case using Cons.IH by auto
qed

text \<open>What a source's own handle may do between other activity on the shared broker.\<close>

datatype submission =
    Push access_unit
  | PushH264 h264_access_unit
  | PushSimulcast "access_unit list"
  | CloseSource

fun submit_step ::
  "sdk_same_codec \<Rightarrow> submission \<Rightarrow> encoded_source \<Rightarrow> broker \<Rightarrow> world \<Rightarrow> unit source_step" where
  "submit_step sdk_same (Push frame) so b w = push_encoded sdk_same frame so b w"
| "submit_step sdk_same (PushH264 frame) so b w = push_h264 sdk_same frame so b w"
| "submit_step sdk_same (PushSimulcast fs) so b w = push_simulcast sdk_same fs so b w"
| "submit_step sdk_same CloseSource so b w = close_source so b w"

definition h264_unit :: "h264_access_unit \<Rightarrow> access_unit" where
  "h264_unit frame =
     \<lparr>au_data = h264_data frame, au_width = h264_width frame, au_height = h264_height frame,
      au_timestamp_us = h264_timestamp_us frame, au_key_frame = h264_key_frame frame,
      au_qp = h264_qp frame,
      au_metadata = \<lparr>md_codec = H264 False, simulcast_index = None, spatial_index = None,
        temporal_index = None, end_of_picture = True\<rparr>\<rparr>"

fun submitted_units :: "submission \<Rightarrow> access_unit list" where
  "submitted_units (Push frame) = [frame]"
| "submitted_units (PushH264 frame) = [h264_unit frame]"
| "submitted_units (PushSimulcast fs) = fs"
| "submitted_units CloseSource = []"

lemma enqueue_result:
  assumes "enqueue fs so b w = (r, so', b', w')"
  shows "r = Inr () \<Longrightarrow> fs \<noteq> [] \<and> so_last_timestamp_us so' = Some (au_timestamp_us (last fs))
      \<and> so_seen_keyframe so' = (so_seen_keyframe so \<or> list_all au_key_frame fs)
      \<and> so_closed so' = so_closed so \<and> so_codec so' = so_codec so \<and> so_format so' = so_format so"
    and "r = Inl e \<Longrightarrow> so' = so"
  using assms
  by (auto simp: enqueue_def push_encoded_trigger_def Let_def
      split: if_splits sum.splits prod.splits bool.splits intro!: encoded_source.equality)

text \<open>An accepted submission went through validation and the queue; anything else leaves the
  source as it was (closing apart).\<close>

lemma submit_step_accepted:
  assumes "submit_step sdk_same op so b w = (Inr (), so', b', w')" "op \<noteq> CloseSource"
  shows "(\<forall>u \<in> set (submitted_units op). \<exists>i. validate_unit sdk_same so u i = Inr ())
    \<and> (\<forall>u \<in> set (submitted_units op).
          au_timestamp_us u = au_timestamp_us (last (submitted_units op)))
    \<and> enqueue (submitted_units op) so b w = (Inr (), so', b', w')"
proof (cases op)
  case (PushSimulcast fs)
  with assms have enq: "enqueue fs so b w = (Inr (), so', b', w')"
    and ok: "check_rungs sdk_same so (au_timestamp_us (fs ! 0)) 0 None fs = Inr ()"
    by (auto simp: push_simulcast_def split: if_splits sum.splits)
  from enqueue_result(1) [OF enq] have "last fs \<in> set fs" by simp
  with check_rungs_ok [OF ok] enq PushSimulcast show ?thesis by auto
qed (use assms in \<open>auto simp: push_encoded_def push_h264_def h264_unit_def split: if_splits sum.splits\<close>)

lemma submit_step_refused:
  assumes "submit_step sdk_same op so b w = (Inl e, so', b', w')"
  shows "so' = so"
proof (cases op)
  case (PushSimulcast fs)
  with assms show ?thesis
    by (auto simp: push_simulcast_def dest: enqueue_result(2) split: if_splits sum.splits)
next
  case CloseSource
  with assms show ?thesis by (auto simp: close_source_def split: if_splits)
qed (use assms in \<open>auto simp: push_encoded_def push_h264_def dest: enqueue_result(2) split: if_splits sum.splits\<close>)


subsection \<open>Admission order\<close>

text \<open>A session: the owner's submissions, each against whatever broker and cells the rest of
  the program has produced by then; the result lists the accepted batches.\<close>

fun source_session ::
  "sdk_same_codec \<Rightarrow> (submission \<times> broker \<times> world) list \<Rightarrow> encoded_source
     \<Rightarrow> access_unit list list" where
  "source_session sdk_same [] so = []"
| "source_session sdk_same ((op, b, w) # ops) so =
     (let (r, so', b', w') = submit_step sdk_same op so b w;
          more = source_session sdk_same ops so'
      in if is_ok r \<and> op \<noteq> CloseSource then submitted_units op # more else more)"

definition capture_time :: "access_unit list \<Rightarrow> int" where
  "capture_time fs = sint (au_timestamp_us (last fs))"

definition after_last :: "encoded_source \<Rightarrow> int \<Rightarrow> bool" where
  "after_last so t \<longleftrightarrow> (case so_last_timestamp_us so of None \<Rightarrow> True | Some p \<Rightarrow> sint p < t)"

definition u_dim :: "u32 \<Rightarrow> bool" where
  "u_dim x \<longleftrightarrow> 1 \<le> x \<and> x \<le> 4096"

definition well_formed_unit :: "sdk_same_codec \<Rightarrow> video_codec_format \<Rightarrow> access_unit \<Rightarrow> bool" where
  "well_formed_unit sdk_same f u \<longleftrightarrow>
     u_dim (au_width u) \<and> u_dim (au_height u) \<and> 0 \<le> sint (au_timestamp_us u)
     \<and> matching_codec (fmt_name f) (md_codec (au_metadata u))
     \<and> (fmt_name f = ''H264'' \<longrightarrow> valid_annex_b sdk_same (au_data u) (au_key_frame u))
     \<and> (fmt_name f = ''VP8'' \<longrightarrow> valid_vp8 u)
     \<and> 0 < length (au_data u) \<and> length (au_data u) \<le> 8388608"


definition admitted ::
  "sdk_same_codec \<Rightarrow> encoded_source \<Rightarrow> access_unit list \<Rightarrow> encoded_source \<Rightarrow> bool" where
  "admitted sdk_same so fs so' \<longleftrightarrow>
     fs \<noteq> [] \<and> (\<forall>u \<in> set fs. well_formed_unit sdk_same (so_format so) u
       \<and> sint (au_timestamp_us u) = capture_time fs)
     \<and> after_last so (capture_time fs)
     \<and> (so_seen_keyframe so \<or> list_all au_key_frame fs)
     \<and> so_last_timestamp_us so' = Some (au_timestamp_us (last fs)) \<and> so_seen_keyframe so'"

lemma submit_step_cases:
  assumes "submit_step sdk_same op so b w = (r, so', b', w')"
  shows "so_format so' = so_format so
    \<and> (if is_ok r \<and> op \<noteq> CloseSource then admitted sdk_same so (submitted_units op) so'
       else so_last_timestamp_us so' = so_last_timestamp_us so
         \<and> so_seen_keyframe so' = so_seen_keyframe so)"
proof (cases "op = CloseSource")
  case True
  with assms show ?thesis by (auto simp: close_source_def split: if_splits)
next
  case False
  show ?thesis
  proof (cases r)
    case (Inl e)
    with submit_step_refused [of sdk_same op so b w e so' b' w'] assms show ?thesis by simp
  next
    case (Inr u)
    then have acc: "submit_step sdk_same op so b w = (Inr (), so', b', w')" using assms by simp
    note ok = submit_step_accepted [OF acc False]
    let ?fs = "submitted_units op"
    from ok have valid: "\<forall>u \<in> set ?fs. \<exists>i. validate_unit sdk_same so u i = Inr ()"
      and times: "\<forall>u \<in> set ?fs. au_timestamp_us u = au_timestamp_us (last ?fs)"
      and enq: "enqueue ?fs so b w = (Inr (), so', b', w')" by blast+
    note res = enqueue_result(1) [OF enq refl]
    have each: "well_formed_unit sdk_same (so_format so) u \<and> late_enough so u
        \<and> (so_seen_keyframe so \<or> au_key_frame u)" if "u \<in> set ?fs" for u
    proof -
      from valid that obtain i where "validate_unit sdk_same so u i = Inr ()" by blast
      then show ?thesis
        unfolding validate_unit_iff
        by (simp add: well_formed_unit_def u_dim_def word_le_nat_alt unat_gt_0 Suc_le_eq
            MAX_PENDING_BYTES_def)
    qed
    have "last ?fs \<in> set ?fs" using res by simp
    from each [OF this] have "after_last so (capture_time ?fs)"
      by (auto simp: late_enough_def after_last_def capture_time_def split: option.splits)
    moreover have "so_seen_keyframe so \<or> list_all au_key_frame ?fs"
      using each by (auto simp: list_all_iff)
    moreover have "\<forall>u \<in> set ?fs. well_formed_unit sdk_same (so_format so) u
        \<and> sint (au_timestamp_us u) = capture_time ?fs"
      using each times by (metis capture_time_def)
    ultimately show ?thesis
      using Inr False res by (simp add: admitted_def)
  qed
qed


lemma source_session_ordered:
  "sorted_wrt (<) (map capture_time (source_session sdk_same ops so))
   \<and> (\<forall>fs \<in> set (source_session sdk_same ops so). after_last so (capture_time fs)
        \<and> fs \<noteq> [] \<and> (\<forall>u \<in> set fs. well_formed_unit sdk_same (so_format so) u
             \<and> sint (au_timestamp_us u) = capture_time fs))
   \<and> (source_session sdk_same ops so \<noteq> [] \<longrightarrow>
        so_seen_keyframe so \<or> list_all au_key_frame (hd (source_session sdk_same ops so)))"
proof (induction ops arbitrary: so)
  case Nil
  then show ?case by simp
next
  case (Cons x ops)
  obtain op b w r so' b' w' where x: "x = (op, b, w)"
    and step: "submit_step sdk_same op so b w = (r, so', b', w')"
    by (metis prod.exhaust)
  note facts = submit_step_cases [OF step] and IH = Cons.IH [of so']
  show ?case
  proof (cases "is_ok r \<and> op \<noteq> CloseSource")
    case True
    with facts have adm: "admitted sdk_same so (submitted_units op) so'"
      and fmt: "so_format so' = so_format so" by simp_all
    then have "so_last_timestamp_us so' = Some (au_timestamp_us (last (submitted_units op)))"
      "after_last so (capture_time (submitted_units op))" by (simp_all add: admitted_def)
    then have mono: "after_last so' t \<Longrightarrow> capture_time (submitted_units op) < t \<and> after_last so t" for t
      by (auto simp: after_last_def capture_time_def split: option.splits)
    have eq: "source_session sdk_same (x # ops) so
        = submitted_units op # source_session sdk_same ops so'"
      using True x step by simp
    show ?thesis
      unfolding eq using IH adm fmt mono by (auto simp: admitted_def)
  next
    case False
    with facts have same: "so_format so' = so_format so"
      "so_last_timestamp_us so' = so_last_timestamp_us so" "so_seen_keyframe so' = so_seen_keyframe so"
      by auto
    have eq: "source_session sdk_same (x # ops) so = source_session sdk_same ops so'"
      using False x step by auto
    have after: "after_last so' = after_last so" by (intro ext) (simp add: after_last_def same)
    show ?thesis unfolding eq using IH unfolding same after .
  qed
qed

text \<open>C18. What a source admits over its whole life, whatever else happens on the shared
  broker in between: batches with strictly increasing capture times, the first of which is a
  keyframe in every encoding; every unit of a batch carries the batch's time, plausible
  dimensions, the factory's codec and a payload that passes the codec's structural check.\<close>

theorem source_admits_ordered_stream:
  assumes "so_last_timestamp_us so = None" "\<not> so_seen_keyframe so"
    and "batches = source_session sdk_same ops so"
  shows "sorted_wrt (<) (map capture_time batches)
    \<and> (batches \<noteq> [] \<longrightarrow> list_all au_key_frame (hd batches))
    \<and> (\<forall>fs \<in> set batches. fs \<noteq> [] \<and> (\<forall>u \<in> set fs. well_formed_unit sdk_same (so_format so) u
         \<and> sint (au_timestamp_us u) = capture_time fs))"
  using source_session_ordered [of sdk_same ops so] assms by simp


definition sample_source :: encoded_source where
  "sample_source =
     \<lparr>so_native = \<lparr>nv_closed = False, nv_pushed = [], nv_controlled = False\<rparr>,
      so_format = new_format ''AV1'', so_codec = DeAv1, so_id = 1, so_closed = False,
      so_last_timestamp_us = None, so_seen_keyframe = False, so_dropped = 0, so_feedback = 0\<rparr>"

lemma sample_valid: "validate_unit sdk_same sample_source (tiny_unit 2) None = Inr ()"
  unfolding validate_unit_iff
  by (simp add: sample_source_def tiny_unit_def new_format_def late_enough_def bad_vp8_key_def
      bad_vp9_layers_def bad_temporal_index_def MAX_PENDING_BYTES_def)

lemma sample_push:
  "fst (push_encoded sdk_same (tiny_unit 2) sample_source broker_default sample_world) = Inr ()"
proof -
  obtain s where "broker_insert 1 0 0 [tiny_unit 2] broker_default sample_world = (Inr 1, s)"
    using tiny_insert by (metis prod.collapse)
  then show ?thesis
    unfolding push_encoded_def sample_valid
    by (cases s) (simp add: enqueue_def sample_source_def push_encoded_trigger_def tiny_unit_def)
qed

theorem source_admits_ordered_stream_witness:
  "\<exists>batches. batches = source_session (\<lambda>_ _. False)
       [(Push (tiny_unit 2), broker_default, sample_world)] sample_source
     \<and> batches = [[tiny_unit 2]] \<and> list_all au_key_frame (hd batches)"
proof -
  let ?ops = "[(Push (tiny_unit 2), broker_default, sample_world)]"
  have "source_session (\<lambda>_ _. False) ?ops sample_source = [[tiny_unit 2]]"
    using sample_push [of "\<lambda>_ _. False"] by (auto simp: Let_def split: prod.splits)
  with source_admits_ordered_stream [OF _ _ refl, of sample_source "\<lambda>_ _. False" ?ops]
  show ?thesis by (simp add: sample_source_def)
qed

lemma enqueue_refused_held:
  assumes "broker_inv b" "enqueue fs so b w = (Inl e, so', b', w')"
  shows "held b' u = held b u \<or> held b' u = None"
proof (cases "fs = []")
  case False
  obtain r b1 w1 where ins: "broker_insert (so_id so) (so_dropped so) (so_feedback so) fs b w = (r, b1, w1)"
    by (metis prod.exhaust)
  show ?thesis
  proof (cases r)
    case (Inl e1)
    then have sub: "submit_batch (so_id so, so_dropped so, so_feedback so, fs) (b, w) = (None, b1, w1)"
      using ins by simp
    from assms(2) False ins Inl have "b' = b1" by (simp add: enqueue_def Let_def)
    with submit_batch_facts [OF assms(1) sub, of 0 u] show ?thesis by simp
  next
    case (Inr token)
    then have sub: "submit_batch (so_id so, so_dropped so, so_feedback so, fs) (b, w) = (Some token, b1, w1)"
      using ins by simp
    have inv: "broker_core b1"
      using submit_batch_inv [OF assms(1), of "(so_id so, so_dropped so, so_feedback so, fs)" w] sub
      by (simp add: broker_inv_def)
    from assms(2) False ins Inr have "b' = drop_token token b1"
      by (simp add: enqueue_def Let_def drop_token_def split: prod.splits bool.splits)
    with submit_batch_facts [OF assms(1) sub, of token u] drop_token_core(3) [OF inv, of token]
    show ?thesis by auto
  qed
qed (use assms in \<open>simp add: enqueue_def\<close>)

lemma submit_step_refused_held:
  assumes "broker_inv b" "submit_step sdk_same op so b w = (Inl e, so', b', w')"
  shows "held b' u = held b u \<or> held b' u = None"
proof (cases op)
  case (PushSimulcast fs)
  with assms show ?thesis
    by (auto simp: push_simulcast_def dest: enqueue_refused_held split: if_splits sum.splits)
next
  case CloseSource
  with assms show ?thesis by (auto simp: close_source_def split: if_splits)
qed (use assms in \<open>auto simp: push_encoded_def push_h264_def dest: enqueue_refused_held split: if_splits sum.splits\<close>)

text \<open>C23. A submission is all or nothing.  Refused: the source's clock, keyframe state and
  native frames are unchanged, and no batch of it stays queued (every token of the broker
  redeems what it did before, or was evicted).  Accepted: the engine got exactly one frame, with the largest
  unit's geometry and time and a fresh token, and that token is held by the broker for exactly
  these units of this source.\<close>

theorem submission_atomic:
  assumes "broker_inv b" "op \<noteq> CloseSource"
    and "submit_step sdk_same op so b w = (r, so', b', w')"
  shows "case r of
     Inl e \<Rightarrow> so' = so \<and> (\<forall>u. held b' u = held b u \<or> held b' u = None)
   | Inr _ \<Rightarrow> (\<exists>token p. held b token = None \<and> held b' token = Some p
       \<and> source_id p = so_id so \<and> frames p = submitted_units op
       \<and> pb_dropped p = so_dropped so \<and> pb_feedback p = so_feedback so
       \<and> (let u = last (submitted_units op) in
            nv_pushed (so_native so') = nv_pushed (so_native so)
              @ [(au_width u, au_height u, au_timestamp_us u, token)]))"
proof (cases r)
  case (Inl e)
  with assms(3) have step: "submit_step sdk_same op so b w = (Inl e, so', b', w')" by simp
  have "so' = so" using submit_step_refused step by fastforce
  with Inl submit_step_refused_held [OF assms(1) step] show ?thesis by simp
next
  case (Inr x)
  let ?fs = "submitted_units op"
  from Inr assms(2,3) submit_step_accepted [of sdk_same op so b w so' b' w']
  have enq: "enqueue ?fs so b w = (Inr (), so', b', w')" by simp
  then obtain token where sub: "submit_batch (so_id so, so_dropped so, so_feedback so, ?fs) (b, w)
        = (Some token, b', w')"
    and pushed: "nv_pushed (so_native so') = nv_pushed (so_native so)
        @ [(au_width (last ?fs), au_height (last ?fs), au_timestamp_us (last ?fs), token)]"
    by (auto simp: enqueue_def Let_def push_encoded_trigger_def
        split: if_splits sum.splits prod.splits bool.splits)
  from submit_batch_facts [OF assms(1) sub, of token]
  have new: "sint token = sint (next_token b) + 1"
    "held b' token = Some (new_batch (so_id so) (so_dropped so) (so_feedback so) ?fs w)" by simp_all
  have "held b token = None"
    using new(1) assms(1) held_iff [of b token] by (force simp: broker_inv_def broker_core_def)
  with new pushed Inr show ?thesis by (auto simp: new_batch_def Let_def)
qed

theorem submission_atomic_witness:
  "\<exists>so' b' w' token p. submit_step (\<lambda>_ _. False) (Push (tiny_unit 2)) sample_source
       broker_default sample_world = (Inr (), so', b', w')
     \<and> held b' token = Some p \<and> frames p = [tiny_unit 2]"
proof -
  let ?r = "submit_step (\<lambda>_ _. False) (Push (tiny_unit 2)) sample_source broker_default sample_world"
  have "fst ?r = Inr ()" using sample_push by simp
  then obtain so' b' w' where r: "?r = (Inr (), so', b', w')" by (metis prod.collapse)
  from submission_atomic [OF broker_default_inv _ r] r show ?thesis by auto
qed

text \<open>C24. Closing is final and idempotent: no unit of the source stays queued (other sources'
  queues are untouched), its feedback is retired, every later submission is refused without
  effect, and closing again changes nothing.\<close>

theorem close_is_final:
  assumes "broker_inv b" "\<not> so_closed so" "close_source so b w = (r, so', b', w')"
  shows "r = Inr ()
    \<and> queue b' = filter (\<lambda>(t, p). source_id p \<noteq> so_id so) (queue b)
    \<and> retired (feedbacks w' (so_feedback so))
    \<and> close_source so' b' w' = (Inr (), so', b', w')
    \<and> (\<forall>op bb ww. op \<noteq> CloseSource \<longrightarrow> submitted_units op \<noteq> [] \<longrightarrow>
         (\<exists>e. submit_step sdk_same op so' bb ww = (Inl e, so', bb, ww)))"
proof -
  from assms have core: "broker_core b" by (simp add: broker_inv_def)
  from assms(2,3) have res: "r = Inr ()" "b' = remove_source (so_id so) b"
    "w' = fb_retire (so_feedback so) w" "so_closed so'"
    by (auto simp: close_source_def)
  have refuse: "validate_unit sdk_same so' u i = Inl Released" for u i
    using res(4) by (simp add: validate_unit_def)
  have "\<exists>e. submit_step sdk_same op so' bb ww = (Inl e, so', bb, ww)"
    if "op \<noteq> CloseSource" "submitted_units op \<noteq> []" for op bb ww
  proof (cases op)
    case (PushSimulcast fs)
    with that obtain u us where "fs = u # us" by (cases fs) auto
    with PushSimulcast refuse show ?thesis by (simp add: push_simulcast_def)
  qed (use that refuse in \<open>auto simp: push_encoded_def push_h264_def\<close>)
  with res remove_source_queue [OF core] show ?thesis
    by (auto simp: close_source_def)
qed

theorem close_is_final_witness:
  "\<exists>so' b' w'. close_source sample_source broker_default sample_world = (Inr (), so', b', w')
     \<and> close_source so' b' w' = (Inr (), so', b', w')"
proof -
  obtain r so' b' w' where c: "close_source sample_source broker_default sample_world
      = (r, so', b', w')" by (metis prod.exhaust)
  have "\<not> so_closed sample_source" by (simp add: sample_source_def)
  from close_is_final [OF broker_default_inv this c] c show ?thesis by auto
qed


subsection \<open>Factory capabilities\<close>

lemma build_input_some:
  "build_input sdk_same provider_ok f fps simulcast = Some r \<Longrightarrow> r = Inr (input, b) \<Longrightarrow>
     in_format input = default_parameters f \<and> in_temporal_fps input = fps
     \<and> in_simulcast input = simulcast \<and> b = broker_default
     \<and> direct_codec (fmt_name f) fps simulcast = Some (in_codec input)
     \<and> fmt_name f \<in> {''H264'', ''VP8'', ''VP9'', ''AV1'', ''H265''}"
  by (auto simp: build_input_def Let_def build_rejects_def split: if_splits option.splits)

lemma build_input_total: "build_input sdk_same provider_ok f fps simulcast \<noteq> None"
  by (auto simp: build_input_def Let_def build_rejects_def direct_codec_def split: option.splits)

lemma new_l1t3_some:
  assumes "new_l1t3_for_format sdk_same mode_valid provider_ok f fps = Some (Inr (input, b))"
  shows "fmt_name f = ''H264'' \<and> in_temporal_fps input = Some fps \<and> \<not> in_simulcast input
    \<and> fmt_name (in_format input) = ''H264'' \<and> \<not> fps_invalid fps
    \<and> {ScalabilityMode ''L1T1'', ScalabilityMode ''L1T3''} \<subseteq> set (scalability_modes (in_format input))"
proof -
  from assms obtain m1 m3 where modes:
    "parse_scalability_mode mode_valid ''L1T1'' = Inr m1"
    "parse_scalability_mode mode_valid ''L1T3'' = Inr m3" and f: "fmt_name f = ''H264''" "\<not> fps_invalid fps"
    and built: "build_input sdk_same provider_ok
      (with_scalability_mode (with_scalability_mode f m1) m3) (Some fps) False = Some (Inr (input, b))"
    by (simp add: new_l1t3_for_format_def split: if_splits sum.splits)
  from modes have "m1 = ScalabilityMode ''L1T1''" "m3 = ScalabilityMode ''L1T3''"
    by (simp_all add: parse_scalability_mode_def ok_or_eq_Inr then_some_def split: if_splits)
  with f build_input_some [OF built refl] show ?thesis by simp
qed

definition profiles_of :: "encoded_input \<Rightarrow> h264_source_profile set" where
  "profiles_of input = {p. profile_codec input p \<noteq> None}"

lemma profiles_of_iff:
  "L1T1 \<in> profiles_of input \<longleftrightarrow> fmt_name (in_format input) = ''H264''"
  "L1T3 \<in> profiles_of input \<longleftrightarrow> in_temporal_fps input \<noteq> None"
  "SimulcastL1T1 \<in> profiles_of input \<longleftrightarrow> in_simulcast input"
  by (simp_all add: profiles_of_def profile_codec_def then_some_def)

text \<open>Each way of building the input offers exactly the source profiles it documents,
  with valid cumulative frame rates where a temporal profile is offered, and building never
  panics: the \<open>unreachable!\<close> codec arm is unreachable.\<close>

theorem factory_offers_profiles:
  "(\<forall>i b. new_for_format sdk_same ok f = Some (Inr (i, b)) \<longrightarrow>
       profiles_of i = (if fmt_name f = ''H264'' then {L1T1} else {}))
   \<and> (\<forall>i b. new_l1t3_for_format sdk_same mode_valid ok f fps = Some (Inr (i, b)) \<longrightarrow>
       profiles_of i = {L1T1, L1T3} \<and> \<not> fps_invalid fps)
   \<and> (\<forall>i b. new_h264_profiles_for_format sdk_same mode_valid ok f fps = Some (Inr (i, b)) \<longrightarrow>
       profiles_of i = {L1T1, L1T3, SimulcastL1T1} \<and> \<not> fps_invalid fps)
   \<and> (\<forall>i b. new_simulcast_for_format sdk_same ok f = Some (Inr (i, b)) \<longrightarrow>
       profiles_of i = {L1T1, SimulcastL1T1})
   \<and> build_input sdk_same ok f temporal simulcast \<noteq> None"
proof -
  have all: "profiles_of i = {p. p = L1T1 \<and> fmt_name (in_format i) = ''H264''
      \<or> p = L1T3 \<and> in_temporal_fps i \<noteq> None \<or> p = SimulcastL1T1 \<and> in_simulcast i}" for i
  proof (rule set_eqI)
    fix p show "p \<in> profiles_of i \<longleftrightarrow> p \<in> {p. p = L1T1 \<and> fmt_name (in_format i) = ''H264''
      \<or> p = L1T3 \<and> in_temporal_fps i \<noteq> None \<or> p = SimulcastL1T1 \<and> in_simulcast i}"
      by (cases p) (simp_all add: profiles_of_iff)
  qed
  have plain: "profiles_of i = (if fmt_name f = ''H264'' then {L1T1} else {})"
    if "new_for_format sdk_same ok f = Some (Inr (i, b))" for i b
    using build_input_some [OF that [unfolded new_for_format_def] refl] by (auto simp: all)
  have temporal: "profiles_of i = {L1T1, L1T3} \<and> \<not> fps_invalid fps"
    if "new_l1t3_for_format sdk_same mode_valid ok f fps = Some (Inr (i, b))" for i b
    using new_l1t3_some [OF that] by (auto simp: all)
  have profiles: "profiles_of i = {L1T1, L1T3, SimulcastL1T1} \<and> \<not> fps_invalid fps"
    if made: "new_h264_profiles_for_format sdk_same mode_valid ok f fps = Some (Inr (i, b))" for i b
  proof -
    from made obtain j b' where j: "new_l1t3_for_format sdk_same mode_valid ok f fps = Some (Inr (j, b'))"
      "build_input sdk_same ok (in_format j) (Some fps) True = Some (Inr (i, b))"
      by (auto simp: new_h264_profiles_for_format_def split: option.splits sum.splits)
    from new_l1t3_some [OF j(1)] build_input_some [OF j(2) refl] show ?thesis by (auto simp: all)
  qed
  have simulcast: "profiles_of i = {L1T1, SimulcastL1T1}"
    if made: "new_simulcast_for_format sdk_same ok f = Some (Inr (i, b))" for i b
  proof -
    from made have name: "fmt_name f = ''H264''"
      and built: "build_input sdk_same ok f None True = Some (Inr (i, b))"
      by (simp_all add: new_simulcast_for_format_def split: if_splits)
    from name build_input_some [OF built refl] show ?thesis by (auto simp: all)
  qed
  from plain temporal profiles simulcast build_input_total show ?thesis by blast
qed

theorem factory_offers_profiles_witness:
  "\<exists>i b. new_h264_profiles_for_format (\<lambda>_ _. True) (\<lambda>_. True) True default_format [85, 170, 255]
       = Some (Inr (i, b)) \<and> profiles_of i = {L1T1, L1T3, SimulcastL1T1}"
proof -
  have "\<exists>i b. new_h264_profiles_for_format (\<lambda>_ _. True) (\<lambda>_. True) True default_format [85, 170, 255]
      = Some (Inr (i, b))"
    by (simp add: new_h264_profiles_for_format_def new_l1t3_for_format_def fps_invalid_def
        parse_scalability_mode_def build_input_def build_rejects_def default_format_def
        h264_format_def new_format_def with_parameter_def with_scalability_mode_def
        same_codec_format_def direct_codec_def default_parameters_def Let_def)
  with factory_offers_profiles [of "\<lambda>_ _. True" True default_format "\<lambda>_. True" "[85, 170, 255]"]
  show ?thesis by blast
qed

end
