(* ===== verification/InputEncoder.thy ===== *)
theory InputEncoder
  imports EncodedInput
begin

text \<open>
  The encoder adapter of \<open>src/encoded_video.rs\<close> (\<open>InputFactory\<close>, \<open>ReferenceChains\<close>,
  \<open>InputEncoder\<close>) and the image callback of \<open>src/codec.rs\<close> it publishes through.  The
  engine is an arbitrary function from the calls made so far and the next call to the answer
  of the native callback; the calls made are returned as a log.  Whether a feedback cell still
  has a strong reference when a \<open>Weak\<close> is upgraded is the parameter \<open>alive\<close>.
\<close>

subsection \<open>The image callback\<close>

record native_image =
  ni_data :: bytes
  ni_width :: u32
  ni_height :: u32
  ni_rtp_timestamp :: u32
  ni_key :: bool
  ni_qp :: i32
  ni_metadata :: ffi_encoded_video_metadata

datatype callback_call =
    EmitImage (image: native_image)
  | FrameDropped u32 i32 bool

type_synonym call_log = "(callback_call \<times> bool) list"
type_synonym engine = "call_log \<Rightarrow> callback_call \<Rightarrow> bool"

text \<open>A callback handle is null (\<open>None\<close>) or reaches the engine.\<close>

definition invoke :: "engine \<Rightarrow> callback_call \<Rightarrow> call_log \<Rightarrow> bool \<times> call_log" where
  "invoke e call log = (e log call, log @ [(call, e log call)])"

definition cb_frame_dropped ::
  "engine option \<Rightarrow> u32 \<Rightarrow> i32 \<Rightarrow> bool \<Rightarrow> call_log \<Rightarrow> (codec_error, unit) result \<times> call_log"
  where
  "cb_frame_dropped cb rtp spatial_id end_of_unit log =
     (case cb of
        None \<Rightarrow> (Inl CallbackUnavailable, log)
      | Some e \<Rightarrow>
          (case invoke e (FrameDropped rtp spatial_id end_of_unit) log of
             (ok, log) \<Rightarrow> (if ok then Inr () else Inl CallbackUnavailable, log)))"

definition metadata_absent :: ffi_encoded_video_metadata where
  "metadata_absent =
     \<lparr>f_codec = 0, f_simulcast_index = - 1, f_spatial_index = - 1, f_temporal_index = - 1,
      f_end_of_picture = True, f_non_reference = False, f_layer_sync = False, f_key_index = - 1,
      f_first_frame_in_picture = False, f_inter_picture_predicted = False,
      f_flexible_mode = False, f_num_spatial_layers = 1, f_inter_layer_predicted = False,
      f_temporal_up_switch = False\<rparr>"

definition emit_inner ::
  "engine option \<Rightarrow> encoded_video_frame \<Rightarrow> encoded_video_metadata option \<Rightarrow> call_log
     \<Rightarrow> (codec_error, unit) result \<times> call_log" where
  "emit_inner cb frame metadata log =
     (case cb of
        None \<Rightarrow> (Inl CallbackUnavailable, log)
      | Some e \<Rightarrow>
          (case invoke e (EmitImage
               \<lparr>ni_data = evf_data frame, ni_width = evf_width frame, ni_height = evf_height frame,
                ni_rtp_timestamp = evf_rtp_timestamp frame,
                ni_key = (evf_frame_type frame = Key),
                ni_qp = opt_u8_i32 (evf_qp frame),
                ni_metadata = (case metadata of None \<Rightarrow> metadata_absent | Some m \<Rightarrow> metadata_ffi m)\<rparr>)
               log of
             (ok, log) \<Rightarrow> (ok_or (then_some ok ()) Released, log)))"

definition emit_with_metadata where
  "emit_with_metadata cb frame metadata = emit_inner cb frame (Some metadata)"

subsection \<open>State\<close>

record reference_chains =
  previous :: "(u64 \<times> u64) option"
  intact :: "bool list"

definition chains_default :: reference_chains where
  "chains_default = \<lparr>previous = None, intact = [False, False, False]\<rparr>"

definition begin_capture ::
  "u64 \<Rightarrow> u64 \<Rightarrow> reference_chains \<Rightarrow> bool list \<times> reference_chains" where
  "begin_capture source seq c =
     (let follows = (case previous c of
            None \<Rightarrow> False
          | Some (previous_source, prev) \<Rightarrow>
              previous_source = source \<and> u64_checked_succ prev = Some seq)
      in (if follows then intact c else [False, False, False],
          \<lparr>previous = Some (source, seq), intact = [False, False, False]\<rparr>))"

record input_encoder =
  ie_released :: bool
  ie_rates :: "video_rate_control option"
  ie_temporal_fps :: "u8 list option"
  ie_simulcast :: bool
  ie_configuration :: "video_encoder_settings option"
  ie_active_feedback :: "addr option"
  ie_chains :: reference_chains

record input_frame_context =
  ctx_width :: u32
  ctx_height :: u32
  ctx_rtp_timestamp :: u32
  ctx_presentation_token :: "i64 option"

subsection \<open>The factory\<close>

definition factory_query_support ::
  "sdk_same_codec \<Rightarrow> encoded_input \<Rightarrow> video_codec_format \<Rightarrow> string option \<Rightarrow> codec_support" where
  "factory_query_support sdk_same input f mode =
     \<lparr>supported = (same_codec_format sdk_same f (in_format input)
        \<and> (mode = None \<or> mode = Some ''L1T1''
           \<or> in_temporal_fps input \<noteq> None \<and> mode = Some ''L1T3'')),
      power_efficient = False\<rparr>"

definition factory_create ::
  "sdk_same_codec \<Rightarrow> encoded_input \<Rightarrow> video_codec_format \<Rightarrow> (codec_error, input_encoder) result"
  where
  "factory_create sdk_same input f =
     (if \<not> same_codec_format sdk_same f (in_format input) then Inl UnsupportedFormat
      else Inr \<lparr>ie_released = False, ie_rates = None, ie_temporal_fps = in_temporal_fps input,
                ie_simulcast = in_simulcast input, ie_configuration = None,
                ie_active_feedback = None, ie_chains = chains_default\<rparr>)"

subsection \<open>Admission of a batch\<close>

definition is_l1t3 :: "video_encoder_settings \<Rightarrow> bool" where
  "is_l1t3 settings \<longleftrightarrow> map_option mode_str (es_scalability_mode settings) = Some ''L1T3''"

definition l1t3_configured :: "video_encoder_settings \<Rightarrow> bool" where
  "l1t3_configured settings \<longleftrightarrow>
     is_l1t3 settings \<and> es_simulcast_temporal_layers settings = [3]
     \<and> (case es_h264_temporal_layers settings of None \<Rightarrow> False | Some n \<Rightarrow> 1 \<le> n \<and> n \<le> 3)"

text \<open>No rates yet, or some cell of the rung's row is positive.\<close>

definition rung_funded :: "video_rate_control option \<Rightarrow> nat \<Rightarrow> bool" where
  "rung_funded rc index \<longleftrightarrow>
     (case rc of
        None \<Rightarrow> True
      | Some r \<Rightarrow> list_ex (\<lambda>cell. case cell of None \<Rightarrow> False | Some bps \<Rightarrow> 0 < bps)
                     (rc_layer_bitrates_bps r ! index))"

fun select_rungs ::
  "video_rate_control option \<Rightarrow> nat \<Rightarrow> video_simulcast_stream list \<Rightarrow> access_unit list
     \<Rightarrow> (codec_error, bool list) result" where
  "select_rungs rc index [] units = Inr []"
| "select_rungs rc index (stream # streams) units =
     (let unit = units ! index in
      if ss_temporal_layers stream \<noteq> 1
         \<or> ss_active stream
           \<and> (au_width unit, au_height unit) \<noteq> (ss_width stream, ss_height stream)
      then Inl InvalidConfiguration
      else
        and_then (select_rungs rc (Suc index) streams units) (\<lambda>rest.
          Inr ((ss_active stream \<and> rung_funded rc index) # rest)))"

definition admit_batch ::
  "input_encoder \<Rightarrow> input_frame_context \<Rightarrow> pending_batch \<Rightarrow> (codec_error, bool list) result" where
  "admit_batch enc ctx p =
     (let temporal = (case ie_configuration enc of None \<Rightarrow> False | Some s \<Rightarrow> is_l1t3 s) in
      if temporal \<and> ie_temporal_fps enc = None
         \<or> list_ex (\<lambda>frame. (temporal_index (au_metadata frame) \<noteq> None) \<noteq> temporal) (frames p)
      then Inl InvalidConfiguration
      else if temporal
         \<and> \<not> (case ie_configuration enc of None \<Rightarrow> False | Some s \<Rightarrow> l1t3_configured s)
      then Inl InvalidConfiguration
      else
        (case ie_configuration enc of
           None \<Rightarrow> Inl InvalidConfiguration
         | Some settings \<Rightarrow>
             (let streams = es_simulcast_streams settings;
                  simulcast = ie_simulcast enc \<and> length streams = 3 in
              if ie_simulcast enc \<and> length (frames p) = 3 \<and> \<not> simulcast
              then Inl InvalidConfiguration
              else if simulcast then
                (if length (frames p) \<noteq> 3 \<or> es_h264_temporal_layers settings \<noteq> Some 1
                 then Inl InvalidConfiguration
                 else select_rungs (ie_rates enc) 0 streams (frames p))
              else if length (frames p) \<noteq> 1
                \<or> (au_width (frames p ! 0), au_height (frames p ! 0)) \<noteq> (ctx_width ctx, ctx_height ctx)
              then Inl InvalidFrame
              else Inr (replicate (length (frames p)) True))))"

subsection \<open>Publication\<close>

type_synonym publish_result = "(codec_error, unit) result \<times> bool list \<times> world \<times> call_log"

definition frame_of_unit :: "input_frame_context \<Rightarrow> access_unit \<Rightarrow> encoded_video_frame" where
  "frame_of_unit ctx unit =
     \<lparr>evf_data = au_data unit, evf_width = au_width unit, evf_height = au_height unit,
      evf_rtp_timestamp = ctx_rtp_timestamp ctx,
      evf_frame_type = (if au_key_frame unit then Key else Delta),
      evf_qp = au_qp unit\<rparr>"

text \<open>The publication loop over the enumerated units; \<open>chain\<close> is \<open>chains.intact\<close>.\<close>

fun publish_units ::
  "engine option \<Rightarrow> input_frame_context \<Rightarrow> pending_batch \<Rightarrow> bool list \<Rightarrow> bool list
     \<Rightarrow> (nat \<times> access_unit) list \<Rightarrow> bool list \<Rightarrow> world \<Rightarrow> call_log \<Rightarrow> publish_result" where
  "publish_units cb ctx p selected decodable [] chain w log = (Inr (), chain, w, log)"
| "publish_units cb ctx p selected decodable ((index, unit) # rest) chain w log =
     (let count = length (frames p) in
      if \<not> selected ! index then
        publish_units cb ctx p selected decodable rest chain (add_dropped (pb_dropped p) 1 w) log
      else if \<not> decodable ! index then
        (let w = add_dropped (pb_dropped p) 1 w in
         case cb_frame_dropped cb (ctx_rtp_timestamp ctx) (of_nat index) True log of
           (Inl e, log) \<Rightarrow>
             (Inl e, chain,
              fb_record_error (pb_feedback p) e (add_dropped (pb_dropped p) (count - index - 1) w),
              log)
         | (Inr _, log) \<Rightarrow> publish_units cb ctx p selected decodable rest chain w log)
      else
        (case emit_with_metadata cb (frame_of_unit ctx unit) (au_metadata unit) log of
           (Inl e, log) \<Rightarrow>
             (Inl e, chain,
              fb_record_error (pb_feedback p) e (add_dropped (pb_dropped p) (count - index) w),
              log)
         | (Inr _, log) \<Rightarrow>
             publish_units cb ctx p selected decodable rest (chain[index := True]) w log))"

subsection \<open>The encoder\<close>

type_synonym encode_result =
  "(codec_error, unit) result \<times> input_encoder \<times> broker \<times> world \<times> call_log"

text \<open>From the batch on: \<open>previous\<close> is what \<open>begin_capture\<close> returned.\<close>

definition encode_batch ::
  "engine option \<Rightarrow> input_frame_context \<Rightarrow> video_frame_type list \<Rightarrow> pending_batch \<Rightarrow> bool list
     \<Rightarrow> input_encoder \<Rightarrow> broker \<Rightarrow> world \<Rightarrow> encode_result" where
  "encode_batch cb ctx frame_types p prev enc b w =
     (case admit_batch enc ctx p of
        Inl e \<Rightarrow> (let (e, w) = reject p e w in (Inl e, enc, b, w, []))
      | Inr selected \<Rightarrow>
          (let enc = enc\<lparr>ie_active_feedback := Some (pb_feedback p)\<rparr>;
               w = (case ie_rates enc of None \<Rightarrow> w | Some r \<Rightarrow> fb_set_rates (pb_feedback p) r w)
           in case check_keyframe_requests p frame_types selected w of
                (Inl e, w) \<Rightarrow> (Inl e, enc, b, w, [])
              | (Inr _, w) \<Rightarrow>
                  (let (decodable, w) = decodable_units p prev selected w;
                       (r, chain, w, log) =
                         publish_units cb ctx p selected decodable (enumerate 0 (frames p))
                           (intact (ie_chains enc)) w []
                   in (r, enc\<lparr>ie_chains := (ie_chains enc)\<lparr>intact := chain\<rparr>\<rparr>, b, w, log))))"

definition encode_pending ::
  "engine option \<Rightarrow> input_frame_context \<Rightarrow> video_frame_type list
     \<Rightarrow> input_encoder \<Rightarrow> broker \<Rightarrow> world \<Rightarrow> encode_result" where
  "encode_pending cb ctx frame_types enc b w =
     (if ie_released enc then (Inl Released, enc, b, w, [])
      else
        (case ctx_presentation_token ctx of
           None \<Rightarrow> (Inl InvalidFrame, enc, b, w, [])
         | Some token \<Rightarrow>
             (case broker_take token b of
                (None, b) \<Rightarrow> (Inl InvalidFrame, enc, b, w, [])
              | (Some p, b) \<Rightarrow>
                  (let (prev, chains) = begin_capture (source_id p) (sequence p) (ie_chains enc)
                   in encode_batch cb ctx frame_types p prev (enc\<lparr>ie_chains := chains\<rparr>) b w))))"

definition initialize_encoder :: "video_encoder_settings \<Rightarrow> input_encoder \<Rightarrow> input_encoder" where
  "initialize_encoder settings enc =
     enc\<lparr>ie_released := False, ie_rates := None, ie_active_feedback := None,
         ie_chains := chains_default, ie_configuration := Some settings\<rparr>"

definition set_encoder_rates ::
  "(addr \<Rightarrow> bool) \<Rightarrow> video_rate_control \<Rightarrow> input_encoder \<Rightarrow> world \<Rightarrow> input_encoder \<times> world" where
  "set_encoder_rates alive rc enc w =
     (enc\<lparr>ie_rates := Some rc\<rparr>,
      (case ie_active_feedback enc of
         None \<Rightarrow> w
       | Some a \<Rightarrow> if alive a then fb_set_rates a rc w else w))"

definition release_encoder :: "input_encoder \<Rightarrow> input_encoder" where
  "release_encoder enc = enc\<lparr>ie_released := True\<rparr>"

datatype encoded_image_frame_type = EmptyFrame | KeyFrame | DeltaFrame | NativeFrame i32

definition frame_type_of :: "encoded_image_frame_type \<Rightarrow> (codec_error, video_frame_type) result" where
  "frame_type_of t = (case t of KeyFrame \<Rightarrow> Inr Key | DeltaFrame \<Rightarrow> Inr Delta | _ \<Rightarrow> Inl InvalidFrame)"

fun collect_types ::
  "encoded_image_frame_type list \<Rightarrow> (codec_error, video_frame_type list) result" where
  "collect_types [] = Inr []"
| "collect_types (t # ts) =
     and_then (frame_type_of t) (\<lambda>t. and_then (collect_types ts) (\<lambda>ts. Inr (t # ts)))"

text \<open>The fields of a native raw frame the adapter reads; the presentation timestamp is
  already projected to finite microseconds.\<close>

record raw_frame =
  raw_width :: i32
  raw_height :: i32
  raw_rtp_timestamp :: u32
  raw_presentation :: "i64 option"

definition context_from_native :: "raw_frame \<Rightarrow> (codec_error, input_frame_context) result" where
  "context_from_native f =
     (if sint (raw_width f) < 0 \<or> sint (raw_height f) < 0
         \<or> raw_width f = 0 \<or> raw_height f = 0
      then Inl InvalidFrame
      else Inr \<lparr>ctx_width = raw_width f, ctx_height = raw_height f,
                ctx_rtp_timestamp = raw_rtp_timestamp f,
                ctx_presentation_token = raw_presentation f\<rparr>)"

definition encode_value ::
  "engine option \<Rightarrow> raw_frame \<Rightarrow> encoded_image_frame_type list option
     \<Rightarrow> input_encoder \<Rightarrow> broker \<Rightarrow> world \<Rightarrow> (codec_error, i32) result \<times> input_encoder \<times> broker \<times> world \<times> call_log"
  where
  "encode_value cb f types enc b w =
     (case context_from_native f of
        Inl e \<Rightarrow> (Inl e, enc, b, w, [])
      | Inr ctx \<Rightarrow>
          (case collect_types (case types of None \<Rightarrow> [] | Some ts \<Rightarrow> ts) of
             Inl e \<Rightarrow> (Inl e, enc, b, w, [])
           | Inr ts \<Rightarrow>
               (case encode_pending cb ctx ts enc b w of
                  (r, s) \<Rightarrow> (and_then r (\<lambda>_. Inr CODEC_OK), s))))"

subsection \<open>Encoder information\<close>

record video_encoder_info =
  implementation_name :: string
  hardware_accelerated :: bool
  supports_native_handle :: bool
  supports_simulcast :: bool
  fps_allocation :: "u8 list list option"

definition encoder_info :: "input_encoder \<Rightarrow> video_encoder_info" where
  "encoder_info enc =
     \<lparr>implementation_name = ''direct encoded video input'',
      hardware_accelerated = False, supports_native_handle = False,
      supports_simulcast = ie_simulcast enc,
      fps_allocation =
        (if (case ie_configuration enc of None \<Rightarrow> False
             | Some s \<Rightarrow> length (es_simulcast_streams s) = 3)
         then Some [[255], [255], [255], [], []]
         else if (case ie_configuration enc of None \<Rightarrow> False | Some s \<Rightarrow> \<not> is_l1t3 s)
         then Some [[255], [], [], [], []]
         else map_option (\<lambda>fps. [fps, [], [], [], []]) (ie_temporal_fps enc))\<rparr>"

subsection \<open>What publication does\<close>

definition image_of :: "input_frame_context \<Rightarrow> access_unit \<Rightarrow> native_image" where
  "image_of ctx u =
     \<lparr>ni_data = au_data u, ni_width = au_width u, ni_height = au_height u,
      ni_rtp_timestamp = ctx_rtp_timestamp ctx, ni_key = au_key_frame u,
      ni_qp = opt_u8_i32 (au_qp u), ni_metadata = metadata_ffi (au_metadata u)\<rparr>"

text \<open>The images the engine took.\<close>

fun accepted_images :: "call_log \<Rightarrow> native_image list" where
  "accepted_images [] = []"
| "accepted_images ((EmitImage i, True) # log) = i # accepted_images log"
| "accepted_images (_ # log) = accepted_images log"

lemma accepted_images_append [simp]:
  "accepted_images (log @ log') = accepted_images log @ accepted_images log'"
  by (induction log rule: accepted_images.induct) auto

lemma emit_cases:
  assumes "emit_with_metadata cb (frame_of_unit ctx u) (au_metadata u) log = (r, log')"
  shows "accepted_images log' = accepted_images log @ (if r = Inr () then [image_of ctx u] else [])"
  using assms
  by (auto simp: emit_with_metadata_def emit_inner_def invoke_def frame_of_unit_def image_of_def
      then_some_def split: option.splits if_splits)

lemma frame_dropped_log:
  "accepted_images (snd (cb_frame_dropped cb rtp i e log)) = accepted_images log"
  by (simp add: cb_frame_dropped_def invoke_def split: option.splits)

definition emitted_of :: "bool list \<Rightarrow> (nat \<times> access_unit) list \<Rightarrow> access_unit list" where
  "emitted_of chain us = map snd (filter (\<lambda>(i, u). i < length chain \<and> chain ! i) us)"

lemma publish_units_facts:
  assumes "publish_units cb ctx p selected decodable (enumerate k fs) chain w log = (r, chain', w', log')"
    and "k + length fs = length (frames p)" "length (frames p) \<le> length chain"
    and "\<forall>i. k \<le> i \<longrightarrow> i < length chain \<longrightarrow> \<not> chain ! i"
  shows "length chain' = length chain
    \<and> (\<forall>i < length chain. i < k \<longrightarrow> chain' ! i = chain ! i)
    \<and> (\<forall>i < length chain. chain' ! i \<longrightarrow> \<not> i < k \<longrightarrow>
         selected ! i \<and> decodable ! i \<and> i < length (frames p))
    \<and> accepted_images log' = accepted_images log
        @ map (image_of ctx) (emitted_of chain' (enumerate k fs))
    \<and> droppeds w' (pb_dropped p) + of_nat (length (emitted_of chain' (enumerate k fs)))
        = droppeds w (pb_dropped p) + of_nat (length fs)
    \<and> (\<forall>d. d \<noteq> pb_dropped p \<longrightarrow> droppeds w' d = droppeds w d)"
  using assms
proof (induction fs arbitrary: k chain w log)
  case Nil
  then show ?case by (auto simp: emitted_of_def not_less)
next
  case (Cons u fs)
  note run = Cons.prems(1) and len = Cons.prems(2,3) and clear = Cons.prems(4)
  have len': "Suc k + length fs = length (frames p)" and k: "k < length chain" using len by simp_all
  have clear': "\<forall>i. Suc k \<le> i \<longrightarrow> i < length chain \<longrightarrow> \<not> chain ! i" using clear by simp
  have none: "emitted_of chain (enumerate k (u # fs)) = []"
    using clear len by (auto simp: emitted_of_def filter_empty_conv in_set_enumerate_eq)
  consider (skip) "\<not> selected ! k" | (hold) "selected ! k" "\<not> decodable ! k"
    | (emit) "selected ! k" "decodable ! k" by blast
  then show ?case
  proof cases
    case skip
    with run have "publish_units cb ctx p selected decodable (enumerate (Suc k) fs) chain
        (add_dropped (pb_dropped p) 1 w) log = (r, chain', w', log')" by simp
    from Cons.IH [OF this len' len(2) clear'] clear k show ?thesis
      by (auto simp: emitted_of_def less_Suc_eq algebra_simps)
  next
    case hold
    obtain res log1 where cb: "cb_frame_dropped cb (ctx_rtp_timestamp ctx) (of_nat k) True log
        = (res, log1)" by fastforce
    then have log1: "accepted_images log1 = accepted_images log"
      using frame_dropped_log [of cb "ctx_rtp_timestamp ctx" "of_nat k" True log] by simp
    show ?thesis
    proof (cases res)
      case (Inl e)
      with run hold cb have "chain' = chain" "log' = log1"
        "w' = fb_record_error (pb_feedback p) e (add_dropped (pb_dropped p)
            (length (frames p) - k - 1) (add_dropped (pb_dropped p) 1 w))"
        by (simp_all add: Let_def)
      moreover have "length (frames p) - k - 1 = length fs" using len by simp
      ultimately show ?thesis using log1 none clear by (auto simp: algebra_simps)
    next
      case (Inr x)
      with run hold cb have "publish_units cb ctx p selected decodable (enumerate (Suc k) fs) chain
          (add_dropped (pb_dropped p) 1 w) log1 = (r, chain', w', log')" by (simp add: Let_def)
      from Cons.IH [OF this len' len(2) clear'] clear k log1 show ?thesis
        by (auto simp: emitted_of_def less_Suc_eq algebra_simps)
    qed
  next
    case emit
    obtain res log1 where cb: "emit_with_metadata cb (frame_of_unit ctx u) (au_metadata u) log
        = (res, log1)" by fastforce
    note log1 = emit_cases [OF cb]
    show ?thesis
    proof (cases res)
      case (Inl e)
      with run emit cb have "chain' = chain" "log' = log1"
        "w' = fb_record_error (pb_feedback p) e (add_dropped (pb_dropped p)
            (length (frames p) - k) w)"
        by (simp_all add: Let_def)
      moreover have "length (frames p) - k = Suc (length fs)" using len by simp
      ultimately show ?thesis using log1 none clear Inl by (auto simp: algebra_simps)
    next
      case (Inr x)
      with run emit cb have rest: "publish_units cb ctx p selected decodable (enumerate (Suc k) fs)
          (chain[k := True]) w log1 = (r, chain', w', log')" by (simp add: Let_def)
      have cleared: "\<forall>i. Suc k \<le> i \<longrightarrow> i < length (chain[k := True]) \<longrightarrow> \<not> chain[k := True] ! i"
        using clear by (auto simp: nth_list_update)
      have room: "length (frames p) \<le> length (chain[k := True])" using len(2) by simp
      note IH = Cons.IH [OF rest len' room cleared]
      then have "chain' ! k" using k by simp
      with IH len log1 Inr emit show ?thesis
        by (auto simp: emitted_of_def less_Suc_eq nth_list_update algebra_simps)
    qed
  qed
qed


lemma decodable_units_facts:
  "fst (decodable_units p prev selected w)
     = map (\<lambda>(i, u). selected ! i \<and> (au_key_frame u \<or> prev ! i)) (enumerate 0 (frames p))
   \<and> droppeds (snd (decodable_units p prev selected w)) = droppeds w"
proof -
  have "fst (fold (\<lambda>(index, unit) (out, w).
      let decodable = selected ! index \<and> (au_key_frame unit \<or> prev ! index);
          w' = (if selected ! index \<and> \<not> decodable
                then fb_request_encoding_keyframe (pb_feedback p) index w else w)
      in (out @ [decodable], w')) (enumerate k fs) (out, w))
     = out @ map (\<lambda>(i, u). selected ! i \<and> (au_key_frame u \<or> prev ! i)) (enumerate k fs)
    \<and> droppeds (snd (fold (\<lambda>(index, unit) (out, w).
      let decodable = selected ! index \<and> (au_key_frame unit \<or> prev ! index);
          w' = (if selected ! index \<and> \<not> decodable
                then fb_request_encoding_keyframe (pb_feedback p) index w else w)
      in (out @ [decodable], w')) (enumerate k fs) (out, w))) = droppeds w" for k fs out
    by (induction fs arbitrary: k out w) (auto simp: Let_def)
  from this [of 0 "frames p" "[]"] show ?thesis by simp
qed

lemma reject_droppeds:
  "droppeds (snd (reject p e w)) (pb_dropped p) = droppeds w (pb_dropped p) + of_nat (length (frames p))"
  "d \<noteq> pb_dropped p \<Longrightarrow> droppeds (snd (reject p e w)) d = droppeds w d"
  "fst (reject p e w) = e"
  by (simp_all add: reject_def)

lemma check_keyframe_requests_facts:
  assumes "check_keyframe_requests p frame_types selected w = (r, w')"
  shows "droppeds w' (pb_dropped p)
      = droppeds w (pb_dropped p) + (if is_ok r then 0 else of_nat (length (frames p)))
    \<and> (\<forall>d. d \<noteq> pb_dropped p \<longrightarrow> droppeds w' d = droppeds w d)"
proof -
  let ?step = "\<lambda>(index, unit) (missing, w).
     if requested_key frame_types index
     then (missing \<or> \<not> au_key_frame unit, fb_request_encoding_keyframe (pb_feedback p) index w)
     else (missing, w)"
  let ?units = "filter (\<lambda>(index, unit). selected ! index) (enumerate 0 (frames p))"
  have keep: "droppeds (snd (fold ?step us (m, w))) = droppeds w" for us m
    by (induction us arbitrary: m w) auto
  obtain m w1 where fold: "fold ?step ?units (False, w) = (m, w1)" by fastforce
  have same: "droppeds w1 = droppeds w" using keep [of ?units False] fold by simp
  have res: "(r, w') = (if m then (case reject p InvalidFrame w1 of (e, w2) \<Rightarrow> (Inl e, w2))
      else (Inr (), w1))"
    using assms fold by (auto simp: check_keyframe_requests_def Let_def split: if_splits)
  show ?thesis
    using res same reject_droppeds [where p = p and e = InvalidFrame and w = w1]
    by (cases m) (simp_all add: case_prod_unfold)
qed

lemma select_rungs_length:
  "select_rungs rc k streams units = Inr selected \<Longrightarrow> length selected = length streams"
  by (induction streams arbitrary: k selected)
    (auto simp: Let_def and_then_eq_Inr split: if_splits)

lemma admit_batch_length:
  assumes "admit_batch enc ctx p = Inr selected"
  shows "length (frames p) \<in> {1, 3} \<and> length selected = length (frames p)"
  using assms
  by (auto simp: admit_batch_def Let_def dest!: select_rungs_length split: if_splits option.splits)


lemma rates_droppeds [simp]:
  "droppeds (case rc of None \<Rightarrow> w | Some r \<Rightarrow> fb_set_rates a r w) = droppeds w"
  by (simp split: option.split)

text \<open>Everything an encode call does once it has its batch, on every path.\<close>

definition batch_outcome ::
  "input_frame_context \<Rightarrow> pending_batch \<Rightarrow> bool list \<Rightarrow> bool list \<Rightarrow> world \<Rightarrow> world \<Rightarrow> call_log \<Rightarrow> bool"
  where
  "batch_outcome ctx p prev chain w w' log \<longleftrightarrow>
     length chain = 3
     \<and> (\<forall>i < 3. chain ! i \<longrightarrow> i < length (frames p) \<and> (au_key_frame (frames p ! i) \<or> prev ! i))
     \<and> accepted_images log = map (image_of ctx) (emitted_of chain (enumerate 0 (frames p)))
     \<and> droppeds w' (pb_dropped p) + of_nat (length (accepted_images log))
         = droppeds w (pb_dropped p) + of_nat (length (frames p))
     \<and> (\<forall>d. d \<noteq> pb_dropped p \<longrightarrow> droppeds w' d = droppeds w d)"

lemma outcome_nothing:
  assumes "droppeds w' (pb_dropped p) = droppeds w (pb_dropped p) + of_nat (length (frames p))"
    and "\<forall>d. d \<noteq> pb_dropped p \<longrightarrow> droppeds w' d = droppeds w d"
  shows "batch_outcome ctx p prev [False, False, False] w w' []"
proof -
  have none: "\<not> (i < length [False, False, False] \<and> [False, False, False] ! i)" for i
    by (auto simp: nth_Cons split: nat.splits)
  then have "emitted_of [False, False, False] (enumerate 0 (frames p)) = []"
    unfolding emitted_of_def by (simp add: case_prod_unfold del: length_Cons list.size)
  with none assms show ?thesis by (auto simp: batch_outcome_def)
qed

lemma encode_batch_facts:
  assumes "encode_batch cb ctx frame_types p prev enc b w = (r, enc', b', w', log)"
    and "intact (ie_chains enc) = [False, False, False]"
  shows "b' = b \<and> previous (ie_chains enc') = previous (ie_chains enc)
    \<and> batch_outcome ctx p prev (intact (ie_chains enc')) w w' log"
proof (cases "admit_batch enc ctx p")
  case (Inl e)
  obtain e' w1 where rej: "reject p e w = (e', w1)" by fastforce
  with Inl assms have res: "b' = b" "enc' = enc" "w' = w1" "log = []"
    by (simp_all add: encode_batch_def)
  with rej reject_droppeds [where p = p and e = e and w = w] assms(2) outcome_nothing [where w' = w' and p = p and w = w and ctx = ctx and prev = prev]
  show ?thesis by simp
next
  case (Inr selected)
  note len = admit_batch_length [OF Inr]
  let ?w1 = "case ie_rates enc of None \<Rightarrow> w | Some r \<Rightarrow> fb_set_rates (pb_feedback p) r w"
  obtain c w2 where chk: "check_keyframe_requests p frame_types selected ?w1 = (c, w2)" by fastforce
  note chk_facts = check_keyframe_requests_facts [OF chk]
  show ?thesis
  proof (cases c)
    case (Inl e)
    with chk assms(1) \<open>admit_batch enc ctx p = Inr selected\<close>
    have "b' = b" "enc' = enc\<lparr>ie_active_feedback := Some (pb_feedback p)\<rparr>" "w' = w2" "log = []"
      by (simp_all add: encode_batch_def Let_def)
    with chk_facts Inl assms(2) outcome_nothing [where w' = w' and p = p and w = w and ctx = ctx and prev = prev] show ?thesis by simp
  next
    case (Inr x)
    obtain decodable w3 where dec: "decodable_units p prev selected w2 = (decodable, w3)" by fastforce
    from decodable_units_facts [of p prev selected w2] dec
    have dec_facts: "decodable = map (\<lambda>(i, u). selected ! i \<and> (au_key_frame u \<or> prev ! i))
        (enumerate 0 (frames p))" "droppeds w3 = droppeds w2" by simp_all
    obtain r' chain w4 log' where pub: "publish_units cb ctx p selected decodable
        (enumerate 0 (frames p)) [False, False, False] w3 [] = (r', chain, w4, log')"
      by (metis prod.exhaust)
    from assms \<open>admit_batch enc ctx p = Inr selected\<close> chk Inr dec pub
    have res: "b' = b" "w' = w4" "log = log'"
      "ie_chains enc' = (ie_chains enc)\<lparr>intact := chain\<rparr>"
      by (auto simp: encode_batch_def Let_def)
    have clear: "\<forall>i. 0 \<le> i \<longrightarrow> i < length [False, False, False] \<longrightarrow> \<not> [False, False, False] ! i"
      by (auto simp: nth_Cons split: nat.splits)
    have room: "length (frames p) \<le> length [False, False, False]" using len by auto
    have pf: "length chain = 3"
      "\<forall>i < 3. chain ! i \<longrightarrow> selected ! i \<and> decodable ! i \<and> i < length (frames p)"
      "accepted_images log' = map (image_of ctx) (emitted_of chain (enumerate 0 (frames p)))"
      "droppeds w4 (pb_dropped p) + of_nat (length (emitted_of chain (enumerate 0 (frames p))))
        = droppeds w3 (pb_dropped p) + of_nat (length (frames p))"
      "\<forall>d. d \<noteq> pb_dropped p \<longrightarrow> droppeds w4 d = droppeds w3 d"
      using publish_units_facts [OF pub _ room clear] by simp_all
    have "au_key_frame (frames p ! i) \<or> prev ! i" if "i < 3" "chain ! i" for i
    proof -
      from pf(2) that have "decodable ! i" "i < length (frames p)" by blast+
      then show ?thesis by (simp add: dec_facts(1) nth_enumerate_eq)
    qed
    with pf res dec_facts(2) chk_facts Inr show ?thesis by (simp add: batch_outcome_def)
  qed
qed


lemma encode_pending_taken:
  assumes "\<not> ie_released enc" "ctx_presentation_token ctx = Some token" "held b token = Some p"
    and "encode_pending cb ctx frame_types enc b w = (r, enc', b', w', log)"
    and "begin_capture (source_id p) (sequence p) (ie_chains enc) = (prev, chs)"
  shows "b' = drop_token token b \<and> previous (ie_chains enc') = Some (source_id p, sequence p)
    \<and> batch_outcome ctx p prev (intact (ie_chains enc')) w w' log"
proof -
  have take: "broker_take token b = (Some p, drop_token token b)"
    using assms(3) by (simp add: broker_take_def drop_token_def held_def)
  have run: "encode_batch cb ctx frame_types p prev (enc\<lparr>ie_chains := chs\<rparr>) (drop_token token b) w
      = (r, enc', b', w', log)"
    using assms take by (simp add: encode_pending_def)
  have chs: "chs = \<lparr>previous = Some (source_id p, sequence p), intact = [False, False, False]\<rparr>"
    using assms(5) by (simp add: begin_capture_def Let_def)
  from encode_batch_facts [OF run] chs show ?thesis by simp
qed

lemma encode_pending_untaken:
  assumes "ie_released enc \<or> ctx_presentation_token ctx = None
      \<or> (\<exists>t. ctx_presentation_token ctx = Some t \<and> held b t = None)"
  shows "\<exists>e. encode_pending cb ctx frame_types enc b w = (Inl e, enc, b, w, [])"
  using assms by (auto simp: encode_pending_def broker_take_def held_def split: option.splits)

subsection \<open>Accounting and lossless publication\<close>

text \<open>C3. Every unit of an encoded batch is published or counted as dropped, on every path
  (refusals, held deltas, unfunded rungs, callback failures midway); the published images are,
  in order, the batch's own units, bit for bit and with their metadata; and no other source's
  counter moves.\<close>

theorem encode_conserves_units:
  assumes "broker_inv b"
    and "\<not> ie_released enc" "ctx_presentation_token ctx = Some token" "held b token = Some p"
    and "encode_pending cb ctx frame_types enc b w = (r, enc', b', w', log)"
  shows "(\<exists>chain. accepted_images log = map (image_of ctx) (emitted_of chain (enumerate 0 (frames p))))
    \<and> droppeds w' (pb_dropped p)
        = droppeds w (pb_dropped p) + of_nat (length (frames p)) - of_nat (length (accepted_images log))
    \<and> (\<forall>d. d \<noteq> pb_dropped p \<longrightarrow> droppeds w' d = droppeds w d)
    \<and> held b' = (held b)(token := None)"
proof -
  obtain prev chs where cap: "begin_capture (source_id p) (sequence p) (ie_chains enc) = (prev, chs)"
    by fastforce
  from encode_pending_taken [OF assms(2-5) cap]
  have b': "b' = drop_token token b"
    and out: "batch_outcome ctx p prev (intact (ie_chains enc')) w w' log" by simp_all
  have "droppeds w' (pb_dropped p)
        = droppeds w (pb_dropped p) + of_nat (length (frames p)) - of_nat (length (accepted_images log))"
    unfolding eq_diff_eq using out unfolding batch_outcome_def by blast
  with out b' drop_token_core(3) [of b token] assms(1) show ?thesis
    unfolding batch_outcome_def broker_inv_def by blast
qed

subsection \<open>Decodability\<close>

datatype encoder_op =
    Encode "engine option" input_frame_context "video_frame_type list" broker world
  | Initialize video_encoder_settings
  | SetEncoderRates "addr \<Rightarrow> bool" video_rate_control world
  | ReleaseEncoder

record capture =
  cap_batch :: pending_batch
  cap_context :: input_frame_context
  cap_log :: call_log
  cap_emitted :: "bool list"

datatype encoder_event = Reset | Captured capture

definition batch_for :: "input_encoder \<Rightarrow> input_frame_context \<Rightarrow> broker \<Rightarrow> pending_batch option" where
  "batch_for enc ctx b =
     (if ie_released enc then None else Option.bind (ctx_presentation_token ctx) (held b))"

fun encoder_step :: "encoder_op \<Rightarrow> input_encoder \<Rightarrow> encoder_event list \<times> input_encoder" where
  "encoder_step (Encode cb ctx types b w) enc =
     (let (r, enc', b', w', log) = encode_pending cb ctx types enc b w in
      (case batch_for enc ctx b of
         None \<Rightarrow> []
       | Some p \<Rightarrow>
           [Captured \<lparr>cap_batch = p, cap_context = ctx, cap_log = log,
              cap_emitted = intact (ie_chains enc')\<rparr>], enc'))"
| "encoder_step (Initialize settings) enc = ([Reset], initialize_encoder settings enc)"
| "encoder_step (SetEncoderRates alive rc w) enc = ([], fst (set_encoder_rates alive rc enc w))"
| "encoder_step ReleaseEncoder enc = ([], release_encoder enc)"

fun encoder_trace :: "encoder_op list \<Rightarrow> input_encoder \<Rightarrow> encoder_event list" where
  "encoder_trace [] enc = []"
| "encoder_trace (op # ops) enc =
     (let (events, enc') = encoder_step op enc in events @ encoder_trace ops enc')"

definition key_at :: "capture \<Rightarrow> nat \<Rightarrow> bool" where
  "key_at c i \<longleftrightarrow> i < length (frames (cap_batch c)) \<and> au_key_frame (frames (cap_batch c) ! i)"

definition follows :: "capture \<Rightarrow> capture \<Rightarrow> bool" where
  "follows d c \<longleftrightarrow>
     source_id (cap_batch c) = source_id (cap_batch d)
     \<and> unat (sequence (cap_batch c)) = unat (sequence (cap_batch d)) + 1"

definition linked :: "capture option \<Rightarrow> capture \<Rightarrow> bool" where
  "linked last_capture c \<longleftrightarrow>
     accepted_images (cap_log c)
       = map (image_of (cap_context c)) (emitted_of (cap_emitted c) (enumerate 0 (frames (cap_batch c))))
     \<and> (\<forall>i < 3. cap_emitted c ! i \<longrightarrow> key_at c i
          \<or> (\<exists>d. last_capture = Some d \<and> cap_emitted d ! i \<and> follows d c))"

fun chain_ok :: "capture option \<Rightarrow> encoder_event list \<Rightarrow> bool" where
  "chain_ok last_capture [] = True"
| "chain_ok last_capture (Reset # es) = chain_ok None es"
| "chain_ok last_capture (Captured c # es) = (linked last_capture c \<and> chain_ok (Some c) es)"

definition chains_match :: "capture option \<Rightarrow> input_encoder \<Rightarrow> bool" where
  "chains_match last_capture enc \<longleftrightarrow>
     (case last_capture of
        None \<Rightarrow> intact (ie_chains enc) = [False, False, False]
      | Some c \<Rightarrow> intact (ie_chains enc) = cap_emitted c
          \<and> previous (ie_chains enc) = Some (source_id (cap_batch c), sequence (cap_batch c)))"

definition last_of :: "capture option \<Rightarrow> encoder_event list \<Rightarrow> capture option" where
  "last_of last_capture es =
     (case es of [] \<Rightarrow> last_capture | _ \<Rightarrow> (case last es of Reset \<Rightarrow> None | Captured c \<Rightarrow> Some c))"

lemma encoder_step_linked:
  assumes "chains_match lc enc" "encoder_step op enc = (es, enc')"
  shows "chain_ok lc es \<and> chains_match (last_of lc es) enc'"
proof (cases op)
  case (Encode cb ctx types b w)
  obtain r e1 b1 w1 log where run: "encode_pending cb ctx types enc b w = (r, e1, b1, w1, log)"
    by (metis prod.exhaust)
  show ?thesis
  proof (cases "batch_for enc ctx b")
    case None
    then have "ie_released enc \<or> ctx_presentation_token ctx = None
        \<or> (\<exists>t. ctx_presentation_token ctx = Some t \<and> held b t = None)"
      by (cases "ctx_presentation_token ctx") (auto simp: batch_for_def split: if_splits)
    from encode_pending_untaken [OF this, of cb types w] run have "e1 = enc" by auto
    with assms Encode None run show ?thesis by (simp add: last_of_def)
  next
    case (Some p)
    then obtain t where t: "\<not> ie_released enc" "ctx_presentation_token ctx = Some t"
      "held b t = Some p" by (auto simp: batch_for_def bind_eq_Some_conv split: if_splits)
    obtain prev chs where cap: "begin_capture (source_id p) (sequence p) (ie_chains enc) = (prev, chs)"
      by fastforce
    note taken = encode_pending_taken [OF t run cap]
    have es: "es = [Captured \<lparr>cap_batch = p, cap_context = ctx, cap_log = log,
        cap_emitted = intact (ie_chains e1)\<rparr>]" "enc' = e1"
      using assms(2) Encode Some run by auto
    have prev: "\<exists>d. lc = Some d \<and> cap_emitted d ! i \<and> source_id p = source_id (cap_batch d)
        \<and> unat (sequence p) = unat (sequence (cap_batch d)) + 1"
      if "prev ! i" "i < 3" for i
    proof -
      have off: "\<not> [False, False, False] ! i" using that(2) by (auto simp: nth_Cons split: nat.splits)
      with cap that(1) obtain src q where link: "previous (ie_chains enc) = Some (src, q)"
        "src = source_id p" "u64_checked_succ q = Some (sequence p)" "intact (ie_chains enc) ! i"
        by (auto simp: begin_capture_def Let_def split: if_splits option.splits)
      with assms(1) off obtain d where "lc = Some d" "cap_emitted d = intact (ie_chains enc)"
        "source_id (cap_batch d) = src" "sequence (cap_batch d) = q"
        by (auto simp: chains_match_def split: option.splits)
      with link u64_checked_succ_unat [of q "sequence p"] show ?thesis by auto
    qed
    show ?thesis
      using taken prev by (auto simp: es linked_def batch_outcome_def key_at_def follows_def
          last_of_def chains_match_def)
  qed
qed (use assms in \<open>auto simp: last_of_def chains_match_def initialize_encoder_def chains_default_def
    set_encoder_rates_def release_encoder_def split: option.splits\<close>)

lemma chain_ok_append: "chain_ok lc (es @ es') \<longleftrightarrow> chain_ok lc es \<and> chain_ok (last_of lc es) es'"
proof (induction es arbitrary: lc)
  case Nil
  then show ?case by (simp add: last_of_def)
next
  case (Cons e es)
  then show ?case by (cases e; cases es) (auto simp: last_of_def)
qed

lemma encoder_trace_linked: "chains_match lc enc \<Longrightarrow> chain_ok lc (encoder_trace ops enc)"
proof (induction ops arbitrary: lc enc)
  case Nil
  then show ?case by simp
next
  case (Cons op ops)
  obtain es enc' where step: "encoder_step op enc = (es, enc')" by fastforce
  from encoder_step_linked [OF Cons.prems step] Cons.IH [of "last_of lc es" enc'] step
  show ?case by (simp add: chain_ok_append)
qed

lemma chain_ok_nth:
  "chain_ok lc es \<Longrightarrow> k < length es \<Longrightarrow> es ! k = Captured c \<Longrightarrow>
     linked (last_of lc (take k es)) c"
proof (induction es arbitrary: lc k)
  case Nil
  then show ?case by simp
next
  case (Cons e es)
  show ?case
  proof (cases k)
    case 0
    with Cons.prems show ?thesis by (simp add: last_of_def)
  next
    case (Suc n)
    have "linked (last_of (last_of lc [e]) (take n es)) c"
      using Cons Suc by (cases e) (auto simp: last_of_def)
    moreover have "last_of (last_of lc [e]) (take n es) = last_of lc (take k (e # es))"
      using Suc by (cases "take n es") (auto simp: last_of_def)
    ultimately show ?thesis by simp
  qed
qed


lemma last_of_snoc:
  "last_of lc (es @ [e]) = (case e of Reset \<Rightarrow> None | Captured c \<Rightarrow> Some c)"
  by (cases es) (auto simp: last_of_def)

definition published_truly :: "capture \<Rightarrow> bool" where
  "published_truly c \<longleftrightarrow> accepted_images (cap_log c)
     = map (image_of (cap_context c)) (emitted_of (cap_emitted c) (enumerate 0 (frames (cap_batch c))))"

text \<open>Captures \<open>j\<close> to \<open>k\<close> published encoding \<open>i\<close> of one source without a gap, from a key.\<close>

definition unbroken :: "encoder_event list \<Rightarrow> nat \<Rightarrow> nat \<Rightarrow> nat \<Rightarrow> capture \<Rightarrow> bool" where
  "unbroken trace i j k c \<longleftrightarrow>
     (\<exists>d. trace ! j = Captured d \<and> key_at d i)
     \<and> (\<forall>m. j \<le> m \<and> m \<le> k \<longrightarrow>
          (\<exists>d. trace ! m = Captured d \<and> cap_emitted d ! i \<and> published_truly d
             \<and> source_id (cap_batch d) = source_id (cap_batch c)
             \<and> unat (sequence (cap_batch d)) + (k - m) = unat (sequence (cap_batch c))))"

lemma unbroken_start:
  "trace ! k = Captured c \<Longrightarrow> cap_emitted c ! i \<Longrightarrow> published_truly c \<Longrightarrow> key_at c i \<Longrightarrow>
     unbroken trace i k k c"
  unfolding unbroken_def by (auto simp: le_antisym)

lemma unbroken_step:
  assumes "unbroken trace i j k d" "follows d c"
    and "trace ! Suc k = Captured c" "cap_emitted c ! i" "published_truly c"
  shows "unbroken trace i j (Suc k) c"
  unfolding unbroken_def
proof (intro conjI allI impI)
  show "\<exists>d. trace ! j = Captured d \<and> key_at d i" using assms(1) by (simp add: unbroken_def)
  fix m assume m: "j \<le> m \<and> m \<le> Suc k"
  show "\<exists>d. trace ! m = Captured d \<and> cap_emitted d ! i \<and> published_truly d
      \<and> source_id (cap_batch d) = source_id (cap_batch c)
      \<and> unat (sequence (cap_batch d)) + (Suc k - m) = unat (sequence (cap_batch c))"
  proof (cases "m = Suc k")
    case True
    with assms show ?thesis by simp
  next
    case False
    with m have le: "j \<le> m \<and> m \<le> k" and diff: "Suc k - m = Suc (k - m)" by auto
    from assms(1) le obtain e where "trace ! m = Captured e" "cap_emitted e ! i" "published_truly e"
      "source_id (cap_batch e) = source_id (cap_batch d)"
      "unat (sequence (cap_batch e)) + (k - m) = unat (sequence (cap_batch d))"
      unfolding unbroken_def by blast
    with assms(2) diff show ?thesis by (intro exI [of _ e]) (simp add: follows_def)
  qed
qed

text \<open>C1. Everything the adapter publishes can be decoded, under any sequence of encode
  calls, rate updates, releases and re-initialisations, whatever the broker and the engine do:
  a published unit of encoding \<open>i\<close> is a keyframe, or the published unit of the same encoding
  in the source's immediately preceding submission precedes it, and so on back to a keyframe
  since the last initialisation, with no gap.\<close>

theorem published_units_decodable:
  assumes "intact (ie_chains enc) = [False, False, False]"
    and "trace = encoder_trace ops enc"
    and "k < length trace" "trace ! k = Captured c" "i < 3" "cap_emitted c ! i"
  shows "\<exists>j \<le> k. unbroken trace i j k c"
  using assms(3,4,6)
proof (induction k arbitrary: c)
  case 0
  have "chain_ok None trace"
    using encoder_trace_linked [of None enc ops] assms(1,2) by (simp add: chains_match_def)
  from chain_ok_nth [OF this 0(1,2)] 0 assms(5) show ?case
    by (auto simp: last_of_def linked_def published_truly_def intro!: unbroken_start)
next
  case (Suc k)
  have "chain_ok None trace"
    using encoder_trace_linked [of None enc ops] assms(1,2) by (simp add: chains_match_def)
  from chain_ok_nth [OF this Suc.prems(1,2)]
  have link: "linked (last_of None (take (Suc k) trace)) c" .
  then have true: "published_truly c" by (simp add: linked_def published_truly_def)
  have last: "last_of None (take (Suc k) trace)
      = (case trace ! k of Reset \<Rightarrow> None | Captured d \<Rightarrow> Some d)"
    using Suc.prems(1) by (simp add: last_of_snoc take_Suc_conv_app_nth)
  show ?case
  proof (cases "key_at c i")
    case True
    with Suc.prems true show ?thesis by (blast intro: unbroken_start)
  next
    case False
    with link Suc.prems(3) assms(5) last obtain d where d: "trace ! k = Captured d"
      "cap_emitted d ! i" "follows d c"
      by (auto simp: linked_def split: encoder_event.splits)
    with Suc.IH [of d] Suc.prems(1) obtain j where "j \<le> k" "unbroken trace i j k d" by auto
    with unbroken_step [OF this(2) d(3) Suc.prems(2,3) true] show ?thesis
      by (meson le_SucI)
  qed
qed


definition sample_batch :: pending_batch where
  "sample_batch =
     \<lparr>source_id = 1, sequence = 0, pb_dropped = 0, pb_feedback = 0, frames = [tiny_unit 2]\<rparr>"

definition sample_broker :: broker where
  "sample_broker =
     \<lparr>next_token = 1, next_source = 1, bytes_held = 2, pending = [(1, sample_batch)], order = [1]\<rparr>"

definition sample_settings :: video_encoder_settings where
  "sample_settings =
     \<lparr>es_width = 16, es_height = 16, es_start_bitrate_bps = 0, es_max_bitrate_bps = 0,
      es_min_bitrate_bps = 0, es_max_framerate = 30, es_cores = 1, es_max_payload_size = 1200,
      es_scalability_mode = None, es_h264_temporal_layers = None,
      es_simulcast_temporal_layers = [], es_simulcast_streams = []\<rparr>"

definition sample_encoder :: input_encoder where
  "sample_encoder =
     \<lparr>ie_released = False, ie_rates = None, ie_temporal_fps = None, ie_simulcast = False,
      ie_configuration = Some sample_settings, ie_active_feedback = None,
      ie_chains = chains_default\<rparr>"

definition sample_context :: input_frame_context where
  "sample_context =
     \<lparr>ctx_width = 16, ctx_height = 16, ctx_rtp_timestamp = 90, ctx_presentation_token = Some 1\<rparr>"

lemma sample_broker_inv: "broker_inv sample_broker"
  by (simp add: broker_inv_def broker_core_def sample_broker_def sample_batch_def batch_size_def
      units_size_def tiny_unit_def MAX_PENDING_def MAX_PENDING_BYTES_def)

lemma sample_held: "held sample_broker 1 = Some sample_batch"
  by (simp add: held_def sample_broker_def)

lemma sample_admitted:
  "admit_batch (sample_encoder\<lparr>ie_chains := chs\<rparr>) sample_context sample_batch = Inr [True]"
  by (simp add: admit_batch_def sample_encoder_def sample_context_def sample_batch_def
      sample_settings_def tiny_unit_def is_l1t3_def)

text \<open>The sample batch (one keyframe) is published by an engine that takes everything.\<close>

lemma sample_published:
  "\<exists>log. publish_units (Some (\<lambda>_ _. True)) sample_context sample_batch [True] [True]
     [(0, tiny_unit 2)] [False, False, False] sample_world []
     = (Inr (), [True, False, False], sample_world, log)"
  by (simp add: emit_with_metadata_def emit_inner_def invoke_def)

lemma sample_encoded:
  "\<exists>log. encode_pending (Some (\<lambda>_ _. True)) sample_context [] sample_encoder sample_broker sample_world
     = (Inr (), sample_encoder\<lparr>ie_active_feedback := Some 0,
          ie_chains := \<lparr>previous = Some (1, 0), intact = [True, False, False]\<rparr>\<rparr>,
        drop_token 1 sample_broker, sample_world, log)"
proof -
  have fields: "\<not> ie_released sample_encoder" "ctx_presentation_token sample_context = Some 1"
    "ie_rates sample_encoder = None" "pb_feedback sample_batch = 0"
    "frames sample_batch = [tiny_unit 2]" "au_key_frame (tiny_unit 2)"
    by (simp_all add: sample_encoder_def sample_context_def sample_batch_def tiny_unit_def)
  have take: "broker_take 1 sample_broker = (Some sample_batch, drop_token 1 sample_broker)"
    by (simp add: broker_take_def drop_token_def sample_broker_def)
  have cap: "begin_capture (source_id sample_batch) (sequence sample_batch) (ie_chains sample_encoder)
      = ([False, False, False], \<lparr>previous = Some (1, 0), intact = [False, False, False]\<rparr>)"
    by (simp add: begin_capture_def sample_encoder_def sample_batch_def chains_default_def)
  have key: "check_keyframe_requests sample_batch [] [True] sample_world = (Inr (), sample_world)"
    by (simp add: check_keyframe_requests_def fields requested_key_def)
  have dec: "decodable_units sample_batch [False, False, False] [True] sample_world
      = ([True], sample_world)"
    by (simp add: fields)
  from sample_published obtain log where pub: "publish_units (Some (\<lambda>_ _. True)) sample_context
      sample_batch [True] [True] [(0, tiny_unit 2)] [False, False, False] sample_world []
      = (Inr (), [True, False, False], sample_world, log)" by blast
  show ?thesis
    by (simp add: encode_pending_def take cap fields encode_batch_def sample_admitted key dec pub
        del: decodable_units.simps publish_units.simps)
qed

theorem encode_conserves_units_witness:
  "\<exists>r enc' b' w' log.
     encode_pending (Some (\<lambda>_ _. True)) sample_context [] sample_encoder sample_broker sample_world
       = (r, enc', b', w', log)
     \<and> droppeds w' 0 = 0 + 1 - of_nat (length (accepted_images log)) \<and> held b' 1 = None"
proof -
  obtain r enc' b' w' log where run:
    "encode_pending (Some (\<lambda>_ _. True)) sample_context [] sample_encoder sample_broker sample_world
       = (r, enc', b', w', log)" by (metis prod.exhaust)
  have fields: "\<not> ie_released sample_encoder" "ctx_presentation_token sample_context = Some 1"
    by (simp_all add: sample_encoder_def sample_context_def)
  from encode_conserves_units [OF sample_broker_inv fields sample_held run] run
  show ?thesis by (simp add: sample_batch_def sample_world_def)
qed

theorem published_units_decodable_witness:
  "\<exists>c j. encoder_trace [Encode (Some (\<lambda>_ _. True)) sample_context [] sample_broker sample_world]
       sample_encoder = [Captured c] \<and> cap_emitted c ! 0 \<and> j \<le> 0 \<and> unbroken [Captured c] 0 j 0 c"
proof -
  let ?ops = "[Encode (Some (\<lambda>_ _. True)) sample_context [] sample_broker sample_world]"
  have fields: "\<not> ie_released sample_encoder" "ctx_presentation_token sample_context = Some 1"
    "intact (ie_chains sample_encoder) = [False, False, False]"
    by (simp_all add: sample_encoder_def sample_context_def chains_default_def)
  from sample_encoded obtain c where c: "encoder_trace ?ops sample_encoder = [Captured c]"
    "cap_emitted c = [True, False, False]"
    by (auto simp: batch_for_def fields sample_held)
  from published_units_decodable [OF fields(3) refl, of 0 ?ops c 0] c show ?thesis by auto
qed


subsection \<open>Keyframe feedback\<close>

lemma requests_bit:
  "\<not> retired (feedbacks w a) \<Longrightarrow> i \<in> set is \<Longrightarrow> i < 8 \<Longrightarrow>
     bit (encoding_keyframes (feedbacks (fold (fb_request_encoding_keyframe a) is w) a)) i"
  using requests_mask [of w a "is"] fold_or_bit [of "is" "encoding_keyframes (feedbacks w a)" i]
  by simp

lemma check_fold:
  "fold (\<lambda>(index, unit) (missing, w).
      if requested_key types index
      then (missing \<or> \<not> au_key_frame unit, fb_request_encoding_keyframe a index w)
      else (missing, w)) us (m, w)
   = (m \<or> (\<exists>(i, u) \<in> set us. requested_key types i \<and> \<not> au_key_frame u),
      fold (fb_request_encoding_keyframe a) (map fst (filter (\<lambda>(i, u). requested_key types i) us)) w)"
  by (induction us arbitrary: m w) auto

lemma reject_mask:
  "encoding_keyframes (feedbacks (snd (reject p e w)) a) = encoding_keyframes (feedbacks w a)"
  by (simp add: reject_def)

text \<open>C25. Every native keyframe request for a selected encoding reaches the source, also
  when the batch is refused because another encoding's unit is no keyframe; the batch passes
  exactly when all requested selected units are keyframes.\<close>

theorem keyframe_requests_preserved:
  assumes "\<not> retired (feedbacks w (pb_feedback p))" "length (frames p) \<le> 8"
    and "check_keyframe_requests p types selected w = (r, w')"
  shows "(\<forall>i < length (frames p). selected ! i \<and> requested_key types i \<longrightarrow>
            bit (encoding_keyframes (feedbacks w' (pb_feedback p))) i)
    \<and> (is_ok r \<longleftrightarrow> (\<forall>i < length (frames p). selected ! i \<and> requested_key types i \<longrightarrow>
            au_key_frame (frames p ! i)))"
proof -
  let ?a = "pb_feedback p"
  let ?us = "filter (\<lambda>(index, unit). selected ! index) (enumerate 0 (frames p))"
  let ?is = "map fst (filter (\<lambda>(i, u). requested_key types i) ?us)"
  let ?missing = "\<exists>(i, u) \<in> set ?us. requested_key types i \<and> \<not> au_key_frame u"
  let ?w1 = "fold (fb_request_encoding_keyframe ?a) ?is w"
  have res: "(r, w') = (if ?missing then (Inl InvalidFrame, snd (reject p InvalidFrame ?w1))
      else (Inr (), ?w1))"
    using assms(3) reject_droppeds(3) [of p InvalidFrame ?w1] unfolding check_keyframe_requests_def check_fold
    by (auto simp: Let_def case_prod_unfold split: if_splits)
  have members: "(i, u) \<in> set ?us \<longleftrightarrow> i < length (frames p) \<and> selected ! i \<and> u = frames p ! i" for i u
    by (auto simp: in_set_enumerate_eq)
  have mask: "bit (encoding_keyframes (feedbacks ?w1 ?a)) i" if "i \<in> set ?is" "i < 8" for i
    using assms(1) that by (rule requests_bit)
  have same: "encoding_keyframes (feedbacks w' ?a) = encoding_keyframes (feedbacks ?w1 ?a)"
    using res reject_mask [of p InvalidFrame ?w1 ?a] by (auto split: if_splits)
  have ok: "is_ok r \<longleftrightarrow> \<not> ?missing" using res by (auto split: if_splits)
  have "i \<in> set ?is" if "i < length (frames p)" "selected ! i" "requested_key types i" for i
    using members [of i "frames p ! i"] that by force
  with mask same assms(2) have "\<forall>i < length (frames p). selected ! i \<and> requested_key types i \<longrightarrow>
      bit (encoding_keyframes (feedbacks w' ?a)) i" by fastforce
  moreover have "\<not> ?missing \<longleftrightarrow> (\<forall>i < length (frames p). selected ! i \<and> requested_key types i \<longrightarrow>
      au_key_frame (frames p ! i))"
    using members by fastforce
  ultimately show ?thesis using ok by blast
qed

theorem keyframe_requests_preserved_witness:
  "\<exists>r w'. check_keyframe_requests sample_batch [Key] [True] sample_world = (r, w')
     \<and> is_ok r \<and> bit (encoding_keyframes (feedbacks w' 0)) 0"
proof -
  obtain r w' where run: "check_keyframe_requests sample_batch [Key] [True] sample_world = (r, w')"
    by fastforce
  have live: "\<not> retired (feedbacks sample_world (pb_feedback sample_batch))"
    "length (frames sample_batch) \<le> 8"
    by (simp_all add: sample_world_def feedback_default_def sample_batch_def)
  from keyframe_requests_preserved [OF live run] run show ?thesis
    by (simp add: sample_batch_def requested_key_def tiny_unit_def)
qed

text \<open>After a successful encode, whatever was selected but held back has asked its source
  for a keyframe.\<close>

lemma decodable_requests:
  "fold (\<lambda>(index, unit) (out, w).
      let decodable = selected ! index \<and> (au_key_frame unit \<or> prev ! index);
          w' = (if selected ! index \<and> \<not> decodable
                then fb_request_encoding_keyframe a index w else w)
      in (out @ [decodable], w')) us (out, w)
   = (out @ map (\<lambda>(i, u). selected ! i \<and> (au_key_frame u \<or> prev ! i)) us,
      fold (fb_request_encoding_keyframe a)
        (map fst (filter (\<lambda>(i, u). selected ! i \<and> \<not> (au_key_frame u \<or> prev ! i)) us)) w)"
  by (induction us arbitrary: out w) (auto simp: Let_def split: if_splits)

text \<open>A delta that cannot be decoded is held and its encoding asks for a keyframe: after
  the decodability check the source's mask has the bit of every selected unit that was found
  undecodable, and a unit is found decodable exactly when it is selected and a keyframe or
  continues an intact chain.\<close>

theorem held_deltas_request_keyframes:
  assumes "\<not> retired (feedbacks w (pb_feedback p))" "length (frames p) \<le> 8"
    and "decodable_units p prev selected w = (decodable, w')"
  shows "length decodable = length (frames p)
    \<and> (\<forall>i < length (frames p).
         decodable ! i = (selected ! i \<and> (au_key_frame (frames p ! i) \<or> prev ! i))
         \<and> (selected ! i \<and> \<not> decodable ! i \<longrightarrow>
              bit (encoding_keyframes (feedbacks w' (pb_feedback p))) i))"
proof -
  let ?is = "map fst (filter (\<lambda>(i, u). selected ! i \<and> \<not> (au_key_frame u \<or> prev ! i))
    (enumerate 0 (frames p)))"
  have dec: "decodable = map (\<lambda>(i, u). selected ! i \<and> (au_key_frame u \<or> prev ! i))
      (enumerate 0 (frames p))"
    and w': "w' = fold (fb_request_encoding_keyframe (pb_feedback p)) ?is w"
    using assms(3) unfolding decodable_units.simps decodable_requests by auto
  have flag: "decodable ! i = (selected ! i \<and> (au_key_frame (frames p ! i) \<or> prev ! i))"
    if "i < length (frames p)" for i
    using that by (simp add: dec nth_enumerate_eq)
  have "bit (encoding_keyframes (feedbacks w' (pb_feedback p))) i"
    if i: "i < length (frames p)" "selected ! i" "\<not> decodable ! i" for i
  proof -
    have "(i, frames p ! i) \<in> set (enumerate 0 (frames p))" using i by (simp add: in_set_enumerate_eq)
    then have "i \<in> set ?is" using i flag [OF i(1)] by force
    moreover have "i < 8" using i(1) assms(2) by simp
    ultimately show ?thesis
      unfolding w' using requests_bit [OF assms(1)] by blast
  qed
  with flag dec show ?thesis by simp
qed

theorem held_deltas_request_keyframes_witness:
  "\<exists>decodable w'. decodable_units (sample_batch\<lparr>frames := [(tiny_unit 2)\<lparr>au_key_frame := False\<rparr>]\<rparr>)
       [False] [True] sample_world = (decodable, w')
     \<and> \<not> decodable ! 0 \<and> bit (encoding_keyframes (feedbacks w' 0)) 0"
proof -
  let ?p = "sample_batch\<lparr>frames := [(tiny_unit 2)\<lparr>au_key_frame := False\<rparr>]\<rparr>"
  obtain decodable w' where run: "decodable_units ?p [False] [True] sample_world = (decodable, w')"
    by fastforce
  have live: "\<not> retired (feedbacks sample_world (pb_feedback ?p))" "length (frames ?p) \<le> 8"
    by (simp_all add: sample_world_def feedback_default_def sample_batch_def)
  from held_deltas_request_keyframes [OF live run]
  have "\<not> decodable ! 0 \<and> bit (encoding_keyframes (feedbacks w' 0)) 0"
    by (simp add: sample_batch_def)
  with run show ?thesis by blast
qed

end
