(* ===== verification/OutcomeLedger.thy ===== *)
theory OutcomeLedger
  imports Prelude
begin

text \<open>
  The contract between a component that accepts operations and the one that collects their
  outcomes: identifiers are fresh when they are accepted, outcomes are of accepted operations, and
  nothing else changes the set of operations under way.  Whoever keeps it settles every accepted
  operation exactly once, over any sequence of steps.
\<close>

fun run_steps :: "('a \<Rightarrow> 's \<Rightarrow> ('r \<times> 's) option) \<Rightarrow> 'a list \<Rightarrow> 's \<Rightarrow> ('r list \<times> 's) option" where
  "run_steps step [] s = Some ([], s)"
| "run_steps step (a # as) s =
     Option.bind (step a s) (\<lambda>(r, s). map_option (\<lambda>(rs, s). (r # rs, s)) (run_steps step as s))"

lemma run_steps_Cons:
  "run_steps step (a # as) s = Some (rs, s'') \<longleftrightarrow>
     (\<exists>r s' rs'. step a s = Some (r, s') \<and> run_steps step as s' = Some (rs', s'') \<and> rs = r # rs')"
  by (auto split: bind_splits)

definition occurrences :: "('r \<Rightarrow> 'i option) \<Rightarrow> 'i \<Rightarrow> 'r list \<Rightarrow> nat" where
  "occurrences f i rs = length (filter (\<lambda>r. f r = Some i) rs)"

lemma occurrences_simps [simp]:
  "occurrences f i [] = 0"
  "occurrences f i (r # rs) = of_bool (f r = Some i) + occurrences f i rs"
  by (simp_all add: occurrences_def)

lemma count_list_option [simp]:
  "count_list (case x of None \<Rightarrow> [] | Some j \<Rightarrow> [j]) i = of_bool (x = Some i)"
  by (cases x) simp_all

text \<open>The general contract: a reply may accept or settle several operations, and \<open>owed\<close> counts those
  under way.  The invariant may be one that lasts for a number of steps.\<close>

locale settlement =
  fixes step :: "'a \<Rightarrow> 's \<Rightarrow> ('r \<times> 's) option"
    and inv :: "nat \<Rightarrow> 's \<Rightarrow> bool"
    and ok :: "'a \<Rightarrow> bool"
    and owed :: "'s \<Rightarrow> 'i \<Rightarrow> nat"
    and accepts :: "'r \<Rightarrow> 'i list"
    and settles :: "'r \<Rightarrow> 'i list"
  assumes step_keeps: "ok a \<Longrightarrow> inv (Suc n) s \<Longrightarrow> step a s = Some (r, s') \<Longrightarrow> inv n s'"
    and step_balances: "ok a \<Longrightarrow> inv (Suc n) s \<Longrightarrow> step a s = Some (r, s') \<Longrightarrow>
      count_list (accepts r) i + owed s i = count_list (settles r) i + owed s' i"
begin

lemma run_keeps:
  "run_steps step as s = Some (rs, s') \<Longrightarrow> list_all ok as \<Longrightarrow> inv (length as + n) s \<Longrightarrow> inv n s'"
  by (induction as arbitrary: s rs) (auto simp: run_steps_Cons simp del: run_steps.simps(2)
      dest: step_keeps)

lemma run_balances:
  "run_steps step as s = Some (rs, s') \<Longrightarrow> list_all ok as \<Longrightarrow> inv (length as + n) s \<Longrightarrow>
     count_list (concat (map accepts rs)) i + owed s i
       = count_list (concat (map settles rs)) i + owed s' i"
proof (induction as arbitrary: s rs)
  case (Cons a as)
  from Cons.prems(1) obtain r t rs' where t: "step a s = Some (r, t)"
    "run_steps step as t = Some (rs', s')" "rs = r # rs'"
    by (auto simp: run_steps_Cons simp del: run_steps.simps)
  from Cons.prems have a: "ok a" "inv (Suc (length as + n)) s" by simp_all
  from step_balances [OF a t(1), of i] Cons.IH [OF t(2)] step_keeps [OF a t(1)] Cons.prems t(3)
  show ?case by simp
qed simp

end

text \<open>Where a reply concerns one operation at most, and those under way are a set.\<close>

locale outcome_ledger =
  fixes step :: "'a \<Rightarrow> 's \<Rightarrow> ('r \<times> 's) option"
    and inv :: "'s \<Rightarrow> bool"
    and ok :: "'a \<Rightarrow> bool"
    and admitted :: "'s \<Rightarrow> 'i set"
    and accepted :: "'r \<Rightarrow> 'i option"
    and outcome :: "'r \<Rightarrow> 'i option"
  assumes step_inv: "ok a \<Longrightarrow> inv s \<Longrightarrow> step a s = Some (r, s') \<Longrightarrow> inv s'"
    and step_admitted: "ok a \<Longrightarrow> inv s \<Longrightarrow> step a s = Some (r, s') \<Longrightarrow>
      admitted s' = admitted s \<union> set_option (accepted r) - set_option (outcome r)"
    and accepted_fresh: "ok a \<Longrightarrow> inv s \<Longrightarrow> step a s = Some (r, s') \<Longrightarrow>
      accepted r = Some i \<Longrightarrow> i \<notin> admitted s \<and> outcome r = None"
    and outcome_known: "ok a \<Longrightarrow> inv s \<Longrightarrow> step a s = Some (r, s') \<Longrightarrow>
      outcome r = Some i \<Longrightarrow> i \<in> admitted s"
begin

lemma run_inv:
  "run_steps step as s = Some (rs, s') \<Longrightarrow> list_all ok as \<Longrightarrow> inv s \<Longrightarrow> inv s'"
  by (induction as arbitrary: s rs) (auto simp: run_steps_Cons simp del: run_steps.simps(2)
      intro: step_inv)

lemma step_balance:
  assumes "ok a" "inv s" "step a s = Some (r, s')"
  shows "of_bool (accepted r = Some i) + of_bool (i \<in> admitted s)
     = (of_bool (outcome r = Some i) + of_bool (i \<in> admitted s') :: nat)"
  using step_admitted [OF assms] accepted_fresh [OF assms, of i] outcome_known [OF assms, of i]
  by auto

end

sublocale outcome_ledger \<subseteq> ledger: settlement step "\<lambda>_. inv" ok "\<lambda>s i. of_bool (i \<in> admitted s)"
    "\<lambda>r. case_option [] (\<lambda>i. [i]) (accepted r)" "\<lambda>r. case_option [] (\<lambda>i. [i]) (outcome r)"
proof
  fix a n s r s' i
  assume "ok a" "inv s" "step a s = Some (r, s')"
  from step_balance [OF this, of i]
  show "count_list (case_option [] (\<lambda>i. [i]) (accepted r)) i + of_bool (i \<in> admitted s)
      = count_list (case_option [] (\<lambda>i. [i]) (outcome r)) i + of_bool (i \<in> admitted s')"
    by simp
qed (rule step_inv)

lemma occurrences_count_list:
  "occurrences f i rs = count_list (concat (map (\<lambda>r. case_option [] (\<lambda>i. [i]) (f r)) rs)) i"
  by (induction rs) simp_all

context outcome_ledger
begin

text \<open>Acceptances and outcomes balance, up to what is under way before and after.\<close>

lemma run_balance:
  "run_steps step as s = Some (rs, s') \<Longrightarrow> list_all ok as \<Longrightarrow> inv s \<Longrightarrow>
     occurrences accepted i rs + of_bool (i \<in> admitted s)
       = occurrences outcome i rs + of_bool (i \<in> admitted s')"
  using ledger.run_balances [of as s rs s'] by (simp add: occurrences_count_list)

end

end
