(* ===== verification/CodecProviders.thy ===== *)
theory CodecProviders
  imports CodecValues OutcomeLedger
begin

text \<open>
  The entry points through which the engine calls codecs and codec factories of the application
  (\<open>src/codec.rs\<close>).  What the application's code answers is an argument of each call: a value, or
  a panic, which is caught, is reported and condemns the object it came from.  Each entry point also
  returns what happened to the provider, as a list of \<open>provider_event\<close>s.
\<close>

datatype 'a provider_answer = Returns 'a | Panics

datatype provider_event = Called | Unwound | Destroyed

subsection \<open>Encoders and decoders\<close>

record video_product =
  vp_codec :: bool
  vp_terminal :: bool

type_synonym 'a served = "'a \<times> provider_event list \<times> video_product"

definition contained_video_drop :: "bool \<Rightarrow> video_product \<Rightarrow> bool served" where
  "contained_video_drop panics p =
     (if vp_codec p then (\<not> panics, [Destroyed], p\<lparr>vp_codec := False\<rparr>) else (True, [], p))"

definition encoder_is_valid :: "video_product \<Rightarrow> bool" where
  "encoder_is_valid p \<longleftrightarrow> vp_codec p \<and> \<not> vp_terminal p"

definition with_encoder_status :: "(codec_error, i32) result provider_answer \<Rightarrow> video_product \<Rightarrow> i32 served" where
  "with_encoder_status a p =
     (if vp_terminal p then (CODEC_ERROR, [], p)
      else if \<not> vp_codec p then (CODEC_UNINITIALIZED, [], p)
      else case a of
        Returns (Inr status) \<Rightarrow> (status, [Called], p)
      | Returns (Inl e) \<Rightarrow> (codec_status (Inl e), [Called], p)
      | Panics \<Rightarrow> (CODEC_ERROR, [Called, Unwound], p\<lparr>vp_terminal := True\<rparr>))"

definition as_status :: "(codec_error, 'a) result provider_answer \<Rightarrow> (codec_error, i32) result provider_answer" where
  "as_status a = (case a of Returns r \<Rightarrow> Returns (map_sum id (\<lambda>_. CODEC_OK) r) | Panics \<Rightarrow> Panics)"

definition with_encoder :: "(codec_error, unit) result provider_answer \<Rightarrow> video_product \<Rightarrow> i32 served" where
  "with_encoder a p = with_encoder_status (as_status a) p"

text \<open>Entry points that take a native value refuse its absence first.\<close>

definition encoder_init_value :: "bool \<Rightarrow> (codec_error, i32) result provider_answer \<Rightarrow> video_product \<Rightarrow> i32 served" where
  "encoder_init_value null a p = (if null then (CODEC_PARAMETER, [], p) else with_encoder_status a p)"

definition encoder_encode_value :: "bool \<Rightarrow> (codec_error, i32) result provider_answer \<Rightarrow> video_product \<Rightarrow> i32 served" where
  "encoder_encode_value null a p = (if null then (CODEC_PARAMETER, [], p) else with_encoder_status a p)"

definition encoder_set_rates_value :: "bool \<Rightarrow> (codec_error, unit) result provider_answer \<Rightarrow> video_product \<Rightarrow> i32 served" where
  "encoder_set_rates_value null a p = (if null then (CODEC_PARAMETER, [], p) else with_encoder a p)"

definition encoder_release :: "(codec_error, i32) result provider_answer \<Rightarrow> bool \<Rightarrow> video_product \<Rightarrow> i32 served" where
  "encoder_release a drop_panics p = (case with_encoder_status a p of (result, es, p) \<Rightarrow>
     if vp_terminal p then (case contained_video_drop drop_panics p of
         (ok, es', p) \<Rightarrow> (if ok then result else CODEC_ERROR, es @ es', p))
     else (result, es, p))"

definition encoder_get_info_value :: "(codec_error, 'i) result provider_answer \<Rightarrow> video_product \<Rightarrow> 'i option served" where
  "encoder_get_info_value a p =
     (if \<not> vp_codec p \<or> vp_terminal p then (None, [], p)
      else case a of
        Returns (Inr info) \<Rightarrow> (Some info, [Called], p)
      | Returns (Inl e) \<Rightarrow> (None, [Called], p)
      | Panics \<Rightarrow> (None, [Called, Unwound], p\<lparr>vp_terminal := True\<rparr>))"

text \<open>Decoders repeat the pattern; \<open>configure_value\<close> answers whether it configured, and a name is bytes.\<close>

definition with_decoder_status :: "(codec_error, i32) result provider_answer \<Rightarrow> video_product \<Rightarrow> i32 served" where
  "with_decoder_status a p =
     (if vp_terminal p then (CODEC_ERROR, [], p)
      else if \<not> vp_codec p then (CODEC_UNINITIALIZED, [], p)
      else case a of
        Returns (Inr status) \<Rightarrow> (status, [Called], p)
      | Returns (Inl e) \<Rightarrow> (codec_status (Inl e), [Called], p)
      | Panics \<Rightarrow> (CODEC_ERROR, [Called, Unwound], p\<lparr>vp_terminal := True\<rparr>))"

definition decoder_configure_value :: "bool \<Rightarrow> (codec_error, bool) result provider_answer \<Rightarrow> video_product \<Rightarrow> bool served"
  where
  "decoder_configure_value null a p =
     (if null then (False, [], p)
      else let configured = (case a of Returns (Inr c) \<Rightarrow> c | _ \<Rightarrow> False)
           in case with_decoder_status (as_status a) p of (status, es, p) \<Rightarrow>
                (status = CODEC_OK \<and> configured, es, p))"

definition decoder_implementation_name ::
  "(codec_error, bytes) result provider_answer \<Rightarrow> video_product \<Rightarrow> (bool \<times> bytes) served" where
  "decoder_implementation_name a p =
     (if \<not> vp_codec p \<or> vp_terminal p then ((False, []), [], p)
      else case a of
        Returns (Inr name) \<Rightarrow> ((True, name), [Called], p)
      | Returns (Inl e) \<Rightarrow> ((False, []), [Called], p)
      | Panics \<Rightarrow> ((False, []), [Called, Unwound], p\<lparr>vp_terminal := True\<rparr>))"

definition decoder_get_info_value :: "(codec_error, 'i) result provider_answer \<Rightarrow> video_product \<Rightarrow> 'i option served" where
  "decoder_get_info_value a p =
     (if \<not> vp_codec p \<or> vp_terminal p then (None, [], p)
      else case a of
        Returns (Inr info) \<Rightarrow> (Some info, [Called], p)
      | Returns (Inl e) \<Rightarrow> (None, [Called], p)
      | Panics \<Rightarrow> (None, [Called, Unwound], p\<lparr>vp_terminal := True\<rparr>))"

definition decoder_decode_value :: "bool \<Rightarrow> (codec_error, i32) result provider_answer \<Rightarrow> video_product \<Rightarrow> i32 served" where
  "decoder_decode_value null a p = (if null then (CODEC_PARAMETER, [], p) else with_decoder_status a p)"

definition decoder_release :: "(codec_error, i32) result provider_answer \<Rightarrow> bool \<Rightarrow> video_product \<Rightarrow> i32 served" where
  "decoder_release a drop_panics p = (case with_decoder_status a p of (result, es, p) \<Rightarrow>
     if vp_terminal p then (case contained_video_drop drop_panics p of
         (ok, es', p) \<Rightarrow> (if ok then result else CODEC_ERROR, es @ es', p))
     else (result, es, p))"

subsection \<open>Factories\<close>

text \<open>The failure observer keeps the first report.\<close>

record video_factory =
  vf_provider :: bool
  vf_terminal :: bool
  vf_failure :: "video_factory_query_error option"

definition report_failure :: "video_factory_query_error \<Rightarrow> video_factory \<Rightarrow> video_factory" where
  "report_failure e f = f\<lparr>vf_failure := (case vf_failure f of None \<Rightarrow> Some e | Some first \<Rightarrow> Some first)\<rparr>"

definition new_video_factory :: video_factory where
  "new_video_factory = \<lparr>vf_provider = True, vf_terminal = False, vf_failure = None\<rparr>"

record ffi_video_factory_support =
  ffi_support_value :: codec_support
  ffi_support_error :: u8

definition ffi_support :: "(video_factory_query_error, codec_support) result \<Rightarrow> ffi_video_factory_support" where
  "ffi_support r = (case r of
      Inr v \<Rightarrow> \<lparr>ffi_support_value = v, ffi_support_error = 0\<rparr>
    | Inl e \<Rightarrow> \<lparr>ffi_support_value = \<lparr>supported = False, power_efficient = False\<rparr>,
        ffi_support_error = query_error_raw e\<rparr>)"

text \<open>\<open>None\<close> is the panic of \<open>from_raw\<close> on an unknown code.\<close>

definition support_result ::
  "ffi_video_factory_support \<Rightarrow> (video_factory_query_error, codec_support) result option" where
  "support_result s = map_option (\<lambda>e. case e of Some e \<Rightarrow> Inl e | None \<Rightarrow> Inr (ffi_support_value s))
     (query_error_from_raw (ffi_support_error s))"

lemma support_roundtrip: "support_result (ffi_support r) = Some r"
proof (cases r)
  case (Inl e)
  then show ?thesis by (cases e) (simp_all add: support_result_def ffi_support_def query_error_from_raw_def)
next
  case (Inr v)
  then show ?thesis by (simp add: support_result_def ffi_support_def query_error_from_raw_def)
qed

text \<open>A list of formats, \<open>None\<close> for the list that is marked invalid.\<close>

definition encoder_factory_formats ::
  "'f provider_answer \<Rightarrow> video_factory \<Rightarrow> 'f option \<times> provider_event list \<times> video_factory" where
  "encoder_factory_formats a f =
     (if vf_terminal f then (None, [], f)
      else case a of
        Returns formats \<Rightarrow> (Some formats, [Called], f)
      | Panics \<Rightarrow> (None, [Called, Unwound], report_failure ProviderPanickedQuery (f\<lparr>vf_terminal := True\<rparr>)))"

definition encoder_factory_implementations ::
  "'f provider_answer \<Rightarrow> video_factory \<Rightarrow> 'f option \<times> provider_event list \<times> video_factory" where
  "encoder_factory_implementations a f =
     (if vf_terminal f then (None, [], f)
      else case a of
        Returns formats \<Rightarrow> (Some formats, [Called], f)
      | Panics \<Rightarrow> (None, [Called, Unwound], report_failure ProviderPanickedQuery (f\<lparr>vf_terminal := True\<rparr>)))"

text \<open>The selector is itself optional; the flag tells whether the provider was heard.\<close>

definition encoder_factory_selector ::
  "'s option provider_answer \<Rightarrow> video_factory \<Rightarrow> (bool \<times> 's option) \<times> provider_event list \<times> video_factory" where
  "encoder_factory_selector a f =
     (if vf_terminal f then ((False, None), [], f)
      else case a of
        Returns selector \<Rightarrow> ((True, selector), [Called], f)
      | Panics \<Rightarrow> ((False, None), [Called, Unwound],
          report_failure ProviderPanickedQuery (f\<lparr>vf_terminal := True\<rparr>)))"

definition encoder_factory_query ::
  "(video_factory_query_error, codec_support) result provider_answer \<Rightarrow> video_factory
     \<Rightarrow> ffi_video_factory_support \<times> provider_event list \<times> video_factory" where
  "encoder_factory_query a f =
     (if vf_terminal f then (ffi_support (Inl ProviderPanickedQuery), [], f)
      else let (result, es, f) = (case a of
             Returns r \<Rightarrow> (r, [Called], f)
           | Panics \<Rightarrow> (Inl ProviderPanickedQuery, [Called, Unwound], f\<lparr>vf_terminal := True\<rparr>))
        in (ffi_support result, es, case result of Inl e \<Rightarrow> report_failure e f | Inr _ \<Rightarrow> f))"

definition encoder_factory_create ::
  "(codec_error, unit) result provider_answer \<Rightarrow> video_factory
     \<Rightarrow> video_product \<times> provider_event list \<times> video_factory" where
  "encoder_factory_create a f =
     (if vf_terminal f then (\<lparr>vp_codec = False, vp_terminal = True\<rparr>, [], f)
      else case a of
        Returns (Inr _) \<Rightarrow> (\<lparr>vp_codec = True, vp_terminal = False\<rparr>, [Called], f)
      | Returns (Inl e) \<Rightarrow> (\<lparr>vp_codec = False, vp_terminal = False\<rparr>, [Called],
          case e of UnsupportedFormat \<Rightarrow> f | FormatProjection e \<Rightarrow> report_failure e f
          | _ \<Rightarrow> report_failure CodecCreationFailed f)
      | Panics \<Rightarrow> (\<lparr>vp_codec = False, vp_terminal = True\<rparr>, [Called, Unwound],
          report_failure ProviderPanickedQuery (f\<lparr>vf_terminal := True\<rparr>)))"

definition decoder_factory_formats ::
  "'f provider_answer \<Rightarrow> video_factory \<Rightarrow> 'f option \<times> provider_event list \<times> video_factory" where
  "decoder_factory_formats a f =
     (if vf_terminal f then (None, [], f)
      else case a of
        Returns formats \<Rightarrow> (Some formats, [Called], f)
      | Panics \<Rightarrow> (None, [Called, Unwound], report_failure ProviderPanickedQuery (f\<lparr>vf_terminal := True\<rparr>)))"

definition decoder_factory_query ::
  "(video_factory_query_error, codec_support) result provider_answer \<Rightarrow> video_factory
     \<Rightarrow> ffi_video_factory_support \<times> provider_event list \<times> video_factory" where
  "decoder_factory_query a f =
     (if vf_terminal f then (ffi_support (Inl ProviderPanickedQuery), [], f)
      else let (result, es, f) = (case a of
             Returns r \<Rightarrow> (r, [Called], f)
           | Panics \<Rightarrow> (Inl ProviderPanickedQuery, [Called, Unwound], f\<lparr>vf_terminal := True\<rparr>))
        in (ffi_support result, es, case result of Inl e \<Rightarrow> report_failure e f | Inr _ \<Rightarrow> f))"

definition decoder_factory_create ::
  "(codec_error, unit) result provider_answer \<Rightarrow> video_factory
     \<Rightarrow> video_product \<times> provider_event list \<times> video_factory" where
  "decoder_factory_create a f =
     (if vf_terminal f then (\<lparr>vp_codec = False, vp_terminal = True\<rparr>, [], f)
      else case a of
        Returns (Inr _) \<Rightarrow> (\<lparr>vp_codec = True, vp_terminal = False\<rparr>, [Called], f)
      | Returns (Inl e) \<Rightarrow> (\<lparr>vp_codec = False, vp_terminal = False\<rparr>, [Called],
          case e of FormatProjection e \<Rightarrow> report_failure e f | _ \<Rightarrow> f)
      | Panics \<Rightarrow> (\<lparr>vp_codec = False, vp_terminal = True\<rparr>, [Called, Unwound], f\<lparr>vf_terminal := True\<rparr>))"

definition drop_video_factory :: "bool \<Rightarrow> video_factory \<Rightarrow> provider_event list \<times> video_factory" where
  "drop_video_factory panics f =
     (if vf_provider f then ([Destroyed],
        (if panics then report_failure ProviderPanickedQuery else id) (f\<lparr>vf_provider := False\<rparr>))
      else ([], f))"

subsection \<open>A factory and its products\<close>

text \<open>The objects the engine holds: one factory and the products it created, by their number.  A reply
  tells whose provider was concerned, \<open>None\<close> for the factory's own, and what happened to it.\<close>

record codec_world =
  cw_factory :: video_factory
  cw_products :: "video_product list"

type_synonym world_reply = "nat option \<times> provider_event list"

definition new_codec_world :: codec_world where
  "new_codec_world = \<lparr>cw_factory = new_video_factory, cw_products = []\<rparr>"

definition on_factory :: "(video_factory \<Rightarrow> 'v \<times> provider_event list \<times> video_factory) \<Rightarrow> codec_world
    \<Rightarrow> world_reply \<times> codec_world" where
  "on_factory g w = (if \<not> vf_provider (cw_factory w) then ((None, []), w)
     else case g (cw_factory w) of (_, es, f) \<Rightarrow> ((None, es), w\<lparr>cw_factory := f\<rparr>))"

definition on_create :: "(video_factory \<Rightarrow> video_product \<times> provider_event list \<times> video_factory) \<Rightarrow> codec_world
    \<Rightarrow> world_reply \<times> codec_world" where
  "on_create g w = (if \<not> vf_provider (cw_factory w) then ((None, []), w)
     else case g (cw_factory w) of (p, es, f) \<Rightarrow>
       ((None, es), w\<lparr>cw_factory := f, cw_products := cw_products w @ [p]\<rparr>))"

definition on_product :: "nat \<Rightarrow> (video_product \<Rightarrow> 'v served) \<Rightarrow> codec_world \<Rightarrow> world_reply \<times> codec_world" where
  "on_product k g w = (if length (cw_products w) \<le> k then ((Some k, []), w)
     else case g (cw_products w ! k) of (_, es, p) \<Rightarrow>
       ((Some k, es), w\<lparr>cw_products := (cw_products w)[k := p]\<rparr>))"

text \<open>Of an encoder \<open>EncoderFeedback\<close> stands for the override, loss, round-trip and notification
  entry points, which are all \<open>with_encoder\<close>.\<close>

datatype encoder_call =
    EncoderFormats "unit provider_answer"
  | EncoderImplementations "unit provider_answer"
  | EncoderSelector "unit option provider_answer"
  | EncoderQuery "(video_factory_query_error, codec_support) result provider_answer"
  | EncoderFeedbackFailed
  | EncoderInfoFailed
  | EncoderFactoryDropped bool
  | CreateEncoder "(codec_error, unit) result provider_answer"
  | EncoderInit nat bool "(codec_error, i32) result provider_answer"
  | EncoderEncode nat bool "(codec_error, i32) result provider_answer"
  | EncoderSetRates nat bool "(codec_error, unit) result provider_answer"
  | EncoderFeedback nat "(codec_error, unit) result provider_answer"
  | EncoderRegister nat "(codec_error, i32) result provider_answer"
  | EncoderInfo nat "(codec_error, unit) result provider_answer"
  | EncoderRelease nat "(codec_error, i32) result provider_answer" bool
  | EncoderDropped nat bool

fun encoder_call_step :: "encoder_call \<Rightarrow> codec_world \<Rightarrow> world_reply \<times> codec_world" where
  "encoder_call_step (EncoderFormats a) = on_factory (encoder_factory_formats a)"
| "encoder_call_step (EncoderImplementations a) = on_factory (encoder_factory_implementations a)"
| "encoder_call_step (EncoderSelector a) = on_factory (encoder_factory_selector a)"
| "encoder_call_step (EncoderQuery a) = on_factory (encoder_factory_query a)"
| "encoder_call_step EncoderFeedbackFailed = on_factory (\<lambda>f. ((), [], report_failure CodecFeedbackFailed f))"
| "encoder_call_step EncoderInfoFailed = on_factory (\<lambda>f. ((), [], report_failure CodecInfoFailed f))"
| "encoder_call_step (EncoderFactoryDropped panics) = on_factory (\<lambda>f. ((), drop_video_factory panics f))"
| "encoder_call_step (CreateEncoder a) = on_create (encoder_factory_create a)"
| "encoder_call_step (EncoderInit k null a) = on_product k (encoder_init_value null a)"
| "encoder_call_step (EncoderEncode k null a) = on_product k (encoder_encode_value null a)"
| "encoder_call_step (EncoderSetRates k null a) = on_product k (encoder_set_rates_value null a)"
| "encoder_call_step (EncoderFeedback k a) = on_product k (with_encoder a)"
| "encoder_call_step (EncoderRegister k a) = on_product k (with_encoder_status a)"
| "encoder_call_step (EncoderInfo k a) = on_product k (encoder_get_info_value a)"
| "encoder_call_step (EncoderRelease k a panics) = on_product k (encoder_release a panics)"
| "encoder_call_step (EncoderDropped k panics) = on_product k (contained_video_drop panics)"

datatype decoder_call =
    DecoderFormats "unit provider_answer"
  | DecoderQuery "(video_factory_query_error, codec_support) result provider_answer"
  | DecoderFactoryDropped bool
  | CreateDecoder "(codec_error, unit) result provider_answer"
  | DecoderConfigure nat bool "(codec_error, bool) result provider_answer"
  | DecoderName nat "(codec_error, bytes) result provider_answer"
  | DecoderInfo nat "(codec_error, unit) result provider_answer"
  | DecoderRegister nat "(codec_error, i32) result provider_answer"
  | DecoderDecode nat bool "(codec_error, i32) result provider_answer"
  | DecoderRelease nat "(codec_error, i32) result provider_answer" bool
  | DecoderDropped nat bool

fun decoder_call_step :: "decoder_call \<Rightarrow> codec_world \<Rightarrow> world_reply \<times> codec_world" where
  "decoder_call_step (DecoderFormats a) = on_factory (decoder_factory_formats a)"
| "decoder_call_step (DecoderQuery a) = on_factory (decoder_factory_query a)"
| "decoder_call_step (DecoderFactoryDropped panics) = on_factory (\<lambda>f. ((), drop_video_factory panics f))"
| "decoder_call_step (CreateDecoder a) = on_create (decoder_factory_create a)"
| "decoder_call_step (DecoderConfigure k null a) = on_product k (decoder_configure_value null a)"
| "decoder_call_step (DecoderName k a) = on_product k (decoder_implementation_name a)"
| "decoder_call_step (DecoderInfo k a) = on_product k (decoder_get_info_value a)"
| "decoder_call_step (DecoderRegister k a) = on_product k (with_decoder_status a)"
| "decoder_call_step (DecoderDecode k null a) = on_product k (decoder_decode_value null a)"
| "decoder_call_step (DecoderRelease k a panics) = on_product k (decoder_release a panics)"
| "decoder_call_step (DecoderDropped k panics) = on_product k (contained_video_drop panics)"

subsection \<open>Containment\<close>

text \<open>The contract of whoever calls foreign code: a panic condemns the provider it came from, and neither
  a condemned nor a destroyed provider is called again.\<close>

locale containment =
  fixes step :: "'a \<Rightarrow> 's \<Rightarrow> ('o \<times> provider_event list) \<times> 's"
    and condemned :: "'o \<Rightarrow> 's \<Rightarrow> bool"
    and gone :: "'o \<Rightarrow> 's \<Rightarrow> bool"
  assumes panic_condemns: "step a s = ((o', es), s') \<Longrightarrow> Unwound \<in> set es \<Longrightarrow> condemned o' s'"
    and condemned_stays: "step a s = (r, s') \<Longrightarrow> condemned o' s \<Longrightarrow> condemned o' s'"
    and condemned_refuses: "step a s = ((o', es), s') \<Longrightarrow> condemned o' s \<Longrightarrow> Called \<notin> set es"
    and destroyed_gone: "step a s = ((o', es), s') \<Longrightarrow> Destroyed \<in> set es \<Longrightarrow> gone o' s'"
    and gone_stays: "step a s = (r, s') \<Longrightarrow> gone o' s \<Longrightarrow> gone o' s'"
    and gone_silent: "step a s = ((o', es), s') \<Longrightarrow> gone o' s \<Longrightarrow> es = []"
begin

lemma condemned_run: "run_steps (\<lambda>a s. Some (step a s)) as s = Some (rs, s') \<Longrightarrow> condemned o' s \<Longrightarrow>
    \<forall>r\<in>set rs. fst r = o' \<longrightarrow> Called \<notin> set (snd r)"
proof (induction as arbitrary: s rs)
  case (Cons a as)
  obtain o2 es t where t: "step a s = ((o2, es), t)" by (metis prod.exhaust)
  with Cons.prems(1) obtain rs' where r: "run_steps (\<lambda>a s. Some (step a s)) as t = Some (rs', s')" "rs = (o2, es) # rs'"
    by auto
  from Cons.IH [OF r(1) condemned_stays [OF t Cons.prems(2)]] condemned_refuses [OF t] Cons.prems(2) r(2)
  show ?case by auto
qed simp

lemma gone_run: "run_steps (\<lambda>a s. Some (step a s)) as s = Some (rs, s') \<Longrightarrow> gone o' s \<Longrightarrow>
    \<forall>r\<in>set rs. fst r = o' \<longrightarrow> snd r = []"
proof (induction as arbitrary: s rs)
  case (Cons a as)
  obtain o2 es t where t: "step a s = ((o2, es), t)" by (metis prod.exhaust)
  with Cons.prems(1) obtain rs' where r: "run_steps (\<lambda>a s. Some (step a s)) as t = Some (rs', s')" "rs = (o2, es) # rs'"
    by auto
  from Cons.IH [OF r(1) gone_stays [OF t Cons.prems(2)]] gone_silent [OF t] Cons.prems(2) r(2)
  show ?case by auto
qed simp

lemma run_contained: "run_steps (\<lambda>a s. Some (step a s)) as s = Some (rs, s') \<Longrightarrow>
    sorted_wrt (\<lambda>r r'. fst r = fst r' \<longrightarrow> (Unwound \<in> set (snd r) \<longrightarrow> Called \<notin> set (snd r'))
      \<and> (Destroyed \<in> set (snd r) \<longrightarrow> snd r' = [])) rs"
proof (induction as arbitrary: s rs)
  case (Cons a as)
  obtain o2 es t where t: "step a s = ((o2, es), t)" by (metis prod.exhaust)
  with Cons.prems(1) obtain rs' where r: "run_steps (\<lambda>a s. Some (step a s)) as t = Some (rs', s')" "rs = (o2, es) # rs'"
    by auto
  from Cons.IH [OF r(1)] condemned_run [OF r(1) panic_condemns [OF t]] gone_run [OF r(1) destroyed_gone [OF t]] r(2)
  show ?case by auto
qed simp

end

text \<open>What every entry point does to its provider.\<close>

definition product_law :: "(video_product \<Rightarrow> 'v served) \<Rightarrow> bool" where
  "product_law g \<longleftrightarrow> (\<forall>p v es p'. g p = (v, es, p') \<longrightarrow>
     (Unwound \<in> set es \<longrightarrow> vp_terminal p') \<and> (vp_terminal p \<longrightarrow> vp_terminal p' \<and> Called \<notin> set es)
     \<and> (Destroyed \<in> set es \<longrightarrow> \<not> vp_codec p') \<and> (\<not> vp_codec p \<longrightarrow> \<not> vp_codec p' \<and> es = []))"

definition factory_law :: "(video_factory \<Rightarrow> 'v \<times> provider_event list \<times> video_factory) \<Rightarrow> bool" where
  "factory_law g \<longleftrightarrow> (\<forall>f v es f'. vf_provider f \<longrightarrow> g f = (v, es, f') \<longrightarrow>
     (Unwound \<in> set es \<longrightarrow> vf_terminal f') \<and> (vf_terminal f \<longrightarrow> vf_terminal f' \<and> Called \<notin> set es)
     \<and> (Destroyed \<in> set es \<longrightarrow> \<not> vf_provider f'))"

lemma drop_law [intro, simp]: "product_law (contained_video_drop panics)"
  by (auto simp: product_law_def contained_video_drop_def split: if_splits)

lemma encoder_laws [intro, simp]:
  "product_law (with_encoder_status a)" "product_law (with_encoder b)"
  "product_law (encoder_init_value null a)" "product_law (encoder_encode_value null a)"
  "product_law (encoder_set_rates_value null b)" "product_law (encoder_get_info_value c)"
  "product_law (encoder_release a panics)"
  by (auto simp: product_law_def with_encoder_status_def with_encoder_def encoder_init_value_def
      encoder_encode_value_def encoder_set_rates_value_def encoder_get_info_value_def encoder_release_def
      contained_video_drop_def split: if_splits provider_answer.splits sum.splits)

lemma decoder_laws [intro, simp]:
  "product_law (with_decoder_status a)" "product_law (decoder_configure_value null b)"
  "product_law (decoder_implementation_name n)" "product_law (decoder_get_info_value c)"
  "product_law (decoder_decode_value null a)" "product_law (decoder_release a panics)"
  by (auto simp: product_law_def with_decoder_status_def decoder_configure_value_def decoder_implementation_name_def
      decoder_get_info_value_def decoder_decode_value_def decoder_release_def contained_video_drop_def Let_def
      split: if_splits provider_answer.splits sum.splits prod.splits)

lemma report_failure_fields [simp]:
  "vf_provider (report_failure e f) = vf_provider f" "vf_terminal (report_failure e f) = vf_terminal f"
  "vf_failure (report_failure e f) \<noteq> None" "vf_failure f \<noteq> None \<Longrightarrow> vf_failure (report_failure e f) = vf_failure f"
  by (auto simp: report_failure_def split: option.splits)

lemma factory_laws [intro, simp]:
  "factory_law (encoder_factory_formats a)" "factory_law (encoder_factory_implementations a)"
  "factory_law (encoder_factory_selector s)" "factory_law (encoder_factory_query q)"
  "factory_law (encoder_factory_create c)" "factory_law (\<lambda>f. ((), [], report_failure e f))"
  "factory_law (\<lambda>f. ((), drop_video_factory panics f))" "factory_law (decoder_factory_formats a)"
  "factory_law (decoder_factory_query q)" "factory_law (decoder_factory_create c)"
  by (auto simp: factory_law_def encoder_factory_formats_def encoder_factory_implementations_def
      encoder_factory_selector_def encoder_factory_query_def encoder_factory_create_def decoder_factory_formats_def
      decoder_factory_query_def decoder_factory_create_def drop_video_factory_def Let_def
      split: if_splits provider_answer.splits sum.splits codec_error.splits)

fun condemned :: "nat option \<Rightarrow> codec_world \<Rightarrow> bool" where
  "condemned None w = vf_terminal (cw_factory w)"
| "condemned (Some k) w = (k < length (cw_products w) \<and> vp_terminal (cw_products w ! k))"

fun gone :: "nat option \<Rightarrow> codec_world \<Rightarrow> bool" where
  "gone None w = (\<not> vf_provider (cw_factory w))"
| "gone (Some k) w = (k < length (cw_products w) \<and> \<not> vp_codec (cw_products w ! k))"

definition world_law :: "(codec_world \<Rightarrow> world_reply \<times> codec_world) \<Rightarrow> bool" where
  "world_law g \<longleftrightarrow> (\<forall>w o' es w'. g w = ((o', es), w') \<longrightarrow>
     (Unwound \<in> set es \<longrightarrow> condemned o' w') \<and> (condemned o' w \<longrightarrow> Called \<notin> set es)
     \<and> (Destroyed \<in> set es \<longrightarrow> gone o' w') \<and> (gone o' w \<longrightarrow> es = [])
     \<and> (\<forall>x. (condemned x w \<longrightarrow> condemned x w') \<and> (gone x w \<longrightarrow> gone x w')))"

text \<open>The facts of a provider that the laws relate, for the factory and for a product.\<close>

lemma factory_lawD: "factory_law g \<Longrightarrow> vf_provider f \<Longrightarrow> g f = (v, es, f') \<Longrightarrow>
    (Unwound \<in> set es \<longrightarrow> vf_terminal f') \<and> (vf_terminal f \<longrightarrow> vf_terminal f' \<and> Called \<notin> set es)
     \<and> (Destroyed \<in> set es \<longrightarrow> \<not> vf_provider f')"
  unfolding factory_law_def by blast

lemma product_lawD: "product_law g \<Longrightarrow> g p = (v, es, p') \<Longrightarrow>
    (Unwound \<in> set es \<longrightarrow> vp_terminal p') \<and> (vp_terminal p \<longrightarrow> vp_terminal p' \<and> Called \<notin> set es)
     \<and> (Destroyed \<in> set es \<longrightarrow> \<not> vp_codec p') \<and> (\<not> vp_codec p \<longrightarrow> \<not> vp_codec p' \<and> es = [])"
  unfolding product_law_def by blast

lemma world_lawI:
  assumes "\<And>w o' es w'. g w = ((o', es), w') \<Longrightarrow>
      (Unwound \<in> set es \<longrightarrow> condemned o' w') \<and> (condemned o' w \<longrightarrow> Called \<notin> set es)
      \<and> (Destroyed \<in> set es \<longrightarrow> gone o' w') \<and> (gone o' w \<longrightarrow> es = [])"
    and "\<And>w r w' x. g w = (r, w') \<Longrightarrow> (condemned x w \<longrightarrow> condemned x w') \<and> (gone x w \<longrightarrow> gone x w')"
  shows "world_law g"
  unfolding world_law_def using assms by (metis (no_types, lifting))

lemma on_factory_law: assumes g: "factory_law g" shows "world_law (on_factory g)"
proof (rule world_lawI)
  fix w o' es w' assume s: "on_factory g w = ((o', es), w')"
  obtain v e f where f: "g (cw_factory w) = (v, e, f)" by (metis prod.exhaust)
  show "(Unwound \<in> set es \<longrightarrow> condemned o' w') \<and> (condemned o' w \<longrightarrow> Called \<notin> set es)
      \<and> (Destroyed \<in> set es \<longrightarrow> gone o' w') \<and> (gone o' w \<longrightarrow> es = [])"
    using s f factory_lawD [OF g _ f] by (auto simp: on_factory_def split: if_splits)
next
  fix w r w' x assume s: "on_factory g w = (r, w')"
  obtain v e f where f: "g (cw_factory w) = (v, e, f)" by (metis prod.exhaust)
  show "(condemned x w \<longrightarrow> condemned x w') \<and> (gone x w \<longrightarrow> gone x w')"
    using s f factory_lawD [OF g _ f] by (cases x) (auto simp: on_factory_def split: if_splits)
qed

lemma on_create_law: assumes g: "factory_law g" shows "world_law (on_create g)"
proof (rule world_lawI)
  fix w o' es w' assume s: "on_create g w = ((o', es), w')"
  obtain v e f where f: "g (cw_factory w) = (v, e, f)" by (metis prod.exhaust)
  show "(Unwound \<in> set es \<longrightarrow> condemned o' w') \<and> (condemned o' w \<longrightarrow> Called \<notin> set es)
      \<and> (Destroyed \<in> set es \<longrightarrow> gone o' w') \<and> (gone o' w \<longrightarrow> es = [])"
    using s f factory_lawD [OF g _ f] by (auto simp: on_create_def split: if_splits)
next
  fix w r w' x assume s: "on_create g w = (r, w')"
  obtain v e f where f: "g (cw_factory w) = (v, e, f)" by (metis prod.exhaust)
  show "(condemned x w \<longrightarrow> condemned x w') \<and> (gone x w \<longrightarrow> gone x w')"
    using s f factory_lawD [OF g _ f] by (cases x) (auto simp: on_create_def nth_append split: if_splits)
qed

lemma on_product_law: assumes h: "product_law h" shows "world_law (on_product k h)"
proof (rule world_lawI)
  fix w o' es w' assume s: "on_product k h w = ((o', es), w')"
  obtain v e p where f: "h (cw_products w ! k) = (v, e, p)" by (metis prod.exhaust)
  show "(Unwound \<in> set es \<longrightarrow> condemned o' w') \<and> (condemned o' w \<longrightarrow> Called \<notin> set es)
      \<and> (Destroyed \<in> set es \<longrightarrow> gone o' w') \<and> (gone o' w \<longrightarrow> es = [])"
    using s f product_lawD [OF h f] by (auto simp: on_product_def split: if_splits)
next
  fix w r w' x assume s: "on_product k h w = (r, w')"
  obtain v e p where f: "h (cw_products w ! k) = (v, e, p)" by (metis prod.exhaust)
  show "(condemned x w \<longrightarrow> condemned x w') \<and> (gone x w \<longrightarrow> gone x w')"
    using s f product_lawD [OF h f]
    by (cases x) (auto simp: on_product_def nth_list_update split: if_splits)
qed

lemmas world_laws = on_factory_law on_create_law on_product_law

lemma encoder_step_law: "world_law (encoder_call_step c)"
  by (cases c) (simp_all add: world_laws)

lemma decoder_step_law: "world_law (decoder_call_step c)"
  by (cases c) (simp_all add: world_laws)

lemma world_law_stays:
  assumes "world_law g" "g w = (r, w')"
  shows "condemned x w \<Longrightarrow> condemned x w'" and "gone x w \<Longrightarrow> gone x w'"
proof -
  obtain o2 es where "r = (o2, es)" by (cases r)
  with assms have "(condemned x w \<longrightarrow> condemned x w') \<and> (gone x w \<longrightarrow> gone x w')"
    unfolding world_law_def by blast
  then show "condemned x w \<Longrightarrow> condemned x w'" "gone x w \<Longrightarrow> gone x w'" by blast+
qed

lemma world_law_event:
  assumes "world_law g" "g w = ((o', es), w')"
  shows "Unwound \<in> set es \<Longrightarrow> condemned o' w'" and "condemned o' w \<Longrightarrow> Called \<notin> set es"
    and "Destroyed \<in> set es \<Longrightarrow> gone o' w'" and "gone o' w \<Longrightarrow> es = []"
proof -
  from assms have "(Unwound \<in> set es \<longrightarrow> condemned o' w') \<and> (condemned o' w \<longrightarrow> Called \<notin> set es)
     \<and> (Destroyed \<in> set es \<longrightarrow> gone o' w') \<and> (gone o' w \<longrightarrow> es = [])"
    unfolding world_law_def by blast
  then show "Unwound \<in> set es \<Longrightarrow> condemned o' w'" "condemned o' w \<Longrightarrow> Called \<notin> set es"
    "Destroyed \<in> set es \<Longrightarrow> gone o' w'" "gone o' w \<Longrightarrow> es = []" by blast+
qed

interpretation encoder_calls: containment encoder_call_step condemned gone
  by unfold_locales (fact world_law_event [OF encoder_step_law] world_law_stays [OF encoder_step_law])+

interpretation decoder_calls: containment decoder_call_step condemned gone
  by unfold_locales (fact world_law_event [OF decoder_step_law] world_law_stays [OF decoder_step_law])+

subsection \<open>What the factory's owner learns\<close>

text \<open>An encoder factory that panicked has told its observer, whatever else it reported first.\<close>

definition told :: "video_factory \<Rightarrow> bool" where
  "told f \<longleftrightarrow> (vf_terminal f \<longrightarrow> vf_failure f \<noteq> None)"

lemma told_reported [simp]: "told (report_failure e f)"
  by (simp add: told_def)

lemma told_silent [simp]:
  "told f \<Longrightarrow> told (f\<lparr>vf_provider := b\<rparr>)" "told new_video_factory"
  by (simp_all add: told_def new_video_factory_def)

lemma told_factory:
  "told f \<Longrightarrow> told (snd (snd (encoder_factory_formats a f)))"
  "told f \<Longrightarrow> told (snd (snd (encoder_factory_implementations a f)))"
  "told f \<Longrightarrow> told (snd (snd (encoder_factory_selector s f)))"
  "told f \<Longrightarrow> told (snd (snd (encoder_factory_query q f)))"
  "told f \<Longrightarrow> told (snd (snd (encoder_factory_create c f)))"
  "told f \<Longrightarrow> told (snd (drop_video_factory panics f))"
  by (simp_all add: encoder_factory_formats_def encoder_factory_implementations_def encoder_factory_selector_def
      encoder_factory_query_def encoder_factory_create_def drop_video_factory_def Let_def
      split: provider_answer.splits sum.splits codec_error.splits)

lemma told_on:
  "told (cw_factory w) \<Longrightarrow> (\<And>f. told f \<Longrightarrow> told (snd (snd (g f)))) \<Longrightarrow> told (cw_factory (snd (on_factory g w)))"
  "told (cw_factory w) \<Longrightarrow> (\<And>f. told f \<Longrightarrow> told (snd (snd (c f)))) \<Longrightarrow> told (cw_factory (snd (on_create c w)))"
  "told (cw_factory w) \<Longrightarrow> told (cw_factory (snd (on_product k h w)))"
  by (auto simp: on_factory_def on_create_def on_product_def split: prod.splits dest!: spec) (metis snd_conv)+

lemma told_step: "told (cw_factory w) \<Longrightarrow> told (cw_factory (snd (encoder_call_step c w)))"
  by (cases c) (simp_all add: told_on told_factory)

lemma told_run: "run_steps (\<lambda>c w. Some (encoder_call_step c w)) cs w = Some (rs, w') \<Longrightarrow>
    told (cw_factory w) \<Longrightarrow> told (cw_factory w')"
  using told_step by (induction cs arbitrary: w rs) (auto split: prod.splits option.splits, metis snd_conv)

text \<open>C35. Code of the application that panicked while the engine called it is never called again: over
  any sequence of calls to an encoder or decoder factory and to the codecs it created, whatever the
  application's code answers or panics at, a provider is called no more after the first panic that
  unwound out of it, and nothing at all happens to it after its destruction, which therefore happens
  at most once; and an encoder factory that panicked has reported a failure to its observer.\<close>

theorem panicked_provider_never_called:
  assumes "run_steps (\<lambda>c w. Some (encoder_call_step c w)) cs new_codec_world = Some (rs, w)"
    and "run_steps (\<lambda>c w. Some (decoder_call_step c w)) ds new_codec_world = Some (qs, v)"
    and "replies \<in> {rs, qs}" "i < j" "j < length replies"
    and "replies ! i = (object, before)" "replies ! j = (object, after)"
  shows "(Unwound \<in> set before \<longrightarrow> Called \<notin> set after) \<and> (Destroyed \<in> set before \<longrightarrow> after = [])
    \<and> (vf_terminal (cw_factory w) \<longrightarrow> vf_failure (cw_factory w) \<noteq> None)"
proof -
  have "sorted_wrt (\<lambda>r r'. fst r = fst r' \<longrightarrow> (Unwound \<in> set (snd r) \<longrightarrow> Called \<notin> set (snd r'))
      \<and> (Destroyed \<in> set (snd r) \<longrightarrow> snd r' = [])) replies"
    using assms(3) encoder_calls.run_contained [OF assms(1)] decoder_calls.run_contained [OF assms(2)] by blast
  from sorted_wrt_nth_less [OF this assms(4,5)] assms(6,7)
  have "(Unwound \<in> set before \<longrightarrow> Called \<notin> set after) \<and> (Destroyed \<in> set before \<longrightarrow> after = [])" by simp
  moreover have "vf_terminal (cw_factory w) \<longrightarrow> vf_failure (cw_factory w) \<noteq> None"
    using told_run [OF assms(1)] by (simp add: new_codec_world_def told_def new_video_factory_def)
  ultimately show ?thesis by blast
qed

text \<open>An encoder panics while it encodes, is destroyed by its release and is called again.\<close>

theorem panicked_provider_never_called_witness:
  "\<exists>rs w. run_steps (\<lambda>c w. Some (encoder_call_step c w))
       [CreateEncoder (Returns (Inr ())), EncoderEncode 0 False Panics, EncoderRelease 0 (Returns (Inr 0)) False,
        EncoderEncode 0 False (Returns (Inr 0)), EncoderFormats Panics, CreateEncoder (Returns (Inr ()))]
       new_codec_world = Some (rs, w)
     \<and> rs = [(None, [Called]), (Some 0, [Called, Unwound]), (Some 0, [Destroyed]), (Some 0, []),
         (None, [Called, Unwound]), (None, [])]
     \<and> Called \<notin> set (snd (rs ! 2)) \<and> snd (rs ! 3) = [] \<and> vf_failure (cw_factory w) \<noteq> None"
proof -
  let ?cs = "[CreateEncoder (Returns (Inr ())), EncoderEncode 0 False Panics, EncoderRelease 0 (Returns (Inr 0)) False,
        EncoderEncode 0 False (Returns (Inr 0)), EncoderFormats Panics, CreateEncoder (Returns (Inr ()))]"
  let ?rs = "[(None, [Called]), (Some 0, [Called, Unwound]), (Some 0, [Destroyed]), (Some 0, []),
         (None, [Called, Unwound]), (None, [])]"
  obtain w where w: "run_steps (\<lambda>c w. Some (encoder_call_step c w)) ?cs new_codec_world = Some (?rs, w)"
    "vf_terminal (cw_factory w)"
    by (simp add: new_codec_world_def new_video_factory_def on_factory_def on_create_def on_product_def
        encoder_factory_create_def encoder_encode_value_def encoder_release_def with_encoder_status_def
        contained_video_drop_def encoder_factory_formats_def report_failure_def)
  have v: "run_steps (\<lambda>d w. Some (decoder_call_step d w)) [] new_codec_world = Some ([], new_codec_world)" by simp
  have "Called \<notin> set (snd (?rs ! 2))"
    using panicked_provider_never_called [OF w(1) v, of ?rs 1 2] by simp
  moreover have "snd (?rs ! 3) = []"
    using panicked_provider_never_called [OF w(1) v, of ?rs 2 3] by simp
  moreover have "vf_failure (cw_factory w) \<noteq> None"
    using panicked_provider_never_called [OF w(1) v, of ?rs 1 2] w(2) by simp
  ultimately show ?thesis using w(1) by blast
qed

text \<open>A decoder factory that panics while it creates condemns itself without telling its observer, and so do
  the queries it refuses afterwards.\<close>

lemma decoder_creation_panic_unreported:
  "f = snd (snd (decoder_factory_create Panics new_video_factory)) \<Longrightarrow>
    vf_terminal f \<and> vf_failure f = None
    \<and> decoder_factory_query q f = (ffi_support (Inl ProviderPanickedQuery), [], f)"
  by (simp add: decoder_factory_create_def decoder_factory_query_def new_video_factory_def)

end
