(* ===== verification/TimeValues.thy ===== *)
theory TimeValues
  imports Prelude
begin

text \<open>
  Native time values (\<open>src/timestamp.rs\<close>, \<open>src/time_delta.rs\<close>, \<open>src/ntp_time.rs\<close>): signed
  microseconds in 64 bits whose two extreme bit patterns are the infinities.  The Rust code
  validates every exact intermediate before it calls the SDK arithmetic through the bridge
  (\<open>native/clock.cc\<close>); the SDK's \<open>UnitBase\<close> operators are the parameter \<open>unit_base\<close>, and
  \<open>unit_base_exact\<close> states what the SDK documents of them: exact on the calls whose result is
  representable.  The floating-point constructors and queries are not modelled.
\<close>

subsection \<open>Data\<close>

datatype time_value_error =
    InfiniteValue | DivisionByZero | OutOfRange | NotANumber | IndeterminateArithmetic
  | InvalidResolution

type_synonym 'a time_result = "(time_value_error, 'a) result"

abbreviation (input) i64_MIN :: i64 where "i64_MIN \<equiv> 0x8000000000000000"
abbreviation (input) i64_MAX :: i64 where "i64_MAX \<equiv> 0x7FFFFFFFFFFFFFFF"

datatype timestamp = Timestamp (ts_bits: i64)
datatype time_delta = TimeDelta (td_inner: timestamp)
datatype finite_timestamp = FiniteTimestamp (ft_timestamp: timestamp)

abbreviation td_bits :: "time_delta \<Rightarrow> i64" where "td_bits d \<equiv> ts_bits (td_inner d)"
abbreviation td_of_bits :: "i64 \<Rightarrow> time_delta" where "td_of_bits v \<equiv> TimeDelta (Timestamp v)"

definition ts_zero :: timestamp where "ts_zero = Timestamp 0"
definition ts_plus_infinity :: timestamp where "ts_plus_infinity = Timestamp i64_MAX"
definition ts_minus_infinity :: timestamp where "ts_minus_infinity = Timestamp i64_MIN"

subsection \<open>The SDK operators\<close>

record unit_base =
  ub_add :: "i64 \<Rightarrow> i64 \<Rightarrow> i64"
  ub_sub :: "i64 \<Rightarrow> i64 \<Rightarrow> i64"
  ub_mul :: "i64 \<Rightarrow> i64 \<Rightarrow> i64"
  ub_div :: "i64 \<Rightarrow> i64 \<Rightarrow> i64"
  ub_round_to :: "i64 \<Rightarrow> i64 \<Rightarrow> i64"
  ub_round_up_to :: "i64 \<Rightarrow> i64 \<Rightarrow> i64"
  ub_round_down_to :: "i64 \<Rightarrow> i64 \<Rightarrow> i64"
  ub_neg :: "i64 \<Rightarrow> i64"
  ub_size_mul :: "i64 \<Rightarrow> u64 \<Rightarrow> i64"
  ub_size_div :: "i64 \<Rightarrow> u64 \<Rightarrow> i64"
  ub_millis_from :: "i64 \<Rightarrow> i64"
  ub_seconds_from :: "i64 \<Rightarrow> i64"
  ub_convert :: "u8 \<Rightarrow> i64 \<Rightarrow> i64"

text \<open>The dispatch of \<open>native/clock.cc\<close>.\<close>

definition clock_timestamp_operation :: "unit_base \<Rightarrow> i64 \<Rightarrow> i64 \<Rightarrow> u8 \<Rightarrow> i64" where
  "clock_timestamp_operation ub left right operation =
     (if operation = 0 then ub_add ub left right else ub_sub ub left right)"

definition clock_delta_operation :: "unit_base \<Rightarrow> i64 \<Rightarrow> i64 \<Rightarrow> u8 \<Rightarrow> i64" where
  "clock_delta_operation ub left right operation =
     (if operation = 0 then ub_add ub left right
      else if operation = 1 then ub_sub ub left right
      else if operation = 2 then ub_mul ub left right
      else if operation = 3 then ub_div ub left right
      else if operation = 4 then ub_round_to ub left right
      else if operation = 5 then ub_round_up_to ub left right
      else ub_round_down_to ub left right)"

definition clock_timestamp_from_int :: "unit_base \<Rightarrow> i64 \<Rightarrow> u8 \<Rightarrow> i64 option" where
  "clock_timestamp_from_int ub v unit =
     (let scale = (if unit = 0 then 1 else if unit = 1 then 1000 else 1000000) in
      if sint v \<le> quot i64_min scale \<or> quot i64_max scale \<le> sint v then None
      else Some (if unit = 0 then v else if unit = 1 then ub_millis_from ub v
                 else ub_seconds_from ub v))"

definition clock_timestamp_convert :: "unit_base \<Rightarrow> i64 \<Rightarrow> u8 \<Rightarrow> i64 option" where
  "clock_timestamp_convert ub v unit =
     (if v = i64_MIN \<or> v = i64_MAX then None
      else if unit = 3 \<and> (sint v < quot i64_min 1000 \<or> quot i64_max 1000 < sint v) then None
      else Some (if unit = 0 then v else ub_convert ub unit v))"

subsection \<open>Timestamp\<close>

definition from_microseconds :: "i64 \<Rightarrow> timestamp time_result" where
  "from_microseconds v = (if v = i64_MIN \<or> v = i64_MAX then Inl OutOfRange else Inr (Timestamp v))"

definition from_integer :: "unit_base \<Rightarrow> i64 \<Rightarrow> u8 \<Rightarrow> timestamp time_result" where
  "from_integer ub v unit =
     (case clock_timestamp_from_int ub v unit of
        Some r \<Rightarrow> Inr (Timestamp r) | None \<Rightarrow> Inl OutOfRange)"

definition ts_from_millis where "ts_from_millis ub v = from_integer ub v 1"
definition ts_from_seconds where "ts_from_seconds ub v = from_integer ub v 2"

definition is_plus_infinity :: "timestamp \<Rightarrow> bool" where
  "is_plus_infinity t \<longleftrightarrow> ts_bits t = i64_MAX"
definition is_minus_infinity :: "timestamp \<Rightarrow> bool" where
  "is_minus_infinity t \<longleftrightarrow> ts_bits t = i64_MIN"
definition is_infinite :: "timestamp \<Rightarrow> bool" where
  "is_infinite t \<longleftrightarrow> is_plus_infinity t \<or> is_minus_infinity t"
definition is_finite :: "timestamp \<Rightarrow> bool" where "is_finite t \<longleftrightarrow> \<not> is_infinite t"

definition ts_finite :: "timestamp \<Rightarrow> finite_timestamp time_result" where
  "ts_finite t = (if is_finite t then Inr (FiniteTimestamp t) else Inl InfiniteValue)"

definition microseconds :: "timestamp \<Rightarrow> i64 time_result" where
  "microseconds t = (if is_finite t then Inr (ts_bits t) else Inl InfiniteValue)"

definition integer_query :: "unit_base \<Rightarrow> timestamp \<Rightarrow> u8 \<Rightarrow> i64 time_result" where
  "integer_query ub t unit =
     (if is_infinite t then Inl InfiniteValue
      else (case clock_timestamp_convert ub (ts_bits t) unit of
              Some v \<Rightarrow> Inr v | None \<Rightarrow> Inl OutOfRange))"

definition microseconds_or :: "timestamp \<Rightarrow> i64 \<Rightarrow> i64" where
  "microseconds_or t fallback = (if is_finite t then ts_bits t else fallback)"

definition query_or :: "unit_base \<Rightarrow> u8 \<Rightarrow> timestamp \<Rightarrow> i64 \<Rightarrow> i64" where
  "query_or ub unit t fallback = (case integer_query ub t unit of Inr v \<Rightarrow> v | Inl _ \<Rightarrow> fallback)"

text \<open>\<open>validate_relative\<close> of \<open>src/time_delta.rs\<close>, shared by both types.\<close>

definition validate_relative :: "i64 \<Rightarrow> i64 \<Rightarrow> bool \<Rightarrow> unit time_result" where
  "validate_relative left right subtract =
     (let a = Timestamp left; b = Timestamp right in
      if is_infinite a \<or> is_infinite b then
        (if is_infinite a \<and> is_infinite b \<and> (a = b) = subtract
         then Inl IndeterminateArithmetic else Inr ())
      else
        (let r = (if subtract then i64_checked_sub left right else i64_checked_add left right) in
         and_then (ok_or r OutOfRange) (\<lambda>v. and_then (from_microseconds v) (\<lambda>_. Inr ()))))"

definition ts_relative :: "unit_base \<Rightarrow> timestamp \<Rightarrow> time_delta \<Rightarrow> bool \<Rightarrow> timestamp time_result"
  where
  "ts_relative ub t d subtract =
     and_then (validate_relative (ts_bits t) (td_bits d) subtract) (\<lambda>_.
       Inr (Timestamp (clock_timestamp_operation ub (ts_bits t) (td_bits d)
              (if subtract then 1 else 0))))"

definition duration_since :: "unit_base \<Rightarrow> timestamp \<Rightarrow> timestamp \<Rightarrow> time_delta time_result" where
  "duration_since ub t other =
     and_then (validate_relative (ts_bits t) (ts_bits other) True) (\<lambda>_.
       Inr (td_of_bits (clock_timestamp_operation ub (ts_bits t) (ts_bits other) 2)))"

definition finite_from_microseconds :: "i64 \<Rightarrow> finite_timestamp time_result" where
  "finite_from_microseconds v = and_then (from_microseconds v) (\<lambda>t. Inr (FiniteTimestamp t))"

subsection \<open>TimeDelta\<close>

definition td_from_microseconds :: "i64 \<Rightarrow> time_delta time_result" where
  "td_from_microseconds v = and_then (from_microseconds v) (\<lambda>t. Inr (TimeDelta t))"

definition td_from_millis :: "unit_base \<Rightarrow> i64 \<Rightarrow> time_delta time_result" where
  "td_from_millis ub v = and_then (ts_from_millis ub v) (\<lambda>t. Inr (TimeDelta t))"

definition td_from_seconds :: "unit_base \<Rightarrow> i64 \<Rightarrow> time_delta time_result" where
  "td_from_seconds ub v = and_then (ts_from_seconds ub v) (\<lambda>t. Inr (TimeDelta t))"

definition td_from_minutes :: "unit_base \<Rightarrow> i64 \<Rightarrow> time_delta time_result" where
  "td_from_minutes ub v =
     and_then (ok_or (i64_checked_mul v 60) OutOfRange) (td_from_seconds ub)"

text \<open>\<open>value.abs()\<close> of a finite value never overflows: \<open>i64::MIN\<close> is an infinity.\<close>

definition td_abs :: "time_delta \<Rightarrow> time_delta time_result" where
  "td_abs d =
     and_then (microseconds (td_inner d)) (\<lambda>v.
       td_from_microseconds (if sint v < 0 then - v else v))"

definition td_checked_neg :: "unit_base \<Rightarrow> time_delta \<Rightarrow> time_delta time_result" where
  "td_checked_neg ub d =
     (if td_bits d = i64_MIN + 1 then Inl OutOfRange
      else Inr (td_of_bits (ub_neg ub (td_bits d))))"

definition td_relative :: "unit_base \<Rightarrow> time_delta \<Rightarrow> time_delta \<Rightarrow> bool \<Rightarrow> time_delta time_result"
  where
  "td_relative ub d other subtract =
     and_then (validate_relative (td_bits d) (td_bits other) subtract) (\<lambda>_.
       Inr (td_of_bits (clock_delta_operation ub (td_bits d) (td_bits other)
              (if subtract then 1 else 0))))"

definition td_integer_scalar ::
  "unit_base \<Rightarrow> time_delta \<Rightarrow> i64 \<Rightarrow> bool \<Rightarrow> time_delta time_result" where
  "td_integer_scalar ub d scalar by_division =
     and_then (microseconds (td_inner d)) (\<lambda>v.
       if by_division \<and> scalar = 0 then Inl DivisionByZero
       else
         (let r = (if by_division then i64_checked_div v scalar else i64_checked_mul v scalar) in
          and_then (ok_or r OutOfRange) (\<lambda>r.
          and_then (td_from_microseconds r) (\<lambda>_.
            Inr (td_of_bits (clock_delta_operation ub v scalar (if by_division then 3 else 2)))))))"

text \<open>\<open>usize::BITS == 64\<close>: the unsigned promotion of the native code.\<close>

definition td_size_scalar ::
  "unit_base \<Rightarrow> time_delta \<Rightarrow> u64 \<Rightarrow> bool \<Rightarrow> time_delta time_result" where
  "td_size_scalar ub d scalar by_division =
     and_then (microseconds (td_inner d)) (\<lambda>v.
       if by_division \<and> scalar = 0 then Inl DivisionByZero
       else if i64_MAX \<le> (if by_division then v div scalar else v * scalar) then Inl OutOfRange
       else Inr (td_of_bits (if by_division then ub_size_div ub v scalar else ub_size_mul ub v scalar)))"

definition td_round ::
  "unit_base \<Rightarrow> time_delta \<Rightarrow> time_delta \<Rightarrow> u8 \<Rightarrow> time_delta time_result" where
  "td_round ub d resolution operation =
     and_then (microseconds (td_inner d)) (\<lambda>v.
     and_then (case microseconds (td_inner resolution) of
                 Inl _ \<Rightarrow> Inl InvalidResolution | Inr r \<Rightarrow> Inr r) (\<lambda>r.
       if sint r \<le> 0 then Inl InvalidResolution
       else
         and_then (ok_or
           (if operation = 4 then i64_checked_add v (word_of_int (quot (sint r) 2))
            else if operation = 5 then
              Option.bind (i64_checked_add v r) (\<lambda>s. i64_checked_sub s 1)
            else Some v) OutOfRange) (\<lambda>numerator.
         and_then (ok_or (i64_checked_mul (word_of_int (quot (sint numerator) (sint r))) r)
             OutOfRange) (\<lambda>r'.
         and_then (td_from_microseconds r') (\<lambda>_.
           Inr (td_of_bits (clock_delta_operation ub v r operation)))))))"

definition round_to where "round_to ub d resolution = td_round ub d resolution 4"
definition round_up_to where "round_up_to ub d resolution = td_round ub d resolution 5"
definition round_down_to where "round_down_to ub d resolution = td_round ub d resolution 6"

subsection \<open>NTP time\<close>

datatype ntp_time = NtpTime (ntp_raw: u64)

definition ntp_from_parts :: "u32 \<Rightarrow> u32 \<Rightarrow> ntp_time" where
  "ntp_from_parts seconds fractions = NtpTime (ucast seconds * 0x100000000 + ucast fractions)"

definition ntp_seconds :: "ntp_time \<Rightarrow> u32" where
  "ntp_seconds t = ucast (drop_bit 32 (ntp_raw t))"

definition ntp_fractions :: "ntp_time \<Rightarrow> u32" where
  "ntp_fractions t = ucast (ntp_raw t)"

definition ntp_is_valid :: "ntp_time \<Rightarrow> bool" where
  "ntp_is_valid t \<longleftrightarrow> ntp_raw t \<noteq> 0"

definition ntp_set :: "u32 \<Rightarrow> u32 \<Rightarrow> ntp_time \<Rightarrow> ntp_time" where
  "ntp_set seconds fractions t = ntp_from_parts seconds fractions"

definition ntp_reset :: "ntp_time \<Rightarrow> ntp_time" where
  "ntp_reset t = NtpTime 0"

subsection \<open>What the values mean\<close>

datatype extended = NegInf | Fin int | PosInf

definition sem :: "i64 \<Rightarrow> extended" where
  "sem v = (if v = i64_MIN then NegInf else if v = i64_MAX then PosInf else Fin (sint v))"

definition finite_range :: "int \<Rightarrow> bool" where
  "finite_range x \<longleftrightarrow> i64_min < x \<and> x < i64_max"

fun representable :: "extended \<Rightarrow> bool" where
  "representable (Fin x) = finite_range x"
| "representable _ = True"

fun ext_neg :: "extended \<Rightarrow> extended" where
  "ext_neg (Fin x) = Fin (- x)"
| "ext_neg PosInf = NegInf"
| "ext_neg NegInf = PosInf"

text \<open>\<open>None\<close> is the indeterminate sum of opposite infinities.\<close>

fun ext_add :: "extended \<Rightarrow> extended \<Rightarrow> extended option" where
  "ext_add (Fin x) (Fin y) = Some (Fin (x + y))"
| "ext_add PosInf NegInf = None"
| "ext_add NegInf PosInf = None"
| "ext_add PosInf _ = Some PosInf"
| "ext_add _ PosInf = Some PosInf"
| "ext_add NegInf _ = Some NegInf"
| "ext_add _ NegInf = Some NegInf"

definition ext_relative :: "bool \<Rightarrow> extended \<Rightarrow> extended \<Rightarrow> extended option" where
  "ext_relative subtract a b = ext_add a (if subtract then ext_neg b else b)"

definition round_formula :: "u8 \<Rightarrow> int \<Rightarrow> int \<Rightarrow> int" where
  "round_formula operation x r =
     quot (if operation = 4 then x + quot r 2 else if operation = 5 then x + r - 1 else x) r * r"

definition round_intermediate :: "u8 \<Rightarrow> int \<Rightarrow> int \<Rightarrow> bool" where
  "round_intermediate operation x r \<longleftrightarrow>
     i64_in_range (if operation = 4 then x + quot r 2 else if operation = 5 then x + r else x)"

text \<open>The SDK's contract: each operator is exact whenever the exact result is representable
  (and, for rounding, its documented intermediate does not overflow).\<close>

definition unit_base_exact :: "unit_base \<Rightarrow> bool" where
  "unit_base_exact ub \<longleftrightarrow>
     (\<forall>a b e. ext_add (sem a) (sem b) = Some e \<longrightarrow> representable e \<longrightarrow> sem (ub_add ub a b) = e)
     \<and> (\<forall>a b e. ext_relative True (sem a) (sem b) = Some e \<longrightarrow> representable e \<longrightarrow>
          sem (ub_sub ub a b) = e)
     \<and> (\<forall>a. representable (ext_neg (sem a)) \<longrightarrow> sem (ub_neg ub a) = ext_neg (sem a))
     \<and> (\<forall>a b x. sem a = Fin x \<longrightarrow> finite_range (x * sint b) \<longrightarrow>
          sem (ub_mul ub a b) = Fin (x * sint b))
     \<and> (\<forall>a b x. sem a = Fin x \<longrightarrow> b \<noteq> 0 \<longrightarrow> finite_range (quot x (sint b)) \<longrightarrow>
          sem (ub_div ub a b) = Fin (quot x (sint b)))
     \<and> (\<forall>a r x y operation. sem a = Fin x \<longrightarrow> sem r = Fin y \<longrightarrow> 0 < y \<longrightarrow>
          round_intermediate operation x y \<longrightarrow> finite_range (round_formula operation x y) \<longrightarrow>
          sem (if operation = 4 then ub_round_to ub a r else if operation = 5 then ub_round_up_to ub a r
               else ub_round_down_to ub a r) = Fin (round_formula operation x y))
     \<and> (\<forall>v. finite_range (sint v * 1000) \<longrightarrow> sem (ub_millis_from ub v) = Fin (sint v * 1000))
     \<and> (\<forall>v. finite_range (sint v * 1000000) \<longrightarrow>
          sem (ub_seconds_from ub v) = Fin (sint v * 1000000))"

lemma i64_extremes [simp]: "sint i64_MIN = i64_min" "sint i64_MAX = i64_max"
  by simp_all

lemma is_infinite_iff: "is_infinite (Timestamp v) \<longleftrightarrow> v = i64_MIN \<or> v = i64_MAX"
  by (auto simp: is_infinite_def is_plus_infinity_def is_minus_infinity_def)

lemma sem_Fin_iff: "sem v = Fin x \<longleftrightarrow> sint v = x \<and> finite_range x"
proof
  assume "sem v = Fin x"
  then have v: "v \<noteq> i64_MIN" "v \<noteq> i64_MAX" "sint v = x" by (auto simp: sem_def split: if_splits)
  have "sint v \<noteq> sint i64_MIN" "sint v \<noteq> sint i64_MAX" using v(1,2) by (metis signed_word_eqI)+
  then have "sint v \<noteq> i64_min" "sint v \<noteq> i64_max" by simp_all
  with v(3) sint_range_i64 [of v] show "sint v = x \<and> finite_range x" by (simp add: finite_range_def)
next
  assume x: "sint v = x \<and> finite_range x"
  then have "sint v \<noteq> sint i64_MIN" "sint v \<noteq> sint i64_MAX" by (auto simp: finite_range_def)
  then have "v \<noteq> i64_MIN" "v \<noteq> i64_MAX" by auto
  with x show "sem v = Fin x" by (simp add: sem_def)
qed

lemma finite_sem: "is_finite (Timestamp v) \<longleftrightarrow> sem v = Fin (sint v)"
  by (auto simp: is_finite_def is_infinite_iff sem_def)

lemma from_microseconds_cases:
  "from_microseconds v = (if finite_range (sint v) then Inr (Timestamp v) else Inl OutOfRange)"
  using sem_Fin_iff [of v "sint v"] by (auto simp: from_microseconds_def sem_def split: if_splits)

lemma to_i64_cases: "to_i64 x = (if i64_in_range x then Some (word_of_int x) else None)"
  by (simp add: to_i64_def)

lemma in_range_finite: "finite_range x \<Longrightarrow> i64_in_range x"
  by (simp add: finite_range_def i64_in_range_def)

lemma checked_then_finite:
  "and_then (ok_or (to_i64 x) OutOfRange) (\<lambda>v. and_then (from_microseconds v) k)
     = (if finite_range x then k (Timestamp (word_of_int x)) else Inl OutOfRange)"
  by (auto simp: to_i64_def from_microseconds_cases i64_in_range_def finite_range_def
      sint_of_int_i64)

lemma validate_relative_cases:
  "validate_relative left right subtract =
     (case ext_relative subtract (sem left) (sem right) of
        None \<Rightarrow> Inl IndeterminateArithmetic
      | Some e \<Rightarrow> if representable e then Inr () else Inl OutOfRange)"
proof (cases "is_infinite (Timestamp left) \<or> is_infinite (Timestamp right)")
  case True
  then show ?thesis
    by (auto simp: validate_relative_def Let_def is_infinite_iff ext_relative_def sem_def)
next
  case False
  then have "sem left = Fin (sint left)" "sem right = Fin (sint right)"
    using finite_sem by (auto simp: is_finite_def)
  with False show ?thesis
    by (simp add: validate_relative_def Let_def ext_relative_def i64_checked_add_def
        i64_checked_sub_def checked_then_finite)
qed

subsection \<open>Properties\<close>

text \<open>The meaning of a result, and what exact arithmetic would answer.\<close>

definition meaning :: "time_delta time_result \<Rightarrow> extended time_result" where
  "meaning r = and_then r (\<lambda>d. Inr (sem (td_bits d)))"

definition ts_meaning :: "timestamp time_result \<Rightarrow> extended time_result" where
  "ts_meaning r = and_then r (\<lambda>t. Inr (sem (ts_bits t)))"

definition exact_outcome :: "extended option \<Rightarrow> extended time_result" where
  "exact_outcome e =
     (case e of
        None \<Rightarrow> Inl IndeterminateArithmetic
      | Some x \<Rightarrow> if representable x then Inr x else Inl OutOfRange)"

text \<open>An SDK that satisfies its contract, for the witnesses.\<close>

definition encode_ext :: "extended \<Rightarrow> i64" where
  "encode_ext e = (case e of NegInf \<Rightarrow> i64_MIN | PosInf \<Rightarrow> i64_MAX | Fin x \<Rightarrow> word_of_int x)"

definition reference_base :: unit_base where
  "reference_base =
     \<lparr>ub_add = (\<lambda>a b. encode_ext (the (ext_add (sem a) (sem b)))),
      ub_sub = (\<lambda>a b. encode_ext (the (ext_relative True (sem a) (sem b)))),
      ub_mul = (\<lambda>a b. word_of_int (sint a * sint b)),
      ub_div = (\<lambda>a b. word_of_int (quot (sint a) (sint b))),
      ub_round_to = (\<lambda>a r. word_of_int (round_formula 4 (sint a) (sint r))),
      ub_round_up_to = (\<lambda>a r. word_of_int (round_formula 5 (sint a) (sint r))),
      ub_round_down_to = (\<lambda>a r. word_of_int (round_formula 6 (sint a) (sint r))),
      ub_neg = (\<lambda>a. encode_ext (ext_neg (sem a))),
      ub_size_mul = (\<lambda>a s. a * s), ub_size_div = (\<lambda>a s. a div s),
      ub_millis_from = (\<lambda>v. word_of_int (sint v * 1000)),
      ub_seconds_from = (\<lambda>v. word_of_int (sint v * 1000000)),
      ub_convert = (\<lambda>unit v. v)\<rparr>"

lemma sem_word_of_int: "finite_range x \<Longrightarrow> sem (word_of_int x) = Fin x"
  by (simp add: sem_Fin_iff sint_of_int_i64 finite_range_def)

lemma sem_encode: "representable e \<Longrightarrow> sem (encode_ext e) = e"
proof (cases e)
  case (Fin x)
  then show "representable e \<Longrightarrow> ?thesis" by (simp add: encode_ext_def sem_word_of_int)
qed (simp_all add: encode_ext_def sem_def)

lemma reference_base_exact: "unit_base_exact reference_base"
proof -
  have six: "round_formula operation x y = round_formula 6 x y"
    if "operation \<noteq> 4" "operation \<noteq> 5" for operation x y
    using that by (simp add: round_formula_def)
  have rounds: "sem (if operation = 4 then ub_round_to reference_base a r
      else if operation = 5 then ub_round_up_to reference_base a r
      else ub_round_down_to reference_base a r) = Fin (round_formula operation x y)"
    if "sem a = Fin x" "sem r = Fin y" "finite_range (round_formula operation x y)"
    for a r x y operation
  proof -
    have v: "sint a = x" "sint r = y" using that(1,2) by (simp_all add: sem_Fin_iff)
    show ?thesis
      using that(3) six [of operation x y]
      by (cases "operation = 4"; cases "operation = 5")
        (simp_all add: reference_base_def v sem_word_of_int)
  qed
  have arith: "sem (ub_mul reference_base a b) = Fin (x * sint b)"
    if "sem a = Fin x" "finite_range (x * sint b)" for a b x
  proof -
    have "sint a = x" using that(1) by (simp add: sem_Fin_iff)
    then have "ub_mul reference_base a b = word_of_int (x * sint b)"
      by (auto simp: reference_base_def)
    then show ?thesis using that(2) by (simp only: sem_word_of_int)
  qed
  have scaled: "sem (ub_millis_from reference_base v) = Fin (sint v * 1000)"
      if "finite_range (sint v * 1000)" for v
    using sem_word_of_int [OF that] by (simp add: reference_base_def)
  have scaled': "sem (ub_seconds_from reference_base v) = Fin (sint v * 1000000)"
      if "finite_range (sint v * 1000000)" for v
    using sem_word_of_int [OF that] by (simp add: reference_base_def)
  have divi: "sem (ub_div reference_base a b) = Fin (quot x (sint b))"
    if "sem a = Fin x" "finite_range (quot x (sint b))" for a b x
    using that by (simp add: reference_base_def sem_Fin_iff [of a] sem_word_of_int)
  show ?thesis
    unfolding unit_base_exact_def
    by (intro conjI allI impI rounds arith divi scaled scaled')
      (simp_all add: reference_base_def sem_encode sem_word_of_int)
qed

lemma validated_outcome:
  "(\<And>e. x = Some e \<Longrightarrow> representable e \<Longrightarrow> s = e) \<Longrightarrow>
     and_then (case x of None \<Rightarrow> Inl IndeterminateArithmetic
               | Some e \<Rightarrow> if representable e then Inr () else Inl OutOfRange) (\<lambda>_. Inr s)
     = exact_outcome x"
  by (cases x) (simp_all add: exact_outcome_def)

text \<open>C36. Adding and subtracting durations and timestamps, and timestamp differences, are
  exact: the result means the exact sum or difference in the integers extended by both
  infinities; opposite infinities are reported as indeterminate, and a finite result that would
  not fit, or would collide with an infinity's bit pattern, as out of range.\<close>

theorem time_sums_exact:
  assumes "unit_base_exact ub"
  shows "meaning (td_relative ub d d' subtract)
      = exact_outcome (ext_relative subtract (sem (td_bits d)) (sem (td_bits d')))
    \<and> ts_meaning (ts_relative ub t d subtract)
      = exact_outcome (ext_relative subtract (sem (ts_bits t)) (sem (td_bits d)))
    \<and> meaning (duration_since ub t t')
      = exact_outcome (ext_relative True (sem (ts_bits t)) (sem (ts_bits t')))"
proof -
  have add: "ext_relative False (sem a) (sem b) = Some e \<Longrightarrow> representable e \<Longrightarrow> sem (ub_add ub a b) = e"
    and sub: "ext_relative True (sem a) (sem b) = Some e \<Longrightarrow> representable e \<Longrightarrow> sem (ub_sub ub a b) = e"
    for a b e
    using assms by (simp_all add: unit_base_exact_def ext_relative_def)
  have both: "and_then (validate_relative a b f) (\<lambda>_. Inr (sem (if f then ub_sub ub a b else ub_add ub a b)))
      = exact_outcome (ext_relative f (sem a) (sem b))" for a b f
    unfolding validate_relative_cases
    by (rule validated_outcome, cases f) (simp_all add: add sub)
  show ?thesis
    using both [of "td_bits d" "td_bits d'" subtract] both [of "ts_bits t" "td_bits d" subtract]
      both [of "ts_bits t" "ts_bits t'" True]
    by (cases subtract) (simp_all add: meaning_def ts_meaning_def td_relative_def ts_relative_def
        duration_since_def and_then_assoc clock_delta_operation_def clock_timestamp_operation_def)
qed

theorem time_sums_exact_witness:
  "meaning (td_relative reference_base (td_of_bits 5) (td_of_bits 7) True) = Inr (Fin (- 2))"
  using time_sums_exact [OF reference_base_exact, of "td_of_bits 5" "td_of_bits 7" True ts_zero ts_zero]
  by (simp add: exact_outcome_def ext_relative_def sem_def finite_range_def)

text \<open>Scaling a duration by a 64-bit integer is exact or refused: infinite durations,
  division by zero and every product or quotient outside the finite range are errors, the
  quotient truncates towards zero.\<close>

theorem scaling_exact:
  assumes "unit_base_exact ub"
  shows "meaning (td_integer_scalar ub d s by_division) =
     (case sem (td_bits d) of
        Fin x \<Rightarrow>
          if by_division \<and> s = 0 then Inl DivisionByZero
          else (let y = (if by_division then quot x (sint s) else x * sint s) in
                if finite_range y then Inr (Fin y) else Inl OutOfRange)
      | _ \<Rightarrow> Inl InfiniteValue)"
proof (cases "sem (td_bits d)")
  case (Fin x)
  then have x: "sint (td_bits d) = x" "microseconds (td_inner d) = Inr (td_bits d)"
    using finite_sem [of "td_bits d"] by (auto simp: sem_Fin_iff microseconds_def)
  have mul: "finite_range (x * sint s) \<Longrightarrow> sem (ub_mul ub (td_bits d) s) = Fin (x * sint s)"
    and divi: "s \<noteq> 0 \<Longrightarrow> finite_range (quot x (sint s)) \<Longrightarrow>
      sem (ub_div ub (td_bits d) s) = Fin (quot x (sint s))"
    using assms Fin unfolding unit_base_exact_def by blast+
  have zero: "sint s = 0 \<longleftrightarrow> s = 0" by (simp add: signed_eq_0_iff)
  show ?thesis
    using Fin x mul divi zero
    by (auto simp: td_integer_scalar_def meaning_def Let_def i64_checked_div_def
        i64_checked_mul_def td_from_microseconds_def checked_then_finite and_then_assoc
        clock_delta_operation_def)
qed (simp_all add: td_integer_scalar_def meaning_def microseconds_def is_finite_def
    is_infinite_def is_plus_infinity_def is_minus_infinity_def sem_def split: if_splits)

theorem scaling_exact_witness:
  "meaning (td_integer_scalar reference_base (td_of_bits 7) (- 2) True) = Inr (Fin (- 3))
    \<and> meaning (td_integer_scalar reference_base (TimeDelta ts_plus_infinity) 2 False) = Inl InfiniteValue"
  using scaling_exact [OF reference_base_exact, of "td_of_bits 7" "- 2" True]
    scaling_exact [OF reference_base_exact, of "TimeDelta ts_plus_infinity" 2 False]
  by (simp add: sem_def finite_range_def Let_def quot_def ts_plus_infinity_def)

lemma quot_bounds: "0 < b \<Longrightarrow> 0 \<le> a \<Longrightarrow> 0 \<le> quot a b \<and> quot a b \<le> a"
  by (cases "a = 0") (auto simp: quot_def pos_imp_zdiv_nonneg_iff
      intro: order_trans [OF zdiv_mono2 [of a 1 b]])

lemma quot_minus: "quot (- a) b = - quot a b"
  by (simp add: quot_def)

lemma quot_in_range: "0 < b \<Longrightarrow> i64_in_range a \<Longrightarrow> i64_in_range (quot a b)"
  using quot_bounds [of b a] quot_bounds [of b "- a"]
  by (cases "0 \<le> a") (auto simp: i64_in_range_def quot_minus)

definition round_numerator :: "u8 \<Rightarrow> int \<Rightarrow> int \<Rightarrow> int" where
  "round_numerator operation x r =
     (if operation = 4 then x + quot r 2 else if operation = 5 then x + r - 1 else x)"

lemma round_numerator_cases:
  assumes "0 < sint r"
  shows "(if operation = 4 then i64_checked_add v (word_of_int (quot (sint r) 2))
      else if operation = 5 then
        Option.bind (i64_checked_add v r) (\<lambda>s. i64_checked_sub s 1)
      else Some v)
    = (if round_intermediate operation (sint v) (sint r)
       then Some (word_of_int (round_numerator operation (sint v) (sint r))) else None)"
proof -
  have half: "sint (word_of_int (quot (sint r) 2) :: i64) = quot (sint r) 2"
    using quot_bounds [of 2 "sint r"] assms sint_range_i64 [of r] by (intro sint_of_int_i64) auto
  have prev: "i64_checked_sub (word_of_int s) 1 = Some (word_of_int (s - 1))"
    if "i64_in_range s" "i64_min < s" for s
    using that by (simp add: i64_checked_sub_def to_i64_def i64_in_range_def sint_of_int_i64)
  have above: "i64_min < sint v + sint r" using assms sint_range_i64 [of v] by simp
  consider "operation = 4" | "operation = 5" | "operation \<noteq> 4" "operation \<noteq> 5" by blast
  then show ?thesis
  proof cases
    case 2
    then show ?thesis
      using prev [of "sint v + sint r"] above
      by (simp add: i64_checked_add_def to_i64_def round_intermediate_def round_numerator_def)
  qed (use half sint_range_i64 [of v] in \<open>simp_all add: i64_checked_add_def to_i64_def
      i64_in_range_def round_intermediate_def round_numerator_def\<close>)
qed

lemma round_numerator_in_range:
  "round_intermediate operation x r \<Longrightarrow> i64_in_range x \<Longrightarrow> 0 < r \<Longrightarrow>
     i64_in_range (round_numerator operation x r)"
  by (auto simp: round_intermediate_def round_numerator_def i64_in_range_def)

lemma td_round_cases:
  assumes "unit_base_exact ub" and "operation \<in> {4, 5, 6}"
  shows "meaning (td_round ub d resolution operation) =
     (case sem (td_bits d) of
        Fin x \<Rightarrow>
          (case sem (td_bits resolution) of
             Fin r \<Rightarrow>
               if r \<le> 0 then Inl InvalidResolution
               else if round_intermediate operation x r \<and> finite_range (round_formula operation x r)
               then Inr (Fin (round_formula operation x r)) else Inl OutOfRange
           | _ \<Rightarrow> Inl InvalidResolution)
      | _ \<Rightarrow> Inl InfiniteValue)"
proof (cases "sem (td_bits d)")
  case (Fin x)
  then have x: "sint (td_bits d) = x" "microseconds (td_inner d) = Inr (td_bits d)" "i64_in_range x"
    using finite_sem [of "td_bits d"] by (auto simp: sem_Fin_iff microseconds_def in_range_finite)
  show ?thesis
  proof (cases "sem (td_bits resolution)")
    case r: (Fin r)
    then have res: "sint (td_bits resolution) = r" "microseconds (td_inner resolution) = Inr (td_bits resolution)"
      using finite_sem [of "td_bits resolution"] by (auto simp: sem_Fin_iff microseconds_def)
    show ?thesis
    proof (cases "0 < r \<and> round_intermediate operation x r")
      case True
      define n where "n = round_numerator operation x r"
      have n: "i64_in_range n" "i64_in_range (quot n r)" "quot n r * r = round_formula operation x r"
        using True x(3) round_numerator_in_range quot_in_range
        by (auto simp: n_def round_formula_def round_numerator_def)
      have ints: "sint (word_of_int n :: i64) = n" "sint (word_of_int (quot n r) :: i64) = quot n r"
        using n by (simp_all add: sint_of_int_i64 i64_in_range_def)
      have sdk: "sem (clock_delta_operation ub (td_bits d) (td_bits resolution) operation)
          = Fin (round_formula operation x r)" if "finite_range (round_formula operation x r)"
      proof -
        have "sem (if operation = 4 then ub_round_to ub (td_bits d) (td_bits resolution)
            else if operation = 5 then ub_round_up_to ub (td_bits d) (td_bits resolution)
            else ub_round_down_to ub (td_bits d) (td_bits resolution))
          = Fin (round_formula operation x r)"
          using assms(1) Fin r True that unfolding unit_base_exact_def by blast
        then show ?thesis using assms(2) by (auto simp: clock_delta_operation_def)
      qed
      show ?thesis
        using True Fin r x res ints n(3) sdk
          round_numerator_cases [of "td_bits resolution" operation "td_bits d"]
        by (simp add: td_round_def meaning_def i64_checked_mul_def td_from_microseconds_def
            checked_then_finite and_then_assoc n_def [symmetric])
    next
      case False
      then show ?thesis
        using Fin r x res round_numerator_cases [of "td_bits resolution" operation "td_bits d"]
        by (auto simp: td_round_def meaning_def)
    qed
  qed (use Fin x in \<open>auto simp: td_round_def meaning_def microseconds_def is_finite_def
      is_infinite_def is_plus_infinity_def is_minus_infinity_def sem_def split: if_splits\<close>)
qed (simp_all add: td_round_def meaning_def microseconds_def is_finite_def
    is_infinite_def is_plus_infinity_def is_minus_infinity_def sem_def split: if_splits)

lemma quot_nonneg: "0 \<le> a \<Longrightarrow> 0 < b \<Longrightarrow> quot a b = a div b"
  by (cases "a = 0") (auto simp: quot_def)

lemma div_mult_bounds:
  fixes n r :: int
  assumes "0 < r"
  shows "n div r * r \<le> n" "n < n div r * r + r"
  using mod_pos_pos_trivial assms pos_mod_bound [of r n] pos_mod_sign [of r n]
    div_mult_mod_eq [of n r] by linarith+

lemma round_half_bounds:
  fixes x r :: int
  assumes "0 < r"
  shows "2 * \<bar>(x + r div 2) div r * r - x\<bar> \<le> r"
proof -
  obtain h m where h: "r = h * 2 + m" "0 \<le> m" "m < 2" "r div 2 = h"
    using div_mult_mod_eq [of r 2] by (metis pos_mod_bound pos_mod_sign zero_less_numeral)
  obtain q where q: "(x + r div 2) div r * r = q" by simp
  show ?thesis
    using div_mult_bounds [OF assms, of "x + r div 2"] h(1-3) unfolding q h(4) by (simp add: abs_if)
qed

lemma round_formula_nonneg:
  assumes "0 \<le> x" "0 < r"
  shows "r dvd round_formula operation x r"
    and "round_formula 6 x r \<le> x \<and> x < round_formula 6 x r + r"
    and "x \<le> round_formula 5 x r \<and> round_formula 5 x r < x + r"
    and "2 * \<bar>round_formula 4 x r - x\<bar> \<le> r"
  using assms div_mult_bounds [of r x] div_mult_bounds [of r "x + r - 1"]
    div_mult_bounds [of r "x + r div 2"] round_half_bounds [of r x]
  by (auto simp: round_formula_def quot_nonneg)

text \<open>Rounding a duration follows one formula exactly: add half the resolution, or the
  resolution less one, or nothing, then truncate towards zero to a multiple of the resolution;
  an infinite or non-positive resolution, an infinite duration and every input whose numerator
  or result leaves the range are refused.  On non-negative durations the formula is rounding to
  the nearest multiple, to the next one, and to the previous one.\<close>

theorem td_round_exact:
  assumes "unit_base_exact ub" and "operation \<in> {4, 5, 6}"
  shows "(meaning (td_round ub d resolution operation) =
     (case sem (td_bits d) of
        Fin x \<Rightarrow>
          (case sem (td_bits resolution) of
             Fin r \<Rightarrow>
               if r \<le> 0 then Inl InvalidResolution
               else if round_intermediate operation x r \<and> finite_range (round_formula operation x r)
               then Inr (Fin (round_formula operation x r)) else Inl OutOfRange
           | _ \<Rightarrow> Inl InvalidResolution)
      | _ \<Rightarrow> Inl InfiniteValue))
    \<and> (0 \<le> x \<and> 0 < r \<longrightarrow> r dvd round_formula operation x r
        \<and> round_formula 6 x r \<le> x \<and> x < round_formula 6 x r + r
        \<and> x \<le> round_formula 5 x r \<and> round_formula 5 x r < x + r
        \<and> 2 * \<bar>round_formula 4 x r - x\<bar> \<le> r)"
  using td_round_cases [OF assms] round_formula_nonneg by blast

theorem td_round_exact_witness:
  "meaning (td_round reference_base (td_of_bits 7) (td_of_bits 5) 5) = Inr (Fin 10)
    \<and> meaning (td_round reference_base (td_of_bits 7) (td_of_bits 0) 4) = Inl InvalidResolution"
  using td_round_exact [OF reference_base_exact, of 5 "td_of_bits 7" "td_of_bits 5"]
    td_round_exact [OF reference_base_exact, of 4 "td_of_bits 7" "td_of_bits 0"]
  by (simp add: sem_def finite_range_def round_formula_def round_intermediate_def i64_in_range_def
      quot_def)

text \<open>An NTP time is its two halves: splitting and joining are inverse to each other, only
  the two zero halves are invalid, and \<open>set\<close> and \<open>reset\<close> overwrite both.\<close>

theorem ntp_parts_roundtrip:
  "ntp_seconds (ntp_from_parts s f) = s \<and> ntp_fractions (ntp_from_parts s f) = f
    \<and> ntp_from_parts (ntp_seconds t) (ntp_fractions t) = t
    \<and> (ntp_is_valid (ntp_from_parts s f) \<longleftrightarrow> (s, f) \<noteq> (0, 0))
    \<and> ntp_set s f t = ntp_from_parts s f \<and> \<not> ntp_is_valid (ntp_reset t)"
proof -
  have parts: "ucast a * 0x100000000 + ucast b = (push_bit 32 (ucast a) OR ucast b :: u64)"
    for a b :: u32
  proof -
    have "push_bit 32 (ucast a) AND (ucast b :: u64) = 0"
      by (rule bit_word_eqI) (auto simp: bit_simps dest: bit_imp_le_length)
    then have "push_bit 32 (ucast a) OR ucast b = push_bit 32 (ucast a) + (ucast b :: u64)"
      using word_plus_and_or [of "push_bit 32 (ucast a)" "ucast b :: u64"] by simp
    then show ?thesis by (simp add: push_bit_eq_mult mult.commute)
  qed
  have sec: "ntp_seconds (ntp_from_parts s f) = s" for s f
    unfolding ntp_seconds_def ntp_from_parts_def parts ntp_time.sel
    by (rule bit_word_eqI) (auto simp: bit_simps dest: bit_imp_le_length)
  have frac: "ntp_fractions (ntp_from_parts s f) = f" for s f
    unfolding ntp_fractions_def ntp_from_parts_def parts ntp_time.sel
    by (rule bit_word_eqI) (auto simp: bit_simps dest: bit_imp_le_length)
  have rejoin: "ntp_from_parts (ntp_seconds t) (ntp_fractions t) = t"
    unfolding ntp_seconds_def ntp_fractions_def ntp_from_parts_def parts
    by (cases t) (auto intro!: bit_word_eqI simp: bit_simps)
  have zero: "ntp_from_parts 0 0 = NtpTime 0" by (simp add: ntp_from_parts_def)
  have "ntp_from_parts s f = NtpTime 0 \<longleftrightarrow> s = 0 \<and> f = 0"
    using sec frac zero by metis
  then have "ntp_is_valid (ntp_from_parts s f) \<longleftrightarrow> (s, f) \<noteq> (0, 0)"
    by (cases "ntp_from_parts s f") (auto simp: ntp_is_valid_def)
  with sec frac rejoin show ?thesis by (simp add: ntp_set_def ntp_reset_def ntp_is_valid_def)
qed

text \<open>A finite constructor either holds exactly the requested number of microseconds or
  refuses it: no conversion wraps, and none produces an infinity.\<close>

theorem constructors_exact:
  assumes "unit_base_exact ub"
  shows "meaning (td_from_microseconds v) = (if finite_range (sint v) then Inr (Fin (sint v)) else Inl OutOfRange)
    \<and> meaning (td_from_millis ub v) =
        (if \<bar>sint v\<bar> < 9223372036854775 then Inr (Fin (sint v * 1000)) else Inl OutOfRange)
    \<and> meaning (td_from_seconds ub v) =
        (if \<bar>sint v\<bar> < 9223372036854 then Inr (Fin (sint v * 1000000)) else Inl OutOfRange)
    \<and> meaning (td_from_minutes ub v) =
        (if \<bar>sint v * 60\<bar> < 9223372036854 then Inr (Fin (sint v * 60000000)) else Inl OutOfRange)"
proof -
  have micros: "meaning (td_from_microseconds v) = (if finite_range (sint v) then Inr (Fin (sint v)) else Inl OutOfRange)"
    by (simp add: td_from_microseconds_def from_microseconds_cases meaning_def sem_Fin_iff)
  have limits: "quot i64_min 1000 = - 9223372036854775" "quot i64_max 1000 = 9223372036854775"
      "quot i64_min 1000000 = - 9223372036854" "quot i64_max 1000000 = 9223372036854"
    by (simp_all add: quot_def)
  have millis: "meaning (td_from_millis ub v) =
      (if \<bar>sint v\<bar> < 9223372036854775 then Inr (Fin (sint v * 1000)) else Inl OutOfRange)"
    using assms unfolding unit_base_exact_def
    by (auto simp: td_from_millis_def ts_from_millis_def from_integer_def
        clock_timestamp_from_int_def limits meaning_def finite_range_def abs_if)
  have secs: "meaning (td_from_seconds ub v) =
      (if \<bar>sint v\<bar> < 9223372036854 then Inr (Fin (sint v * 1000000)) else Inl OutOfRange)" for v
    using assms unfolding unit_base_exact_def
    by (auto simp: td_from_seconds_def ts_from_seconds_def from_integer_def
        clock_timestamp_from_int_def limits meaning_def finite_range_def abs_if)
  have mins: "meaning (td_from_minutes ub v) =
      (if \<bar>sint v * 60\<bar> < 9223372036854 then Inr (Fin (sint v * 60000000)) else Inl OutOfRange)"
  proof (cases "i64_in_range (sint v * 60)")
    case True
    then have "sint (word_of_int (sint v * 60) :: i64) = sint v * 60"
      by (simp only: sint_of_int_i64 i64_in_range_def)
    then have exact: "sint (v * 60) = sint v * 60" by simp
    then show ?thesis
      using secs [of "v * 60"] True
      by (simp add: td_from_minutes_def i64_checked_mul_def to_i64_def)
  next
    case False
    then show ?thesis
      by (auto simp: td_from_minutes_def i64_checked_mul_def to_i64_def i64_in_range_def meaning_def)
  qed
  show ?thesis using micros millis secs mins by blast
qed

theorem constructors_exact_witness:
  "meaning (td_from_minutes reference_base (- 2)) = Inr (Fin (- 120000000))
    \<and> meaning (td_from_millis reference_base 9223372036854775) = Inl OutOfRange"
  using constructors_exact [OF reference_base_exact, of "- 2"]
    constructors_exact [OF reference_base_exact, of "9223372036854775"]
  by simp

end
