(* ===== verification/ArtifactFiles.thy ===== *)
theory ArtifactFiles
  imports Prelude
begin

text \<open>
  The host the artifact resolver runs on, as far as \<open>build_support/artifact.rs\<close> observes it: Unix
  paths and their components, a file tree, environment variables, the answers of the release
  server, and the counters the code keeps (\<open>TEMPORARY_SEQUENCE\<close>).  Every call that touches the
  file system may fail: \<open>h_faults\<close> decides which calls do, and with which error, so a statement
  for every host covers every pattern of I/O failures.  \<open>Special\<close> is any entry that is neither a
  regular file nor a directory; opening one fails, and no path of the model runs through one.  A failing removal
  or directory creation changes nothing; a failing write may leave a part.
\<close>

subsection \<open>Paths\<close>

datatype path_component = RootDir | CurDir | ParentDir | NormalPart string

type_synonym path = "string list"

fun split_on :: "char \<Rightarrow> string \<Rightarrow> string list" where
  "split_on c [] = [[]]"
| "split_on c (x # xs) =
     (if x = c then [] # split_on c xs
      else (case split_on c xs of [] \<Rightarrow> [[x]] | y # ys \<Rightarrow> (x # y) # ys))"

definition path_piece :: "string \<Rightarrow> path_component list" where
  "path_piece s =
     (if s = [] \<or> s = ''.'' then [] else if s = ''..'' then [ParentDir] else [NormalPart s])"

text \<open>\<open>Path::components\<close>: empty pieces and inner dots vanish, a leading dot is kept.\<close>

definition path_components :: "string \<Rightarrow> path_component list" where
  "path_components s =
     (case split_on CHR ''/'' s of
        [] \<Rightarrow> []
      | first # rest \<Rightarrow>
          (if s \<noteq> [] \<and> first = [] then [RootDir] else if first = ''.'' then [CurDir]
           else path_piece first) @ List.concat (List.map path_piece rest))"

fun all_normal :: "path_component list \<Rightarrow> path option" where
  "all_normal [] = Some []"
| "all_normal (NormalPart s # ps) = map_option ((#) s) (all_normal ps)"
| "all_normal (_ # ps) = None"

definition file_name :: "string \<Rightarrow> string option" where
  "file_name s =
     (case rev (path_components s) of NormalPart n # _ \<Rightarrow> Some n | _ \<Rightarrow> None)"

definition path_ends_with :: "string \<Rightarrow> string \<Rightarrow> bool" where
  "path_ends_with s tail \<longleftrightarrow> suffix (path_components tail) (path_components s)"

text \<open>A path given by an environment variable is its components' names.\<close>

definition component_name :: "path_component \<Rightarrow> string" where
  "component_name c =
     (case c of RootDir \<Rightarrow> ''/'' | CurDir \<Rightarrow> ''.'' | ParentDir \<Rightarrow> ''..'' | NormalPart n \<Rightarrow> n)"

definition env_path :: "string \<Rightarrow> path" where
  "env_path s = List.map component_name (path_components s)"

text \<open>\<open>Path::with_extension\<close> on a file name: whatever follows the last dot is replaced; a name
  whose only dot leads has no extension.\<close>

definition file_stem :: "string \<Rightarrow> string" where
  "file_stem name =
     (let before = rev (tl (dropWhile (\<lambda>c. c \<noteq> CHR ''.'') (rev name))) in
      if CHR ''.'' \<notin> set name \<or> before = [] then name else before)"

fun decimal :: "nat \<Rightarrow> string" where
  "decimal n =
     (if n < 10 then [''0123456789'' ! n] else decimal (n div 10) @ [''0123456789'' ! (n mod 10)])"

declare decimal.simps [simp del]

subsection \<open>The file tree\<close>

datatype node = File bytes | Dir | Special

type_synonym fs = "path \<Rightarrow> node option"

datatype io_error =
    TimedOut | ConnectionAborted | ConnectionRefused | ConnectionReset | NotConnected
  | Interrupted | UnexpectedEof | OtherIo

definition retryable_io_error :: "io_error \<Rightarrow> bool" where
  "retryable_io_error e \<longleftrightarrow>
     e \<in> {TimedOut, ConnectionAborted, ConnectionRefused, ConnectionReset, NotConnected,
          Interrupted, UnexpectedEof}"

datatype http_error =
    StatusCode nat | Timeout | HostNotFound | ConnectionFailed | HttpIo io_error | OtherHttp

definition RETRYABLE_HTTP_STATUSES :: "nat list" where
  "RETRYABLE_HTTP_STATUSES = [408, 429, 500, 502, 503, 504]"

definition retryable_download_error :: "http_error \<Rightarrow> bool" where
  "retryable_download_error e =
     (case e of
        StatusCode status \<Rightarrow> status \<in> set RETRYABLE_HTTP_STATUSES
      | Timeout \<Rightarrow> True | HostNotFound \<Rightarrow> True | ConnectionFailed \<Rightarrow> True
      | HttpIo error \<Rightarrow> retryable_io_error error
      | OtherHttp \<Rightarrow> False)"

text \<open>A reply is an error, or a body: the bytes received and how reading them ended.\<close>

datatype http_reply = HttpError http_error | HttpBody bytes "io_error option"

record host =
  h_env :: "string \<Rightarrow> string option"
  h_faults :: "nat \<Rightarrow> io_error option"
  h_written :: "nat \<Rightarrow> nat"
  h_server :: "nat \<Rightarrow> http_reply"
  h_pid :: nat

record machine =
  w_fs :: fs
  w_calls :: nat
  w_requests :: "string list"
  w_sleeps :: "nat list"
  w_sequence :: nat

subsection \<open>Programs\<close>

type_synonym ('e, 'a) io = "host \<Rightarrow> machine \<Rightarrow> ('e, 'a) result \<times> machine"

definition io_return :: "'a \<Rightarrow> ('e, 'a) io" where
  "io_return a = (\<lambda>h w. (Inr a, w))"

definition io_fail :: "'e \<Rightarrow> ('e, 'a) io" where
  "io_fail e = (\<lambda>h w. (Inl e, w))"

definition io_lift :: "('e, 'a) result \<Rightarrow> ('e, 'a) io" where
  "io_lift r = (\<lambda>h w. (r, w))"

definition io_bind :: "('e, 'a) io \<Rightarrow> ('a \<Rightarrow> ('e, 'b) io) \<Rightarrow> ('e, 'b) io" where
  "io_bind m k = (\<lambda>h w. case m h w of (Inl e, w') \<Rightarrow> (Inl e, w') | (Inr a, w') \<Rightarrow> k a h w')"

text \<open>Run a program and look at its result; run one and replace its error.\<close>

definition io_try :: "('e, 'a) io \<Rightarrow> ('f, ('e, 'a) result) io" where
  "io_try m = (\<lambda>h w. case m h w of (r, w') \<Rightarrow> (Inr r, w'))"

definition io_map_err :: "('e \<Rightarrow> 'f) \<Rightarrow> ('e, 'a) io \<Rightarrow> ('f, 'a) io" where
  "io_map_err f m =
     (\<lambda>h w. case m h w of (Inl e, w') \<Rightarrow> (Inl (f e), w') | (Inr a, w') \<Rightarrow> (Inr a, w'))"

definition fs_call :: "(fs \<Rightarrow> (io_error, 'a \<times> fs) result) \<Rightarrow> (io_error, 'a) io" where
  "fs_call f =
     (\<lambda>h w. let w' = w\<lparr>w_calls := Suc (w_calls w)\<rparr> in
       case h_faults h (w_calls w) of
         Some e \<Rightarrow> (Inl e, w')
       | None \<Rightarrow> (case f (w_fs w) of
                   Inl e \<Rightarrow> (Inl e, w')
                 | Inr (a, fs') \<Rightarrow> (Inr a, w'\<lparr>w_fs := fs'\<rparr>)))"

subsection \<open>The calls of \<open>std::fs\<close>\<close>

definition symlink_metadata :: "path \<Rightarrow> (io_error, node) io" where
  "symlink_metadata p =
     fs_call (\<lambda>fs. case fs p of None \<Rightarrow> Inl OtherIo | Some n \<Rightarrow> Inr (n, fs))"

definition fs_read :: "path \<Rightarrow> (io_error, bytes) io" where
  "fs_read p =
     fs_call (\<lambda>fs. case fs p of Some (File b) \<Rightarrow> Inr (b, fs) | _ \<Rightarrow> Inl OtherIo)"

definition parent :: "path \<Rightarrow> path" where
  "parent p = butlast p"

definition is_dir_in :: "fs \<Rightarrow> path \<Rightarrow> bool" where
  "is_dir_in fs p \<longleftrightarrow> p = [] \<or> fs p = Some Dir"

definition file_create :: "path \<Rightarrow> (io_error, unit) io" where
  "file_create p =
     fs_call (\<lambda>fs.
       if is_dir_in fs (parent p)
         \<and> (case fs p of None \<Rightarrow> True | Some (File _) \<Rightarrow> True | Some _ \<Rightarrow> False)
       then Inr ((), fs(p \<mapsto> File [])) else Inl OtherIo)"

text \<open>Appending bytes to the file just created; a failing write leaves the first \<open>h_written\<close> of
  them.\<close>

definition file_append :: "path \<Rightarrow> bytes \<Rightarrow> (io_error, unit) io" where
  "file_append p b =
     (\<lambda>h w. let w' = w\<lparr>w_calls := Suc (w_calls w)\<rparr> in
       case w_fs w p of
         Some (File a) \<Rightarrow>
           (case h_faults h (w_calls w) of
              None \<Rightarrow> (Inr (), w'\<lparr>w_fs := (w_fs w)(p \<mapsto> File (a @ b))\<rparr>)
            | Some e \<Rightarrow>
                (Inl e, w'\<lparr>w_fs := (w_fs w)(p \<mapsto> File (a @ take (h_written h (w_calls w)) b))\<rparr>))
       | _ \<Rightarrow> (Inl OtherIo, w'))"

definition sync_all :: "path \<Rightarrow> (io_error, unit) io" where
  "sync_all p = fs_call (\<lambda>fs. Inr ((), fs))"

fun ancestors :: "path \<Rightarrow> path list" where
  "ancestors p = List.map (\<lambda>n. take n p) [1..<Suc (length p)]"

definition create_dir_all :: "path \<Rightarrow> (io_error, unit) io" where
  "create_dir_all p =
     fs_call (\<lambda>fs.
       if list_all (\<lambda>q. fs q = None \<or> fs q = Some Dir) (ancestors p)
       then Inr ((), \<lambda>q. if q \<in> set (ancestors p) then Some Dir else fs q)
       else Inl OtherIo)"

definition create_dir :: "path \<Rightarrow> (io_error, unit) io" where
  "create_dir p =
     fs_call (\<lambda>fs. if is_dir_in fs (parent p) \<and> fs p = None then Inr ((), fs(p \<mapsto> Dir)) else Inl OtherIo)"

definition remove_file :: "path \<Rightarrow> (io_error, unit) io" where
  "remove_file p =
     fs_call (\<lambda>fs. case fs p of None \<Rightarrow> Inl OtherIo | Some Dir \<Rightarrow> Inl OtherIo
                | Some _ \<Rightarrow> Inr ((), fs(p := None)))"

definition remove_dir_all :: "path \<Rightarrow> (io_error, unit) io" where
  "remove_dir_all p =
     fs_call (\<lambda>fs. if fs p = Some Dir then Inr ((), \<lambda>q. if prefix p q then None else fs q)
                else Inl OtherIo)"

definition moved :: "path \<Rightarrow> path \<Rightarrow> fs \<Rightarrow> fs" where
  "moved a b fs =
     (\<lambda>q. if prefix b q then fs (a @ drop (length b) q) else if prefix a q then None else fs q)"

text \<open>\<open>fs::rename\<close>: anything moves to an unused name, the tree below it with it, and a
  non-directory replaces a non-directory.  Renaming onto a directory fails: the resolver removes
  what stood there before.\<close>

definition rename_path :: "path \<Rightarrow> path \<Rightarrow> (io_error, unit) io" where
  "rename_path a b =
     fs_call (\<lambda>fs.
       (case (fs a, fs b) of
          (Some _, None) \<Rightarrow>
            if is_dir_in fs (parent b) then Inr ((), moved a b fs) else Inl OtherIo
        | (Some x, Some y) \<Rightarrow>
            if x \<noteq> Dir \<and> y \<noteq> Dir then Inr ((), moved a b fs) else Inl OtherIo
        | _ \<Rightarrow> Inl OtherIo))"

definition http_get :: "string \<Rightarrow> ('e, http_reply) io" where
  "http_get url =
     (\<lambda>h w. (Inr (h_server h (length (w_requests w))), w\<lparr>w_requests := w_requests w @ [url]\<rparr>))"

definition sleep_ms :: "nat \<Rightarrow> ('e, unit) io" where
  "sleep_ms ms = (\<lambda>h w. (Inr (), w\<lparr>w_sleeps := w_sleeps w @ [ms]\<rparr>))"

subsection \<open>Helpers of the resolver\<close>

definition is_regular_file :: "path \<Rightarrow> ('e, bool) io" where
  "is_regular_file p =
     io_bind (io_try (symlink_metadata p)) (\<lambda>r.
       io_return (case r of Inr (File _) \<Rightarrow> True | _ \<Rightarrow> False))"

definition exists_entry :: "path \<Rightarrow> ('e, bool) io" where
  "exists_entry p = io_bind (io_try (symlink_metadata p)) (\<lambda>r. io_return (is_ok r))"

definition remove_cache_entry :: "path \<Rightarrow> (io_error, unit) io" where
  "remove_cache_entry p =
     io_bind (symlink_metadata p) (\<lambda>n. if n = Dir then remove_dir_all p else remove_file p)"

text \<open>A fresh sibling name; the sequence counter advances with every call.\<close>

definition temporary_name :: "string \<Rightarrow> nat \<Rightarrow> nat \<Rightarrow> string" where
  "temporary_name name pid n = file_stem name @ ''.tmp-'' @ decimal pid @ ''-'' @ decimal n"

definition temporary_path :: "path \<Rightarrow> ('e, path) io" where
  "temporary_path destination =
     (\<lambda>h w. (Inr (parent destination @
               [temporary_name (List.last destination) (h_pid h) (w_sequence w)]),
             w\<lparr>w_sequence := Suc (w_sequence w)\<rparr>))"

subsection \<open>Running programs\<close>

named_theorems run_simps \<open>results of programs\<close>
named_theorems frame_rules \<open>what a program leaves alone\<close>

lemma io_run [run_simps]:
  "io_return a h w = (Inr a, w)"
  "io_fail e h w = (Inl e, w)"
  "io_lift r h w = (r, w)"
  by (simp_all add: io_return_def io_fail_def io_lift_def)

lemma io_bind_Inr:
  "io_bind m k h w = (Inr b, w'') \<longleftrightarrow> (\<exists>a w'. m h w = (Inr a, w') \<and> k a h w' = (Inr b, w''))"
  by (auto simp: io_bind_def split: prod.splits sum.splits)

lemma io_bind_after: "m h w = (Inr a, w') \<Longrightarrow> io_bind m k h w = k a h w'"
  by (simp add: io_bind_def)

lemma io_bind_failed: "m h w = (Inl e, w') \<Longrightarrow> io_bind m k h w = (Inl e, w')"
  by (simp add: io_bind_def)

lemma io_try_run: "m h w = (r, w') \<Longrightarrow> io_try m h w = (Inr r, w')"
  by (simp add: io_try_def)

lemma io_try_Inr: "io_try m h w = (Inr r, w') \<longleftrightarrow> m h w = (r, w')"
  by (auto simp: io_try_def split: prod.splits)

lemma io_map_err_Inr: "io_map_err f m h w = (Inr a, w') \<longleftrightarrow> m h w = (Inr a, w')"
  by (auto simp: io_map_err_def split: prod.splits sum.splits)

lemma fs_call_Inr:
  "fs_call f h w = (Inr a, w') \<longleftrightarrow>
     h_faults h (w_calls w) = None
     \<and> (\<exists>fs'. f (w_fs w) = Inr (a, fs') \<and> w' = w\<lparr>w_calls := Suc (w_calls w), w_fs := fs'\<rparr>)"
  by (auto simp: fs_call_def Let_def split: option.splits sum.splits prod.splits)

lemma fs_call_Inl:
  "fs_call f h w = (Inl e, w') \<Longrightarrow> w' = w\<lparr>w_calls := Suc (w_calls w)\<rparr>"
  by (auto simp: fs_call_def Let_def split: option.splits sum.splits prod.splits)

subsection \<open>Frames\<close>

text \<open>A program run on a host stays inside a relation between the worlds before and after; such
  relations compose through the program constructors once they are reflexive and transitive.\<close>

definition io_within :: "(machine \<Rightarrow> machine \<Rightarrow> bool) \<Rightarrow> host \<Rightarrow> ('e, 'a) io \<Rightarrow> bool" where
  "io_within R h m \<longleftrightarrow> (\<forall>w. R w (snd (m h w)))"

lemma io_withinD: "io_within R h m \<Longrightarrow> m h w = (r, w') \<Longrightarrow> R w w'"
  unfolding io_within_def by (metis snd_conv)

locale world_frame =
  fixes R :: "machine \<Rightarrow> machine \<Rightarrow> bool"
  assumes frame_refl: "R w w"
    and frame_trans: "R w w' \<Longrightarrow> R w' w'' \<Longrightarrow> R w w''"
begin

lemma within_return: "io_within R h (io_return a)"
  by (simp add: io_within_def io_return_def frame_refl)

lemma within_fail: "io_within R h (io_fail e)"
  by (simp add: io_within_def io_fail_def frame_refl)

lemma within_lift: "io_within R h (io_lift r)"
  by (simp add: io_within_def io_lift_def frame_refl)

lemma within_bind:
  assumes "io_within R h m" "\<And>a w w'. m h w = (Inr a, w') \<Longrightarrow> io_within R h (k a)"
  shows "io_within R h (io_bind m k)"
  unfolding io_within_def
proof
  fix w
  obtain r w' where run: "m h w = (r, w')" by (cases "m h w")
  then have "R w w'" using assms(1) by (rule io_withinD [rotated])
  moreover have "R w' (snd (k a h w'))" if "r = Inr a" for a
    using assms(2) [of w a w'] run that by (simp add: io_within_def)
  ultimately show "R w (snd (io_bind m k h w))"
    using run frame_trans by (cases r) (auto simp: io_bind_def)
qed

lemma within_try: "io_within R h m \<Longrightarrow> io_within R h (io_try m)"
  by (simp add: io_within_def io_try_def split: prod.splits) (metis snd_conv)

lemma within_map_err: "io_within R h m \<Longrightarrow> io_within R h (io_map_err f m)"
  unfolding io_within_def
proof
  fix w assume "\<forall>w. R w (snd (m h w))"
  then show "R w (snd (io_map_err f m h w))"
    by (cases "m h w"; cases "fst (m h w)") (auto simp: io_map_err_def dest: spec [of _ w])
qed

lemma within_if:
  "(b \<Longrightarrow> io_within R h m) \<Longrightarrow> (\<not> b \<Longrightarrow> io_within R h m') \<Longrightarrow> io_within R h (if b then m else m')"
  by simp

lemma within_option:
  "(x = None \<Longrightarrow> io_within R h m) \<Longrightarrow> (\<And>a. x = Some a \<Longrightarrow> io_within R h (k a)) \<Longrightarrow>
     io_within R h (case x of None \<Rightarrow> m | Some a \<Rightarrow> k a)"
  by (cases x) simp_all

lemma within_result:
  "(\<And>e. x = Inl e \<Longrightarrow> io_within R h (m e)) \<Longrightarrow> (\<And>a. x = Inr a \<Longrightarrow> io_within R h (k a)) \<Longrightarrow>
     io_within R h (case x of Inl e \<Rightarrow> m e | Inr a \<Rightarrow> k a)"
  by (cases x) simp_all

lemmas within_rules = within_return within_fail within_lift within_bind within_try
  within_map_err within_if within_option within_result

end

text \<open>The two frames of the development: files outside a set of paths keep their contents; no
  request is sent and nothing sleeps.\<close>

definition touches :: "(path \<Rightarrow> bool) \<Rightarrow> machine \<Rightarrow> machine \<Rightarrow> bool" where
  "touches P w w' \<longleftrightarrow> (\<forall>q. \<not> P q \<longrightarrow> w_fs w' q = w_fs w q)"

definition silent :: "machine \<Rightarrow> machine \<Rightarrow> bool" where
  "silent w w' \<longleftrightarrow> w_requests w' = w_requests w \<and> w_sleeps w' = w_sleeps w"

interpretation files: world_frame "touches P" for P
  by unfold_locales (simp_all add: touches_def)

interpretation quiet: world_frame silent
  by unfold_locales (simp_all add: silent_def)

abbreviation reads :: "machine \<Rightarrow> machine \<Rightarrow> bool" where
  "reads \<equiv> touches (\<lambda>_. False)"

lemma touches_mono: "io_within (touches P) h m \<Longrightarrow> (\<And>q. P q \<Longrightarrow> Q q) \<Longrightarrow> io_within (touches Q) h m"
  by (auto simp: io_within_def touches_def)

lemma reads_fs: "reads w w' \<longleftrightarrow> w_fs w' = w_fs w"
  by (auto simp: touches_def)

lemma silent_fs_call [frame_rules]: "io_within silent h (fs_call f)"
  by (auto simp: io_within_def silent_def fs_call_def Let_def split: option.splits sum.splits)

lemma touches_fs_call:
  assumes "\<And>fs a fs' q. f fs = Inr (a, fs') \<Longrightarrow> \<not> P q \<Longrightarrow> fs' q = fs q"
  shows "io_within (touches P) h (fs_call f)"
  using assms
  by (auto simp: io_within_def touches_def fs_call_def Let_def split: option.splits sum.splits)

lemma reading_calls [frame_rules]:
  "io_within (touches P) h (symlink_metadata p)"
  "io_within (touches P) h (fs_read p)"
  "io_within (touches P) h (sync_all p)"
  unfolding symlink_metadata_def fs_read_def sync_all_def
  by (rule touches_fs_call; simp split: option.splits node.splits)+

lemma writing_calls [frame_rules]:
  "P p \<Longrightarrow> io_within (touches P) h (file_create p)"
  "P p \<Longrightarrow> io_within (touches P) h (create_dir p)"
  "P p \<Longrightarrow> io_within (touches P) h (remove_file p)"
  unfolding file_create_def create_dir_def remove_file_def
  by (rule touches_fs_call; auto split: option.splits node.splits if_splits)+

lemma appending [frame_rules]: "P p \<Longrightarrow> io_within (touches P) h (file_append p b)"
  by (auto simp: io_within_def touches_def file_append_def Let_def split: option.splits node.splits)

lemma silent_calls [frame_rules]:
  "io_within silent h (symlink_metadata p)" "io_within silent h (fs_read p)"
  "io_within silent h (sync_all p)" "io_within silent h (file_create p)"
  "io_within silent h (create_dir p)" "io_within silent h (create_dir_all p)"
  "io_within silent h (remove_file p)" "io_within silent h (remove_dir_all p)"
  "io_within silent h (rename_path p q)"
  unfolding symlink_metadata_def fs_read_def sync_all_def file_create_def create_dir_def
    create_dir_all_def remove_file_def remove_dir_all_def rename_path_def
  by (rule silent_fs_call)+

lemma silent_append [frame_rules]: "io_within silent h (file_append p b)"
  by (auto simp: io_within_def silent_def file_append_def Let_def split: option.splits node.splits)

lemma removing_tree [frame_rules]:
  "(\<And>q. prefix p q \<Longrightarrow> P q) \<Longrightarrow> io_within (touches P) h (remove_dir_all p)"
  unfolding remove_dir_all_def by (rule touches_fs_call) (auto split: if_splits)

lemma renaming [frame_rules]:
  "(\<And>q. prefix a q \<or> prefix b q \<Longrightarrow> P q) \<Longrightarrow> io_within (touches P) h (rename_path a b)"
  unfolding rename_path_def
  by (rule touches_fs_call) (auto simp: moved_def split: option.splits if_splits)

lemma within_temporary [frame_rules]:
  "io_within (touches P) h (temporary_path p)" "io_within silent h (temporary_path p)"
  by (simp_all add: io_within_def touches_def silent_def temporary_path_def)

lemma within_presence [frame_rules]:
  "io_within (touches P) h (is_regular_file p)" "io_within (touches P) h (exists_entry p)"
  "io_within silent h (is_regular_file p)" "io_within silent h (exists_entry p)"
  unfolding is_regular_file_def exists_entry_def
  by (intro files.within_rules quiet.within_rules frame_rules)+

lemma within_remove_entry [frame_rules]:
  "(\<And>q. prefix p q \<Longrightarrow> P q) \<Longrightarrow> io_within (touches P) h (remove_cache_entry p)"
  "io_within silent h (remove_cache_entry p)"
  unfolding remove_cache_entry_def
  by (intro files.within_rules quiet.within_rules frame_rules; simp)+

subsection \<open>Results of the calls\<close>

lemma symlink_metadata_Inr:
  "symlink_metadata p h w = (Inr n, w') \<Longrightarrow> w_fs w p = Some n \<and> w_fs w' = w_fs w"
  by (auto simp: symlink_metadata_def fs_call_Inr split: option.splits)

lemma fs_read_Inr:
  "fs_read p h w = (Inr b, w') \<Longrightarrow> w_fs w p = Some (File b) \<and> w_fs w' = w_fs w"
  by (auto simp: fs_read_def fs_call_Inr split: option.splits node.splits)

lemma is_regular_file_run:
  "is_regular_file p h w = (r, w') \<Longrightarrow>
     w_fs w' = w_fs w \<and> (r = Inr True \<longrightarrow> (\<exists>b. w_fs w p = Some (File b)))"
proof -
  assume run: "is_regular_file p h w = (r, w')"
  obtain n w1 where n: "symlink_metadata p h w = (n, w1)" by (cases "symlink_metadata p h w")
  have "w_fs w1 = w_fs w" using io_withinD [OF reading_calls(1) [of "\<lambda>_. False"] n] by (simp add: reads_fs)
  moreover have "r = Inr (case n of Inr (File _) \<Rightarrow> True | _ \<Rightarrow> False) \<and> w' = w1"
    using run n by (simp add: is_regular_file_def io_bind_def io_try_def io_return_def)
  moreover have "\<exists>b. w_fs w p = Some (File b)" if "n = Inr (File c)" for c
    using symlink_metadata_Inr [of p h w "File c" w1] n that by auto
  ultimately show ?thesis by (cases n; cases "projr n") auto
qed

lemma is_regular_file_total: "\<exists>b w'. is_regular_file p h w = (Inr b, w')"
  by (cases "symlink_metadata p h w")
    (simp add: is_regular_file_def io_bind_def io_try_def io_return_def)

lemma faultless_calls:
  assumes "\<forall>n. h_faults h n = None"
  shows "fs_call f h w =
    (case f (w_fs w) of Inl e \<Rightarrow> (Inl e, w\<lparr>w_calls := Suc (w_calls w)\<rparr>)
     | Inr (a, fs') \<Rightarrow> (Inr a, w\<lparr>w_calls := Suc (w_calls w), w_fs := fs'\<rparr>))"
  using assms by (simp add: fs_call_def Let_def split: sum.splits prod.splits)

end
