(* ===== verification/ArtifactLock.thy ===== *)
theory ArtifactLock
  imports Prelude
begin

text \<open>
  The release lock (\<open>build_support/artifact.rs\<close>, \<open>ArtifactLock\<close>) and the target table of
  \<open>build_support/manifest.rs\<close>: which prebuilt archive belongs to a Cargo target and flavor, which
  entries a release scope publishes, and which URLs and tags are canonical.  Decoding JSON is
  serde's: the parameter \<open>lock_codec\<close> answers what the document says.  Strings are their bytes;
  every message of the source is a constructor of \<open>lock_error\<close>.
\<close>

subsection \<open>Strings\<close>

definition strip_prefix :: "string \<Rightarrow> string \<Rightarrow> string option" where
  "strip_prefix p s = (if prefix p s then Some (drop (length p) s) else None)"

fun split_once :: "char \<Rightarrow> string \<Rightarrow> (string \<times> string) option" where
  "split_once c [] = None"
| "split_once c (x # xs) =
     (if x = c then Some ([], xs) else map_option (\<lambda>(a, b). (x # a, b)) (split_once c xs))"

definition is_ascii_digit :: "char \<Rightarrow> bool" where
  "is_ascii_digit c \<longleftrightarrow> c \<in> set ''0123456789''"

definition is_ascii_hexdigit :: "char \<Rightarrow> bool" where
  "is_ascii_hexdigit c \<longleftrightarrow> c \<in> set ''0123456789abcdefABCDEF''"

definition is_ascii_alphanumeric :: "char \<Rightarrow> bool" where
  "is_ascii_alphanumeric c \<longleftrightarrow>
     c \<in> set ''0123456789abcdefghijklmnopqrstuvwxyzABCDEFGHIJKLMNOPQRSTUVWXYZ''"

lemma strip_prefix_eq_Some: "strip_prefix p s = Some r \<longleftrightarrow> s = p @ r"
  by (auto simp: strip_prefix_def elim: prefixE)

lemma split_once_eq_Some: "split_once c s = Some (a, b) \<longleftrightarrow> s = a @ c # b \<and> c \<notin> set a"
proof (induction s arbitrary: a)
  case (Cons x xs)
  then show ?case by (cases a) auto
qed simp

lemma split_once_eq_None: "split_once c s = None \<longleftrightarrow> c \<notin> set s"
  by (induction s) auto

subsection \<open>Errors\<close>

datatype lock_error =
    DecodeError string | SchemaVersionNotInteger | InvalidSchema nat | UnsupportedSchema nat
  | WrongLockBridge string | UnsupportedLockTarget string | WrongLockTarget string string
  | UnsupportedFlavor string | WrongAssetName string | NotImmutableUrl string
  | InvalidSha256 string | IncompleteCoordinates string | DuplicateSelection string string
  | MissingSelection string string | UnexpectedSelections | ScopeMismatch
  | InvalidReleaseTag string | NoSingleScope | ScopeTagMismatch string | UrlNotOfTag string
  | UnsupportedTarget string | Unreleased string

type_synonym 'a lock_result = "(lock_error, 'a) result"

definition ensure_that :: "bool \<Rightarrow> 'e \<Rightarrow> ('e, unit) result" where
  "ensure_that ok e = (if ok then Inr () else Inl e)"

lemma ensure_that_eq_Inr [simp]: "ensure_that ok e = Inr u \<longleftrightarrow> ok"
  by (simp add: ensure_that_def)

subsection \<open>Targets\<close>

definition SUPPORTED_CARGO_TARGETS :: "string list" where
  "SUPPORTED_CARGO_TARGETS =
     [''x86_64-unknown-linux-gnu'', ''aarch64-unknown-linux-gnu'', ''x86_64-pc-windows-msvc'',
      ''x86_64-apple-darwin'', ''aarch64-apple-darwin'', ''x86_64-linux-android'',
      ''aarch64-linux-android'', ''aarch64-apple-ios'', ''aarch64-apple-ios-sim'']"

definition artifact_target :: "string \<Rightarrow> string option" where
  "artifact_target cargo_target =
     (if cargo_target = ''x86_64-unknown-linux-gnu'' then Some ''linux-x86_64''
      else if cargo_target = ''aarch64-unknown-linux-gnu'' then Some ''linux-arm64''
      else if cargo_target = ''x86_64-pc-windows-msvc'' then Some ''windows-x86_64''
      else if cargo_target = ''x86_64-apple-darwin'' then Some ''macos-x86_64''
      else if cargo_target = ''aarch64-apple-darwin'' then Some ''macos-arm64''
      else if cargo_target = ''x86_64-linux-android'' then Some ''android-x86_64''
      else if cargo_target = ''aarch64-linux-android'' then Some ''android-arm64-v8a''
      else if cargo_target = ''aarch64-apple-ios'' then Some ''ios-arm64''
      else if cargo_target = ''aarch64-apple-ios-sim'' then Some ''ios-simulator-arm64''
      else None)"

datatype release_scope =
  ScopeNone | ScopeLinux | ScopeMacos | ScopeWindows | ScopeIos | ScopeAndroid | ScopeComplete

fun scope_os :: "release_scope \<Rightarrow> string option" where
  "scope_os ScopeLinux = Some ''linux''"
| "scope_os ScopeMacos = Some ''macos''"
| "scope_os ScopeWindows = Some ''windows''"
| "scope_os ScopeIos = Some ''ios''"
| "scope_os ScopeAndroid = Some ''android''"
| "scope_os ScopeNone = None"
| "scope_os ScopeComplete = None"

text \<open>\<open>target.split('-').next()\<close>: the part before the first dash, or everything.\<close>

definition os_part :: "string \<Rightarrow> string" where
  "os_part target = takeWhile (\<lambda>c. c \<noteq> CHR ''-'') target"

definition scope_contains :: "release_scope \<Rightarrow> string \<Rightarrow> bool" where
  "scope_contains scope target =
     (case scope of
        ScopeNone \<Rightarrow> False
      | ScopeComplete \<Rightarrow> True
      | _ \<Rightarrow> Some (os_part target) = scope_os scope)"

subsection \<open>Tags and URLs\<close>

definition RELEASE_URL_PREFIX :: string where
  "RELEASE_URL_PREFIX =
     ''https://github.com/PulseBeamDev/pulsebeam-libwebrtc-sys/releases/download/''"

definition tag_chars_ok :: "string \<Rightarrow> bool" where
  "tag_chars_ok tag \<longleftrightarrow>
     list_all (\<lambda>(index, c). is_ascii_alphanumeric c \<or> 0 < index \<and> c \<in> set ''._-+'')
       (enumerate (0::nat) tag)"

definition validate_release_tag :: "string \<Rightarrow> unit lock_result" where
  "validate_release_tag tag =
     ensure_that (prefix ''v'' tag \<and> 2 \<le> length tag \<and> tag_chars_ok tag) (InvalidReleaseTag tag)"

definition release_tag :: "string \<Rightarrow> string \<Rightarrow> string lock_result" where
  "release_tag source_tag cargo_target =
     and_then (validate_release_tag source_tag) (\<lambda>_.
     and_then (ok_or (artifact_target cargo_target) (UnsupportedTarget cargo_target)) (\<lambda>target.
       Inr (source_tag @ ''-'' @ os_part target)))"

definition is_canonical_release_url :: "string \<Rightarrow> string \<Rightarrow> bool" where
  "is_canonical_release_url url asset_name =
     (case Option.bind (strip_prefix RELEASE_URL_PREFIX url) (split_once CHR ''/'') of
        None \<Rightarrow> False
      | Some (tag, asset) \<Rightarrow> tag \<noteq> [] \<and> asset = asset_name \<and> tag_chars_ok tag)"

definition validate_sha256 :: "string \<Rightarrow> unit lock_result" where
  "validate_sha256 v =
     ensure_that (length v = 64 \<and> list_all is_ascii_hexdigit v) (InvalidSha256 v)"

subsection \<open>The lock\<close>

record locked_artifact =
  la_cargo_target :: string
  la_artifact_target :: string
  la_flavor :: string
  la_asset_name :: string
  la_url :: "string option"
  la_sha256 :: "string option"

record schema_one_lock =
  s1_schema_version :: nat
  s1_release_ready :: bool
  s1_bridge_identity :: string
  s1_artifacts :: "locked_artifact list"

record schema_two_lock =
  s2_schema_version :: nat
  s2_release_scope :: release_scope
  s2_bridge_identity :: string
  s2_artifacts :: "locked_artifact list"

record artifact_lock =
  lk_bridge_identity :: string
  lk_release_scope :: release_scope
  lk_enforce_release_scope :: bool
  lk_canonical_urls :: bool
  lk_artifacts :: "locked_artifact list"

text \<open>What serde makes of the bytes: a JSON value, its \<open>schema_version\<close> as an unsigned integer,
  and the value read as either lock structure (unknown fields denied).\<close>

record 'v lock_codec =
  lc_value :: "bytes \<Rightarrow> (string, 'v) result"
  lc_schema_version :: "'v \<Rightarrow> nat option"
  lc_schema_one :: "'v \<Rightarrow> (string, schema_one_lock) result"
  lc_schema_two :: "'v \<Rightarrow> (string, schema_two_lock) result"

definition map_decode :: "(string, 'a) result \<Rightarrow> 'a lock_result" where
  "map_decode r = (case r of Inl e \<Rightarrow> Inl (DecodeError e) | Inr a \<Rightarrow> Inr a)"

definition decode_lock :: "'v lock_codec \<Rightarrow> bytes \<Rightarrow> artifact_lock lock_result" where
  "decode_lock codec bs =
     and_then (map_decode (lc_value codec bs)) (\<lambda>v.
     and_then (ok_or (lc_schema_version codec v) SchemaVersionNotInteger) (\<lambda>schema.
       if schema = 1 then
         and_then (map_decode (lc_schema_one codec v)) (\<lambda>lock.
           if s1_schema_version lock \<noteq> 1 then Inl (InvalidSchema 1)
           else Inr \<lparr>lk_bridge_identity = s1_bridge_identity lock,
             lk_release_scope = (if s1_release_ready lock then ScopeComplete else ScopeNone),
             lk_enforce_release_scope = s1_release_ready lock, lk_canonical_urls = False,
             lk_artifacts = s1_artifacts lock\<rparr>)
       else if schema = 2 then
         and_then (map_decode (lc_schema_two codec v)) (\<lambda>lock.
           if s2_schema_version lock \<noteq> 2 then Inl (InvalidSchema 2)
           else Inr \<lparr>lk_bridge_identity = s2_bridge_identity lock,
             lk_release_scope = s2_release_scope lock,
             lk_enforce_release_scope = True, lk_canonical_urls = True,
             lk_artifacts = s2_artifacts lock\<rparr>)
       else Inl (UnsupportedSchema schema)))"

definition expected_asset :: "locked_artifact \<Rightarrow> string" where
  "expected_asset e = ''webrtc-'' @ la_flavor e @ ''-'' @ la_artifact_target e @ ''.tar.gz''"

definition url_immutable :: "bool \<Rightarrow> string \<Rightarrow> string \<Rightarrow> bool" where
  "url_immutable canonical url asset \<longleftrightarrow>
     ((prefix ''http://127.0.0.1:'' url \<or> prefix ''http://[::1]:'' url) \<and> suffix asset url)
     \<or> prefix ''https://'' url \<and> (canonical \<longrightarrow> is_canonical_release_url url asset)"

definition check_coordinates :: "bool \<Rightarrow> locked_artifact \<Rightarrow> unit lock_result" where
  "check_coordinates canonical e =
     (case (la_url e, la_sha256 e) of
        (Some url, Some hash) \<Rightarrow>
          and_then (ensure_that (url_immutable canonical url (la_asset_name e)) (NotImmutableUrl url))
            (\<lambda>_. validate_sha256 hash)
      | (None, None) \<Rightarrow> Inr ()
      | _ \<Rightarrow> Inl (IncompleteCoordinates (expected_asset e)))"

definition check_entry :: "bool \<Rightarrow> locked_artifact \<Rightarrow> unit lock_result" where
  "check_entry canonical e =
     and_then (ok_or (artifact_target (la_cargo_target e)) (UnsupportedLockTarget (la_cargo_target e)))
       (\<lambda>expected_target.
     and_then (ensure_that (la_artifact_target e = expected_target)
       (WrongLockTarget (la_cargo_target e) (la_artifact_target e))) (\<lambda>_.
     and_then (ensure_that (la_flavor e = ''core'' \<or> la_flavor e = ''native'')
       (UnsupportedFlavor (la_flavor e))) (\<lambda>_.
     and_then (ensure_that (la_asset_name e = expected_asset e) (WrongAssetName (la_asset_name e)))
       (\<lambda>_. check_coordinates canonical e))))"

text \<open>The loop over the entries and its set of selections.\<close>

abbreviation selection :: "locked_artifact \<Rightarrow> string \<times> string" where
  "selection e \<equiv> (la_cargo_target e, la_flavor e)"

fun check_entries ::
  "bool \<Rightarrow> (string \<times> string) list \<Rightarrow> locked_artifact list \<Rightarrow> (string \<times> string) list lock_result"
  where
  "check_entries canonical selections [] = Inr selections"
| "check_entries canonical selections (e # es) =
     and_then (check_entry canonical e) (\<lambda>_.
     and_then (ensure_that (selection e \<notin> set selections)
         (DuplicateSelection (la_cargo_target e) (la_flavor e)))
       (\<lambda>_. check_entries canonical (selection e # selections) es))"

definition all_selections :: "(string \<times> string) list" where
  "all_selections =
     List.concat (List.map (\<lambda>target. [(target, ''core''), (target, ''native'')]) SUPPORTED_CARGO_TARGETS)"

definition parse_and_validate :: "'v lock_codec \<Rightarrow> bytes \<Rightarrow> string \<Rightarrow> artifact_lock lock_result" where
  "parse_and_validate codec bs expected_bridge =
     and_then (decode_lock codec bs) (\<lambda>lock.
     and_then (ensure_that (lk_bridge_identity lock = expected_bridge)
       (WrongLockBridge (lk_bridge_identity lock))) (\<lambda>_.
     and_then (check_entries (lk_canonical_urls lock) [] (lk_artifacts lock)) (\<lambda>selections.
     and_then (case find (\<lambda>s. s \<notin> set selections) all_selections of
                 Some (target, flavor) \<Rightarrow> Inl (MissingSelection target flavor)
               | None \<Rightarrow> Inr ()) (\<lambda>_.
     and_then (ensure_that (length selections = length SUPPORTED_CARGO_TARGETS * 2)
       UnexpectedSelections) (\<lambda>_.
     and_then (ensure_that (lk_enforce_release_scope lock \<longrightarrow>
         list_all (\<lambda>e. (la_url e \<noteq> None) = scope_contains (lk_release_scope lock) (la_artifact_target e))
           (lk_artifacts lock)) ScopeMismatch) (\<lambda>_.
       Inr lock))))))"

definition validate_tag :: "artifact_lock \<Rightarrow> string \<Rightarrow> unit lock_result" where
  "validate_tag lock tag =
     and_then (ok_or (scope_os (lk_release_scope lock)) NoSingleScope) (\<lambda>os.
     and_then (ensure_that (lk_canonical_urls lock \<and> suffix (''-'' @ os) tag) (ScopeTagMismatch tag))
       (\<lambda>_.
       (case find (\<lambda>e. case la_url e of None \<Rightarrow> False
                      | Some url \<Rightarrow> url \<noteq> RELEASE_URL_PREFIX @ tag @ ''/'' @ la_asset_name e)
               (lk_artifacts lock) of
          Some e \<Rightarrow> Inl (UrlNotOfTag tag)
        | None \<Rightarrow> Inr ())))"

text \<open>\<open>None\<close> is the panic of \<open>expect\<close>.\<close>

definition lock_select :: "artifact_lock \<Rightarrow> string \<Rightarrow> string \<Rightarrow> locked_artifact option" where
  "lock_select lock cargo_target flavor =
     find (\<lambda>e. la_cargo_target e = cargo_target \<and> la_flavor e = flavor) (lk_artifacts lock)"

definition released :: "locked_artifact \<Rightarrow> (string \<times> string) lock_result" where
  "released e =
     (case (la_url e, la_sha256 e) of
        (Some url, Some hash) \<Rightarrow> Inr (url, hash)
      | _ \<Rightarrow> Inl (Unreleased (la_asset_name e)))"

definition validate_release_lock ::
  "'v lock_codec \<Rightarrow> bytes \<Rightarrow> string \<Rightarrow> string \<Rightarrow> unit lock_result" where
  "validate_release_lock codec bs tag expected_bridge =
     and_then (parse_and_validate codec bs expected_bridge) (\<lambda>lock. validate_tag lock tag)"

subsection \<open>What an accepted lock is\<close>

lemma check_entry_ok:
  "check_entry canonical e = Inr () \<longleftrightarrow>
     artifact_target (la_cargo_target e) = Some (la_artifact_target e)
     \<and> la_flavor e \<in> {''core'', ''native''} \<and> la_asset_name e = expected_asset e
     \<and> check_coordinates canonical e = Inr ()"
  by (cases "artifact_target (la_cargo_target e)")
    (auto simp: check_entry_def and_then_eq_Inr)

lemma check_entries_ok:
  "check_entries canonical selections es = Inr r \<longleftrightarrow>
     (\<forall>e\<in>set es. check_entry canonical e = Inr ()) \<and> distinct (List.map selection es)
     \<and> set (List.map selection es) \<inter> set selections = {}
     \<and> r = rev (List.map selection es) @ selections"
  by (induction es arbitrary: selections) (auto simp: and_then_eq_Inr)

lemma check_coordinates_ok:
  "check_coordinates canonical e = Inr () \<longleftrightarrow>
     la_url e = None \<and> la_sha256 e = None
     \<or> (\<exists>url hash. la_url e = Some url \<and> la_sha256 e = Some hash
         \<and> url_immutable canonical url (la_asset_name e) \<and> validate_sha256 hash = Inr ())"
  by (auto simp: check_coordinates_def and_then_eq_Inr split: option.splits)

lemma find_is_None: "find P xs = None \<longleftrightarrow> (\<forall>x\<in>set xs. \<not> P x)"
  by (auto simp: find_None_iff)

lemma find_SomeD: "find P xs = Some x \<Longrightarrow> x \<in> set xs \<and> P x"
  by (auto simp: find_Some_iff)

lemma case_find_ok:
  "(case find P xs of Some (a, b) \<Rightarrow> Inl (f a b) | None \<Rightarrow> Inr ()) = Inr u \<longleftrightarrow> (\<forall>x\<in>set xs. \<not> P x)"
proof (cases "find P xs")
  case None
  then show ?thesis using find_is_None [of P xs] by simp
next
  case (Some p)
  with find_SomeD [OF Some] show ?thesis by (cases p) auto
qed

lemma parse_ok:
  "parse_and_validate codec bs bridge = Inr lock \<longleftrightarrow>
     decode_lock codec bs = Inr lock \<and> lk_bridge_identity lock = bridge
     \<and> (\<forall>e\<in>set (lk_artifacts lock). check_entry (lk_canonical_urls lock) e = Inr ())
     \<and> distinct (List.map selection (lk_artifacts lock))
     \<and> set all_selections \<subseteq> set (List.map selection (lk_artifacts lock))
     \<and> length (lk_artifacts lock) = length SUPPORTED_CARGO_TARGETS * 2
     \<and> (lk_enforce_release_scope lock \<longrightarrow> (\<forall>e\<in>set (lk_artifacts lock).
          (la_url e \<noteq> None) = scope_contains (lk_release_scope lock) (la_artifact_target e)))"
  by (auto simp: parse_and_validate_def and_then_eq_Inr check_entries_ok case_find_ok list_all_iff)

lemma all_selections_facts:
  "distinct all_selections" "length all_selections = length SUPPORTED_CARGO_TARGETS * 2"
  "set all_selections = set SUPPORTED_CARGO_TARGETS \<times> {''core'', ''native''}"
  by (simp_all add: all_selections_def SUPPORTED_CARGO_TARGETS_def Times_insert_left) 

lemma artifact_target_supported:
  "artifact_target ct = Some t \<Longrightarrow> ct \<in> set SUPPORTED_CARGO_TARGETS"
  by (simp add: artifact_target_def SUPPORTED_CARGO_TARGETS_def split: if_splits)

lemma supported_has_target:
  "ct \<in> set SUPPORTED_CARGO_TARGETS \<Longrightarrow> \<exists>t. artifact_target ct = Some t"
  by (auto simp: artifact_target_def SUPPORTED_CARGO_TARGETS_def)

lemma selected:
  assumes "parse_and_validate codec bs bridge = Inr lock"
    and "ct \<in> set SUPPORTED_CARGO_TARGETS" "flavor \<in> {''core'', ''native''}"
  shows "\<exists>e\<in>set (lk_artifacts lock). lock_select lock ct flavor = Some e \<and> selection e = (ct, flavor)"
proof -
  have "set all_selections \<subseteq> set (List.map selection (lk_artifacts lock))"
    using assms(1) by (simp only: parse_ok)
  then have "(ct, flavor) \<in> set (List.map selection (lk_artifacts lock))"
    unfolding all_selections_facts(3)
    by (rule subsetD) (use assms(2,3) in \<open>blast\<close>)
  then obtain e where "e \<in> set (lk_artifacts lock)" "selection e = (ct, flavor)"
    unfolding set_map by (elim imageE) metis
  then have "lock_select lock ct flavor \<noteq> None"
    unfolding lock_select_def find_is_None by blast
  then obtain e where "lock_select lock ct flavor = Some e" by blast
  with find_SomeD [OF this [unfolded lock_select_def]] show ?thesis by blast
qed

text \<open>An accepted lock is complete and unambiguous: it has one entry for every supported
  target and flavor and no other, so selecting one never panics and returns the only entry of
  that selection; its artifact target and asset name are the ones the target determines.\<close>

theorem lock_complete:
  assumes "parse_and_validate codec bs bridge = Inr lock"
  shows "length (lk_artifacts lock) = 18
    \<and> (\<forall>ct\<in>set SUPPORTED_CARGO_TARGETS. \<forall>flavor\<in>{''core'', ''native''}.
        \<exists>e\<in>set (lk_artifacts lock). lock_select lock ct flavor = Some e \<and> selection e = (ct, flavor)
          \<and> (\<forall>e'\<in>set (lk_artifacts lock). selection e' = (ct, flavor) \<longrightarrow> e' = e))
    \<and> (\<forall>e\<in>set (lk_artifacts lock). la_cargo_target e \<in> set SUPPORTED_CARGO_TARGETS
        \<and> artifact_target (la_cargo_target e) = Some (la_artifact_target e)
        \<and> la_asset_name e = ''webrtc-'' @ la_flavor e @ ''-'' @ la_artifact_target e @ ''.tar.gz'')"
proof -
  have len: "length (lk_artifacts lock) = 18"
    using assms by (simp add: parse_ok SUPPORTED_CARGO_TARGETS_def)
  have inj: "inj_on selection (set (lk_artifacts lock))"
    using assms by (simp add: parse_ok distinct_map)
  have entries: "\<forall>e\<in>set (lk_artifacts lock). check_entry (lk_canonical_urls lock) e = Inr ()"
    using assms by (simp add: parse_ok)
  have "\<forall>ct\<in>set SUPPORTED_CARGO_TARGETS. \<forall>flavor\<in>{''core'', ''native''}.
        \<exists>e\<in>set (lk_artifacts lock). lock_select lock ct flavor = Some e \<and> selection e = (ct, flavor)
          \<and> (\<forall>e'\<in>set (lk_artifacts lock). selection e' = (ct, flavor) \<longrightarrow> e' = e)"
    using selected [OF assms] inj unfolding inj_on_def by metis
  with len entries show ?thesis
    unfolding check_entry_ok expected_asset_def using artifact_target_supported by blast
qed

definition sample_entry :: "(string \<Rightarrow> bool) \<Rightarrow> string \<times> string \<Rightarrow> locked_artifact" where
  "sample_entry published s =
     (case s of (ct, flavor) \<Rightarrow>
       let target = the (artifact_target ct);
           asset = ''webrtc-'' @ flavor @ ''-'' @ target @ ''.tar.gz'' in
       \<lparr>la_cargo_target = ct, la_artifact_target = target, la_flavor = flavor, la_asset_name = asset,
        la_url = (if published target then Some (RELEASE_URL_PREFIX @ ''v1-linux/'' @ asset) else None),
        la_sha256 = (if published target then Some (replicate 64 CHR ''1'') else None)\<rparr>)"

definition sample_lock :: artifact_lock where
  "sample_lock = \<lparr>lk_bridge_identity = ''v2'', lk_release_scope = ScopeLinux,
     lk_enforce_release_scope = True, lk_canonical_urls = True,
     lk_artifacts = List.map (sample_entry (scope_contains ScopeLinux)) all_selections\<rparr>"

definition sample_codec :: "unit lock_codec" where
  "sample_codec = \<lparr>lc_value = (\<lambda>bs. Inr ()), lc_schema_version = (\<lambda>v. Some 2),
     lc_schema_one = (\<lambda>v. Inl ''schema 1''),
     lc_schema_two = (\<lambda>v. Inr \<lparr>s2_schema_version = 2, s2_release_scope = ScopeLinux,
       s2_bridge_identity = ''v2'', s2_artifacts = lk_artifacts sample_lock\<rparr>)\<rparr>"

lemma sample_lock_valid: "parse_and_validate sample_codec [] ''v2'' = Inr sample_lock"
  by code_simp

theorem lock_complete_witness:
  "\<exists>e\<in>set (lk_artifacts sample_lock).
     lock_select sample_lock ''aarch64-apple-ios-sim'' ''native'' = Some e
     \<and> la_asset_name e = ''webrtc-native-ios-simulator-arm64.tar.gz''"
proof -
  have "''aarch64-apple-ios-sim'' \<in> set SUPPORTED_CARGO_TARGETS"
    by (simp add: SUPPORTED_CARGO_TARGETS_def)
  then obtain e where e: "e \<in> set (lk_artifacts sample_lock)"
      "lock_select sample_lock ''aarch64-apple-ios-sim'' ''native'' = Some e"
      "selection e = (''aarch64-apple-ios-sim'', ''native'')"
    using lock_complete [OF sample_lock_valid] by blast
  moreover have "la_asset_name e = ''webrtc-'' @ la_flavor e @ ''-'' @ la_artifact_target e @ ''.tar.gz''"
      "artifact_target (la_cargo_target e) = Some (la_artifact_target e)"
    using lock_complete [OF sample_lock_valid] e(1) by blast+
  ultimately show ?thesis by (intro bexI [of _ e]) (auto simp: artifact_target_def)
qed

subsection \<open>Canonical URLs and tags\<close>

lemma tag_chars_ok_iff:
  "tag_chars_ok tag \<longleftrightarrow>
     (\<forall>i<length tag. is_ascii_alphanumeric (tag ! i) \<or> 0 < i \<and> tag ! i \<in> set ''._-+'')"
  by (auto simp: tag_chars_ok_def list_all_iff in_set_enumerate_eq all_set_conv_all_nth nth_enumerate_eq
      simp del: list.set)

lemma tag_chars_no_slash: "tag_chars_ok tag \<Longrightarrow> CHR ''/'' \<notin> set tag"
  by (auto simp: tag_chars_ok_iff in_set_conv_nth is_ascii_alphanumeric_def)

lemma tag_chars_append:
  assumes "tag_chars_ok tag" "tag \<noteq> []" "list_all (\<lambda>c. is_ascii_alphanumeric c \<or> c \<in> set ''._-+'') ext"
  shows "tag_chars_ok (tag @ ext)"
  unfolding tag_chars_ok_iff
proof (intro allI impI)
  fix i assume i: "i < length (tag @ ext)"
  show "is_ascii_alphanumeric ((tag @ ext) ! i) \<or> 0 < i \<and> (tag @ ext) ! i \<in> set ''._-+''"
  proof (cases "i < length tag")
    case True
    with assms(1) show ?thesis unfolding tag_chars_ok_iff by (simp add: nth_append)
  next
    case False
    with i assms(3) have "is_ascii_alphanumeric (ext ! (i - length tag)) \<or> ext ! (i - length tag) \<in> set ''._-+''"
      unfolding list_all_length by simp
    moreover have "0 < i" using False assms(2) by (cases i) simp_all
    ultimately show ?thesis using False by (simp add: nth_append)
  qed
qed

lemma url_tag:
  "tag_chars_ok tag \<Longrightarrow>
     Option.bind (strip_prefix RELEASE_URL_PREFIX (RELEASE_URL_PREFIX @ tag @ ''/'' @ asset))
       (split_once CHR ''/'') = Some (tag, asset)"
  by (simp add: strip_prefix_def split_once_eq_Some tag_chars_no_slash)

text \<open>The canonical release URLs of an asset are exactly the URLs built from the release
  prefix, a well-formed non-empty tag, a slash and the asset name.\<close>

theorem canonical_url_iff:
  "is_canonical_release_url url asset \<longleftrightarrow>
     (\<exists>tag. tag \<noteq> [] \<and> tag_chars_ok tag \<and> url = RELEASE_URL_PREFIX @ tag @ ''/'' @ asset)"
proof
  assume "is_canonical_release_url url asset"
  then obtain tag where tag: "tag \<noteq> []" "tag_chars_ok tag"
      "Option.bind (strip_prefix RELEASE_URL_PREFIX url) (split_once CHR ''/'') = Some (tag, asset)"
    by (auto simp: is_canonical_release_url_def split: option.splits)
  then have "url = RELEASE_URL_PREFIX @ tag @ ''/'' @ asset"
    by (auto simp: bind_eq_Some_conv strip_prefix_eq_Some split_once_eq_Some)
  with tag show "\<exists>tag. tag \<noteq> [] \<and> tag_chars_ok tag \<and> url = RELEASE_URL_PREFIX @ tag @ ''/'' @ asset"
    by blast
next
  assume "\<exists>tag. tag \<noteq> [] \<and> tag_chars_ok tag \<and> url = RELEASE_URL_PREFIX @ tag @ ''/'' @ asset"
  then obtain tag where tag: "tag \<noteq> []" "tag_chars_ok tag"
      "url = RELEASE_URL_PREFIX @ tag @ ''/'' @ asset" by blast
  show "is_canonical_release_url url asset"
    unfolding is_canonical_release_url_def tag(3) url_tag [OF tag(2)] using tag(1,2) by simp
qed

lemma os_part_known:
  assumes "artifact_target ct = Some t"
  shows "os_part t \<in> {''linux'', ''windows'', ''macos'', ''android'', ''ios''}"
  using assms by (auto simp: artifact_target_def os_part_def split: if_splits)

lemma os_part_tag_chars:
  "artifact_target ct = Some t \<Longrightarrow>
     list_all (\<lambda>c. is_ascii_alphanumeric c \<or> c \<in> set ''._-+'') (''-'' @ os_part t)
     \<and> CHR ''-'' \<notin> set (os_part t)"
  by (drule os_part_known) (auto simp: is_ascii_alphanumeric_def)

lemma dash_suffix_unique:
  assumes "suffix (CHR ''-'' # a) tag" "suffix (CHR ''-'' # b) tag" "CHR ''-'' \<notin> set a" "CHR ''-'' \<notin> set b"
  shows "a = b"
proof -
  obtain u where u: "tag = u @ CHR ''-'' # a" using assms(1) by (auto simp: suffix_def)
  obtain w where w: "tag = w @ CHR ''-'' # b" using assms(2) by (auto simp: suffix_def)
  have "takeWhile (\<lambda>c. c \<noteq> CHR ''-'') (rev tag) = rev a"
    using assms(3) unfolding u by (simp add: takeWhile_append)
  moreover have "takeWhile (\<lambda>c. c \<noteq> CHR ''-'') (rev tag) = rev b"
    using assms(4) unfolding w by (simp add: takeWhile_append)
  ultimately show ?thesis by simp
qed

lemma validate_tag_ok:
  "validate_tag lock tag = Inr () \<longleftrightarrow>
     (\<exists>os. scope_os (lk_release_scope lock) = Some os \<and> lk_canonical_urls lock \<and> suffix (''-'' @ os) tag)
     \<and> (\<forall>e\<in>set (lk_artifacts lock). \<forall>url. la_url e = Some url \<longrightarrow>
          url = RELEASE_URL_PREFIX @ tag @ ''/'' @ la_asset_name e)"
proof -
  have "(case find P xs of Some e \<Rightarrow> Inl (UrlNotOfTag tag) | None \<Rightarrow> Inr ()) = Inr ()
      \<longleftrightarrow> (\<forall>x\<in>set xs. \<not> P x)" for P and xs :: "locked_artifact list"
    by (cases "find P xs") (use find_is_None [of P xs] find_SomeD [of P xs] in \<open>auto\<close>)
  then show ?thesis
    by (cases "scope_os (lk_release_scope lock)")
      (auto simp: validate_tag_def and_then_eq_Inr split: option.splits)
qed

lemma scope_os_contains:
  "scope_os scope = Some os \<Longrightarrow> scope_contains scope target \<longleftrightarrow> os_part target = os"
  by (cases scope) (auto simp: scope_contains_def)

lemma scope_os_dash: "scope_os scope = Some os \<Longrightarrow> CHR ''-'' \<notin> set os"
  by (cases scope) auto

lemma decode_canonical_enforces:
  "decode_lock codec bs = Inr lock \<Longrightarrow> lk_canonical_urls lock \<Longrightarrow> lk_enforce_release_scope lock"
  by (auto simp: decode_lock_def and_then_eq_Inr split: if_splits)

text \<open>A lock accepted under the release tag of a target serves that target: the entry it
  selects is published, at exactly the canonical URL of that tag, with a well-formed digest.  A
  lock of another operating system's release never passes for the tag.\<close>

theorem tagged_lock_serves_target:
  assumes "release_tag source_tag ct = Inr tag"
    and "validate_release_lock codec bs tag bridge = Inr ()"
    and "flavor \<in> {''core'', ''native''}"
  shows "\<exists>lock e hash. parse_and_validate codec bs bridge = Inr lock
    \<and> scope_os (lk_release_scope lock) = Some (os_part (la_artifact_target e))
    \<and> lock_select lock ct flavor = Some e \<and> la_cargo_target e = ct
    \<and> released e = Inr (RELEASE_URL_PREFIX @ tag @ ''/'' @ la_asset_name e, hash)
    \<and> is_canonical_release_url (RELEASE_URL_PREFIX @ tag @ ''/'' @ la_asset_name e) (la_asset_name e)
    \<and> length hash = 64 \<and> list_all is_ascii_hexdigit hash"
proof -
  obtain target where target: "artifact_target ct = Some target"
      "tag = source_tag @ ''-'' @ os_part target" "validate_release_tag source_tag = Inr ()"
    using assms(1) by (cases "artifact_target ct") (auto simp: release_tag_def and_then_eq_Inr)
  obtain lock where lock: "parse_and_validate codec bs bridge = Inr lock" "validate_tag lock tag = Inr ()"
    using assms(2) by (auto simp: validate_release_lock_def and_then_eq_Inr)
  obtain os where os: "scope_os (lk_release_scope lock) = Some os" "lk_canonical_urls lock"
      "suffix (''-'' @ os) tag"
    using lock(2) unfolding validate_tag_ok by blast
  have "os = os_part target"
    using dash_suffix_unique [of os tag "os_part target"] os(1,3) target(1,2) os_part_tag_chars
      scope_os_dash by (auto simp: suffix_def)
  obtain e where e: "e \<in> set (lk_artifacts lock)" "lock_select lock ct flavor = Some e"
      "selection e = (ct, flavor)"
    using selected [OF lock(1) artifact_target_supported [OF target(1)] assms(3)] by blast
  have entry: "check_entry (lk_canonical_urls lock) e = Inr ()"
      "(la_url e \<noteq> None) = scope_contains (lk_release_scope lock) (la_artifact_target e)"
    using lock(1) e(1) os(2) decode_canonical_enforces unfolding parse_ok by blast+
  have at: "la_artifact_target e = target"
    using entry(1) e(3) target(1) by (simp add: check_entry_ok)
  have "la_url e \<noteq> None" using entry(2) os(1) \<open>os = _\<close> at by (simp add: scope_os_contains)
  then obtain hash where hash: "la_sha256 e = Some hash" "validate_sha256 hash = Inr ()"
    using entry(1) by (auto simp: check_entry_ok check_coordinates_ok)
  have url: "la_url e = Some (RELEASE_URL_PREFIX @ tag @ ''/'' @ la_asset_name e)"
    using lock(2) e(1) \<open>la_url e \<noteq> None\<close> unfolding validate_tag_ok by blast
  have source: "tag_chars_ok source_tag" "source_tag \<noteq> []"
    using target(3) by (auto simp: validate_release_tag_def)
  then have "tag_chars_ok tag" "tag \<noteq> []"
    using tag_chars_append [OF source] os_part_tag_chars [OF target(1)] unfolding target(2) by blast+
  then have "is_canonical_release_url (RELEASE_URL_PREFIX @ tag @ ''/'' @ la_asset_name e) (la_asset_name e)"
    unfolding is_canonical_release_url_def by (simp add: url_tag [simplified])
  with lock e url hash os \<open>os = _\<close> at show ?thesis
    by (intro exI [of _ lock] exI [of _ e] exI [of _ hash])
      (auto simp: released_def validate_sha256_def)
qed

theorem tagged_lock_serves_target_witness:
  "\<exists>e hash. lock_select sample_lock ''aarch64-unknown-linux-gnu'' ''core'' = Some e
    \<and> released e = Inr (RELEASE_URL_PREFIX @ ''v1-linux/'' @ la_asset_name e, hash)"
proof -
  have tag: "release_tag ''v1'' ''aarch64-unknown-linux-gnu'' = Inr ''v1-linux''"
    by code_simp
  have "validate_tag sample_lock ''v1-linux'' = Inr ()"
    by code_simp
  then have lock: "validate_release_lock sample_codec [] ''v1-linux'' ''v2'' = Inr ()"
    by (simp add: validate_release_lock_def sample_lock_valid)
  obtain lock e hash where "parse_and_validate sample_codec [] ''v2'' = Inr lock"
      "lock_select lock ''aarch64-unknown-linux-gnu'' ''core'' = Some e"
      "released e = Inr (RELEASE_URL_PREFIX @ ''v1-linux'' @ ''/'' @ la_asset_name e, hash)"
    using tagged_lock_serves_target [OF tag lock, of "''core''"] by auto
  moreover from this(1) have "lock = sample_lock" unfolding sample_lock_valid by simp
  ultimately show ?thesis by auto
qed

end
