(* ===== verification/ArtifactManifest.thy ===== *)
theory ArtifactManifest
  imports ArtifactFiles ArtifactLock "HOL-Library.List_Lexorder" "HOL-Library.Char_ord"
begin

text \<open>
  The artifact manifest (\<open>build_support/manifest.rs\<close>, \<open>ArtifactManifest\<close>): its validation against
  the pins compiled into the build script, the digest checks of the payload files, and the link
  directives it turns into.  SHA-256, serde's encoders and decoder, \<open>shlex::split\<close> and the files
  the build script embeds are the parameter \<open>toolkit\<close>.
\<close>

subsection \<open>Data\<close>

record cxx_provenance =
  cx_version :: string
  cx_runtime_package_sha256 :: string
  cx_generator_package_sha256 :: string
  cx_rust_runtime_sha256 :: string
  cx_header_sha256 :: string
  cx_native_runtime_sha256 :: string
  cx_bridge_source_sha256 :: string
  cx_generated_header_sha256 :: string
  cx_generated_source_sha256 :: string

record bridge_identity =
  br_identity :: string
  br_native_adapter_sha256 :: string
  br_cxx :: cxx_provenance

record source_identity =
  so_repository :: string
  so_revision :: string
  so_patch_sha256 :: "string option"
  so_encoder_switch_patch_sha256 :: "string option"
  so_runtime_resources_patch_sha256 :: "string option"
  so_recordable_identity_patch_sha256 :: "string option"
  so_state :: "string option"

record libvpx_source =
  vp_repository :: string
  vp_revision :: string
  vp_worker_patch_sha256 :: string

record artifact_identity =
  ar_flavor :: string
  ar_target :: string
  ar_cargo_target :: string

record abi =
  abi_toolchain :: string
  abi_cxx_standard :: string
  abi_cxx_runtime :: string
  abi_crt :: string
  abi_minimum_runtime :: string

record native_archive =
  na_member :: string
  na_name :: string
  na_sha256 :: string

datatype link_kind = Dylib | Framework | WeakFramework | LinkArg

record link =
  ln_kind :: link_kind
  ln_name :: string

record license_file =
  li_path :: string
  li_sha256 :: string

record floating_point =
  fp_final_compiler_flags :: "string list"
  fp_compiler_wrapper_sha256 :: string

record native_configuration =
  nc_native_adapter_sha256 :: string
  nc_bridge_identity :: string
  nc_cxx :: cxx_provenance
  nc_source_revision :: string
  nc_source_patch_sha256 :: string
  nc_source_encoder_switch_patch_sha256 :: string
  nc_source_runtime_resources_patch_sha256 :: string
  nc_source_recordable_identity_patch_sha256 :: string
  nc_libvpx_revision :: string
  nc_libvpx_worker_patch_sha256 :: string
  nc_source_state :: string
  nc_depot_tools_revision :: string
  nc_flavor :: string
  nc_target :: string
  nc_cargo_target :: string
  nc_toolchain :: string
  nc_gn_args :: "(string \<times> string) list"
  nc_cxx_defines :: "string list"
  nc_floating_point :: "floating_point option"

record artifact_manifest =
  am_schema_version :: nat
  am_bridge :: bridge_identity
  am_webrtc :: source_identity
  am_depot_tools :: source_identity
  am_libvpx :: libvpx_source
  am_artifact :: artifact_identity
  am_native_configuration_sha256 :: string
  am_native_configuration :: native_configuration
  am_abi :: abi
  am_archive :: native_archive
  am_unwind_archive :: "native_archive option"
  am_links :: "link list"
  am_licenses_sha256 :: string
  am_licenses_files :: "license_file list"

text \<open>SHA-256 answers lower-case hexadecimal digits; the \<open>json\<close> fields are serde's canonical bytes
  of a value (maps sorted).\<close>

record toolkit =
  tk_sha256 :: "bytes \<Rightarrow> string"
  tk_manifest :: "bytes \<Rightarrow> (string, artifact_manifest) result"
  tk_json_configuration :: "native_configuration \<Rightarrow> bytes"
  tk_json_cxx :: "cxx_provenance \<Rightarrow> bytes"
  tk_json_licenses :: "license_file list \<Rightarrow> bytes"
  tk_json_inventory :: "(string \<times> string) list \<Rightarrow> bytes"
  tk_shlex :: "string \<Rightarrow> string list option"
  tk_bridge_source :: bytes
  tk_wrapper :: bytes
  tk_adapter_inputs :: "(string \<times> bytes) list"

subsection \<open>Pins\<close>

definition SOURCE_REPOSITORY :: string where
  "SOURCE_REPOSITORY = ''https://github.com/webrtc-sdk/webrtc.git''"
definition SOURCE_REVISION :: string where
  "SOURCE_REVISION = ''ba469aa2093ba950066258ca0a59a6fbd1295582''"
definition CORE_IOS_PATCH_SHA256 :: string where
  "CORE_IOS_PATCH_SHA256 = ''c05d3e629c6c59f621e0c89be1a26fce31ee6625a9763d4a3d9f492f80454037''"
definition ENCODER_SWITCH_PATCH_SHA256 :: string where
  "ENCODER_SWITCH_PATCH_SHA256 = ''8206418589692b8f5724ce9bad820fcd2d5a5b1d531e6bff8f64b53ca601d55a''"
definition RUNTIME_RESOURCES_PATCH_SHA256 :: string where
  "RUNTIME_RESOURCES_PATCH_SHA256 = ''937d2c42fe925b7703b0319c0eb80d6dfdf09194005790520d211ed00e4454d8''"
definition RECORDABLE_IDENTITY_PATCH_SHA256 :: string where
  "RECORDABLE_IDENTITY_PATCH_SHA256 = ''1530938c01084f4c197030fd8a9d87d5ca3771cd2e7ff4a51887b1bee1c5cc65''"
definition LIBVPX_REPOSITORY :: string where
  "LIBVPX_REPOSITORY = ''https://chromium.googlesource.com/webm/libvpx.git''"
definition LIBVPX_REVISION :: string where
  "LIBVPX_REVISION = ''31af37b1bd2774d11a932c1cd9a3849328375f64''"
definition LIBVPX_WORKER_PATCH_SHA256 :: string where
  "LIBVPX_WORKER_PATCH_SHA256 = ''22dba73c693cbd1948e9c819fde2ad55c3ecb8891c13ddddab2729302df87f3a''"
definition DEPOT_TOOLS_REPOSITORY :: string where
  "DEPOT_TOOLS_REPOSITORY = ''https://chromium.googlesource.com/chromium/tools/depot_tools.git''"
definition DEPOT_TOOLS_REVISION :: string where
  "DEPOT_TOOLS_REVISION = ''ed9c87f6f12f6b87210e7025d4a36a5a72a2ccd4''"
definition CXX_VERSION :: string where
  "CXX_VERSION = ''1.0.200''"
definition CXX_PACKAGE_SHA256 :: string where
  "CXX_PACKAGE_SHA256 = ''2d93a9baeb9798b2e8ff0de24463b9e5cf9a0dd0a88f5ea02afc9ea35e7abae7''"
definition CXXBRIDGE_CMD_PACKAGE_SHA256 :: string where
  "CXXBRIDGE_CMD_PACKAGE_SHA256 = ''25784b9f840a76b9b5151553ad70fc2abb3ec3b21fe379c5c7b029b2e0b91faf''"
definition CXX_RUST_RUNTIME_SHA256 :: string where
  "CXX_RUST_RUNTIME_SHA256 = ''35bce0faa8fc61e8724ed6febaab7e9cedc0e221af9d73bc3d8fb59e9b23471d''"
definition CXX_HEADER_SHA256 :: string where
  "CXX_HEADER_SHA256 = ''ea2c1f9fe95b02f055836dd75e22b558f616385a522ec9beeaba8d043c3a32d8''"
definition CXX_NATIVE_RUNTIME_SHA256 :: string where
  "CXX_NATIVE_RUNTIME_SHA256 = ''6a64476a783ef8a42da9f30a9e3d48deb7757b87442f6ed68b9d2c38f2768866''"
definition BRIDGE_SOURCE_SHA256 :: string where
  "BRIDGE_SOURCE_SHA256 = ''00030492cebbf315201f24652dd44897bfc778863031e8087212e008d09b4d2f''"
definition GENERATED_BRIDGE_HEADER_SHA256 :: string where
  "GENERATED_BRIDGE_HEADER_SHA256 = ''6be71173496e552a2943338e2af6001986ae4de4b759167aadef7be1cf9a53c7''"
definition GENERATED_BRIDGE_SOURCE_SHA256 :: string where
  "GENERATED_BRIDGE_SOURCE_SHA256 = ''af3eb681f59034533ec8a48789587e7afa74059d178504136f90febfda979d05''"

subsection \<open>Validation\<close>

datatype manifest_error =
    ManifestDecode string | ManifestSchema nat | StaleBridgeSource | StaleAdapter
  | WrongIdentity string string | WrongPatch string | WrongSourceState | WrongNativeArchive
  | WrongUnwindArchive | InvalidDigest string | IncompleteAbi | InvalidLicenses | InvalidLink
  | ConfigurationDigest | ConfigurationIdentity | ConfigurationDefines | ConfigurationGn string
  | MissingProtobuf | MissingFloatingPoint | WrongFloatingPoint
  | InvalidPayloadPath string | MissingPayload string | PayloadIo io_error | PayloadDigest string
  | LicenseInventoryDigest | LicenseOutside

type_synonym 'a manifest_result = "(manifest_error, 'a) result"

definition native_adapter_digest :: "toolkit \<Rightarrow> string" where
  "native_adapter_digest tk =
     tk_sha256 tk (tk_json_inventory tk
       (sort_key fst (List.map (\<lambda>(path, bs). (path, tk_sha256 tk bs)) (tk_adapter_inputs tk))))"

definition valid_compiler_wrapper :: "toolkit \<Rightarrow> string \<Rightarrow> string \<Rightarrow> bool" where
  "valid_compiler_wrapper tk v digest =
     (case tk_shlex tk v of
        Some [interpreter, script, flag, contract, cache] \<Rightarrow>
          (case strip_prefix ''python'' (case file_name interpreter of None \<Rightarrow> [] | Some n \<Rightarrow> n) of
             None \<Rightarrow> False
           | Some version \<Rightarrow>
               version = [] \<or> list_ex is_ascii_digit version
                 \<and> list_all (\<lambda>c. is_ascii_digit c \<or> c = CHR ''.'') version)
          \<and> path_ends_with script ''tools/native_cc_wrapper.py''
          \<and> flag = ''--contract-sha256'' \<and> contract = digest
          \<and> file_name cache = Some ''sccache''
      | _ \<Rightarrow> False)"

abbreviation hex_digest :: "string \<Rightarrow> bool" where
  "hex_digest v \<equiv> length v = 64 \<and> list_all is_ascii_hexdigit v"

definition pin_checks ::
  "artifact_manifest \<Rightarrow> string \<Rightarrow> string \<Rightarrow> string \<Rightarrow> string \<Rightarrow> (string \<times> string \<times> string) list" where
  "pin_checks m expected_bridge expected_flavor expected_target expected_cargo_target =
     (let cxx = br_cxx (am_bridge m) in
      [(''bridge identity'', br_identity (am_bridge m), expected_bridge),
       (''CXX version'', cx_version cxx, CXX_VERSION),
       (''CXX runtime package checksum'', cx_runtime_package_sha256 cxx, CXX_PACKAGE_SHA256),
       (''CXX generator package checksum'', cx_generator_package_sha256 cxx, CXXBRIDGE_CMD_PACKAGE_SHA256),
       (''CXX Rust runtime digest'', cx_rust_runtime_sha256 cxx, CXX_RUST_RUNTIME_SHA256),
       (''CXX header digest'', cx_header_sha256 cxx, CXX_HEADER_SHA256),
       (''CXX native runtime digest'', cx_native_runtime_sha256 cxx, CXX_NATIVE_RUNTIME_SHA256),
       (''bridge source digest'', cx_bridge_source_sha256 cxx, BRIDGE_SOURCE_SHA256),
       (''generated bridge header digest'', cx_generated_header_sha256 cxx, GENERATED_BRIDGE_HEADER_SHA256),
       (''generated bridge source digest'', cx_generated_source_sha256 cxx, GENERATED_BRIDGE_SOURCE_SHA256),
       (''source repository'', so_repository (am_webrtc m), SOURCE_REPOSITORY),
       (''source revision'', so_revision (am_webrtc m), SOURCE_REVISION),
       (''depot_tools repository'', so_repository (am_depot_tools m), DEPOT_TOOLS_REPOSITORY),
       (''depot_tools revision'', so_revision (am_depot_tools m), DEPOT_TOOLS_REVISION),
       (''libvpx repository'', vp_repository (am_libvpx m), LIBVPX_REPOSITORY),
       (''libvpx revision'', vp_revision (am_libvpx m), LIBVPX_REVISION),
       (''libvpx worker patch'', vp_worker_patch_sha256 (am_libvpx m), LIBVPX_WORKER_PATCH_SHA256),
       (''flavor'', ar_flavor (am_artifact m), expected_flavor),
       (''target'', ar_target (am_artifact m), expected_target),
       (''Cargo target'', ar_cargo_target (am_artifact m), expected_cargo_target)])"

definition check_pins :: "(string \<times> string \<times> string) list \<Rightarrow> unit manifest_result" where
  "check_pins checks =
     (case find (\<lambda>(_, actual, expected). actual \<noteq> expected) checks of
        Some (name, actual, expected) \<Rightarrow> Inl (WrongIdentity name actual)
      | None \<Rightarrow> Inr ())"

definition check_patches :: "artifact_manifest \<Rightarrow> unit manifest_result" where
  "check_patches m =
     and_then (ensure_that (so_encoder_switch_patch_sha256 (am_webrtc m) = Some ENCODER_SWITCH_PATCH_SHA256)
       (WrongPatch ''encoder-switch'')) (\<lambda>_.
     and_then (ensure_that (so_runtime_resources_patch_sha256 (am_webrtc m) = Some RUNTIME_RESOURCES_PATCH_SHA256)
       (WrongPatch ''runtime-resources'')) (\<lambda>_.
     ensure_that (so_recordable_identity_patch_sha256 (am_webrtc m) = Some RECORDABLE_IDENTITY_PATCH_SHA256)
       (WrongPatch ''recordable-identity'')))"

definition expected_source_state :: "string \<Rightarrow> string \<Rightarrow> string" where
  "expected_source_state flavor target =
     (if flavor = ''core'' \<and> (target = ''ios-arm64'' \<or> target = ''ios-simulator-arm64'')
      then ''applied'' else ''pristine'')"

definition check_source_state :: "artifact_manifest \<Rightarrow> string \<Rightarrow> string \<Rightarrow> unit manifest_result" where
  "check_source_state m flavor target =
     (let expected = expected_source_state flavor target in
      case (so_state (am_webrtc m), so_patch_sha256 (am_webrtc m)) of
        (Some state, Some patch) \<Rightarrow>
          ensure_that (state = expected \<and> patch = CORE_IOS_PATCH_SHA256) WrongSourceState
      | (None, None) \<Rightarrow> ensure_that (expected = ''pristine'') WrongSourceState
      | _ \<Rightarrow> Inl WrongSourceState)"

definition check_archives :: "artifact_manifest \<Rightarrow> string \<Rightarrow> unit manifest_result" where
  "check_archives m target =
     and_then (ensure_that
       (na_member (am_archive m) = (if target = ''windows-x86_64'' then ''lib/webrtc.lib'' else ''lib/libwebrtc.a'')
        \<and> na_name (am_archive m) = ''webrtc'') WrongNativeArchive) (\<lambda>_.
     (case (prefix ''android-'' target, am_unwind_archive m) of
        (True, Some unwind) \<Rightarrow>
          ensure_that (na_member unwind = ''lib/libunwind.a'' \<and> na_name unwind = ''unwind''
            \<and> hex_digest (na_sha256 unwind)) WrongUnwindArchive
      | (False, None) \<Rightarrow> Inr ()
      | _ \<Rightarrow> Inl WrongUnwindArchive))"

definition check_digests :: "artifact_manifest \<Rightarrow> unit manifest_result" where
  "check_digests m =
     (case find (\<lambda>(_, v). \<not> hex_digest v)
         [(''archive digest'', na_sha256 (am_archive m)),
          (''native configuration digest'', am_native_configuration_sha256 m),
          (''license inventory digest'', am_licenses_sha256 m)] of
        Some (name, v) \<Rightarrow> Inl (InvalidDigest name)
      | None \<Rightarrow> Inr ())"

definition check_inventory :: "artifact_manifest \<Rightarrow> unit manifest_result" where
  "check_inventory m =
     and_then (ensure_that
       (abi_toolchain (am_abi m) \<noteq> [] \<and> abi_cxx_standard (am_abi m) = ''C++20''
        \<and> abi_cxx_runtime (am_abi m) \<noteq> [] \<and> abi_crt (am_abi m) \<noteq> []
        \<and> abi_minimum_runtime (am_abi m) \<noteq> []) IncompleteAbi) (\<lambda>_.
     and_then (ensure_that
       (am_licenses_files m \<noteq> []
        \<and> list_all (\<lambda>f. li_path f \<noteq> [] \<and> hex_digest (li_sha256 f)) (am_licenses_files m))
       InvalidLicenses) (\<lambda>_.
     ensure_that
       (list_all (\<lambda>l. ln_name l \<noteq> [] \<and> CHR 0x0D \<notin> set (ln_name l) \<and> CHR 0x0A \<notin> set (ln_name l))
          (am_links m)) InvalidLink))"

definition linux_gn_args :: "bool \<Rightarrow> (string \<times> string) list" where
  "linux_gn_args native =
     (let flag = (if native then ''true'' else ''false'') in
      [(''target_os'', ''linux''), (''target_cpu'', ''x64''), (''rtc_use_h264'', ''true''),
       (''proprietary_codecs'', ''true''), (''ffmpeg_branding'', ''Chrome''),
       (''rtc_system_openh264'', ''false''), (''rtc_include_opus'', ''true''),
       (''rtc_build_opus'', ''true''), (''rtc_build_libvpx'', ''true''),
       (''rtc_libvpx_build_vp9'', ''true''), (''rtc_include_builtin_audio_codecs'', ''true''),
       (''rtc_include_dav1d_in_internal_decoder_factory'', ''true''),
       (''rtc_include_internal_audio_device'', flag), (''rtc_use_x11'', flag),
       (''rtc_use_pipewire'', flag)])"

definition check_linux_configuration :: "toolkit \<Rightarrow> artifact_manifest \<Rightarrow> unit manifest_result" where
  "check_linux_configuration tk m =
     (let config = am_native_configuration m; gn = map_of (nc_gn_args config) in
      case find (\<lambda>(key, expected). gn key \<noteq> Some expected)
          (linux_gn_args (ar_flavor (am_artifact m) = ''native'')) of
        Some (key, expected) \<Rightarrow> Inl (ConfigurationGn key)
      | None \<Rightarrow>
          and_then (ensure_that (gn ''rtc_enable_protobuf'' = Some ''true'' \<or>
              gn ''rtc_enable_protobuf'' = Some ''false'') MissingProtobuf) (\<lambda>_.
            let wrapper_digest = tk_sha256 tk (tk_wrapper tk) in
            and_then (ok_or (nc_floating_point config) MissingFloatingPoint) (\<lambda>fp.
              ensure_that
                (fp_final_compiler_flags fp = [''-fno-fast-math'', ''-ffp-contract=off'']
                 \<and> fp_compiler_wrapper_sha256 fp = wrapper_digest
                 \<and> (case gn ''cc_wrapper'' of None \<Rightarrow> False
                    | Some wrapper \<Rightarrow> valid_compiler_wrapper tk wrapper wrapper_digest))
                WrongFloatingPoint)))"

definition validate_configuration :: "toolkit \<Rightarrow> artifact_manifest \<Rightarrow> unit manifest_result" where
  "validate_configuration tk m =
     (let config = am_native_configuration m; webrtc = am_webrtc m in
      and_then (ensure_that
        (tk_sha256 tk (tk_json_configuration tk config) = am_native_configuration_sha256 m)
        ConfigurationDigest) (\<lambda>_.
      and_then (ensure_that
        (nc_native_adapter_sha256 config = br_native_adapter_sha256 (am_bridge m)
         \<and> nc_bridge_identity config = br_identity (am_bridge m)
         \<and> tk_sha256 tk (tk_json_cxx tk (nc_cxx config)) = tk_sha256 tk (tk_json_cxx tk (br_cxx (am_bridge m)))
         \<and> nc_source_revision config = so_revision webrtc
         \<and> Some (nc_source_patch_sha256 config) = so_patch_sha256 webrtc
         \<and> Some (nc_source_encoder_switch_patch_sha256 config) = so_encoder_switch_patch_sha256 webrtc
         \<and> Some (nc_source_runtime_resources_patch_sha256 config) = so_runtime_resources_patch_sha256 webrtc
         \<and> Some (nc_source_recordable_identity_patch_sha256 config) = so_recordable_identity_patch_sha256 webrtc
         \<and> Some (nc_source_state config) = so_state webrtc
         \<and> nc_libvpx_revision config = vp_revision (am_libvpx m)
         \<and> nc_libvpx_worker_patch_sha256 config = vp_worker_patch_sha256 (am_libvpx m)
         \<and> nc_depot_tools_revision config = so_revision (am_depot_tools m)
         \<and> nc_flavor config = ar_flavor (am_artifact m)
         \<and> nc_target config = ar_target (am_artifact m)
         \<and> nc_cargo_target config = ar_cargo_target (am_artifact m)
         \<and> nc_toolchain config = abi_toolchain (am_abi m)) ConfigurationIdentity) (\<lambda>_.
      and_then (ensure_that
        (nc_cxx_defines config \<noteq> []
         \<and> list_all (\<lambda>d. prefix ''-D'' d \<and> CHR 0x0A \<notin> set d \<and> CHR 0x0D \<notin> set d)
             (nc_cxx_defines config)) ConfigurationDefines) (\<lambda>_.
        if ar_target (am_artifact m) = ''linux-x86_64'' then check_linux_configuration tk m
        else Inr ()))))"

definition manifest_parse_and_validate ::
  "toolkit \<Rightarrow> bytes \<Rightarrow> string \<Rightarrow> string \<Rightarrow> string \<Rightarrow> string \<Rightarrow> artifact_manifest manifest_result" where
  "manifest_parse_and_validate tk bs expected_bridge expected_flavor expected_target expected_cargo_target =
     and_then (case tk_manifest tk bs of Inl e \<Rightarrow> Inl (ManifestDecode e) | Inr m \<Rightarrow> Inr m) (\<lambda>m.
     and_then (ensure_that (am_schema_version m = 4) (ManifestSchema (am_schema_version m))) (\<lambda>_.
     and_then (ensure_that (tk_sha256 tk (tk_bridge_source tk) = BRIDGE_SOURCE_SHA256) StaleBridgeSource) (\<lambda>_.
     and_then (ensure_that (br_native_adapter_sha256 (am_bridge m) = native_adapter_digest tk) StaleAdapter) (\<lambda>_.
     and_then (check_pins (pin_checks m expected_bridge expected_flavor expected_target expected_cargo_target)) (\<lambda>_.
     and_then (check_patches m) (\<lambda>_.
     and_then (check_source_state m expected_flavor expected_target) (\<lambda>_.
     and_then (check_archives m expected_target) (\<lambda>_.
     and_then (check_digests m) (\<lambda>_.
     and_then (check_inventory m) (\<lambda>_.
     and_then (validate_configuration tk m) (\<lambda>_. Inr m)))))))))))"

subsection \<open>Payload files\<close>

fun io_each :: "('a \<Rightarrow> ('e, unit) io) \<Rightarrow> 'a list \<Rightarrow> ('e, unit) io" where
  "io_each f [] = io_return ()"
| "io_each f (x # xs) = io_bind (f x) (\<lambda>_. io_each f xs)"

definition check_payload :: "toolkit \<Rightarrow> path \<Rightarrow> string \<times> string \<Rightarrow> (manifest_error, unit) io" where
  "check_payload tk root payload =
     (case payload of (relative, expected) \<Rightarrow>
       (case all_normal (path_components relative) of
          None \<Rightarrow> io_fail (InvalidPayloadPath relative)
        | Some p \<Rightarrow>
            io_bind (is_regular_file (root @ p)) (\<lambda>present.
              if \<not> present then io_fail (MissingPayload relative)
              else io_bind (io_map_err PayloadIo (fs_read (root @ p))) (\<lambda>bs.
                if tk_sha256 tk bs \<noteq> expected then io_fail (PayloadDigest relative)
                else io_return ()))))"

definition validate_payloads :: "toolkit \<Rightarrow> artifact_manifest \<Rightarrow> path \<Rightarrow> (manifest_error, unit) io" where
  "validate_payloads tk m root =
     io_bind (check_payload tk root (na_member (am_archive m), na_sha256 (am_archive m))) (\<lambda>_.
     io_bind (case am_unwind_archive m of None \<Rightarrow> io_return ()
              | Some unwind \<Rightarrow> check_payload tk root (na_member unwind, na_sha256 unwind)) (\<lambda>_.
     io_bind (io_lift (ensure_that
         (tk_sha256 tk (tk_json_licenses tk (am_licenses_files m)) = am_licenses_sha256 m)
         LicenseInventoryDigest)) (\<lambda>_.
     io_each (\<lambda>f. if \<not> prefix ''LICENSES/'' (li_path f) then io_fail LicenseOutside
                  else check_payload tk root (li_path f, li_sha256 f)) (am_licenses_files m))))"

subsection \<open>Link directives\<close>

definition link_directives :: "link \<Rightarrow> string list" where
  "link_directives l =
     (case ln_kind l of
        Dylib \<Rightarrow> [''cargo::rustc-link-lib='' @ ln_name l]
      | Framework \<Rightarrow> [''cargo::rustc-link-lib=framework='' @ ln_name l]
      | WeakFramework \<Rightarrow> [''cargo::rustc-link-arg=-weak_framework'', ''cargo::rustc-link-arg='' @ ln_name l]
      | LinkArg \<Rightarrow> [''cargo::rustc-link-arg='' @ ln_name l])"

definition cargo_link_directives :: "artifact_manifest \<Rightarrow> string \<Rightarrow> string list" where
  "cargo_link_directives m library_dir =
     [''cargo::rustc-link-search=native='' @ library_dir,
      ''cargo::rustc-link-lib=static='' @ na_name (am_archive m)]
     @ (case am_unwind_archive m of None \<Rightarrow> [] | Some unwind \<Rightarrow> [''cargo::rustc-link-lib=static='' @ na_name unwind])
     @ List.concat (List.map link_directives (am_links m))"

subsection \<open>What a validated manifest says\<close>

lemma check_pins_ok: "check_pins checks = Inr () \<longleftrightarrow> (\<forall>(name, actual, expected)\<in>set checks. actual = expected)"
proof (cases "find (\<lambda>(_, actual, expected). actual \<noteq> expected) checks")
  case None
  then have "\<forall>c\<in>set checks. \<not> (case c of (_, actual, expected) \<Rightarrow> actual \<noteq> expected)"
    by (simp only: find_is_None)
  with None show ?thesis by (auto simp: check_pins_def)
next
  case (Some c)
  with find_SomeD [OF Some] show ?thesis
    by (cases c) (auto simp: check_pins_def intro!: bexI [of _ c])
qed

lemma check_digests_ok:
  "check_digests m = Inr () \<longleftrightarrow>
     hex_digest (na_sha256 (am_archive m)) \<and> hex_digest (am_native_configuration_sha256 m)
     \<and> hex_digest (am_licenses_sha256 m)"
  by (auto simp: check_digests_def split: option.splits)

lemma check_archives_ok:
  "check_archives m target = Inr () \<longleftrightarrow>
     na_member (am_archive m) = (if target = ''windows-x86_64'' then ''lib/webrtc.lib'' else ''lib/libwebrtc.a'')
     \<and> na_name (am_archive m) = ''webrtc''
     \<and> (if prefix ''android-'' target
        then \<exists>unwind. am_unwind_archive m = Some unwind \<and> na_member unwind = ''lib/libunwind.a''
          \<and> na_name unwind = ''unwind'' \<and> hex_digest (na_sha256 unwind)
        else am_unwind_archive m = None)"
  by (cases "am_unwind_archive m") (auto simp: check_archives_def and_then_eq_Inr)

lemma manifest_ok:
  assumes "manifest_parse_and_validate tk bs bridge flavor target cargo_target = Inr m"
  shows "tk_manifest tk bs = Inr m" "am_schema_version m = 4"
    "tk_sha256 tk (tk_bridge_source tk) = BRIDGE_SOURCE_SHA256"
    "br_native_adapter_sha256 (am_bridge m) = native_adapter_digest tk"
    "check_pins (pin_checks m bridge flavor target cargo_target) = Inr ()"
    "check_patches m = Inr ()" "check_source_state m flavor target = Inr ()"
    "check_archives m target = Inr ()" "check_digests m = Inr ()" "check_inventory m = Inr ()"
    "validate_configuration tk m = Inr ()"
  using assms
  by (auto simp: manifest_parse_and_validate_def and_then_eq_Inr split: sum.splits)

lemma configuration_ok:
  assumes "validate_configuration tk m = Inr ()"
  shows "tk_sha256 tk (tk_json_configuration tk (am_native_configuration m)) = am_native_configuration_sha256 m"
    and "Some (nc_source_patch_sha256 (am_native_configuration m)) = so_patch_sha256 (am_webrtc m)"
    and "Some (nc_source_state (am_native_configuration m)) = so_state (am_webrtc m)"
    and "nc_flavor (am_native_configuration m) = ar_flavor (am_artifact m)"
    and "nc_target (am_native_configuration m) = ar_target (am_artifact m)"
    and "nc_cargo_target (am_native_configuration m) = ar_cargo_target (am_artifact m)"
    and "nc_native_adapter_sha256 (am_native_configuration m) = br_native_adapter_sha256 (am_bridge m)"
  using assms by (auto simp: validate_configuration_def Let_def and_then_eq_Inr)

text \<open>A validated manifest is the artifact that was asked for: its bridge, flavor, target and
  Cargo target are the expected ones, it was built from the adapter sources of this build script,
  its configuration hashes to the recorded digest and describes the same artifact.  The source
  state and patch must be recorded: the case of the validation that tolerates their absence never
  leads to acceptance.  An unwind archive is present exactly for Android.\<close>

theorem validated_manifest_identity:
  assumes "manifest_parse_and_validate tk bs bridge flavor target cargo_target = Inr m"
  shows "tk_manifest tk bs = Inr m
    \<and> br_identity (am_bridge m) = bridge \<and> am_artifact m = \<lparr>ar_flavor = flavor, ar_target = target, ar_cargo_target = cargo_target\<rparr>
    \<and> br_native_adapter_sha256 (am_bridge m) = native_adapter_digest tk
    \<and> tk_sha256 tk (tk_json_configuration tk (am_native_configuration m)) = am_native_configuration_sha256 m
    \<and> nc_flavor (am_native_configuration m) = flavor \<and> nc_target (am_native_configuration m) = target
    \<and> nc_cargo_target (am_native_configuration m) = cargo_target
    \<and> so_state (am_webrtc m) = Some (expected_source_state flavor target)
    \<and> so_patch_sha256 (am_webrtc m) = Some CORE_IOS_PATCH_SHA256
    \<and> (am_unwind_archive m \<noteq> None \<longleftrightarrow> prefix ''android-'' target)"
proof -
  note ok = manifest_ok [OF assms]
  note config = configuration_ok [OF ok(11)]
  have pins: "br_identity (am_bridge m) = bridge" "ar_flavor (am_artifact m) = flavor"
      "ar_target (am_artifact m) = target" "ar_cargo_target (am_artifact m) = cargo_target"
    using ok(5) unfolding check_pins_ok pin_checks_def Let_def by simp_all
  have state: "so_state (am_webrtc m) = Some (expected_source_state flavor target)"
      "so_patch_sha256 (am_webrtc m) = Some CORE_IOS_PATCH_SHA256"
    using ok(7) config(2,3) [symmetric] by (simp_all add: check_source_state_def Let_def)
  have unwind: "am_unwind_archive m \<noteq> None \<longleftrightarrow> prefix ''android-'' target"
    using ok(8) unfolding check_archives_ok by (auto split: if_splits)
  have "am_artifact m = \<lparr>ar_flavor = flavor, ar_target = target, ar_cargo_target = cargo_target\<rparr>"
    using pins(2-4) by simp
  with ok(1,4) pins config state unwind show ?thesis by simp
qed

subsection \<open>What the payload checks say\<close>

definition payload_present :: "toolkit \<Rightarrow> path \<Rightarrow> fs \<Rightarrow> string \<times> string \<Rightarrow> bool" where
  "payload_present tk root fs payload \<longleftrightarrow>
     (case all_normal (path_components (fst payload)) of
        None \<Rightarrow> False
      | Some p \<Rightarrow>
          (case fs (root @ p) of
             Some (File bs) \<Rightarrow> tk_sha256 tk bs = snd payload
           | _ \<Rightarrow> False))"

definition manifest_payloads :: "artifact_manifest \<Rightarrow> (string \<times> string) list" where
  "manifest_payloads m =
     (na_member (am_archive m), na_sha256 (am_archive m))
     # (case am_unwind_archive m of None \<Rightarrow> [] | Some unwind \<Rightarrow> [(na_member unwind, na_sha256 unwind)])
     @ List.map (\<lambda>f. (li_path f, li_sha256 f)) (am_licenses_files m)"

definition payloads_valid :: "toolkit \<Rightarrow> artifact_manifest \<Rightarrow> path \<Rightarrow> fs \<Rightarrow> bool" where
  "payloads_valid tk m root fs \<longleftrightarrow>
     list_all (payload_present tk root fs) (manifest_payloads m)
     \<and> tk_sha256 tk (tk_json_licenses tk (am_licenses_files m)) = am_licenses_sha256 m
     \<and> list_all (\<lambda>f. prefix ''LICENSES/'' (li_path f)) (am_licenses_files m)"

lemma check_payload_Inr:
  assumes "check_payload tk root payload h w = (Inr u, w')"
  shows "payload_present tk root (w_fs w) payload \<and> w_fs w' = w_fs w"
proof -
  obtain p where p: "all_normal (path_components (fst payload)) = Some p"
    using assms by (cases "all_normal (path_components (fst payload))")
      (auto simp: check_payload_def run_simps split: prod.splits)
  then have "\<exists>w1 bs. is_regular_file (root @ p) h w = (Inr True :: (manifest_error, bool) result, w1)
      \<and> fs_read (root @ p) h w1 = (Inr bs, w') \<and> tk_sha256 tk bs = snd payload"
    using assms by (auto simp: check_payload_def io_bind_Inr io_map_err_Inr run_simps
        split: prod.splits if_splits)
  then obtain w1 bs where run: "is_regular_file (root @ p) h w = (Inr True :: (manifest_error, bool) result, w1)"
      and read: "fs_read (root @ p) h w1 = (Inr bs, w')" "tk_sha256 tk bs = snd payload"
    by blast
  with is_regular_file_run [OF run] fs_read_Inr [OF read(1)] p show ?thesis
    by (simp add: payload_present_def)
qed

lemma within_payload [frame_rules]:
  "io_within (touches P) h (check_payload tk root payload)"
  "io_within silent h (check_payload tk root payload)"
  unfolding check_payload_def
  by (cases payload; simp; intro files.within_rules quiet.within_rules frame_rules)+

lemma within_each [frame_rules]:
  "(\<And>x. io_within (touches P) h (f x)) \<Longrightarrow> io_within (touches P) h (io_each f xs)"
  "(\<And>x. io_within silent h (g x)) \<Longrightarrow> io_within silent h (io_each g xs)"
  by (induction xs) (auto intro!: files.within_rules quiet.within_rules)

lemma within_payloads [frame_rules]:
  "io_within (touches P) h (validate_payloads tk m root)"
  "io_within silent h (validate_payloads tk m root)"
  unfolding validate_payloads_def
  by (intro files.within_rules quiet.within_rules frame_rules)+

lemma io_each_Inr:
  assumes "io_each f xs h w = (Inr u, w')"
    and "\<And>x w u w'. f x h w = (Inr u, w') \<Longrightarrow> P x (w_fs w) \<and> w_fs w' = w_fs w"
  shows "(\<forall>x\<in>set xs. P x (w_fs w)) \<and> w_fs w' = w_fs w"
  using assms(1)
proof (induction xs arbitrary: w)
  case (Cons x xs)
  then obtain u' w1 where "f x h w = (Inr u', w1)" "io_each f xs h w1 = (Inr u, w')"
    by (auto simp: io_bind_Inr)
  with Cons.IH [of w1] assms(2) [of x w u' w1] show ?case by auto
qed (simp add: run_simps)

lemma payloads_checked:
  assumes "validate_payloads tk m root h w = (Inr (), w')"
  shows "payloads_valid tk m root (w_fs w)"
proof -
  define each where "each = (\<lambda>f :: license_file. if \<not> prefix ''LICENSES/'' (li_path f) then io_fail LicenseOutside
                else check_payload tk root (li_path f, li_sha256 f))"
  obtain w1 w2 u1 u2 where arch: "check_payload tk root (na_member (am_archive m), na_sha256 (am_archive m)) h w = (Inr u1, w1)"
      and unw: "(case am_unwind_archive m of None \<Rightarrow> io_return ()
            | Some unwind \<Rightarrow> check_payload tk root (na_member unwind, na_sha256 unwind)) h w1 = (Inr u2, w2)"
      and inv: "tk_sha256 tk (tk_json_licenses tk (am_licenses_files m)) = am_licenses_sha256 m"
      and lic: "io_each each (am_licenses_files m) h w2 = (Inr (), w')"
    using assms unfolding validate_payloads_def each_def
    by (auto simp: io_bind_Inr run_simps)
  note a = check_payload_Inr [OF arch]
  have u: "w_fs w2 = w_fs w \<and> (\<forall>unwind. am_unwind_archive m = Some unwind \<longrightarrow>
      payload_present tk root (w_fs w) (na_member unwind, na_sha256 unwind))"
    using unw a by (cases "am_unwind_archive m") (auto simp: run_simps dest: check_payload_Inr)
  have "(\<forall>f\<in>set (am_licenses_files m). prefix ''LICENSES/'' (li_path f)
      \<and> payload_present tk root (w_fs w2) (li_path f, li_sha256 f)) \<and> w_fs w' = w_fs w2"
    by (rule io_each_Inr [OF lic])
      (auto simp: each_def run_simps split: if_splits dest: check_payload_Inr)
  with a u inv show ?thesis
    by (auto simp: payloads_valid_def manifest_payloads_def list_all_iff split: option.splits)
qed

text \<open>Payload validation accepts only a tree that holds every file the manifest names, as a
  regular file below the root with exactly the recorded digest, licenses inside their directory
  and their inventory with its own digest; it changes nothing, whatever calls fail.\<close>

theorem validated_payloads_present:
  assumes "validate_payloads tk m root h w = (r, w')"
  shows "w_fs w' = w_fs w \<and> w_requests w' = w_requests w
    \<and> (r = Inr () \<longrightarrow> payloads_valid tk m root (w_fs w))"
proof -
  have same: "w_fs w' = w_fs w" "w_requests w' = w_requests w"
    using io_withinD [OF within_payloads(1) [of "\<lambda>_. False"] assms]
      io_withinD [OF within_payloads(2) assms] by (simp_all add: reads_fs silent_def)
  with payloads_checked assms show ?thesis by blast
qed

subsection \<open>Link directives\<close>

lemma link_names_ok:
  "check_inventory m = Inr () \<Longrightarrow> l \<in> set (am_links m) \<Longrightarrow> CHR 0x0A \<notin> set (ln_name l) \<and> CHR 0x0D \<notin> set (ln_name l)"
  by (auto simp: check_inventory_def and_then_eq_Inr list_all_iff)

text \<open>No manifest can inject a directive into the build: for a validated manifest and a library
  directory on one line, every emitted directive is a single line that starts as a Cargo link
  directive, in the order search path, archive, unwind archive, links.\<close>

theorem link_directives_safe:
  assumes "manifest_parse_and_validate tk bs bridge flavor target cargo_target = Inr m"
    and "CHR 0x0A \<notin> set library_dir"
  shows "(\<forall>d\<in>set (cargo_link_directives m library_dir). prefix ''cargo::rustc-link-'' d \<and> CHR 0x0A \<notin> set d)
    \<and> cargo_link_directives m library_dir =
        [''cargo::rustc-link-search=native='' @ library_dir, ''cargo::rustc-link-lib=static=webrtc'']
        @ (if prefix ''android-'' target then [''cargo::rustc-link-lib=static=unwind''] else [])
        @ List.concat (List.map link_directives (am_links m))"
proof -
  note ok = manifest_ok [OF assms(1)]
  have names: "na_name (am_archive m) = ''webrtc''"
      "am_unwind_archive m = Some u \<Longrightarrow> na_name u = ''unwind''"
      "am_unwind_archive m \<noteq> None \<longleftrightarrow> prefix ''android-'' target" for u
    using ok(8) unfolding check_archives_ok by (auto split: if_splits)
  have shape: "cargo_link_directives m library_dir =
        [''cargo::rustc-link-search=native='' @ library_dir, ''cargo::rustc-link-lib=static=webrtc'']
        @ (if prefix ''android-'' target then [''cargo::rustc-link-lib=static=unwind''] else [])
        @ List.concat (List.map link_directives (am_links m))"
    using names by (cases "am_unwind_archive m") (auto simp: cargo_link_directives_def)
  have one: "prefix ''cargo::rustc-link-'' d \<and> CHR 0x0A \<notin> set d"
    if "l \<in> set (am_links m)" "d \<in> set (link_directives l)" for l d
    using link_names_ok [OF ok(10) that(1)] that(2) by (auto simp: link_directives_def split: link_kind.splits)
  show ?thesis
    using shape one assms(2) by auto
qed

subsection \<open>A concrete artifact\<close>

text \<open>An Android artifact under a digest function that tells files of different length apart
  only when they are empty: enough for every check to compute.\<close>

definition sample_toolkit :: toolkit where
  "sample_toolkit =
     \<lparr>tk_sha256 = (\<lambda>bs. if bs = [] then replicate 64 CHR ''0'' else BRIDGE_SOURCE_SHA256),
      tk_manifest = (\<lambda>bs. Inl ''not a manifest''),
      tk_json_configuration = (\<lambda>c. [1]), tk_json_cxx = (\<lambda>c. [2]), tk_json_licenses = (\<lambda>l. [3]),
      tk_json_inventory = (\<lambda>i. [4]), tk_shlex = (\<lambda>s. None), tk_bridge_source = [5],
      tk_wrapper = [6], tk_adapter_inputs = []\<rparr>"

definition sample_cxx :: cxx_provenance where
  "sample_cxx =
     \<lparr>cx_version = CXX_VERSION, cx_runtime_package_sha256 = CXX_PACKAGE_SHA256,
      cx_generator_package_sha256 = CXXBRIDGE_CMD_PACKAGE_SHA256,
      cx_rust_runtime_sha256 = CXX_RUST_RUNTIME_SHA256, cx_header_sha256 = CXX_HEADER_SHA256,
      cx_native_runtime_sha256 = CXX_NATIVE_RUNTIME_SHA256, cx_bridge_source_sha256 = BRIDGE_SOURCE_SHA256,
      cx_generated_header_sha256 = GENERATED_BRIDGE_HEADER_SHA256,
      cx_generated_source_sha256 = GENERATED_BRIDGE_SOURCE_SHA256\<rparr>"

definition sample_manifest :: artifact_manifest where
  "sample_manifest =
     \<lparr>am_schema_version = 4,
      am_bridge = \<lparr>br_identity = ''v2'', br_native_adapter_sha256 = BRIDGE_SOURCE_SHA256, br_cxx = sample_cxx\<rparr>,
      am_webrtc = \<lparr>so_repository = SOURCE_REPOSITORY, so_revision = SOURCE_REVISION,
        so_patch_sha256 = Some CORE_IOS_PATCH_SHA256,
        so_encoder_switch_patch_sha256 = Some ENCODER_SWITCH_PATCH_SHA256,
        so_runtime_resources_patch_sha256 = Some RUNTIME_RESOURCES_PATCH_SHA256,
        so_recordable_identity_patch_sha256 = Some RECORDABLE_IDENTITY_PATCH_SHA256,
        so_state = Some ''pristine''\<rparr>,
      am_depot_tools = \<lparr>so_repository = DEPOT_TOOLS_REPOSITORY, so_revision = DEPOT_TOOLS_REVISION,
        so_patch_sha256 = None, so_encoder_switch_patch_sha256 = None,
        so_runtime_resources_patch_sha256 = None, so_recordable_identity_patch_sha256 = None,
        so_state = None\<rparr>,
      am_libvpx = \<lparr>vp_repository = LIBVPX_REPOSITORY, vp_revision = LIBVPX_REVISION,
        vp_worker_patch_sha256 = LIBVPX_WORKER_PATCH_SHA256\<rparr>,
      am_artifact = \<lparr>ar_flavor = ''core'', ar_target = ''android-x86_64'', ar_cargo_target = ''x86_64-linux-android''\<rparr>,
      am_native_configuration_sha256 = BRIDGE_SOURCE_SHA256,
      am_native_configuration =
        \<lparr>nc_native_adapter_sha256 = BRIDGE_SOURCE_SHA256, nc_bridge_identity = ''v2'', nc_cxx = sample_cxx,
         nc_source_revision = SOURCE_REVISION, nc_source_patch_sha256 = CORE_IOS_PATCH_SHA256,
         nc_source_encoder_switch_patch_sha256 = ENCODER_SWITCH_PATCH_SHA256,
         nc_source_runtime_resources_patch_sha256 = RUNTIME_RESOURCES_PATCH_SHA256,
         nc_source_recordable_identity_patch_sha256 = RECORDABLE_IDENTITY_PATCH_SHA256,
         nc_libvpx_revision = LIBVPX_REVISION, nc_libvpx_worker_patch_sha256 = LIBVPX_WORKER_PATCH_SHA256,
         nc_source_state = ''pristine'', nc_depot_tools_revision = DEPOT_TOOLS_REVISION,
         nc_flavor = ''core'', nc_target = ''android-x86_64'', nc_cargo_target = ''x86_64-linux-android'',
         nc_toolchain = ''clang'', nc_gn_args = [], nc_cxx_defines = [''-DNDEBUG''],
         nc_floating_point = None\<rparr>,
      am_abi = \<lparr>abi_toolchain = ''clang'', abi_cxx_standard = ''C++20'', abi_cxx_runtime = ''libc++'',
        abi_crt = ''bionic'', abi_minimum_runtime = ''24''\<rparr>,
      am_archive = \<lparr>na_member = ''lib/libwebrtc.a'', na_name = ''webrtc'', na_sha256 = BRIDGE_SOURCE_SHA256\<rparr>,
      am_unwind_archive = Some \<lparr>na_member = ''lib/libunwind.a'', na_name = ''unwind'', na_sha256 = BRIDGE_SOURCE_SHA256\<rparr>,
      am_links = [\<lparr>ln_kind = Dylib, ln_name = ''log''\<rparr>],
      am_licenses_sha256 = BRIDGE_SOURCE_SHA256,
      am_licenses_files = [\<lparr>li_path = ''LICENSES/webrtc'', li_sha256 = BRIDGE_SOURCE_SHA256\<rparr>]\<rparr>"

definition sample_tools :: toolkit where
  "sample_tools = sample_toolkit\<lparr>tk_manifest := (\<lambda>bs. Inr sample_manifest)\<rparr>"

lemma sample_manifest_valid:
  "manifest_parse_and_validate sample_tools bs ''v2'' ''core'' ''android-x86_64'' ''x86_64-linux-android''
     = Inr sample_manifest"
  by code_simp

definition sample_tree :: fs where
  "sample_tree =
     [[''/''] \<mapsto> Dir, [''/'', ''a''] \<mapsto> Dir, [''/'', ''a'', ''manifest.json''] \<mapsto> File [7],
      [''/'', ''a'', ''lib'', ''libwebrtc.a''] \<mapsto> File [8], [''/'', ''a'', ''lib'', ''libunwind.a''] \<mapsto> File [9],
      [''/'', ''a'', ''LICENSES'', ''webrtc''] \<mapsto> File [10]]"

definition sample_host :: host where
  "sample_host = \<lparr>h_env = (\<lambda>v. None), h_faults = (\<lambda>n. None), h_written = (\<lambda>n. 0),
     h_server = (\<lambda>n. HttpError Timeout), h_pid = 7\<rparr>"

definition sample_machine :: machine where
  "sample_machine = \<lparr>w_fs = sample_tree, w_calls = 0, w_requests = [], w_sleeps = [], w_sequence = 0\<rparr>"

theorem validated_manifest_identity_witness:
  "am_artifact sample_manifest
     = \<lparr>ar_flavor = ''core'', ar_target = ''android-x86_64'', ar_cargo_target = ''x86_64-linux-android''\<rparr>
   \<and> so_state (am_webrtc sample_manifest) = Some ''pristine'' \<and> am_unwind_archive sample_manifest \<noteq> None"
  using validated_manifest_identity [OF sample_manifest_valid]
  by (simp add: expected_source_state_def)

theorem link_directives_safe_witness:
  "cargo_link_directives sample_manifest ''/a/lib'' =
     [''cargo::rustc-link-search=native=/a/lib'', ''cargo::rustc-link-lib=static=webrtc'',
      ''cargo::rustc-link-lib=static=unwind'', ''cargo::rustc-link-lib=log'']"
proof -
  have "am_links sample_manifest = [\<lparr>ln_kind = Dylib, ln_name = ''log''\<rparr>]"
    by (simp add: sample_manifest_def)
  then show ?thesis
    using link_directives_safe [OF sample_manifest_valid, of "''/a/lib''"]
    by (simp add: link_directives_def)
qed

theorem validated_payloads_present_witness:
  "payloads_valid sample_tools sample_manifest [''/'', ''a''] sample_tree"
proof -
  have "fst (validate_payloads sample_tools sample_manifest [''/'', ''a''] sample_host sample_machine) = Inr ()"
    by code_simp
  then obtain w' where "validate_payloads sample_tools sample_manifest [''/'', ''a''] sample_host sample_machine
      = (Inr (), w')"
    by (metis prod.collapse)
  from validated_payloads_present [OF this] show ?thesis by (simp add: sample_machine_def)
qed

end
