(* ===== verification/ArtifactStore.thy ===== *)
theory ArtifactStore
  imports ArtifactManifest
begin

text \<open>
  Resolving an artifact (\<open>build_support/artifact.rs\<close>): the release-lock cache, the download with its
  bounded retries, the extraction into a temporary directory, the validation of what was
  extracted, and the decision which of them is needed.  The archive reader (tar over gzip) is the
  parameter \<open>unpack\<close>: the entries it yields, \<open>None\<close> where reading one fails.
\<close>

subsection \<open>Constants and errors\<close>

definition DOWNLOAD_ATTEMPTS :: nat where "DOWNLOAD_ATTEMPTS = 3"
definition MAX_RELEASE_LOCK_BYTES :: nat where "MAX_RELEASE_LOCK_BYTES = 1024 * 1024"
definition ARTIFACT_DIR_ENV :: string where "ARTIFACT_DIR_ENV = ''PULSEBEAM_WEBRTC_SYS_ARTIFACT_DIR''"
definition CACHE_DIR_ENV :: string where "CACHE_DIR_ENV = ''PULSEBEAM_WEBRTC_SYS_CACHE_DIR''"
definition OFFLINE_ENV :: string where "OFFLINE_ENV = ''PULSEBEAM_WEBRTC_SYS_OFFLINE''"

datatype store_error =
    LockFailed lock_error | ManifestFailed manifest_error | IoFailed io_error
  | NoCacheDirectory | OfflineMiss string | OfflineLock string
  | LockUnavailable string | LockRetrieval http_error | LockRead io_error | LockTooLarge
  | ChecksumMismatch string | RetryableInterruption io_error | WriteFailed io_error | InstallFailed
  | Transport bool nat http_error | Transfer bool nat store_error
  | UnsafePath string | DuplicatePath string | UnsupportedEntry string | BadEntry
  | NotADirectory | MissingManifest | MissingArchive
  | Unreachable

type_synonym 'a store_io = "(store_error, 'a) io"

datatype entry_kind = DirEntry | FileEntry | OtherEntry

record tar_entry =
  te_path :: "string option"
  te_kind :: entry_kind
  te_contents :: bytes
  te_read_error :: "io_error option"

type_synonym unpack = "bytes \<Rightarrow> tar_entry option list option"

abbreviation io_of :: "(io_error, 'a) io \<Rightarrow> 'a store_io" where
  "io_of m \<equiv> io_map_err IoFailed m"

abbreviation lock_of :: "'a lock_result \<Rightarrow> 'a store_io" where
  "lock_of r \<equiv> io_map_err LockFailed (io_lift r)"

definition io_host :: "('e, host) io" where
  "io_host = (\<lambda>h w. (Inr h, w))"

definition io_check :: "bool \<Rightarrow> store_error \<Rightarrow> unit store_io" where
  "io_check ok e = (if ok then io_return () else io_fail e)"

definition io_ignore :: "('e, 'a) io \<Rightarrow> ('f, unit) io" where
  "io_ignore m = io_bind (io_try m) (\<lambda>_. io_return ())"

subsection \<open>Environment\<close>

definition cache_directory :: "host \<Rightarrow> path option" where
  "cache_directory h =
     (case h_env h CACHE_DIR_ENV of
        Some p \<Rightarrow> Some (env_path p)
      | None \<Rightarrow>
          (case (case h_env h ''CARGO_HOME'' of
                   Some p \<Rightarrow> Some (env_path p)
                 | None \<Rightarrow>
                     (case h_env h ''HOME'' of
                        Some p \<Rightarrow> Some (env_path p @ [''.cargo''])
                      | None \<Rightarrow> map_option (\<lambda>p. env_path p @ [''.cargo'']) (h_env h ''USERPROFILE''))) of
             None \<Rightarrow> None
           | Some cargo_home \<Rightarrow> Some (cargo_home @ [''pulsebeam-webrtc-sys'', ''artifacts-v1''])))"

definition offline :: "host \<Rightarrow> bool" where
  "offline h \<longleftrightarrow>
     list_ex (\<lambda>name. h_env h name = Some ''1'' \<or> h_env h name = Some ''true'')
       [OFFLINE_ENV, ''CARGO_NET_OFFLINE'']"

subsection \<open>Digests and downloads\<close>

definition sha256_file :: "toolkit \<Rightarrow> path \<Rightarrow> string store_io" where
  "sha256_file tk p = io_bind (io_of (fs_read p)) (\<lambda>b. io_return (tk_sha256 tk b))"

text \<open>\<open>io::copy\<close> from a body: what arrived is written, then the body's own error surfaces; either
  error is classified by its kind.\<close>

definition copy_error :: "io_error \<Rightarrow> store_error" where
  "copy_error e = (if retryable_io_error e then RetryableInterruption e else WriteFailed e)"

definition copy_body :: "path \<Rightarrow> bytes \<Rightarrow> io_error option \<Rightarrow> unit store_io" where
  "copy_body p received failure =
     io_bind (io_map_err copy_error (file_append p received)) (\<lambda>_.
       case failure of None \<Rightarrow> io_return () | Some e \<Rightarrow> io_fail (copy_error e))"

text \<open>One transfer, the closure inside the loop of \<open>download\<close>: fill the temporary file with
  verified contents, then rename it; a failing rename is forgiven when the destination already
  holds the right file.\<close>

definition fill_temporary ::
  "toolkit \<Rightarrow> path \<Rightarrow> string \<Rightarrow> bytes \<Rightarrow> io_error option \<Rightarrow> unit store_io" where
  "fill_temporary tk temporary expected_sha256 received failure =
     io_bind (io_of (file_create temporary)) (\<lambda>_.
     io_bind (copy_body temporary received failure) (\<lambda>_.
     io_bind (io_map_err WriteFailed (sync_all temporary)) (\<lambda>_.
     io_bind (sha256_file tk temporary) (\<lambda>actual.
       io_check (actual = expected_sha256) (ChecksumMismatch actual)))))"

definition install_temporary :: "toolkit \<Rightarrow> path \<Rightarrow> path \<Rightarrow> string \<Rightarrow> unit store_io" where
  "install_temporary tk temporary destination expected_sha256 =
     io_bind (io_try (rename_path temporary destination)) (\<lambda>renamed.
       if is_ok renamed then io_return ()
       else
         io_bind (is_regular_file destination) (\<lambda>regular.
           if \<not> regular then io_fail InstallFailed
           else io_bind (sha256_file tk destination) (\<lambda>present.
             io_check (present = expected_sha256) InstallFailed)))"

definition transfer ::
  "toolkit \<Rightarrow> path \<Rightarrow> path \<Rightarrow> string \<Rightarrow> bytes \<Rightarrow> io_error option \<Rightarrow> unit store_io" where
  "transfer tk temporary destination expected_sha256 received failure =
     io_bind (fill_temporary tk temporary expected_sha256 received failure) (\<lambda>_.
       install_temporary tk temporary destination expected_sha256)"

definition is_retryable_interruption :: "store_error \<Rightarrow> bool" where
  "is_retryable_interruption e = (case e of RetryableInterruption _ \<Rightarrow> True | _ \<Rightarrow> False)"

text \<open>The loop: \<open>attempt\<close> counts up to \<open>DOWNLOAD_ATTEMPTS\<close>; falling out of it is the
  \<open>unreachable!\<close> of the source.\<close>

fun download_from :: "nat \<Rightarrow> nat \<Rightarrow> toolkit \<Rightarrow> string \<Rightarrow> path \<Rightarrow> string \<Rightarrow> unit store_io" where
  "download_from 0 attempt tk url destination expected_sha256 = io_fail Unreachable"
| "download_from (Suc remaining) attempt tk url destination expected_sha256 =
     io_bind (http_get url) (\<lambda>reply.
       case reply of
         HttpError e \<Rightarrow>
           if retryable_download_error e \<and> attempt < DOWNLOAD_ATTEMPTS then
             io_bind (sleep_ms (200 * attempt)) (\<lambda>_.
               download_from remaining (Suc attempt) tk url destination expected_sha256)
           else io_fail (Transport (retryable_download_error e) attempt e)
       | HttpBody received failure \<Rightarrow>
           io_bind (temporary_path destination) (\<lambda>temporary.
           io_bind (io_try (transfer tk temporary destination expected_sha256 received failure))
             (\<lambda>r.
             case r of
               Inr _ \<Rightarrow> io_return ()
             | Inl e \<Rightarrow>
                 io_bind (io_ignore (remove_file temporary)) (\<lambda>_.
                   if is_retryable_interruption e \<and> attempt < DOWNLOAD_ATTEMPTS then
                     io_bind (sleep_ms (200 * attempt)) (\<lambda>_.
                       download_from remaining (Suc attempt) tk url destination expected_sha256)
                   else io_fail (Transfer (is_retryable_interruption e) attempt e)))))"

definition download :: "toolkit \<Rightarrow> string \<Rightarrow> path \<Rightarrow> string \<Rightarrow> unit store_io" where
  "download tk url destination expected_sha256 =
     download_from DOWNLOAD_ATTEMPTS 1 tk url destination expected_sha256"

subsection \<open>Extraction\<close>

definition validate_relative_path :: "string \<Rightarrow> path store_io" where
  "validate_relative_path s =
     (if s = [] then io_fail (UnsafePath s)
      else (case all_normal (path_components s) of
              None \<Rightarrow> io_fail (UnsafePath s) | Some p \<Rightarrow> io_return p))"

definition write_entry :: "path \<Rightarrow> string \<Rightarrow> tar_entry \<Rightarrow> unit store_io" where
  "write_entry output s entry =
     (case te_kind entry of
        DirEntry \<Rightarrow> io_of (create_dir_all output)
      | FileEntry \<Rightarrow>
          io_bind (io_of (create_dir_all (parent output))) (\<lambda>_.
          io_bind (io_of (file_create output)) (\<lambda>_.
          io_bind (io_of (file_append output (te_contents entry))) (\<lambda>_.
            case te_read_error entry of
              None \<Rightarrow> io_return () | Some e \<Rightarrow> io_fail (IoFailed e))))
      | OtherEntry \<Rightarrow> io_fail (UnsupportedEntry s))"

fun extract_entries :: "path \<Rightarrow> path list \<Rightarrow> tar_entry option list \<Rightarrow> unit store_io" where
  "extract_entries destination paths [] = io_return ()"
| "extract_entries destination paths (None # es) = io_fail BadEntry"
| "extract_entries destination paths (Some entry # es) =
     (case te_path entry of
        None \<Rightarrow> io_fail BadEntry
      | Some s \<Rightarrow>
          io_bind (validate_relative_path s) (\<lambda>p.
            if p \<in> set paths then io_fail (DuplicatePath s)
            else
              io_bind (write_entry (destination @ p) s entry) (\<lambda>_.
                extract_entries destination (p # paths) es)))"

definition extract_safely :: "unpack \<Rightarrow> path \<Rightarrow> path \<Rightarrow> unit store_io" where
  "extract_safely unpack archive destination =
     io_bind (io_of (fs_read archive)) (\<lambda>b.
       case unpack b of
         None \<Rightarrow> io_fail BadEntry
       | Some entries \<Rightarrow> extract_entries destination [] entries)"

subsection \<open>Validation of an extracted artifact\<close>

definition path_of_member :: "string \<Rightarrow> path" where
  "path_of_member member = List.map component_name (path_components member)"

definition validate_extracted ::
  "toolkit \<Rightarrow> path \<Rightarrow> string \<Rightarrow> string \<Rightarrow> string \<Rightarrow> string \<Rightarrow> artifact_manifest store_io" where
  "validate_extracted tk artifact bridge flavor target cargo_target =
     io_bind (io_try (symlink_metadata artifact)) (\<lambda>root.
     io_bind (io_check (case root of Inr n \<Rightarrow> n = Dir | Inl _ \<Rightarrow> False) NotADirectory) (\<lambda>_.
     io_bind (is_regular_file (artifact @ [''manifest.json''])) (\<lambda>present.
     io_bind (io_check present MissingManifest) (\<lambda>_.
     io_bind (io_of (fs_read (artifact @ [''manifest.json'']))) (\<lambda>bs.
     io_bind (io_map_err ManifestFailed (io_lift
       (manifest_parse_and_validate tk bs bridge flavor target cargo_target))) (\<lambda>m.
     io_bind (is_regular_file (artifact @ path_of_member (na_member (am_archive m)))) (\<lambda>library.
     io_bind (io_check library MissingArchive) (\<lambda>_.
     io_bind (io_map_err ManifestFailed (validate_payloads tk m artifact)) (\<lambda>_.
       io_return m)))))))))"

definition ensure_extracted ::
  "toolkit \<Rightarrow> unpack \<Rightarrow> path \<Rightarrow> path \<Rightarrow> string \<Rightarrow> string \<Rightarrow> string \<Rightarrow> string \<Rightarrow> path store_io" where
  "ensure_extracted tk unpack archive destination bridge flavor target cargo_target =
     io_bind (io_try (validate_extracted tk destination bridge flavor target cargo_target)) (\<lambda>valid.
       if is_ok valid then io_return destination
       else
         io_bind (io_try (symlink_metadata destination)) (\<lambda>old.
         io_bind (case old of Inl _ \<Rightarrow> io_return ()
                  | Inr n \<Rightarrow> io_of (if n = Dir then remove_dir_all destination else remove_file destination))
           (\<lambda>_.
         io_bind (temporary_path destination) (\<lambda>temporary.
         io_bind (exists_entry temporary) (\<lambda>stale.
         io_bind (if stale then io_of (remove_cache_entry temporary) else io_return ()) (\<lambda>_.
         io_bind (io_of (create_dir temporary)) (\<lambda>_.
         io_bind (io_try
           (io_bind (extract_safely unpack archive temporary) (\<lambda>_.
            io_bind (validate_extracted tk temporary bridge flavor target cargo_target) (\<lambda>_.
            io_bind (io_try (rename_path temporary destination)) (\<lambda>renamed.
              if is_ok renamed then io_return ()
              else io_bind (io_try (symlink_metadata destination)) (\<lambda>d.
                io_check (case d of Inr n \<Rightarrow> n = Dir | Inl _ \<Rightarrow> False) InstallFailed)))))) (\<lambda>result.
         io_bind (io_try (symlink_metadata temporary)) (\<lambda>left.
         io_bind (case left of Inl _ \<Rightarrow> io_return ()
                  | Inr n \<Rightarrow> io_ignore (if n = Dir then remove_dir_all temporary else remove_file temporary))
           (\<lambda>_.
         io_bind (io_lift result) (\<lambda>_.
         io_bind (validate_extracted tk destination bridge flavor target cargo_target) (\<lambda>_.
           io_return destination))))))))))))"

subsection \<open>Resolving\<close>

text \<open>The end of \<open>resolve\<close>: a cached archive with the right digest is used, any other entry of its
  name is removed and the archive downloaded.\<close>

definition resolve_cached ::
  "toolkit \<Rightarrow> unpack \<Rightarrow> string \<Rightarrow> path \<Rightarrow> path \<Rightarrow> string \<Rightarrow> string \<Rightarrow> string \<Rightarrow> string \<Rightarrow> string \<Rightarrow> path store_io"
  where
  "resolve_cached tk unpack url archive extracted expected_sha256 bridge flavor target cargo_target =
     io_bind (is_regular_file archive) (\<lambda>present.
     io_bind (if present then sha256_file tk archive else io_return []) (\<lambda>actual.
       if present \<and> actual = expected_sha256 then
         ensure_extracted tk unpack archive extracted bridge flavor target cargo_target
       else
         io_bind (exists_entry archive) (\<lambda>corrupt.
         io_bind (exists_entry archive) (\<lambda>stale.
         io_bind (if stale then io_of (remove_cache_entry archive) else io_return ()) (\<lambda>_.
         io_bind io_host (\<lambda>h.
         if offline h then io_fail (OfflineMiss (List.last archive))
         else
           io_bind (download tk url archive expected_sha256) (\<lambda>_.
             ensure_extracted tk unpack archive extracted bridge flavor target cargo_target)))))))"

text \<open>The directory below the cache that a canonical URL selects.\<close>

definition tag_directory :: "artifact_lock \<Rightarrow> string \<Rightarrow> path \<Rightarrow> path store_io" where
  "tag_directory lock url base =
     (case Option.bind (strip_prefix RELEASE_URL_PREFIX url) (split_once CHR ''/'') of
        None \<Rightarrow> io_return base
      | Some (tag, _) \<Rightarrow> io_bind (lock_of (validate_tag lock tag)) (\<lambda>_. io_return (base @ [tag])))"

definition resolve ::
  "toolkit \<Rightarrow> unpack \<Rightarrow> 'v lock_codec \<Rightarrow> bytes \<Rightarrow> string \<Rightarrow> string \<Rightarrow> string \<Rightarrow> path store_io" where
  "resolve tk unpack codec lock_bytes bridge cargo_target flavor =
     io_bind (lock_of (ok_or (artifact_target cargo_target) (UnsupportedTarget cargo_target))) (\<lambda>target.
     io_bind io_host (\<lambda>h.
       case h_env h ARTIFACT_DIR_ENV of
         Some p \<Rightarrow>
           io_bind (validate_extracted tk (env_path p) bridge flavor target cargo_target) (\<lambda>_.
             io_return (env_path p))
       | None \<Rightarrow>
           io_bind (lock_of (parse_and_validate codec lock_bytes bridge)) (\<lambda>lock.
             case lock_select lock cargo_target flavor of
               None \<Rightarrow> io_fail Unreachable
             | Some entry \<Rightarrow>
                 io_bind (lock_of (released entry)) (\<lambda>(url, expected_sha256).
                 io_bind (io_lift (ok_or (cache_directory h) NoCacheDirectory)) (\<lambda>base.
                 io_bind (tag_directory lock url base) (\<lambda>cache.
                 io_bind (io_of (create_dir_all cache)) (\<lambda>_.
                   resolve_cached tk unpack url (cache @ [la_asset_name entry]) (cache @ [expected_sha256])
                     expected_sha256 bridge flavor target cargo_target)))))))"

subsection \<open>The release-lock cache\<close>

definition lock_body :: "bytes \<Rightarrow> io_error option \<Rightarrow> (io_error, bytes) result" where
  "lock_body received failure =
     (let limit = Suc MAX_RELEASE_LOCK_BYTES in
      if limit \<le> length received then Inr (take limit received)
      else (case failure of None \<Rightarrow> Inr received | Some e \<Rightarrow> Inl e))"

definition store_lock :: "path \<Rightarrow> bytes \<Rightarrow> unit store_io" where
  "store_lock cached bs =
     io_bind (temporary_path cached) (\<lambda>temporary.
     io_bind (io_try
       (io_bind (io_of (file_create temporary)) (\<lambda>_.
        io_bind (io_map_err WriteFailed (file_append temporary bs)) (\<lambda>_.
        io_bind (io_map_err WriteFailed (sync_all temporary)) (\<lambda>_.
          io_of (rename_path temporary cached)))))) (\<lambda>r.
     io_bind (if is_ok r then io_return () else io_ignore (remove_file temporary)) (\<lambda>_.
       io_lift r)))"

fun fetch_lock ::
  "nat \<Rightarrow> nat \<Rightarrow> 'v lock_codec \<Rightarrow> string \<Rightarrow> string \<Rightarrow> string \<Rightarrow> path \<Rightarrow> bytes store_io" where
  "fetch_lock 0 attempt codec tag url bridge cached = io_fail Unreachable"
| "fetch_lock (Suc remaining) attempt codec tag url bridge cached =
     (let retry = io_bind (sleep_ms (200 * attempt)) (\<lambda>_.
            fetch_lock remaining (Suc attempt) codec tag url bridge cached) in
      io_bind (http_get url) (\<lambda>reply.
        case reply of
          HttpError e \<Rightarrow>
            if retryable_download_error e \<and> attempt < DOWNLOAD_ATTEMPTS then retry
            else if e = StatusCode 404 then io_fail (LockUnavailable tag)
            else io_fail (LockRetrieval e)
        | HttpBody received failure \<Rightarrow>
            (case lock_body received failure of
               Inl e \<Rightarrow>
                 if retryable_io_error e \<and> attempt < DOWNLOAD_ATTEMPTS then retry
                 else io_fail (LockRead e)
             | Inr bs \<Rightarrow>
                 if MAX_RELEASE_LOCK_BYTES < length bs then io_fail LockTooLarge
                 else
                   io_bind (lock_of (validate_release_lock codec bs tag bridge)) (\<lambda>_.
                   io_bind (store_lock cached bs) (\<lambda>_. io_return bs)))))"

definition load_release_lock ::
  "'v lock_codec \<Rightarrow> string \<Rightarrow> string \<Rightarrow> string \<Rightarrow> bytes store_io" where
  "load_release_lock codec tag url bridge =
     io_bind (lock_of (validate_release_tag tag)) (\<lambda>_.
     io_bind io_host (\<lambda>h.
     io_bind (io_lift (ok_or (cache_directory h) NoCacheDirectory)) (\<lambda>base.
     let directory = base @ [''release-locks'']; cached = directory @ [tag @ ''.json''];
       continue = (if offline h then io_fail (OfflineLock tag)
         else fetch_lock DOWNLOAD_ATTEMPTS 1 codec tag url bridge cached) in
     io_bind (io_of (create_dir_all directory)) (\<lambda>_.
     io_bind (is_regular_file cached) (\<lambda>present.
     io_bind (if present then io_try (symlink_metadata cached) else io_return (Inl OtherIo)) (\<lambda>meta.
       case meta of
         Inr (File b) \<Rightarrow>
           if length b \<le> MAX_RELEASE_LOCK_BYTES then
             io_bind (io_of (fs_read cached)) (\<lambda>bs.
               if is_ok (validate_release_lock codec bs tag bridge) then io_return bs
               else continue)
           else continue
       | _ \<Rightarrow> continue))))))"

definition resolve_tagged ::
  "toolkit \<Rightarrow> unpack \<Rightarrow> 'v lock_codec \<Rightarrow> string \<Rightarrow> string \<Rightarrow> string \<Rightarrow> string \<Rightarrow> path store_io" where
  "resolve_tagged tk unpack codec tag bridge cargo_target flavor =
     io_bind io_host (\<lambda>h.
       if h_env h ARTIFACT_DIR_ENV \<noteq> None then resolve tk unpack codec [] bridge cargo_target flavor
       else if artifact_target cargo_target = None then
         resolve tk unpack codec [] bridge cargo_target flavor
       else
         io_bind (lock_of (release_tag tag cargo_target)) (\<lambda>tag.
         io_bind (load_release_lock codec tag
             (RELEASE_URL_PREFIX @ tag @ ''/artifacts.lock.json'') bridge) (\<lambda>lock.
           resolve tk unpack codec lock bridge cargo_target flavor)))"

subsection \<open>Calls that send nothing\<close>

lemma within_host [frame_rules]: "io_within (touches P) h io_host" "io_within silent h io_host"
  by (simp_all add: io_within_def touches_def silent_def io_host_def)

lemma within_store [frame_rules]:
  "io_within (touches P) h (sha256_file tk p)" "io_within silent h (sha256_file tk p)"
  "io_within (touches P) h (io_check ok e)" "io_within silent h (io_check ok e)"
  unfolding sha256_file_def io_check_def
  by (intro files.within_rules quiet.within_rules frame_rules)+

lemma within_ignore [frame_rules]:
  "io_within (touches P) h m \<Longrightarrow> io_within (touches P) h (io_ignore m)"
  "io_within silent h m \<Longrightarrow> io_within silent h (io_ignore m)"
  unfolding io_ignore_def by (intro files.within_rules quiet.within_rules; assumption)+

lemma within_validate_extracted [frame_rules]:
  "io_within (touches P) h (validate_extracted tk p bridge flavor target ct)"
  "io_within silent h (validate_extracted tk p bridge flavor target ct)"
  unfolding validate_extracted_def
  by (intro files.within_rules quiet.within_rules frame_rules)+

lemma silent_relative_path [frame_rules]: "io_within silent h (validate_relative_path s)"
  unfolding validate_relative_path_def
  by (auto intro!: quiet.within_rules split: option.splits)

lemma silent_write_entry [frame_rules]: "io_within silent h (write_entry output s entry)"
  unfolding write_entry_def
  by (cases "te_kind entry"; simp; intro quiet.within_rules frame_rules)

lemma silent_extract_entries: "io_within silent h (extract_entries d paths es)"
proof (induction es arbitrary: paths)
  case (Cons e es)
  show ?case
    by (cases e; simp; intro quiet.within_rules frame_rules Cons.IH)
qed (simp add: quiet.within_return)

lemma silent_extract [frame_rules]: "io_within silent h (extract_safely unpack archive d)"
  unfolding extract_safely_def
  by (intro quiet.within_rules frame_rules silent_extract_entries)

lemma silent_ensure_extracted [frame_rules]:
  "io_within silent h (ensure_extracted tk unpack archive d bridge flavor target ct)"
  unfolding ensure_extracted_def
  by (intro quiet.within_rules frame_rules)

lemma within_case_pair: "(\<And>a b. io_within R h (f a b)) \<Longrightarrow> io_within R h (case p of (a, b) \<Rightarrow> f a b)"
  by (cases p) simp

lemma within_host_bind:
  "io_within R h (k h) \<Longrightarrow> io_within R h (io_bind io_host k)"
  by (simp add: io_within_def io_bind_def io_host_def)

lemma silent_resolve_offline:
  assumes "offline h"
  shows "io_within silent h (resolve tk unpack codec lock_bytes bridge ct flavor)"
proof -
  have cached: "io_within silent h (resolve_cached tk unpack url archive extracted sha bridge flavor target ct)"
    for url archive extracted sha target
    unfolding resolve_cached_def
    by (intro quiet.within_rules frame_rules within_host_bind) (simp_all add: assms quiet.within_fail)
  show ?thesis
    unfolding resolve_def tag_directory_def
    by (intro quiet.within_rules frame_rules within_host_bind within_case_pair cached)
qed

lemma silent_load_offline:
  assumes "offline h"
  shows "io_within silent h (load_release_lock codec tag url bridge)"
  unfolding load_release_lock_def Let_def
  by (intro quiet.within_rules frame_rules within_host_bind)
    (auto simp: assms intro!: quiet.within_rules frame_rules split: sum.splits node.splits)

text \<open>C40. Offline builds stay offline: with either offline variable set, resolving an artifact sends
  no request and never sleeps, whether or not it succeeds and whatever calls fail.\<close>

theorem offline_sends_nothing:
  assumes "offline h"
    and "resolve_tagged tk unpack codec tag bridge ct flavor h w = (r, w')"
  shows "w_requests w' = w_requests w \<and> w_sleeps w' = w_sleeps w"
proof -
  have "io_within silent h (resolve_tagged tk unpack codec tag bridge ct flavor)"
    unfolding resolve_tagged_def
    by (intro quiet.within_rules within_host_bind silent_resolve_offline silent_load_offline assms(1))
  from io_withinD [OF this assms(2)] show ?thesis by (simp add: silent_def)
qed

subsection \<open>Extraction stays inside its directory\<close>

text \<open>The directory and everything above it exist.\<close>

definition rooted :: "path \<Rightarrow> fs \<Rightarrow> bool" where
  "rooted d fs \<longleftrightarrow> list_all (\<lambda>q. fs q = Some Dir) (ancestors d)"

text \<open>While \<open>base\<close> stands, only paths in \<open>P\<close> change and \<open>base\<close> keeps standing.\<close>

definition confined :: "path \<Rightarrow> (path \<Rightarrow> bool) \<Rightarrow> machine \<Rightarrow> machine \<Rightarrow> bool" where
  "confined base P w w' \<longleftrightarrow> (rooted base (w_fs w) \<longrightarrow> touches P w w' \<and> rooted base (w_fs w'))"

definition avoids :: "path \<Rightarrow> (path \<Rightarrow> bool) \<Rightarrow> bool" where
  "avoids base P \<longleftrightarrow> (\<forall>q. q \<noteq> [] \<longrightarrow> prefix q base \<longrightarrow> \<not> P q)"

definition reaches :: "path \<Rightarrow> (path \<Rightarrow> bool) \<Rightarrow> path \<Rightarrow> bool" where
  "reaches base P p \<longleftrightarrow> (\<forall>q. q \<noteq> [] \<longrightarrow> prefix q p \<longrightarrow> prefix q base \<or> P q)"

interpretation inside: world_frame "confined base P" for base P
  by unfold_locales (auto simp: confined_def touches_def)

lemma ancestors_iff: "q \<in> set (ancestors p) \<longleftrightarrow> q \<noteq> [] \<and> prefix q p"
proof
  assume "q \<in> set (ancestors p)"
  then obtain n where "q = take n p" "1 \<le> n" "n \<le> length p" by auto
  then show "q \<noteq> [] \<and> prefix q p" by (auto simp: take_is_prefix)
next
  assume q: "q \<noteq> [] \<and> prefix q p"
  then have eq: "q = take (length q) p" and le: "length q \<le> length p"
    by (auto simp: prefix_def)
  have "1 \<le> length q" using q by (cases q) auto
  with le have "length q \<in> set [1..<Suc (length p)]" by auto
  with eq show "q \<in> set (ancestors p)" unfolding ancestors.simps set_map by blast
qed

declare ancestors.simps [simp del]

lemma rooted_iff: "rooted d fs \<longleftrightarrow> (\<forall>q. q \<noteq> [] \<longrightarrow> prefix q d \<longrightarrow> fs q = Some Dir)"
  by (auto simp: rooted_def list_all_iff ancestors_iff)

lemma confined_touches:
  assumes "avoids base P" "io_within (touches P) h m"
  shows "io_within (confined base P) h m"
proof -
  have "rooted base (w_fs w')" if "touches P w w'" "rooted base (w_fs w)" for w w'
    using that assms(1) unfolding rooted_iff touches_def avoids_def by metis
  with assms(2) show ?thesis by (auto simp: io_within_def confined_def)
qed

lemma create_dir_all_run:
  assumes "create_dir_all p h w = (r, w')"
  shows "(\<forall>q. w_fs w' q = (if r = Inr () \<and> q \<noteq> [] \<and> prefix q p then Some Dir else w_fs w q))
    \<and> (r = Inr () \<longrightarrow> (\<forall>q. q \<noteq> [] \<longrightarrow> prefix q p \<longrightarrow> w_fs w q = None \<or> w_fs w q = Some Dir))"
  using assms
  by (auto simp: create_dir_all_def fs_call_def Let_def ancestors_iff list_all_iff
      split: option.splits if_splits)

lemma confined_create_dirs:
  assumes "reaches base P p"
  shows "io_within (confined base P) h (create_dir_all p)"
  unfolding io_within_def
proof
  fix w
  obtain r w' where run: "create_dir_all p h w = (r, w')" by (cases "create_dir_all p h w")
  have "confined base P w w'"
    using create_dir_all_run [OF run] assms
    by (auto simp: confined_def touches_def rooted_iff reaches_def)
  with run show "confined base P w (snd (create_dir_all p h w))" by simp
qed

lemma confined_validate_path: "io_within (confined base P) h (validate_relative_path s)"
  unfolding validate_relative_path_def by (auto intro!: inside.within_rules split: option.splits)

lemma reaches_parent: "reaches base P p \<Longrightarrow> reaches base P (parent p)"
  unfolding reaches_def parent_def by (meson prefix_order.trans prefixeq_butlast)

lemma confined_write_entry:
  assumes "avoids base P" "reaches base P out" "P out"
  shows "io_within (confined base P) h (write_entry out s entry)"
  unfolding write_entry_def
  by (cases "te_kind entry"; simp;
      intro inside.within_rules confined_create_dirs confined_touches frame_rules reaches_parent assms)

lemma validate_path_Inr:
  "validate_relative_path s h w = (Inr p, w') \<longleftrightarrow> s \<noteq> [] \<and> all_normal (path_components s) = Some p \<and> w' = w"
  by (auto simp: validate_relative_path_def run_simps split: option.splits)

lemma split_on_nonempty: "split_on c s \<noteq> []"
  by (induction s) (auto split: list.splits)

lemma components_normal_nonempty:
  "s \<noteq> [] \<Longrightarrow> all_normal (path_components s) = Some p \<Longrightarrow> p \<noteq> []"
proof
  assume s: "s \<noteq> []" "all_normal (path_components s) = Some p" "p = []"
  have none: "all_normal cs = Some [] \<Longrightarrow> cs = []" for cs
    by (cases cs rule: all_normal.cases) auto
  obtain x xs where x: "split_on CHR ''/'' s = x # xs"
    using split_on_nonempty [of "CHR ''/''" s] by (cases "split_on CHR ''/'' s") simp_all
  with s none [of "path_components s"] show False
    by (cases "x = []") (auto simp: path_components_def path_piece_def split: if_splits)
qed

lemma confined_extract_entries:
  assumes "avoids base P" "reaches base P d" "\<And>q. strict_prefix d q \<Longrightarrow> P q"
  shows "io_within (confined base P) h (extract_entries d paths es)"
proof (induction es arbitrary: paths)
  case (Cons e es)
  have below: "reaches base P (d @ p)" "P (d @ p)" if "p \<noteq> []" for p
  proof -
    show "P (d @ p)" using that by (intro assms(3)) (simp add: prefix_order.less_le)
    show "reaches base P (d @ p)"
      unfolding reaches_def
    proof (intro allI impI)
      fix q assume q: "q \<noteq> []" "prefix q (d @ p)"
      then have "prefix q d \<or> strict_prefix d q"
        using prefix_same_cases [of q "d @ p" d] by (auto simp: prefix_order.less_le)
      with q(1) assms(2,3) show "prefix q base \<or> P q" unfolding reaches_def by blast
    qed
  qed
  show ?case
    by (cases e; simp; intro inside.within_rules confined_validate_path confined_write_entry assms(1)
        Cons.IH; use below components_normal_nonempty in \<open>auto simp: validate_path_Inr\<close>)
qed (simp add: inside.within_return)

lemma confined_extract:
  assumes "avoids base P" "reaches base P d" "\<And>q. strict_prefix d q \<Longrightarrow> P q"
  shows "io_within (confined base P) h (extract_safely unpack archive d)"
  unfolding extract_safely_def
  by (intro inside.within_rules confined_touches frame_rules confined_extract_entries assms)

lemma avoids_below: "avoids d (strict_prefix d)"
  unfolding avoids_def by (metis prefix_order.less_le_not_le)

lemma reaches_base: "reaches d P d"
  by (simp add: reaches_def)

subsection \<open>What extraction writes\<close>

lemma file_create_Inr:
  "file_create p h w = (Inr u, w') \<Longrightarrow>
     w_fs w' = (w_fs w)(p \<mapsto> File []) \<and> (w_fs w p = None \<or> (\<exists>b. w_fs w p = Some (File b)))"
  by (auto simp: file_create_def fs_call_Inr split: if_splits option.splits node.splits)

lemma file_append_Inr:
  "file_append p b h w = (Inr u, w') \<Longrightarrow>
     \<exists>a. w_fs w p = Some (File a) \<and> w_fs w' = (w_fs w)(p \<mapsto> File (a @ b))"
  by (auto simp: file_append_def Let_def split: option.splits node.splits)

definition entry_written :: "tar_entry \<Rightarrow> node option \<Rightarrow> bool" where
  "entry_written entry n \<longleftrightarrow>
     (case te_kind entry of
        DirEntry \<Rightarrow> n = Some Dir
      | FileEntry \<Rightarrow> n = Some (File (te_contents entry)) \<and> te_read_error entry = None
      | OtherEntry \<Rightarrow> False)"

lemma write_entry_Inr:
  assumes "write_entry out s entry h w = (Inr u, w')" "out \<noteq> []"
  shows "entry_written entry (w_fs w' out)
    \<and> (\<forall>q n. q \<noteq> out \<longrightarrow> w_fs w q = Some n \<longrightarrow> w_fs w' q = Some n)"
proof (cases "te_kind entry")
  case DirEntry
  then have "create_dir_all out h w = (Inr u, w')"
    using assms(1) by (simp add: write_entry_def io_map_err_Inr)
  from create_dir_all_run [OF this] DirEntry assms(2) show ?thesis
    by (auto simp: entry_written_def split: if_splits)
next
  case FileEntry
  then obtain w1 w2 where run: "create_dir_all (parent out) h w = (Inr (), w1)"
      "file_create out h w1 = (Inr (), w2)" "file_append out (te_contents entry) h w2 = (Inr (), w')"
      "te_read_error entry = None"
    using assms(1)
    by (auto simp: write_entry_def io_bind_Inr io_map_err_Inr run_simps split: option.splits)
  from create_dir_all_run [OF run(1)] file_create_Inr [OF run(2)] file_append_Inr [OF run(3)] run(4)
    FileEntry show ?thesis
    by (auto simp: entry_written_def split: if_splits)
qed (use assms in \<open>simp add: write_entry_def run_simps\<close>)

lemma extract_entries_Inr:
  assumes "extract_entries d paths es h w = (Inr u, w')"
    and "\<And>p. p \<in> set paths \<Longrightarrow> w_fs w (d @ p) \<noteq> None" and "d \<noteq> []"
  shows "(\<forall>e\<in>set es. \<exists>entry s p. e = Some entry \<and> te_path entry = Some s
      \<and> all_normal (path_components s) = Some p \<and> p \<notin> set paths
      \<and> entry_written entry (w_fs w' (d @ p)))
    \<and> (\<forall>p\<in>set paths. w_fs w' (d @ p) = w_fs w (d @ p))"
  using assms
proof (induction es arbitrary: paths w)
  case (Cons e es)
  obtain entry s p w1 where e: "e = Some entry" "te_path entry = Some s" "s \<noteq> []"
      "all_normal (path_components s) = Some p" "p \<notin> set paths"
      and run: "write_entry (d @ p) s entry h w = (Inr (), w1)"
        "extract_entries d (p # paths) es h w1 = (Inr u, w')"
    using Cons.prems(1)
    by (cases e) (auto simp: io_bind_Inr run_simps validate_path_Inr split: option.splits if_splits)
  note written = write_entry_Inr [OF run(1)]
  have keep: "w_fs w1 (d @ q) = w_fs w (d @ q)" if "q \<in> set paths" for q
    using written Cons.prems(2,3) that e(5) by (metis append_is_Nil_conv append_same_eq not_Some_eq same_append_eq)
  have some: "w_fs w1 (d @ p) \<noteq> None"
    using written Cons.prems(3) by (auto simp: entry_written_def split: entry_kind.splits)
  have "w_fs w1 (d @ q) \<noteq> None" if "q \<in> set (p # paths)" for q
    using that keep Cons.prems(2) some by auto
  from Cons.IH [OF run(2) this Cons.prems(3)] keep written Cons.prems(3) e show ?case
    by auto
qed (simp add: run_simps)

text \<open>C39. Extraction is exact and confined.  Whatever the archive and whatever fails, nothing outside
  the destination directory is touched.  When it succeeds, the archive was readable to its end,
  every entry named a relative path of plain names, no two entries the same one, every entry was a
  directory or a regular file, and each file below the destination holds exactly its contents.\<close>

theorem extraction_exact_and_confined:
  assumes "extract_safely unpack archive d h w = (r, w')" and "d \<noteq> []" and "rooted d (w_fs w)"
  shows "(\<forall>q. \<not> strict_prefix d q \<longrightarrow> w_fs w' q = w_fs w q)
    \<and> (r = Inr () \<longrightarrow> (\<exists>bs entries. w_fs w archive = Some (File bs) \<and> unpack bs = Some entries
        \<and> (\<forall>e\<in>set entries. \<exists>entry s p. e = Some entry \<and> te_path entry = Some s
            \<and> all_normal (path_components s) = Some p \<and> entry_written entry (w_fs w' (d @ p)))))"
proof -
  have "touches (strict_prefix d) w w'"
    using io_withinD [OF confined_extract [OF avoids_below reaches_base] assms(1)] assms(3)
    by (simp add: confined_def)
  moreover have "\<exists>bs entries. w_fs w archive = Some (File bs) \<and> unpack bs = Some entries
        \<and> (\<forall>e\<in>set entries. \<exists>entry s p. e = Some entry \<and> te_path entry = Some s
            \<and> all_normal (path_components s) = Some p \<and> entry_written entry (w_fs w' (d @ p)))"
    if ok: "r = Inr ()"
  proof -
    obtain bs w1 entries where run: "fs_read archive h w = (Inr bs, w1)" "unpack bs = Some entries"
        "extract_entries d [] entries h w1 = (Inr (), w')"
      using assms(1) ok
      by (auto simp: extract_safely_def io_bind_Inr io_map_err_Inr run_simps split: option.splits)
    with fs_read_Inr [OF run(1)] extract_entries_Inr [OF run(3) _ assms(2)] show ?thesis
      by (intro exI [of _ bs] exI [of _ entries]) fastforce
  qed
  ultimately show ?thesis unfolding touches_def by blast
qed


subsection \<open>Validated trees\<close>

definition artifact_valid ::
  "toolkit \<Rightarrow> fs \<Rightarrow> path \<Rightarrow> string \<Rightarrow> string \<Rightarrow> string \<Rightarrow> string \<Rightarrow> bool" where
  "artifact_valid tk fs p bridge flavor target ct \<longleftrightarrow>
     fs p = Some Dir
     \<and> (case fs (p @ [''manifest.json'']) of
          Some (File bs) \<Rightarrow>
            (case manifest_parse_and_validate tk bs bridge flavor target ct of
               Inr m \<Rightarrow> payloads_valid tk m p fs
             | Inl _ \<Rightarrow> False)
        | _ \<Rightarrow> False)"

lemma io_check_Inr: "io_check ok e h w = (Inr u, w') \<longleftrightarrow> ok \<and> w' = w"
  by (auto simp: io_check_def run_simps)

lemma io_bindE:
  assumes "io_bind m k h w = (Inr b, w'')"
  obtains a w' where "m h w = (Inr a, w')" "k a h w' = (Inr b, w'')"
  using assms by (auto simp: io_bind_Inr)

lemma validate_extracted_Inr:
  assumes "validate_extracted tk p bridge flavor target ct h w = (Inr m, w')"
  shows "artifact_valid tk (w_fs w) p bridge flavor target ct \<and> w_fs w' = w_fs w"
proof -
  have same: "w_fs w' = w_fs w"
    using io_withinD [OF within_validate_extracted(1) [of "\<lambda>_. False"] assms] by (simp add: reads_fs)
  obtain root w1 w2 bs w3 w4 w5 where meta: "symlink_metadata p h w = (root, w1)"
      and dir: "case root of Inr n \<Rightarrow> n = Dir | Inl _ \<Rightarrow> False"
      and run:
      "is_regular_file (p @ [''manifest.json'']) h w1 = (Inr True :: (store_error, bool) result, w2)"
      "fs_read (p @ [''manifest.json'']) h w2 = (Inr bs, w3)"
      "manifest_parse_and_validate tk bs bridge flavor target ct = Inr m"
      "is_regular_file (p @ path_of_member (na_member (am_archive m))) h w3 = (Inr True :: (store_error, bool) result, w4)"
      "validate_payloads tk m p h w4 = (Inr (), w5)"
    using assms unfolding validate_extracted_def
    by (elim io_bindE) (simp add: io_map_err_Inr io_try_Inr io_check_Inr run_simps)
  have root: "root = Inr Dir" using dir by (cases root) auto
  have "w_fs w4 = w_fs w" "w_fs w p = Some Dir" "w_fs w (p @ [''manifest.json'']) = Some (File bs)"
    using symlink_metadata_Inr [of p h w Dir w1] meta root is_regular_file_run [OF run(1)]
      fs_read_Inr [OF run(2)] is_regular_file_run [OF run(4)] by simp_all
  moreover have "payloads_valid tk m p (w_fs w4)"
    by (rule payloads_checked [OF run(5)])
  ultimately show ?thesis using same run(3) by (simp add: artifact_valid_def)
qed

text \<open>The paths an extraction of \<open>d\<close> may use: its own tree and its temporary siblings'.\<close>

definition extraction_site :: "host \<Rightarrow> path \<Rightarrow> path \<Rightarrow> bool" where
  "extraction_site h d q \<longleftrightarrow>
     prefix d q \<or> (\<exists>n. prefix (parent d @ [temporary_name (List.last d) (h_pid h) n]) q)"

lemma site_avoids: "d \<noteq> [] \<Longrightarrow> avoids (parent d) (extraction_site h d)"
  unfolding avoids_def extraction_site_def parent_def
  by (cases d rule: rev_cases) (auto dest!: prefix_length_le prefix_order.trans)

lemma temporary_path_Inr:
  "temporary_path d h w = (Inr t, w') \<Longrightarrow>
     \<exists>n. t = parent d @ [temporary_name (List.last d) (h_pid h) n]"
  by (auto simp: temporary_path_def)

lemma confined_ensure_extracted:
  assumes "d \<noteq> []"
  shows "io_within (confined (parent d) (extraction_site h d)) h
    (ensure_extracted tk unpack archive d bridge flavor target ct)"
proof -
  have site: "prefix d q \<Longrightarrow> extraction_site h d q"
    "prefix (parent d @ [temporary_name (List.last d) (h_pid h) n]) q \<Longrightarrow> extraction_site h d q" for q n
    unfolding extraction_site_def by blast+
  have reach: "reaches (parent d) (extraction_site h d) (parent d @ [temporary_name (List.last d) (h_pid h) n])" for n
    unfolding reaches_def using site(2) by (auto simp: prefix_snoc)
  have fresh: "prefix t q \<Longrightarrow> extraction_site h d q" "strict_prefix t q \<Longrightarrow> extraction_site h d q"
      "extraction_site h d t" "reaches (parent d) (extraction_site h d) t"
    if "temporary_path d h w = (Inr t, w')" for t q w w'
    using temporary_path_Inr [OF that] site(2) reach by (auto dest: prefix_order.less_imp_le)
  have own: "extraction_site h d d" by (rule site(1)) simp
  show ?thesis
    unfolding ensure_extracted_def
    by (intro inside.within_rules files.within_if confined_extract site_avoids assms
        confined_touches [OF site_avoids [OF assms]] frame_rules)
      (use site(1) fresh own in \<open>blast\<close>)+
qed

lemma ensure_extracted_Inr:
  assumes "ensure_extracted tk unpack archive d bridge flavor target ct h w = (Inr p, w')"
  shows "p = d \<and> artifact_valid tk (w_fs w') d bridge flavor target ct"
proof -
  have ok: "is_ok r \<longleftrightarrow> (\<exists>a. r = Inr a)" for r :: "(store_error, 'x) result"
    by (cases r) auto
  have "(\<exists>m w1. validate_extracted tk d bridge flavor target ct h w1 = (Inr m, w')) \<and> p = d"
    using assms unfolding ensure_extracted_def
    by (elim io_bindE; auto simp: io_try_Inr run_simps ok elim!: io_bindE split: if_splits; blast)
  with validate_extracted_Inr show ?thesis by fastforce
qed

end
