(* ===== verification/ArtifactResolve.thy ===== *)
theory ArtifactResolve
  imports ArtifactStore
begin

text \<open>
  What downloading and resolving achieve (\<open>build_support/artifact.rs\<close>, \<open>download\<close> and
  \<open>resolve\<close>): the bounded retry loop and the file it installs, and the soundness of a resolved path
  over the whole chain lock, cache, download, extraction and validation, with the concrete runs
  that witness them.
\<close>

subsection \<open>Downloads\<close>

abbreviation temporary_of :: "host \<Rightarrow> path \<Rightarrow> nat \<Rightarrow> path" where
  "temporary_of h d n \<equiv> parent d @ [temporary_name (List.last d) (h_pid h) n]"

lemma decimal_digits: "decimal n \<noteq> [] \<and> is_ascii_digit (List.last (decimal n))"
proof -
  have "is_ascii_digit (''0123456789'' ! k)" if "k < 10" for k
    unfolding is_ascii_digit_def by (rule nth_mem) (use that in simp)
  then show ?thesis by (cases "n < 10") (subst decimal.simps, simp)+
qed

lemma temporary_differs:
  assumes "d \<noteq> []" "\<not> is_ascii_digit (List.last (List.last d))"
  shows "temporary_of h d n \<noteq> d"
proof
  assume "temporary_of h d n = d"
  then have "List.last d = temporary_name (List.last d) (h_pid h) n" by (metis last_snoc)
  moreover have "is_ascii_digit (List.last (temporary_name name pid n))" for name pid
    using decimal_digits [of n] by (simp add: temporary_name_def)
  ultimately show False using assms(2) by metis
qed

lemma rename_path_run:
  assumes "rename_path a b h w = (r, w')"
  shows "if r = Inr () then (\<exists>n. w_fs w a = Some n) \<and> w_fs w' = moved a b (w_fs w) else w_fs w' = w_fs w"
  using assms by (auto simp: rename_path_def fs_call_def Let_def split: option.splits if_splits)

lemma copy_body_Inr:
  "copy_body p b f h w = (Inr u, w') \<Longrightarrow> f = None \<and> file_append p b h w = (Inr (), w')"
  by (auto simp: copy_body_def io_map_err_Inr run_simps elim!: io_bindE split: option.splits)

lemma sha256_file_Inr:
  "sha256_file tk p h w = (Inr s, w') \<Longrightarrow> \<exists>b. w_fs w p = Some (File b) \<and> tk_sha256 tk b = s \<and> w_fs w' = w_fs w"
  using fs_read_Inr by (fastforce simp: sha256_file_def io_map_err_Inr run_simps elim!: io_bindE)

lemma fill_Inr:
  assumes "fill_temporary tk t sha b f h w = (Inr u, w')"
  shows "\<exists>c. w_fs w' t = Some (File c) \<and> tk_sha256 tk c = sha"
proof -
  obtain w1 where "sha256_file tk t h w1 = (Inr sha, w')"
    using assms unfolding fill_temporary_def by (auto simp: io_check_Inr elim!: io_bindE)
  from sha256_file_Inr [OF this] show ?thesis by auto
qed

lemma install_run:
  assumes "install_temporary tk t d sha h w = (r, w')"
    and "w_fs w t = Some (File c)" "tk_sha256 tk c = sha"
  shows "case r of Inr _ \<Rightarrow> (\<exists>c. w_fs w' d = Some (File c) \<and> tk_sha256 tk c = sha)
    | Inl e \<Rightarrow> w_fs w' = w_fs w"
proof -
  obtain ren w1 where ren: "rename_path t d h w = (ren, w1)" by (cases "rename_path t d h w")
  let ?rest = "io_bind (is_regular_file d)
        (\<lambda>regular. if \<not> regular then io_fail InstallFailed else io_bind (sha256_file tk d)
          (\<lambda>present. io_check (present = sha) InstallFailed))"
  have run: "(if is_ok ren then io_return () else ?rest) h w1 = (r, w')"
    using assms(1) ren by (simp add: install_temporary_def io_bind_def io_try_def)
  show ?thesis
  proof (cases ren)
    case (Inr v)
    with run rename_path_run [OF ren] assms(2,3) show ?thesis
      by (auto simp: run_simps moved_def)
  next
    case (Inl e)
    then have rest: "?rest h w1 = (r, w')" and w1: "w_fs w1 = w_fs w"
      using run rename_path_run [OF ren] by simp_all
    have reading: "io_within reads h ?rest"
      by (intro files.within_rules frame_rules)
    have same: "w_fs w' = w_fs w"
      using io_withinD [OF reading rest] w1 by (simp add: reads_fs)
    have "\<exists>w2. sha256_file tk d h w2 = (Inr sha, w')" if "r = Inr v" for v
      using rest that by (auto simp: run_simps io_check_Inr elim!: io_bindE split: if_splits; blast)
    with same sha256_file_Inr show ?thesis by (cases r) fastforce+
  qed
qed

lemma within_fill [frame_rules]:
  "P t \<Longrightarrow> io_within (touches P) h (fill_temporary tk t sha b f)"
  "io_within silent h (fill_temporary tk t sha b f)"
  unfolding fill_temporary_def copy_body_def
  by (intro files.within_rules quiet.within_rules frame_rules; assumption)+

lemma within_install [frame_rules]:
  "(\<And>q. prefix t q \<or> prefix d q \<Longrightarrow> P q) \<Longrightarrow> io_within (touches P) h (install_temporary tk t d sha)"
  "io_within silent h (install_temporary tk t d sha)"
  unfolding install_temporary_def
  by (intro files.within_rules quiet.within_rules frame_rules; blast)+

lemma transfer_run:
  assumes "transfer tk t d sha b f h w = (r, w')" "t \<noteq> d"
  shows "case r of Inr _ \<Rightarrow> (\<exists>c. w_fs w' d = Some (File c) \<and> tk_sha256 tk c = sha)
    | Inl e \<Rightarrow> w_fs w' d = w_fs w d"
proof -
  obtain r1 w1 where fill: "fill_temporary tk t sha b f h w = (r1, w1)"
    by (cases "fill_temporary tk t sha b f h w")
  have other: "w_fs w1 d = w_fs w d"
    using io_withinD [OF within_fill(1) [of "\<lambda>q. q = t"] fill] assms(2) by (auto simp: touches_def)
  show ?thesis
  proof (cases r1)
    case (Inl e)
    with assms(1) fill other show ?thesis by (auto simp: transfer_def io_bind_def)
  next
    case (Inr u)
    then obtain c where c: "w_fs w1 t = Some (File c)" "tk_sha256 tk c = sha"
      using fill_Inr fill by metis
    have "install_temporary tk t d sha h w1 = (r, w')"
      using assms(1) fill Inr by (simp add: transfer_def io_bind_def)
    from install_run [OF this c] other show ?thesis by (auto split: sum.splits)
  qed
qed

lemma within_transfer [frame_rules]:
  "(\<And>q. prefix t q \<or> prefix d q \<Longrightarrow> P q) \<Longrightarrow> io_within (touches P) h (transfer tk t d sha b f)"
  "io_within silent h (transfer tk t d sha b f)"
  unfolding transfer_def
  by (intro files.within_rules quiet.within_rules frame_rules; blast)+

text \<open>The count of file-system calls only grows; it names the calls that belong to a run.\<close>

abbreviation later_calls :: "machine \<Rightarrow> machine \<Rightarrow> bool" where
  "later_calls w w' \<equiv> w_calls w \<le> w_calls w'"

interpretation calls: world_frame later_calls
  by unfold_locales simp_all

lemma later_fs_call: "io_within later_calls h (fs_call f)"
  by (auto simp: io_within_def fs_call_def Let_def split: option.splits sum.splits)

lemma later_basic [frame_rules]:
  "io_within later_calls h (symlink_metadata p)" "io_within later_calls h (fs_read p)"
  "io_within later_calls h (sync_all p)" "io_within later_calls h (file_create p)"
  "io_within later_calls h (remove_file p)" "io_within later_calls h (rename_path p q)"
  unfolding symlink_metadata_def fs_read_def sync_all_def file_create_def remove_file_def rename_path_def
  by (rule later_fs_call)+

lemma later_append [frame_rules]: "io_within later_calls h (file_append p b)"
  by (auto simp: io_within_def file_append_def Let_def split: option.splits node.splits)

lemma later_transfer: "io_within later_calls h (transfer tk t d sha b f)"
  unfolding transfer_def fill_temporary_def install_temporary_def copy_body_def sha256_file_def
    is_regular_file_def io_check_def
  by (intro calls.within_rules frame_rules)

text \<open>An answer after which trying again may help: a transient transport error, or a body whose transfer
  was interrupted, by the body's own error or by a failing file-system call of the run.\<close>

definition transient :: "host \<Rightarrow> machine \<Rightarrow> machine \<Rightarrow> http_reply \<Rightarrow> bool" where
  "transient h w w' reply = (case reply of
      HttpError e \<Rightarrow> retryable_download_error e
    | HttpBody _ failure \<Rightarrow> \<exists>e. retryable_io_error e
        \<and> (failure = Some e \<or> (\<exists>n. w_calls w \<le> n \<and> n < w_calls w' \<and> h_faults h n = Some e)))"

lemma transient_mono:
  "transient h w w' reply \<Longrightarrow> w_calls v \<le> w_calls w \<Longrightarrow> w_calls w' \<le> w_calls v' \<Longrightarrow> transient h v v' reply"
  by (cases reply) (auto simp: transient_def intro: order_trans less_le_trans)

lemma file_append_fault:
  "file_append p b h w = (Inl e, w') \<Longrightarrow> e = OtherIo \<or> h_faults h (w_calls w) = Some e"
  "w_calls (snd (file_append p b h w)) = Suc (w_calls w)"
  by (auto simp: file_append_def Let_def split: option.splits node.splits)

lemma install_interruption:
  "install_temporary tk t d sha h w = (Inl e, w') \<Longrightarrow> \<not> is_retryable_interruption e"
  by (auto simp: install_temporary_def io_bind_def io_try_def io_return_def io_fail_def io_check_def
      is_regular_file_def sha256_file_def io_map_err_def is_retryable_interruption_def
      split: prod.splits sum.splits if_splits)

lemma io_bind_Inl:
  "io_bind m k h w = (Inl e, w') \<longleftrightarrow>
     m h w = (Inl e, w') \<or> (\<exists>a w1. m h w = (Inr a, w1) \<and> k a h w1 = (Inl e, w'))"
  by (auto simp: io_bind_def split: prod.splits sum.splits)

lemma map_err_Inl: "io_map_err f m h w = (Inl e, w') \<longleftrightarrow> (\<exists>e'. m h w = (Inl e', w') \<and> e = f e')"
  by (cases "m h w"; cases "fst (m h w)") (auto simp: io_map_err_def)

lemma not_interruption [simp]:
  "\<not> is_retryable_interruption (IoFailed x)" "\<not> is_retryable_interruption (WriteFailed x)"
  "\<not> is_retryable_interruption (ChecksumMismatch c)"
  by (simp_all add: is_retryable_interruption_def)

lemma fill_interruption:
  assumes "fill_temporary tk t sha b f h w = (Inl e, w')" "is_retryable_interruption e"
  shows "\<exists>w1. later_calls w w1 \<and> copy_body t b f h w1 = (Inl e, w')"
proof -
  let ?rest = "io_bind (io_map_err WriteFailed (sync_all t)) (\<lambda>_.
     io_bind (sha256_file tk t) (\<lambda>actual. io_check (actual = sha) (ChecksumMismatch actual)))"
  have sha: "sha256_file tk t h v \<noteq> (Inl e, w')" for v
    using assms(2) by (auto simp: sha256_file_def io_bind_Inl map_err_Inl io_return_def)
  have rest: "?rest h v \<noteq> (Inl e, w')" for v
    using assms(2) sha by (auto simp: io_bind_Inl map_err_Inl io_check_def io_return_def io_fail_def)
  obtain w1 where "file_create t h w = (Inr (), w1)" "io_bind (copy_body t b f) (\<lambda>_. ?rest) h w1 = (Inl e, w')"
    using assms unfolding fill_temporary_def io_bind_Inl [of "io_of (file_create t)"]
    by (auto simp: map_err_Inl io_map_err_Inr)
  then have "copy_body t b f h w1 = (Inl e, w')" "later_calls w w1"
    using rest io_withinD [OF later_basic(4), of t h w "Inr ()" w1] by (auto simp: io_bind_Inl [of "copy_body t b f"])
  then show ?thesis by blast
qed

text \<open>Only copying the body is ever taken for an interruption.\<close>

lemma transfer_interruption:
  assumes "transfer tk t d sha b f h w = (Inl e, w')" "is_retryable_interruption e"
  shows "transient h w w' (HttpBody b f)"
proof -
  have other: "\<not> retryable_io_error OtherIo" by (simp add: retryable_io_error_def)
  from assms install_interruption have fill: "fill_temporary tk t sha b f h w = (Inl e, w')"
    by (auto simp: transfer_def io_bind_def split: prod.splits sum.splits)
  with fill_interruption assms(2) obtain w1 where c: "later_calls w w1" "copy_body t b f h w1 = (Inl e, w')"
    by blast
  then consider (storage) e' where "file_append t b h w1 = (Inl e', w')" "e = copy_error e'"
    | (body) e' where "f = Some e'" "e = copy_error e'"
    by (auto simp: copy_body_def io_bind_Inl map_err_Inl io_return_def io_fail_def split: option.splits)
  then show ?thesis
  proof cases
    case storage
    from storage(2) assms(2) have r: "retryable_io_error e'"
      by (auto simp: copy_error_def is_retryable_interruption_def split: if_splits)
    with file_append_fault(1) [OF storage(1)] other have "h_faults h (w_calls w1) = Some e'" by auto
    moreover have "w_calls w1 < w_calls w'" using file_append_fault(2) [of t b h w1] storage(1) by simp
    ultimately show ?thesis using r c(1) by (auto simp: transient_def)
  next
    case body
    with assms(2) show ?thesis
      by (auto simp: transient_def copy_error_def is_retryable_interruption_def split: if_splits)
  qed
qed

text \<open>What a bounded download leaves behind: how many requests, which pauses, the destination, and why
  it gave up.\<close>

definition requested ::
  "host \<Rightarrow> string \<Rightarrow> nat \<Rightarrow> nat \<Rightarrow> nat \<Rightarrow> machine \<Rightarrow> machine \<Rightarrow> bool" where
  "requested h url attempt k most w w' \<longleftrightarrow>
     1 \<le> k \<and> k \<le> most \<and> w_requests w' = w_requests w @ replicate k url
     \<and> w_sleeps w' = w_sleeps w @ List.map (\<lambda>i. 200 * i) [attempt..<attempt + k - 1]
     \<and> (\<forall>i<k - 1. transient h w w' (h_server h (length (w_requests w) + i)))"

fun gave_up :: "host \<Rightarrow> http_reply \<Rightarrow> nat \<Rightarrow> (store_error, unit) result \<Rightarrow> bool" where
  "gave_up h reply n (Inr u) \<longleftrightarrow> (\<exists>b f. reply = HttpBody b f)"
| "gave_up h reply n (Inl (Transport again m e)) \<longleftrightarrow> m = n \<and> reply = HttpError e
     \<and> again = retryable_download_error e \<and> (again \<longrightarrow> n = DOWNLOAD_ATTEMPTS)"
| "gave_up h reply n (Inl (Transfer again m e)) \<longleftrightarrow> m = n \<and> (\<exists>b f. reply = HttpBody b f)
     \<and> again = is_retryable_interruption e \<and> (again \<longrightarrow> n = DOWNLOAD_ATTEMPTS)"
| "gave_up h reply n (Inl e) \<longleftrightarrow> False"

lemma requested_once:
  "w_requests w' = w_requests w @ [url] \<Longrightarrow> w_sleeps w' = w_sleeps w \<Longrightarrow> requested h url attempt (Suc 0) (Suc most) w w'"
  by (simp add: requested_def)

lemma requested_again:
  assumes "requested h url (Suc attempt) k most w1 w'"
    and "w_requests w1 = w_requests w @ [url]" "w_sleeps w1 = w_sleeps w @ [200 * attempt]"
    and "transient h w w1 (h_server h (length (w_requests w)))" "later_calls w w1" "later_calls w1 w'"
  shows "requested h url attempt (Suc k) (Suc most) w w'"
proof -
  have k: "1 \<le> k" "k \<le> most" "w_requests w' = w_requests w1 @ replicate k url"
      "w_sleeps w' = w_sleeps w1 @ List.map (\<lambda>i. 200 * i) [Suc attempt..<Suc attempt + k - 1]"
      "\<forall>i<k - 1. transient h w1 w' (h_server h (length (w_requests w1) + i))"
    using assms(1) by (simp_all add: requested_def)
  have "[attempt..<attempt + Suc k - 1] = attempt # [Suc attempt..<Suc attempt + k - 1]"
    using k(1) by (simp add: upt_conv_Cons)
  moreover have "transient h w w' (h_server h (length (w_requests w) + i))" if "i < k" for i
  proof (cases i)
    case 0
    with transient_mono [OF assms(4) order_refl assms(6)] show ?thesis by simp
  next
    case (Suc j)
    with k(5) that have "transient h w1 w' (h_server h (length (w_requests w1) + j))" by simp
    from transient_mono [OF this assms(5) order_refl] Suc assms(2) show ?thesis by simp
  qed
  ultimately show ?thesis
    using k assms(2,3) by (simp add: requested_def)
qed

definition good_file :: "toolkit \<Rightarrow> string \<Rightarrow> node option \<Rightarrow> bool" where
  "good_file tk sha n \<longleftrightarrow> (case n of Some (File c) \<Rightarrow> tk_sha256 tk c = sha | _ \<Rightarrow> False)"

lemma good_file_iff: "good_file tk sha n \<longleftrightarrow> (\<exists>c. n = Some (File c) \<and> tk_sha256 tk c = sha)"
  by (auto simp: good_file_def split: option.splits node.splits)

definition delivered :: "toolkit \<Rightarrow> string \<Rightarrow> path \<Rightarrow> ('e, 'a) result \<Rightarrow> machine \<Rightarrow> machine \<Rightarrow> bool" where
  "delivered tk sha d r w w' \<longleftrightarrow>
     (if is_ok r then good_file tk sha (w_fs w' d) else w_fs w' d = w_fs w d)"

lemma http_get_run: "http_get url h w = (Inr (h_server h (length (w_requests w))), w\<lparr>w_requests := w_requests w @ [url]\<rparr>)"
  by (simp add: http_get_def)

text \<open>One turn of the loop: it either ends, having sent one request, or pauses and goes on.\<close>

lemma download_turn:
  fixes remaining attempt :: nat
  assumes "download_from (Suc remaining) attempt tk url d sha h w = (r, w')"
    and "d \<noteq> []" "\<not> is_ascii_digit (List.last (List.last d))"
    and attempt: "attempt \<le> DOWNLOAD_ATTEMPTS"
  obtains
    (ended) "requested h url attempt (Suc 0) (Suc remaining) w w'" "delivered tk sha d r w w'"
      "touches (extraction_site h d) w w'" "gave_up h (h_server h (length (w_requests w))) attempt r"
      "later_calls w w'"
  | (again) w1 where "download_from remaining (Suc attempt) tk url d sha h w1 = (r, w')"
      "attempt < DOWNLOAD_ATTEMPTS" "w_requests w1 = w_requests w @ [url]"
      "w_sleeps w1 = w_sleeps w @ [200 * attempt]" "w_fs w1 d = w_fs w d"
      "touches (extraction_site h d) w w1" "transient h w w1 (h_server h (length (w_requests w)))"
      "later_calls w w1"
proof -
  let ?reply = "h_server h (length (w_requests w))"
  let ?w0 = "w\<lparr>w_requests := w_requests w @ [url]\<rparr>"
  show ?thesis
  proof (cases ?reply)
    case (HttpError e)
    have "(if retryable_download_error e \<and> attempt < DOWNLOAD_ATTEMPTS then
             io_bind (sleep_ms (200 * attempt)) (\<lambda>_.
               download_from remaining (Suc attempt) tk url d sha)
           else io_fail (Transport (retryable_download_error e) attempt e)) h ?w0 = (r, w')"
      using assms(1) HttpError by (simp add: io_bind_def http_get_run)
    note run = this
    show ?thesis
    proof (cases "retryable_download_error e \<and> attempt < DOWNLOAD_ATTEMPTS")
      case True
      with run HttpError show ?thesis
        by (auto simp: io_bind_def sleep_ms_def touches_def transient_def intro: again)
    next
      case False
      with run have out: "r = Inl (Transport (retryable_download_error e) attempt e)" "w' = ?w0"
        by (auto simp: io_fail_def)
      have "requested h url attempt (Suc 0) (Suc remaining) w w'"
        by (rule requested_once) (simp_all add: out)
      with out False attempt HttpError show ?thesis
        by (intro ended) (auto simp: delivered_def touches_def)
    qed
  next
    case (HttpBody received failure)
    define n where "n = w_sequence w"
    define t where "t = temporary_of h d n"
    define w1 where "w1 = ?w0\<lparr>w_sequence := Suc n\<rparr>"
    obtain r2 w2 where tr: "transfer tk t d sha received failure h w1 = (r2, w2)"
      by (cases "transfer tk t d sha received failure h w1")
    have site: "prefix t q \<or> prefix d q \<Longrightarrow> extraction_site h d q" for q
      unfolding extraction_site_def t_def by blast
    have t: "t \<noteq> d" unfolding t_def by (rule temporary_differs [OF assms(2,3)])
    note run = transfer_run [OF tr t]
    have quiet: "w_requests w2 = w_requests w @ [url]" "w_sleeps w2 = w_sleeps w"
      using io_withinD [OF within_transfer(2) tr] by (simp_all add: silent_def w1_def)
    have later: "later_calls w w2" using io_withinD [OF later_transfer tr] by (simp add: w1_def)
    have frame: "touches (extraction_site h d) w w2"
      using io_withinD [OF within_transfer(1) [where P = "extraction_site h d", OF site] tr]
      by (simp add: touches_def w1_def)
    show ?thesis
    proof (cases r2)
      case (Inr u)
      then have "r = Inr ()" "w' = w2"
        using assms(1) HttpBody tr
        by (simp_all add: io_bind_def http_get_run temporary_path_def io_try_def io_return_def
            t_def [symmetric, unfolded n_def] w1_def n_def)
      with run Inr quiet frame later HttpBody show ?thesis
        by (intro ended) (auto simp: requested_once delivered_def good_file_iff)
    next
      case (Inl e)
      define w3 where "w3 = snd (io_ignore (remove_file t) h w2 :: (store_error, unit) result \<times> machine)"
      have ign: "(io_ignore (remove_file t) h w2 :: (store_error, unit) result \<times> machine) = (Inr (), w3)"
        unfolding w3_def by (cases "remove_file t h w2") (simp add: io_ignore_def io_bind_def io_try_def io_return_def)
      have q3: "w_requests w3 = w_requests w @ [url]" "w_sleeps w3 = w_sleeps w"
        using io_withinD [OF within_ignore(2) [OF silent_calls(7)] ign] quiet by (simp_all add: silent_def)
      have rm: "io_within (touches (\<lambda>q. q = t)) h (io_ignore (remove_file t) :: (store_error, unit) io)"
        by (intro within_ignore frame_rules) simp
      have f3: "touches (extraction_site h d) w w3" "w_fs w3 d = w_fs w d"
        using io_withinD [OF rm ign] frame site [of t] run Inl t by (auto simp: touches_def w1_def)
      have "(if is_retryable_interruption e \<and> attempt < DOWNLOAD_ATTEMPTS then
               io_bind (sleep_ms (200 * attempt)) (\<lambda>_. download_from remaining (Suc attempt) tk url d sha)
             else io_fail (Transfer (is_retryable_interruption e) attempt e)) h w3 = (r, w')"
        using assms(1) HttpBody tr Inl ign
        by (simp add: io_bind_def http_get_run temporary_path_def io_try_def
            t_def [symmetric, unfolded n_def] w1_def n_def)
      note rest = this
      have "later_calls w2 w3"
        using io_withinD [OF calls.within_bind [OF calls.within_try [OF later_basic(5)] calls.within_return]]
          ign unfolding io_ignore_def by fastforce
      with later have l3: "later_calls w w2" "later_calls w w3" by simp_all
      show ?thesis
      proof (cases "is_retryable_interruption e \<and> attempt < DOWNLOAD_ATTEMPTS")
        case True
        let ?w4 = "w3\<lparr>w_sleeps := w_sleeps w3 @ [200 * attempt]\<rparr>"
        have "transient h w1 w2 ?reply" using transfer_interruption [OF tr [unfolded Inl]] True HttpBody by simp
        then have "transient h w ?w4 ?reply"
          by (rule transient_mono) (use \<open>later_calls w2 w3\<close> in \<open>simp_all add: w1_def\<close>)
        moreover have "download_from remaining (Suc attempt) tk url d sha h ?w4 = (r, w')"
          using rest True by (simp add: io_bind_def sleep_ms_def)
        ultimately show ?thesis using True q3 f3 l3 by (intro again [of ?w4]) (simp_all add: touches_def)
      next
        case False
        with rest have "r = Inl (Transfer (is_retryable_interruption e) attempt e)" "w' = w3"
          by (auto simp: io_fail_def)
        with False attempt HttpBody q3 f3 l3 show ?thesis
          by (intro ended) (auto simp: requested_once delivered_def)
      qed
    qed
  qed
qed

lemma touches_trans: "touches P w w' \<Longrightarrow> touches P w' w'' \<Longrightarrow> touches P w w''"
  by (rule files.frame_trans)

definition bounded_run ::
  "host \<Rightarrow> string \<Rightarrow> nat \<Rightarrow> nat \<Rightarrow> (store_error, unit) result \<Rightarrow> machine \<Rightarrow> machine \<Rightarrow> bool" where
  "bounded_run h url attempt most r w w' \<longleftrightarrow> later_calls w w' \<and> (\<exists>k. requested h url attempt k most w w'
     \<and> gave_up h (h_server h (length (w_requests w) + (k - 1))) (attempt + (k - 1)) r)"

lemma bounded_run_once:
  "requested h url attempt (Suc 0) most w w' \<Longrightarrow> gave_up h (h_server h (length (w_requests w))) attempt r
     \<Longrightarrow> later_calls w w' \<Longrightarrow> bounded_run h url attempt most r w w'"
  unfolding bounded_run_def by (intro conjI exI [of _ "Suc 0"]) simp_all

lemma bounded_run_again:
  assumes "bounded_run h url (Suc attempt) most r w1 w'" "w_requests w1 = w_requests w @ [url]"
    "w_sleeps w1 = w_sleeps w @ [200 * attempt]" "transient h w w1 (h_server h (length (w_requests w)))"
    "later_calls w w1"
  shows "bounded_run h url attempt (Suc most) r w w'"
proof -
  from assms(1) obtain k where k: "requested h url (Suc attempt) k most w1 w'" "later_calls w1 w'"
    "gave_up h (h_server h (length (w_requests w1) + (k - 1))) (Suc attempt + (k - 1)) r"
    by (auto simp: bounded_run_def)
  from k(1) obtain j where j: "k = Suc j" by (cases k) (auto simp: requested_def)
  with requested_again [OF k(1) assms(2-5) k(2)] k(2,3) assms(2,5) show ?thesis
    unfolding bounded_run_def by (intro conjI exI [of _ "Suc k"]) simp_all
qed

lemma download_from_run:
  assumes "download_from (Suc remaining) attempt tk url d sha h w = (r, w')"
    and "d \<noteq> []" "\<not> is_ascii_digit (List.last (List.last d))"
    and "attempt + remaining = DOWNLOAD_ATTEMPTS"
  shows "bounded_run h url attempt (Suc remaining) r w w' \<and> delivered tk sha d r w w'
    \<and> touches (extraction_site h d) w w'"
  using assms(1,4)
proof (induction remaining arbitrary: attempt w)
  case 0
  then have a: "attempt \<le> DOWNLOAD_ATTEMPTS" by simp
  show ?case
  proof (cases rule: download_turn [OF 0(1) assms(2,3) a, case_names ended again])
    case (again w1)
    with 0(2) show ?thesis by simp
  qed (blast intro: bounded_run_once)
next
  case (Suc remaining)
  then have a: "attempt \<le> DOWNLOAD_ATTEMPTS" by simp
  show ?case
  proof (cases rule: download_turn [OF Suc.prems(1) assms(2,3) a, case_names ended again])
    case (again w1)
    from Suc.IH [OF again(1)] Suc.prems(2) have
        "bounded_run h url (Suc attempt) (Suc remaining) r w1 w'" "delivered tk sha d r w1 w'"
        "touches (extraction_site h d) w1 w'"
      by auto
    with bounded_run_again [OF this(1) again(3,4,7,8)] again(5,6) show ?thesis
      by (auto simp: delivered_def intro: touches_trans split: if_splits)
  qed (blast intro: bounded_run_once)
qed

lemma download_run:
  assumes "download tk url d sha h w = (r, w')" "d \<noteq> []" "\<not> is_ascii_digit (List.last (List.last d))"
  shows "bounded_run h url 1 (Suc 2) r w w' \<and> delivered tk sha d r w w' \<and> touches (extraction_site h d) w w'"
proof -
  have "download_from (Suc 2) 1 tk url d sha h w = (r, w')"
    using assms(1) by (simp add: download_def DOWNLOAD_ATTEMPTS_def numeral_3_eq_3 numeral_2_eq_2)
  from download_from_run [OF this assms(2,3)] show ?thesis by (simp add: DOWNLOAD_ATTEMPTS_def)
qed

text \<open>C38. A download makes one to three requests for the one URL, pausing 200 ms and then 400 ms.  It
  asks again only after a transient transport error or an interrupted transfer, interrupted by the body's
  own error or a failing file-system call of this run, so never after a complete body with the wrong
  digest on sound storage; and it gives up on a transient failure only after the third attempt.  If it
  succeeds the destination holds a file with the expected digest; if it fails the destination is as
  before.  Nothing is touched but the destination and its temporary siblings, and the loop never runs off
  its end.\<close>

theorem download_safe:
  assumes "download tk url d sha h w = (r, w')"
    and "d \<noteq> []" and "\<not> is_ascii_digit (List.last (List.last d))"
  shows "(\<exists>k. 1 \<le> k \<and> k \<le> 3 \<and> w_requests w' = w_requests w @ replicate k url
      \<and> w_sleeps w' = w_sleeps w @ take (k - 1) [200, 400]
      \<and> (\<forall>i<k - 1. transient h w w' (h_server h (length (w_requests w) + i)))
      \<and> gave_up h (h_server h (length (w_requests w) + (k - 1))) k r)
    \<and> (case r of Inr _ \<Rightarrow> \<exists>c. w_fs w' d = Some (File c) \<and> tk_sha256 tk c = sha
       | Inl e \<Rightarrow> w_fs w' d = w_fs w d)
    \<and> (\<forall>q. \<not> extraction_site h d q \<longrightarrow> w_fs w' q = w_fs w q) \<and> r \<noteq> Inl Unreachable"
proof -
  have run: "bounded_run h url 1 (Suc 2) r w w'" and rest: "delivered tk sha d r w w'"
      "touches (extraction_site h d) w w'"
    using download_run [OF assms] by blast+
  from run obtain k where k: "requested h url 1 k (Suc 2) w w'"
      "gave_up h (h_server h (length (w_requests w) + (k - 1))) (1 + (k - 1)) r"
    by (auto simp: bounded_run_def)
  then have "1 \<le> k" "k \<le> 3" by (simp_all add: requested_def)
  then have "k \<in> {1, 2, 3}" by auto
  then have "List.map (\<lambda>i. 200 * i) [1..<1 + k - 1] = take (k - 1) [200, 400]" "1 + (k - 1) = k"
    by (auto simp: upt_rec)
  with k have "\<exists>k. 1 \<le> k \<and> k \<le> 3 \<and> w_requests w' = w_requests w @ replicate k url
      \<and> w_sleeps w' = w_sleeps w @ take (k - 1) [200, 400]
      \<and> (\<forall>i<k - 1. transient h w w' (h_server h (length (w_requests w) + i)))
      \<and> gave_up h (h_server h (length (w_requests w) + (k - 1))) k r"
    unfolding requested_def by (intro exI [of _ k]) simp
  moreover have "r \<noteq> Inl Unreachable" using k(2) by auto
  ultimately show ?thesis using rest
    by (cases r) (auto simp: delivered_def touches_def good_file_iff)
qed

definition busy_host :: host where
  "busy_host = sample_host\<lparr>h_server := (\<lambda>n. if n = 0 then HttpError Timeout else HttpBody [8] None)\<rparr>"

theorem download_safe_witness:
  "\<exists>c. w_fs (snd (download sample_tools ''u'' [''/'', ''a'', ''x.gz''] BRIDGE_SOURCE_SHA256 busy_host sample_machine))
      [''/'', ''a'', ''x.gz''] = Some (File c) \<and> tk_sha256 sample_tools c = BRIDGE_SOURCE_SHA256"
proof -
  let ?run = "download sample_tools ''u'' [''/'', ''a'', ''x.gz''] BRIDGE_SOURCE_SHA256 busy_host sample_machine"
  have "fst ?run = Inr ()" by code_simp
  then obtain w' where run: "?run = (Inr (), w')" by (metis prod.collapse)
  from download_safe [OF run] show ?thesis unfolding run by (simp add: is_ascii_digit_def)
qed

subsection \<open>Resolving\<close>






definition sample_unpack :: unpack where
  "sample_unpack bs = Some
     [Some \<lparr>te_path = Some ''lib/'', te_kind = DirEntry, te_contents = [], te_read_error = None\<rparr>,
      Some \<lparr>te_path = Some ''manifest.json'', te_kind = FileEntry, te_contents = [7], te_read_error = None\<rparr>,
      Some \<lparr>te_path = Some ''lib/libwebrtc.a'', te_kind = FileEntry, te_contents = [8], te_read_error = None\<rparr>,
      Some \<lparr>te_path = Some ''lib/libunwind.a'', te_kind = FileEntry, te_contents = [9], te_read_error = None\<rparr>,
      Some \<lparr>te_path = Some ''LICENSES/webrtc'', te_kind = FileEntry, te_contents = [10], te_read_error = None\<rparr>]"

definition cache_host :: host where
  "cache_host = busy_host\<lparr>h_env := [CACHE_DIR_ENV \<mapsto> ''/c'']\<rparr>"

definition cached_machine :: machine where
  "cached_machine = sample_machine\<lparr>w_fs := (\<lambda>q. case q of
      [_, _, name] \<Rightarrow>
        if name = BRIDGE_SOURCE_SHA256 then Some Dir
        else if name = ''webrtc-core-android-x86_64.tar.gz'' then Some (File [1]) else None
    | _ # _ # name # rest \<Rightarrow>
        if name = BRIDGE_SOURCE_SHA256 then sample_tree ([''/'', ''a''] @ rest) else None
    | _ \<Rightarrow> None)\<rparr>"



definition offline_host :: host where
  "offline_host = cache_host\<lparr>h_env := [CACHE_DIR_ENV \<mapsto> ''/c'', ''CARGO_NET_OFFLINE'' \<mapsto> ''1'']\<rparr>"

theorem offline_sends_nothing_witness:
  "w_requests (snd (resolve_tagged sample_tools sample_unpack sample_codec ''v1'' ''v2'' ''x86_64-linux-android''
     ''core'' offline_host cached_machine)) = []"
proof -
  have "offline offline_host" by code_simp
  then show ?thesis
    using offline_sends_nothing [OF _ prod.collapse [symmetric],
        of offline_host sample_tools sample_unpack sample_codec "''v1''" "''v2''" "''x86_64-linux-android''"
          "''core''" cached_machine]
    by (simp add: cached_machine_def sample_machine_def)
qed

theorem extraction_exact_and_confined_witness:
  "\<exists>w'. extract_safely sample_unpack [''/'', ''a'', ''manifest.json''] [''/'', ''a''] sample_host sample_machine = (Inr (), w')
    \<and> w_fs w' [''/'', ''a'', ''lib'', ''libwebrtc.a''] = Some (File [8]) \<and> w_fs w' [''/''] = Some Dir"
proof -
  let ?run = "extract_safely sample_unpack [''/'', ''a'', ''manifest.json''] [''/'', ''a''] sample_host sample_machine"
  have ok: "fst ?run = Inr ()" by code_simp
  then obtain w' where run: "?run = (Inr (), w')" by (metis prod.collapse)
  have rooted: "rooted [''/'', ''a''] (w_fs sample_machine)" by code_simp
  have content: "w_fs (snd ?run) [''/'', ''a'', ''lib'', ''libwebrtc.a''] = Some (File [8])" by code_simp
  have "\<not> strict_prefix [''/'', ''a''] [''/'']" by simp
  with extraction_exact_and_confined [OF run _ rooted] content run show ?thesis
    by (auto simp: sample_machine_def sample_tree_def)
qed

end
