(* ===== verification/PeerStats.thy ===== *)
theory PeerStats
  imports Prelude
begin

text \<open>
  The typed statistics of a peer (\<open>StatsObserver\<close> of \<open>native/peer.cc\<close>, \<open>StatFields\<close> and
  \<open>stats_record_from_ffi\<close> of \<open>src/peer.rs\<close>).  The native side writes the members a report has as
  named, tagged fields; the Rust side looks each one up by name and tag.  An SDK statistics object
  is its identifier, its time and the members that have a value, integers widened to 64 bits.
\<close>

subsection \<open>Native projection\<close>

datatype stat_value =
    StatText bytes
  | StatUnsigned u64
  | StatSigned i64
  | StatDecimal f64
  | StatFlag bool

datatype stats_class =
    RTCIceCandidatePairStats | RTCTransportStats | RTCInboundRtpStreamStats
  | RTCOutboundRtpStreamStats | RTCDataChannelStats | OtherStats

record sdk_stats =
  ss_class :: stats_class
  ss_id :: bytes
  ss_timestamp_us :: i64
  ss_members :: "(string \<times> stat_value) list"

record ffi_stats_field =
  sf_name :: string
  sf_kind :: u8
  sf_text :: bytes
  sf_unsigned_value :: u64
  sf_signed_value :: i64
  sf_decimal :: f64
  sf_flag :: bool

record ffi_stats_record =
  sr_id :: bytes
  sr_kind :: u8
  sr_timestamp_us :: i64
  sr_fields :: "ffi_stats_field list"

definition EmptyStatsField :: ffi_stats_field where
  "EmptyStatsField = \<lparr>sf_name = [], sf_kind = 0, sf_text = [], sf_unsigned_value = 0,
     sf_signed_value = 0, sf_decimal = 0, sf_flag = False\<rparr>"

fun stats_field :: "string \<Rightarrow> stat_value \<Rightarrow> ffi_stats_field" where
  "stats_field n (StatText t) = EmptyStatsField\<lparr>sf_name := n, sf_kind := 1, sf_text := t\<rparr>"
| "stats_field n (StatDecimal d) = EmptyStatsField\<lparr>sf_name := n, sf_kind := 4, sf_decimal := d\<rparr>"
| "stats_field n (StatFlag b) = EmptyStatsField\<lparr>sf_name := n, sf_kind := 5, sf_flag := b\<rparr>"
| "stats_field n (StatSigned i) =
     EmptyStatsField\<lparr>sf_name := n, sf_kind := 3, sf_signed_value := i\<rparr>"
| "stats_field n (StatUnsigned u) =
     EmptyStatsField\<lparr>sf_name := n, sf_kind := 2, sf_unsigned_value := u\<rparr>"

definition AddStatsField ::
  "ffi_stats_field list \<Rightarrow> string \<Rightarrow> stat_value option \<Rightarrow> ffi_stats_field list" where
  "AddStatsField fs n v =
     (case v of None \<Rightarrow> fs | Some v \<Rightarrow> fs @ [stats_field n v])"

definition NewStatsRecord :: "sdk_stats \<Rightarrow> u8 \<Rightarrow> ffi_stats_record" where
  "NewStatsRecord stats kind = \<lparr>sr_id = ss_id stats, sr_kind = kind,
     sr_timestamp_us = ss_timestamp_us stats, sr_fields = []\<rparr>"

text \<open>The members copied for each class, in the order of the \<open>COPY\<close> lines.\<close>

fun copied_members :: "u8 \<Rightarrow> string list" where
  "copied_members kind =
     (if kind = 1 then [''transport_id'', ''local_candidate_id'', ''remote_candidate_id'', ''state'',
        ''nominated'', ''packets_sent'', ''packets_received'', ''bytes_sent'', ''bytes_received'',
        ''current_round_trip_time'', ''available_outgoing_bitrate'', ''available_incoming_bitrate'']
      else if kind = 2 then [''selected_candidate_pair_id'', ''ice_state'', ''dtls_state'',
        ''packets_sent'', ''packets_received'', ''bytes_sent'', ''bytes_received'']
      else if kind = 3 then [''kind'', ''ssrc'', ''transport_id'', ''mid'', ''packets_received'',
        ''packets_lost'', ''bytes_received'', ''jitter'', ''frames_received'', ''frames_decoded'']
      else if kind = 4 then [''kind'', ''ssrc'', ''transport_id'', ''mid'', ''rid'', ''packets_sent'',
        ''bytes_sent'', ''target_bitrate'', ''frames_encoded'', ''frames_sent'']
      else [''label'', ''protocol'', ''state'', ''data_channel_identifier'', ''messages_sent'',
        ''messages_received'', ''bytes_sent'', ''bytes_received''])"

definition copy_stats :: "u8 \<Rightarrow> sdk_stats \<Rightarrow> ffi_stats_record" where
  "copy_stats kind stat = (NewStatsRecord stat kind)\<lparr>sr_fields :=
     foldl (\<lambda>fs n. AddStatsField fs n (map_of (ss_members stat) n)) []
       (copied_members kind)\<rparr>"

definition copy_class :: "u8 \<Rightarrow> stats_class \<Rightarrow> sdk_stats list \<Rightarrow> ffi_stats_record list" where
  "copy_class kind cls report = map (copy_stats kind) (filter (\<lambda>s. ss_class s = cls) report)"

definition stats_records :: "sdk_stats list \<Rightarrow> ffi_stats_record list" where
  "stats_records report =
     copy_class 1 RTCIceCandidatePairStats report @ copy_class 2 RTCTransportStats report
     @ copy_class 3 RTCInboundRtpStreamStats report
     @ copy_class 4 RTCOutboundRtpStreamStats report @ copy_class 5 RTCDataChannelStats report"

subsection \<open>Decoding\<close>

record candidate_pair_stats =
  cp_id :: bytes
  cp_timestamp_us :: i64
  cp_transport_id :: "bytes option"
  cp_local_candidate_id :: "bytes option"
  cp_remote_candidate_id :: "bytes option"
  cp_state :: "bytes option"
  cp_nominated :: "bool option"
  cp_packets_sent :: "u64 option"
  cp_packets_received :: "u64 option"
  cp_bytes_sent :: "u64 option"
  cp_bytes_received :: "u64 option"
  cp_current_round_trip_time :: "f64 option"
  cp_available_outgoing_bitrate :: "f64 option"
  cp_available_incoming_bitrate :: "f64 option"

record transport_stats =
  ts_id :: bytes
  ts_timestamp_us :: i64
  ts_selected_candidate_pair_id :: "bytes option"
  ts_ice_state :: "bytes option"
  ts_dtls_state :: "bytes option"
  ts_packets_sent :: "u64 option"
  ts_packets_received :: "u64 option"
  ts_bytes_sent :: "u64 option"
  ts_bytes_received :: "u64 option"

record inbound_rtp_stats =
  ir_id :: bytes
  ir_timestamp_us :: i64
  ir_kind :: "bytes option"
  ir_ssrc :: "u64 option"
  ir_transport_id :: "bytes option"
  ir_mid :: "bytes option"
  ir_packets_received :: "u64 option"
  ir_packets_lost :: "i64 option"
  ir_bytes_received :: "u64 option"
  ir_jitter :: "f64 option"
  ir_frames_received :: "u64 option"
  ir_frames_decoded :: "u64 option"

record outbound_rtp_stats =
  or_id :: bytes
  or_timestamp_us :: i64
  or_kind :: "bytes option"
  or_ssrc :: "u64 option"
  or_transport_id :: "bytes option"
  or_mid :: "bytes option"
  or_rid :: "bytes option"
  or_packets_sent :: "u64 option"
  or_bytes_sent :: "u64 option"
  or_target_bitrate :: "f64 option"
  or_frames_encoded :: "u64 option"
  or_frames_sent :: "u64 option"

record data_channel_stats =
  dc_id :: bytes
  dc_timestamp_us :: i64
  dc_label :: "bytes option"
  dc_protocol :: "bytes option"
  dc_state :: "bytes option"
  dc_data_channel_identifier :: "i64 option"
  dc_messages_sent :: "u64 option"
  dc_messages_received :: "u64 option"
  dc_bytes_sent :: "u64 option"
  dc_bytes_received :: "u64 option"

datatype peer_stats_record =
    CandidatePair candidate_pair_stats
  | Transport transport_stats
  | InboundRtp inbound_rtp_stats
  | OutboundRtp outbound_rtp_stats
  | DataChannelStats data_channel_stats

definition field :: "ffi_stats_field list \<Rightarrow> string \<Rightarrow> u8 \<Rightarrow> ffi_stats_field option" where
  "field fs n kind = find (\<lambda>f. sf_name f = n \<and> sf_kind f = kind) fs"

definition field_text :: "ffi_stats_field list \<Rightarrow> string \<Rightarrow> bytes option" where
  "field_text fs n = map_option sf_text (field fs n 1)"

definition field_unsigned :: "ffi_stats_field list \<Rightarrow> string \<Rightarrow> u64 option" where
  "field_unsigned fs n = map_option sf_unsigned_value (field fs n 2)"

definition field_signed :: "ffi_stats_field list \<Rightarrow> string \<Rightarrow> i64 option" where
  "field_signed fs n = map_option sf_signed_value (field fs n 3)"

definition field_decimal :: "ffi_stats_field list \<Rightarrow> string \<Rightarrow> f64 option" where
  "field_decimal fs n = map_option sf_decimal (field fs n 4)"

definition field_flag :: "ffi_stats_field list \<Rightarrow> string \<Rightarrow> bool option" where
  "field_flag fs n = map_option sf_flag (field fs n 5)"

text \<open>\<open>None\<close> is the \<open>unreachable!\<close> of an unknown kind.\<close>

definition stats_record_from_ffi :: "ffi_stats_record \<Rightarrow> peer_stats_record option" where
  "stats_record_from_ffi r =
     (let fs = sr_fields r; i = sr_id r; t = sr_timestamp_us r; kind = sr_kind r in
      if kind = 1 then Some (
        CandidatePair \<lparr>cp_id = i, cp_timestamp_us = t,
          cp_transport_id = field_text fs ''transport_id'',
          cp_local_candidate_id = field_text fs ''local_candidate_id'',
          cp_remote_candidate_id = field_text fs ''remote_candidate_id'',
          cp_state = field_text fs ''state'', cp_nominated = field_flag fs ''nominated'',
          cp_packets_sent = field_unsigned fs ''packets_sent'',
          cp_packets_received = field_unsigned fs ''packets_received'',
          cp_bytes_sent = field_unsigned fs ''bytes_sent'',
          cp_bytes_received = field_unsigned fs ''bytes_received'',
          cp_current_round_trip_time = field_decimal fs ''current_round_trip_time'',
          cp_available_outgoing_bitrate = field_decimal fs ''available_outgoing_bitrate'',
          cp_available_incoming_bitrate = field_decimal fs ''available_incoming_bitrate''\<rparr>)
      else if kind = 2 then Some (
        Transport \<lparr>ts_id = i, ts_timestamp_us = t,
          ts_selected_candidate_pair_id = field_text fs ''selected_candidate_pair_id'',
          ts_ice_state = field_text fs ''ice_state'',
          ts_dtls_state = field_text fs ''dtls_state'',
          ts_packets_sent = field_unsigned fs ''packets_sent'',
          ts_packets_received = field_unsigned fs ''packets_received'',
          ts_bytes_sent = field_unsigned fs ''bytes_sent'',
          ts_bytes_received = field_unsigned fs ''bytes_received''\<rparr>)
      else if kind = 3 then Some (
        InboundRtp \<lparr>ir_id = i, ir_timestamp_us = t, ir_kind = field_text fs ''kind'',
          ir_ssrc = field_unsigned fs ''ssrc'',
          ir_transport_id = field_text fs ''transport_id'',
          ir_mid = field_text fs ''mid'',
          ir_packets_received = field_unsigned fs ''packets_received'',
          ir_packets_lost = field_signed fs ''packets_lost'',
          ir_bytes_received = field_unsigned fs ''bytes_received'',
          ir_jitter = field_decimal fs ''jitter'',
          ir_frames_received = field_unsigned fs ''frames_received'',
          ir_frames_decoded = field_unsigned fs ''frames_decoded''\<rparr>)
      else if kind = 4 then Some (
        OutboundRtp \<lparr>or_id = i, or_timestamp_us = t, or_kind = field_text fs ''kind'',
          or_ssrc = field_unsigned fs ''ssrc'',
          or_transport_id = field_text fs ''transport_id'',
          or_mid = field_text fs ''mid'', or_rid = field_text fs ''rid'',
          or_packets_sent = field_unsigned fs ''packets_sent'',
          or_bytes_sent = field_unsigned fs ''bytes_sent'',
          or_target_bitrate = field_decimal fs ''target_bitrate'',
          or_frames_encoded = field_unsigned fs ''frames_encoded'',
          or_frames_sent = field_unsigned fs ''frames_sent''\<rparr>)
      else if kind = 5 then Some (
        DataChannelStats \<lparr>dc_id = i, dc_timestamp_us = t, dc_label = field_text fs ''label'',
          dc_protocol = field_text fs ''protocol'', dc_state = field_text fs ''state'',
          dc_data_channel_identifier = field_signed fs ''data_channel_identifier'',
          dc_messages_sent = field_unsigned fs ''messages_sent'',
          dc_messages_received = field_unsigned fs ''messages_received'',
          dc_bytes_sent = field_unsigned fs ''bytes_sent'',
          dc_bytes_received = field_unsigned fs ''bytes_received''\<rparr>)
      else None)"

subsection \<open>Reading a report directly\<close>

text \<open>What a decoded member is meant to be: the value the SDK has, when it has one of that type.\<close>

fun text_value :: "stat_value \<Rightarrow> bytes option" where
  "text_value (StatText t) = Some t"
| "text_value _ = None"

fun unsigned_value :: "stat_value \<Rightarrow> u64 option" where
  "unsigned_value (StatUnsigned u) = Some u"
| "unsigned_value _ = None"

fun signed_value :: "stat_value \<Rightarrow> i64 option" where
  "signed_value (StatSigned i) = Some i"
| "signed_value _ = None"

fun decimal_value :: "stat_value \<Rightarrow> f64 option" where
  "decimal_value (StatDecimal d) = Some d"
| "decimal_value _ = None"

fun flag_value :: "stat_value \<Rightarrow> bool option" where
  "flag_value (StatFlag b) = Some b"
| "flag_value _ = None"

definition member :: "(stat_value \<Rightarrow> 'a option) \<Rightarrow> sdk_stats \<Rightarrow> string \<Rightarrow> 'a option" where
  "member val s n = Option.bind (map_of (ss_members s) n) val"

definition read_stats :: "sdk_stats \<Rightarrow> peer_stats_record option" where
  "read_stats s = (case ss_class s of
       RTCIceCandidatePairStats \<Rightarrow> Some (
        CandidatePair \<lparr>cp_id = ss_id s, cp_timestamp_us = ss_timestamp_us s,
          cp_transport_id = member text_value s ''transport_id'',
          cp_local_candidate_id = member text_value s ''local_candidate_id'',
          cp_remote_candidate_id = member text_value s ''remote_candidate_id'',
          cp_state = member text_value s ''state'',
          cp_nominated = member flag_value s ''nominated'',
          cp_packets_sent = member unsigned_value s ''packets_sent'',
          cp_packets_received = member unsigned_value s ''packets_received'',
          cp_bytes_sent = member unsigned_value s ''bytes_sent'',
          cp_bytes_received = member unsigned_value s ''bytes_received'',
          cp_current_round_trip_time = member decimal_value s ''current_round_trip_time'',
          cp_available_outgoing_bitrate = member decimal_value s ''available_outgoing_bitrate'',
          cp_available_incoming_bitrate = member decimal_value s ''available_incoming_bitrate''\<rparr>)
     | RTCTransportStats \<Rightarrow> Some (
        Transport \<lparr>ts_id = ss_id s, ts_timestamp_us = ss_timestamp_us s,
          ts_selected_candidate_pair_id = member text_value s ''selected_candidate_pair_id'',
          ts_ice_state = member text_value s ''ice_state'',
          ts_dtls_state = member text_value s ''dtls_state'',
          ts_packets_sent = member unsigned_value s ''packets_sent'',
          ts_packets_received = member unsigned_value s ''packets_received'',
          ts_bytes_sent = member unsigned_value s ''bytes_sent'',
          ts_bytes_received = member unsigned_value s ''bytes_received''\<rparr>)
     | RTCInboundRtpStreamStats \<Rightarrow> Some (
        InboundRtp \<lparr>ir_id = ss_id s, ir_timestamp_us = ss_timestamp_us s,
          ir_kind = member text_value s ''kind'', ir_ssrc = member unsigned_value s ''ssrc'',
          ir_transport_id = member text_value s ''transport_id'',
          ir_mid = member text_value s ''mid'',
          ir_packets_received = member unsigned_value s ''packets_received'',
          ir_packets_lost = member signed_value s ''packets_lost'',
          ir_bytes_received = member unsigned_value s ''bytes_received'',
          ir_jitter = member decimal_value s ''jitter'',
          ir_frames_received = member unsigned_value s ''frames_received'',
          ir_frames_decoded = member unsigned_value s ''frames_decoded''\<rparr>)
     | RTCOutboundRtpStreamStats \<Rightarrow> Some (
        OutboundRtp \<lparr>or_id = ss_id s, or_timestamp_us = ss_timestamp_us s,
          or_kind = member text_value s ''kind'', or_ssrc = member unsigned_value s ''ssrc'',
          or_transport_id = member text_value s ''transport_id'',
          or_mid = member text_value s ''mid'', or_rid = member text_value s ''rid'',
          or_packets_sent = member unsigned_value s ''packets_sent'',
          or_bytes_sent = member unsigned_value s ''bytes_sent'',
          or_target_bitrate = member decimal_value s ''target_bitrate'',
          or_frames_encoded = member unsigned_value s ''frames_encoded'',
          or_frames_sent = member unsigned_value s ''frames_sent''\<rparr>)
     | RTCDataChannelStats \<Rightarrow> Some (
        DataChannelStats \<lparr>dc_id = ss_id s, dc_timestamp_us = ss_timestamp_us s,
          dc_label = member text_value s ''label'',
          dc_protocol = member text_value s ''protocol'',
          dc_state = member text_value s ''state'',
          dc_data_channel_identifier = member signed_value s ''data_channel_identifier'',
          dc_messages_sent = member unsigned_value s ''messages_sent'',
          dc_messages_received = member unsigned_value s ''messages_received'',
          dc_bytes_sent = member unsigned_value s ''bytes_sent'',
          dc_bytes_received = member unsigned_value s ''bytes_received''\<rparr>)
     | OtherStats \<Rightarrow> None)"

subsection \<open>Correctness\<close>

text \<open>The tag a value is written under.\<close>

fun value_kind :: "stat_value \<Rightarrow> u8" where
  "value_kind (StatText _) = 1"
| "value_kind (StatUnsigned _) = 2"
| "value_kind (StatSigned _) = 3"
| "value_kind (StatDecimal _) = 4"
| "value_kind (StatFlag _) = 5"

lemma stats_field_name [simp]: "sf_name (stats_field n v) = n" "sf_kind (stats_field n v) = value_kind v"
  by (cases v; simp add: EmptyStatsField_def)+

lemma copy_fields:
  "foldl (\<lambda>fs n. AddStatsField fs n (m n)) acc ns
     = acc @ List.map_filter (\<lambda>n. map_option (stats_field n) (m n)) ns"
  by (induction ns arbitrary: acc)
    (auto simp: AddStatsField_def map_filter_simps split: option.splits)

lemma find_copied:
  "field (List.map_filter (\<lambda>n. map_option (stats_field n) (m n)) ns) n k
     = (if n \<in> set ns
        then Option.bind (m n) (\<lambda>v. if value_kind v = k then Some (stats_field n v) else None)
        else None)"
  by (induction ns) (auto simp: field_def map_filter_simps split: option.splits)

lemma bind_kind:
  assumes "\<And>v. (if value_kind v = j then Some (g (stats_field n v)) else None) = h v"
  shows "map_option g (Option.bind x
      (\<lambda>v. if value_kind v = j then Some (stats_field n v) else None)) = Option.bind x h"
  by (cases x) (simp_all add: assms [symmetric])

lemma value_lookup:
  "(if value_kind v = 1 then Some (sf_text (stats_field n v)) else None) = text_value v"
  "(if value_kind v = 2 then Some (sf_unsigned_value (stats_field n v)) else None) = unsigned_value v"
  "(if value_kind v = 3 then Some (sf_signed_value (stats_field n v)) else None) = signed_value v"
  "(if value_kind v = 4 then Some (sf_decimal (stats_field n v)) else None) = decimal_value v"
  "(if value_kind v = 5 then Some (sf_flag (stats_field n v)) else None) = flag_value v"
  by (cases v; simp add: EmptyStatsField_def)+

lemma copied_field:
  assumes "n \<in> set (copied_members k)"
  shows "field_text (sr_fields (copy_stats k s)) n = member text_value s n"
    "field_unsigned (sr_fields (copy_stats k s)) n = member unsigned_value s n"
    "field_signed (sr_fields (copy_stats k s)) n = member signed_value s n"
    "field_decimal (sr_fields (copy_stats k s)) n = member decimal_value s n"
    "field_flag (sr_fields (copy_stats k s)) n = member flag_value s n"
proof -
  have "field (sr_fields (copy_stats k s)) n j = Option.bind (map_of (ss_members s) n)
      (\<lambda>v. if value_kind v = j then Some (stats_field n v) else None)" for j
    using assms by (simp add: copy_stats_def copy_fields find_copied del: copied_members.simps)
  note bind_kind [OF value_lookup(1)] bind_kind [OF value_lookup(2)] bind_kind [OF value_lookup(3)]
    bind_kind [OF value_lookup(4)] bind_kind [OF value_lookup(5)] this
  then show "field_text (sr_fields (copy_stats k s)) n = member text_value s n"
    "field_unsigned (sr_fields (copy_stats k s)) n = member unsigned_value s n"
    "field_signed (sr_fields (copy_stats k s)) n = member signed_value s n"
    "field_decimal (sr_fields (copy_stats k s)) n = member decimal_value s n"
    "field_flag (sr_fields (copy_stats k s)) n = member flag_value s n"
    by (simp_all add: field_text_def field_unsigned_def field_signed_def field_decimal_def
        field_flag_def member_def)
qed

lemma copy_stats_fields [simp]: "sr_id (copy_stats k s) = ss_id s" "sr_kind (copy_stats k s) = k"
    "sr_timestamp_us (copy_stats k s) = ss_timestamp_us s"
  by (simp_all add: copy_stats_def NewStatsRecord_def)

text \<open>The kind each class is written under.\<close>

fun class_kind :: "stats_class \<Rightarrow> u8" where
  "class_kind RTCIceCandidatePairStats = 1"
| "class_kind RTCTransportStats = 2"
| "class_kind RTCInboundRtpStreamStats = 3"
| "class_kind RTCOutboundRtpStreamStats = 4"
| "class_kind RTCDataChannelStats = 5"
| "class_kind OtherStats = 0"

lemma decode_copied:
  "ss_class s \<noteq> OtherStats \<Longrightarrow>
     stats_record_from_ffi (copy_stats (class_kind (ss_class s)) s) = read_stats s"
  by (cases "ss_class s";
      simp add: stats_record_from_ffi_def read_stats_def copied_field Let_def)

lemma copy_class_eq:
  "copy_class (class_kind c) c report
     = map (\<lambda>s. copy_stats (class_kind (ss_class s)) s) (filter (\<lambda>s. ss_class s = c) report)"
  by (simp add: copy_class_def)

definition sorted_report :: "sdk_stats list \<Rightarrow> sdk_stats list" where
  "sorted_report report = concat (map (\<lambda>c. filter (\<lambda>s. ss_class s = c) report)
     [RTCIceCandidatePairStats, RTCTransportStats, RTCInboundRtpStreamStats,
      RTCOutboundRtpStreamStats, RTCDataChannelStats])"

lemma stats_records_eq:
  "stats_records report = map (\<lambda>s. copy_stats (class_kind (ss_class s)) s) (sorted_report report)"
  using copy_class_eq [of RTCIceCandidatePairStats report] copy_class_eq [of RTCTransportStats report]
    copy_class_eq [of RTCInboundRtpStreamStats report]
    copy_class_eq [of RTCOutboundRtpStreamStats report] copy_class_eq [of RTCDataChannelStats report]
  by (simp add: stats_records_def sorted_report_def)

lemma sorted_report_classes: "s \<in> set (sorted_report report) \<Longrightarrow> ss_class s \<noteq> OtherStats"
  by (auto simp: sorted_report_def)

lemma decode_report:
  assumes "s \<in> set (sorted_report report)"
  shows "stats_record_from_ffi (copy_stats (class_kind (ss_class s)) s) = read_stats s"
    "read_stats s \<noteq> None"
  using sorted_report_classes [OF assms]
  by (simp_all add: decode_copied) (simp add: read_stats_def split: stats_class.split)

lemma stats_records_decode: "r \<in> set (stats_records report) \<Longrightarrow> stats_record_from_ffi r \<noteq> None"
  using decode_report by (force simp: stats_records_eq)

text \<open>C29. Decoding the records the native side writes for a report gives, class by class and in the
  report's order, exactly the members the SDK has a value of the expected type for; no record is
  lost, and no kind is unknown.\<close>

theorem stats_survive_the_bridge:
  "map stats_record_from_ffi (stats_records report) = map read_stats (sorted_report report)
   \<and> None \<notin> set (map stats_record_from_ffi (stats_records report))"
  using stats_records_decode [of _ report] decode_report(1) [of _ report]
  by (force simp: stats_records_eq)

end
