(* ===== verification/PeerEvents.thy ===== *)
theory PeerEvents
  imports Readiness CodecValues PeerStats
begin

text \<open>
  The observer state of a peer connection (\<open>EventState\<close> and the observers of
  \<open>native/peer.cc\<close>): the admission of asynchronous operations, the queue of events the owner
  takes, and the handles of remote arrivals.  Every method holds the state's mutex, so each is one
  step; \<open>NotifyOnExit\<close> raises the session's readiness after the lock is released, whatever the
  method did.  A \<open>std::set\<close> of identifiers is its ascending list, an \<open>unordered_map\<close> an
  association list, an SDK reference its address, \<open>None\<close> where it is null.  SDK objects the
  events own (reports, candidates) are addresses too.
\<close>

subsection \<open>Events\<close>

type_synonym pointer = "nat option"

record ice_pair_change =
  pair_transport_name :: bytes
  pair_local :: nat
  pair_remote :: nat
  pair_last_data_received_ms :: i64
  pair_reason :: bytes
  pair_disconnected_ms :: i64
  pair_retained_bytes :: nat

record channel_message =
  cm_unix_timestamp_ms :: i64
  cm_datachannel_id :: i32
  cm_label :: bytes
  cm_direction :: u8
  cm_data_type :: u8
  cm_data :: bytes

record ffi_peer_event =
  fe_kind :: u8
  fe_operation_id :: u64
  fe_has_description :: bool
  fe_sdp_type :: u8
  fe_state :: u8
  fe_ice_state :: i32
  fe_event_id :: u32
  fe_sdp_mline_index :: i32
  fe_port :: i32
  fe_error_code :: i32
  fe_error_type :: u8
  fe_sdp :: bytes
  fe_sdp_mid :: bytes
  fe_candidate :: bytes
  fe_address :: string
  fe_url :: string
  fe_message :: bytes
  fe_pair_change :: ice_pair_change
  fe_channel_message :: channel_message
  fe_stats_report :: pointer
  fe_stats_timestamp_us :: i64
  fe_stats_records :: "ffi_stats_record list"
  fe_legacy_stats :: nat

text \<open>The values of \<open>EventKind\<close>.\<close>

abbreviation (input) kNoEvent :: u8 where "kNoEvent \<equiv> 0"
abbreviation (input) kOperationComplete :: u8 where "kOperationComplete \<equiv> 1"
abbreviation (input) kIceCandidate :: u8 where "kIceCandidate \<equiv> 2"
abbreviation (input) kConnectionState :: u8 where "kConnectionState \<equiv> 3"
abbreviation (input) kSignalingState :: u8 where "kSignalingState \<equiv> 4"
abbreviation (input) kIceGatheringState :: u8 where "kIceGatheringState \<equiv> 5"
abbreviation (input) kNegotiationNeeded :: u8 where "kNegotiationNeeded \<equiv> 6"
abbreviation (input) kIceCandidateError :: u8 where "kIceCandidateError \<equiv> 7"
abbreviation (input) kClosed :: u8 where "kClosed \<equiv> 8"
abbreviation (input) kDataChannel :: u8 where "kDataChannel \<equiv> 9"
abbreviation (input) kTrack :: u8 where "kTrack \<equiv> 10"
abbreviation (input) kTrackRemoved :: u8 where "kTrackRemoved \<equiv> 11"
abbreviation (input) kStatsReport :: u8 where "kStatsReport \<equiv> 12"
abbreviation (input) kLegacyIceConnectionState :: u8 where "kLegacyIceConnectionState \<equiv> 13"
abbreviation (input) kStandardizedIceConnectionState :: u8
  where "kStandardizedIceConnectionState \<equiv> 14"
abbreviation (input) kIceCandidateRemoved :: u8 where "kIceCandidateRemoved \<equiv> 15"
abbreviation (input) kLegacyStatsReport :: u8 where "kLegacyStatsReport \<equiv> 16"
abbreviation (input) kIceSelectedCandidatePairChanged :: u8
  where "kIceSelectedCandidatePairChanged \<equiv> 17"
abbreviation (input) kStreamAdded :: u8 where "kStreamAdded \<equiv> 18"
abbreviation (input) kStreamRemoved :: u8 where "kStreamRemoved \<equiv> 19"
abbreviation (input) kTrackAdded :: u8 where "kTrackAdded \<equiv> 20"
abbreviation (input) kRenegotiationNeeded :: u8 where "kRenegotiationNeeded \<equiv> 21"
abbreviation (input) kIceReceiving :: u8 where "kIceReceiving \<equiv> 22"
abbreviation (input) kInterestingUsage :: u8 where "kInterestingUsage \<equiv> 23"
abbreviation (input) kChannelMessage :: u8 where "kChannelMessage \<equiv> 24"
abbreviation (input) kClosedError :: u8 where "kClosedError \<equiv> 255"

definition EmptyEvent :: ffi_peer_event where
  "EmptyEvent = \<lparr>fe_kind = kNoEvent, fe_operation_id = 0, fe_has_description = False,
     fe_sdp_type = 0, fe_state = 0, fe_ice_state = 0, fe_event_id = 0, fe_sdp_mline_index = 0,
     fe_port = 0, fe_error_code = 0, fe_error_type = 0, fe_sdp = [], fe_sdp_mid = [],
     fe_candidate = [], fe_address = [], fe_url = [], fe_message = [],
     fe_pair_change = \<lparr>pair_transport_name = [], pair_local = 0, pair_remote = 0,
       pair_last_data_received_ms = 0, pair_reason = [], pair_disconnected_ms = 0,
       pair_retained_bytes = 0\<rparr>,
     fe_channel_message = \<lparr>cm_unix_timestamp_ms = 0, cm_datachannel_id = 0, cm_label = [],
       cm_direction = 0, cm_data_type = 0, cm_data = []\<rparr>,
     fe_stats_report = None, fe_stats_timestamp_us = 0, fe_stats_records = [], fe_legacy_stats = 0\<rparr>"

definition ErrorEvent :: "u64 \<Rightarrow> u8 \<Rightarrow> bytes \<Rightarrow> ffi_peer_event" where
  "ErrorEvent i ty message = EmptyEvent\<lparr>fe_kind := kOperationComplete, fe_operation_id := i,
     fe_error_type := ty, fe_message := message\<rparr>"

definition text_bytes :: "string \<Rightarrow> bytes" where
  "text_bytes s = map of_char s"

definition ClosedOperation :: "u64 \<Rightarrow> ffi_peer_event" where
  "ClosedOperation i = EmptyEvent\<lparr>fe_kind := kOperationComplete, fe_operation_id := i,
     fe_error_type := kClosedError, fe_message := text_bytes ''peer connection is closed''\<rparr>"

definition advisory :: "u8 \<Rightarrow> bool" where
  "advisory kind \<longleftrightarrow> kConnectionState \<le> kind \<and> kind \<le> kNegotiationNeeded
     \<or> kRenegotiationNeeded \<le> kind \<and> kind \<le> kIceReceiving"

definition control_bytes :: "ffi_peer_event \<Rightarrow> nat" where
  "control_bytes e = length (cm_label (fe_channel_message e)) + length (cm_data (fe_channel_message e))
     + pair_retained_bytes (fe_pair_change e) + length (fe_sdp e) + length (fe_sdp_mid e)
     + length (fe_candidate e) + length (fe_address e) + length (fe_url e) + length (fe_message e)"

text \<open>The three kinds of terminal events, which the code lists at each place.\<close>

definition terminal_kind :: "u8 \<Rightarrow> bool" where
  "terminal_kind kind \<longleftrightarrow>
     kind = kOperationComplete \<or> kind = kStatsReport \<or> kind = kLegacyStatsReport"

subsection \<open>State\<close>

record legacy_arrival =
  la_receiver :: pointer
  la_owner :: pointer
  la_streams :: "pointer list"

record event_state =
  es_readiness :: readiness
  es_woken :: "waker list"
  es_events :: "ffi_peer_event list"
  es_staged :: "ffi_peer_event option"
  es_retained :: nat
  es_retained_bytes :: nat
  es_dropped :: u64
  es_coalesced :: u64
  es_pending :: "u64 list"
  es_admitted :: "u64 list"
  es_stats_operation :: u64
  es_sdp_operation :: u64
  es_data_channels :: "(u64 \<times> pointer) list"
  es_next_data_channel :: u64
  es_transceivers :: "(u64 \<times> pointer) list"
  es_receivers :: "(u64 \<times> pointer \<times> pointer) list"
  es_legacy :: "(u64 \<times> legacy_arrival) list"
  es_next_media :: u64
  es_closed :: bool

definition event_state_new :: "readiness \<Rightarrow> event_state" where
  "event_state_new signal = \<lparr>es_readiness = signal, es_woken = [], es_events = [],
     es_staged = None, es_retained = 0, es_retained_bytes = 0, es_dropped = 0, es_coalesced = 0,
     es_pending = [], es_admitted = [], es_stats_operation = 0, es_sdp_operation = 0,
     es_data_channels = [], es_next_data_channel = 1, es_transceivers = [], es_receivers = [],
     es_legacy = [], es_next_media = 1, es_closed = False\<rparr>"

definition signal_readiness :: "event_state \<Rightarrow> event_state" where
  "signal_readiness es = (let (w, r) = notify (es_readiness es) in
     es\<lparr>es_readiness := r,
        es_woken := es_woken es @ (case w of None \<Rightarrow> [] | Some w \<Rightarrow> [w])\<rparr>)"

text \<open>\<open>emplace\<close> keeps an entry that is already there.\<close>

definition emplace :: "u64 \<Rightarrow> 'v \<Rightarrow> (u64 \<times> 'v) list \<Rightarrow> (u64 \<times> 'v) list" where
  "emplace k v m = (if k \<in> set (keys m) then m else m @ [(k, v)])"

subsection \<open>Operations\<close>

text \<open>Statuses: 0 accepted, 1 closed, 2 exhausted, 3 previous stats not consumed, 4 another
  SDP callback pending.\<close>

definition begin_locked :: "u64 \<Rightarrow> event_state \<Rightarrow> u8 \<times> event_state" where
  "begin_locked i es =
     (if es_closed es then (1, es)
      else if 64 \<le> length (es_admitted es) \<or> i \<in> set (es_admitted es) then (2, es)
      else (0, es\<lparr>es_admitted := insort_insert i (es_admitted es),
                  es_pending := insort_insert i (es_pending es)\<rparr>))"

definition begin_operation :: "u64 \<Rightarrow> bool \<Rightarrow> event_state \<Rightarrow> u8 \<times> event_state" where
  "begin_operation i sdp es =
     (if \<not> es_closed es \<and> sdp \<and> es_sdp_operation es \<noteq> 0 then (4, es)
      else let (status, es) = begin_locked i es in
        (status, if status = 0 \<and> sdp then es\<lparr>es_sdp_operation := i\<rparr> else es))"

definition begin_stats :: "u64 \<Rightarrow> event_state \<Rightarrow> u8 \<times> event_state" where
  "begin_stats i es =
     (if es_closed es then (1, es)
      else if es_stats_operation es \<noteq> 0 then (3, es)
      else let (status, es) = begin_locked i es in
        (status, if status = 0 then es\<lparr>es_stats_operation := i\<rparr> else es))"

definition reject_stats :: "u64 \<Rightarrow> event_state \<Rightarrow> event_state" where
  "reject_stats i es =
     (let es = es\<lparr>es_pending := remove1 i (es_pending es),
                  es_admitted := remove1 i (es_admitted es)\<rparr>
      in if es_stats_operation es = i then es\<lparr>es_stats_operation := 0\<rparr> else es)"

definition complete :: "ffi_peer_event \<Rightarrow> event_state \<Rightarrow> event_state" where
  "complete e es = signal_readiness
     (if fe_operation_id e \<in> set (es_pending es) then
        es\<lparr>es_pending := remove1 (fe_operation_id e) (es_pending es),
           es_sdp_operation :=
             (if fe_operation_id e = es_sdp_operation es then 0 else es_sdp_operation es),
           es_events := es_events es @ [e]\<rparr>
      else es)"

definition stage_legacy :: "ffi_peer_event \<Rightarrow> event_state \<Rightarrow> event_state" where
  "stage_legacy e es =
     (if fe_operation_id e \<in> set (es_pending es) then es\<lparr>es_staged := Some e\<rparr> else es)"

definition publish_legacy :: "u64 \<Rightarrow> event_state \<Rightarrow> event_state" where
  "publish_legacy i es = signal_readiness
     (case es_staged es of
        None \<Rightarrow> es
      | Some e \<Rightarrow>
          if fe_operation_id e \<noteq> i then es
          else if i \<in> set (es_pending es)
          then es\<lparr>es_pending := remove1 i (es_pending es), es_events := es_events es @ [e],
                  es_staged := None\<rparr>
          else es\<lparr>es_staged := None\<rparr>)"

fun erase_first :: "('a \<Rightarrow> bool) \<Rightarrow> 'a list \<Rightarrow> 'a list" where
  "erase_first P [] = []"
| "erase_first P (x # xs) = (if P x then xs else x # erase_first P xs)"

definition push_control_locked :: "ffi_peer_event \<Rightarrow> event_state \<Rightarrow> bool \<times> event_state" where
  "push_control_locked e es =
     (if advisory (fe_kind e) then
        let es =
          (if list_ex (\<lambda>old. fe_kind old = fe_kind e) (es_events es) then
             es\<lparr>es_events := erase_first (\<lambda>old. fe_kind old = fe_kind e) (es_events es),
                es_coalesced := es_coalesced es + 1\<rparr>
           else es)
        in (True, es\<lparr>es_events := es_events es @ [e]\<rparr>)
      else
        let n = control_bytes e in
        if 128 \<le> es_retained es \<or> 256 * 1024 - es_retained_bytes es < n then
          (False, es\<lparr>es_dropped := es_dropped es + 1\<rparr>)
        else
          (True, es\<lparr>es_retained := es_retained es + 1,
                    es_retained_bytes := es_retained_bytes es + n,
                    es_events := es_events es @ [e]\<rparr>))"

definition push_event :: "ffi_peer_event \<Rightarrow> event_state \<Rightarrow> event_state" where
  "push_event e es = signal_readiness
     (if es_closed es then es else snd (push_control_locked e es))"

definition admit_arrival_locked :: "ffi_peer_event \<Rightarrow> event_state \<Rightarrow> bool \<times> event_state" where
  "admit_arrival_locked e es =
     (if 128 \<le> length (es_data_channels es) + length (es_transceivers es)
           + length (es_receivers es) + length (es_legacy es)
      then (False, es\<lparr>es_dropped := es_dropped es + 1\<rparr>)
      else push_control_locked e es)"

definition observation_of :: "event_state \<Rightarrow> u64 \<times> u64 \<times> nat \<times> nat \<times> nat" where
  "observation_of es =
     (es_dropped es, es_coalesced es,
      es_retained es + length (filter (\<lambda>e. advisory (fe_kind e)) (es_events es)),
      length (es_admitted es), length (es_pending es))"

definition take_event :: "event_state \<Rightarrow> ffi_peer_event \<times> event_state" where
  "take_event es =
     (case es_events es of
        [] \<Rightarrow> (EmptyEvent, es)
      | e # rest \<Rightarrow>
          let es = es\<lparr>es_events := rest\<rparr>;
              es = (if \<not> advisory (fe_kind e) \<and> \<not> terminal_kind (fe_kind e) \<and> fe_kind e \<noteq> kClosed
                    then es\<lparr>es_retained := es_retained es - 1,
                            es_retained_bytes := es_retained_bytes es - control_bytes e\<rparr>
                    else es);
              es = (if terminal_kind (fe_kind e)
                    then es\<lparr>es_admitted := remove1 (fe_operation_id e) (es_admitted es),
                            es_stats_operation :=
                              (if fe_operation_id e = es_stats_operation es then 0
                               else es_stats_operation es)\<rparr>
                    else es)
          in (e, es))"

definition arrival :: "u8 \<Rightarrow> u64 \<Rightarrow> ffi_peer_event" where
  "arrival kind i = EmptyEvent\<lparr>fe_kind := kind, fe_operation_id := i\<rparr>"

definition add_data_channel :: "pointer \<Rightarrow> event_state \<Rightarrow> event_state" where
  "add_data_channel channel es = signal_readiness
     (if es_closed es then es
      else
        let i = es_next_data_channel es;
            es = es\<lparr>es_next_data_channel := i + 1\<rparr>;
            (admitted, es) = admit_arrival_locked (arrival kDataChannel i) es
        in if admitted
           then es\<lparr>es_data_channels := emplace i channel (es_data_channels es)\<rparr> else es)"

definition take_data_channel :: "u64 \<Rightarrow> event_state \<Rightarrow> pointer \<times> event_state" where
  "take_data_channel i es =
     (case map_of (es_data_channels es) i of
        None \<Rightarrow> (None, es)
      | Some channel \<Rightarrow>
          (channel, es\<lparr>es_data_channels := AList.delete i (es_data_channels es)\<rparr>))"

definition add_transceiver :: "pointer \<Rightarrow> event_state \<Rightarrow> event_state" where
  "add_transceiver transceiver es = signal_readiness
     (if es_closed es then es
      else
        let i = es_next_media es;
            es = es\<lparr>es_next_media := i + 1\<rparr>;
            (admitted, es) = admit_arrival_locked (arrival kTrack i) es
        in if admitted
           then es\<lparr>es_transceivers := emplace i transceiver (es_transceivers es)\<rparr> else es)"

definition take_transceiver :: "u64 \<Rightarrow> event_state \<Rightarrow> pointer \<times> event_state" where
  "take_transceiver i es =
     (case map_of (es_transceivers es) i of
        None \<Rightarrow> (None, es)
      | Some transceiver \<Rightarrow>
          (transceiver, es\<lparr>es_transceivers := AList.delete i (es_transceivers es)\<rparr>))"

definition remove_receiver :: "pointer \<Rightarrow> pointer \<Rightarrow> event_state \<Rightarrow> event_state" where
  "remove_receiver receiver owner es = signal_readiness
     (if es_closed es then es
      else
        let i = es_next_media es;
            es = es\<lparr>es_next_media := i + 1\<rparr>;
            (admitted, es) = admit_arrival_locked (arrival kTrackRemoved i) es
        in if admitted
           then es\<lparr>es_receivers := emplace i (receiver, owner) (es_receivers es)\<rparr> else es)"

definition take_receiver :: "u64 \<Rightarrow> event_state \<Rightarrow> (pointer \<times> pointer) \<times> event_state" where
  "take_receiver i es =
     (case map_of (es_receivers es) i of
        None \<Rightarrow> ((None, None), es)
      | Some receiver \<Rightarrow> (receiver, es\<lparr>es_receivers := AList.delete i (es_receivers es)\<rparr>))"

definition add_legacy :: "u8 \<Rightarrow> pointer \<Rightarrow> pointer list \<Rightarrow> pointer \<Rightarrow> event_state \<Rightarrow> event_state" where
  "add_legacy kind receiver streams owner es = signal_readiness
     (if es_closed es then es
      else if 128 < length streams then es\<lparr>es_dropped := es_dropped es + 1\<rparr>
      else
        let i = es_next_media es;
            es = es\<lparr>es_next_media := i + 1\<rparr>;
            (admitted, es) = admit_arrival_locked (arrival kind i) es
        in if admitted
           then es\<lparr>es_legacy := emplace i
                  \<lparr>la_receiver = receiver, la_owner = owner, la_streams = streams\<rparr> (es_legacy es)\<rparr>
           else es)"

definition take_legacy :: "u64 \<Rightarrow> event_state \<Rightarrow> legacy_arrival \<times> event_state" where
  "take_legacy i es =
     (case map_of (es_legacy es) i of
        None \<Rightarrow> (\<lparr>la_receiver = None, la_owner = None, la_streams = []\<rparr>, es)
      | Some a \<Rightarrow> (a, es\<lparr>es_legacy := AList.delete i (es_legacy es)\<rparr>))"

definition closed_event :: ffi_peer_event where
  "closed_event = EmptyEvent\<lparr>fe_kind := kClosed\<rparr>"

definition close_events :: "event_state \<Rightarrow> event_state" where
  "close_events es = signal_readiness
     (if es_closed es then es
      else
        let es = es\<lparr>es_closed := True,
                    es_events := filter (\<lambda>e. terminal_kind (fe_kind e)) (es_events es),
                    es_retained := 0, es_retained_bytes := 0\<rparr>;
            es = (case es_staged es of
                    None \<Rightarrow> es
                  | Some e \<Rightarrow>
                      if fe_operation_id e \<in> set (es_pending es)
                      then es\<lparr>es_pending := remove1 (fe_operation_id e) (es_pending es),
                              es_events := es_events es @ [e], es_staged := None\<rparr>
                      else es\<lparr>es_staged := None\<rparr>)
        in es\<lparr>es_events := es_events es @ map ClosedOperation (es_pending es) @ [closed_event],
              es_pending := [], es_sdp_operation := 0,
              es_data_channels := [], es_transceivers := [], es_receivers := [],
              es_legacy := []\<rparr>)"

subsection \<open>SDK callbacks\<close>

text \<open>What the SDK calls on the observers, with what their methods read of the arguments: the
  receiver callbacks carry the owner the observer looks up in the peer, candidates their retained
  size, completions the SDK's \<open>RTCError\<close> (\<open>None\<close> when ok).\<close>

datatype sdk_callback =
    OnSignalingChange u8
  | OnDataChannel pointer
  | OnAddStream pointer
  | OnRemoveStream pointer
  | OnAddTrack pointer "pointer list" pointer
  | OnTrack pointer
  | OnRemoveTrack pointer pointer
  | OnRenegotiationNeeded
  | OnIceConnectionReceivingChange bool
  | OnInterestingUsage i32
  | OnNegotiationNeededEvent u32
  | OnConnectionChange u8
  | OnIceConnectionChange i32
  | OnStandardizedIceConnectionChange i32
  | OnIceGatheringChange u8
  | OnIceCandidate "(bytes \<times> i32 \<times> bytes) option"
  | OnIceCandidateRemoved "(bytes \<times> i32 \<times> bytes) option"
  | OnIceSelectedCandidatePairChanged bytes bytes "nat \<times> nat" "nat \<times> nat" i64 i64
  | OnIceCandidateError string i32 string i32 bytes
  | OnChannelMessage channel_message
  | OnDescriptionCreated u64 "(u8 \<times> bytes) option"
  | OnFailure u64 u8 bytes
  | OnSetComplete u64 "(u8 \<times> bytes) option"
  | OnStatsDelivered u64 nat i64 "sdk_stats list"
  | OnLegacyStats u64 nat
  | RetirementFence u64

definition candidate_event :: "u8 \<Rightarrow> bytes \<times> i32 \<times> bytes \<Rightarrow> ffi_peer_event" where
  "candidate_event kind c = EmptyEvent\<lparr>fe_kind := kind, fe_sdp_mid := fst c,
     fe_sdp_mline_index := fst (snd c), fe_candidate := snd (snd c)\<rparr>"

definition description_created :: "u64 \<Rightarrow> (u8 \<times> bytes) option \<Rightarrow> ffi_peer_event" where
  "description_created i owned =
     (let e = EmptyEvent\<lparr>fe_kind := kOperationComplete, fe_operation_id := i\<rparr>
      in case owned of
           Some (ty, sdp) \<Rightarrow> e\<lparr>fe_has_description := True, fe_sdp_type := ty, fe_sdp := sdp\<rparr>
         | None \<Rightarrow> e\<lparr>fe_error_type := 10,
             fe_message := text_bytes ''WebRTC returned an empty session description''\<rparr>)"

definition set_complete :: "u64 \<Rightarrow> (u8 \<times> bytes) option \<Rightarrow> ffi_peer_event" where
  "set_complete i error =
     (case error of None \<Rightarrow> EmptyEvent | Some (ty, message) \<Rightarrow> ErrorEvent i ty message)
       \<lparr>fe_kind := kOperationComplete, fe_operation_id := i\<rparr>"

definition pair_changed :: "bytes \<Rightarrow> bytes \<Rightarrow> nat \<times> nat \<Rightarrow> nat \<times> nat \<Rightarrow> i64 \<Rightarrow> i64 \<Rightarrow> ffi_peer_event" where
  "pair_changed name reason local remote last_data disconnected =
     EmptyEvent\<lparr>fe_kind := kIceSelectedCandidatePairChanged,
       fe_pair_change := \<lparr>pair_transport_name = name, pair_local = fst local,
         pair_remote = fst remote, pair_last_data_received_ms = last_data, pair_reason = reason,
         pair_disconnected_ms = disconnected,
         pair_retained_bytes = length name + length reason + snd local + snd remote\<rparr>\<rparr>"

fun deliver :: "sdk_callback \<Rightarrow> event_state \<Rightarrow> event_state" where
  "deliver (OnSignalingChange s) = push_event (EmptyEvent\<lparr>fe_kind := kSignalingState, fe_state := s\<rparr>)"
| "deliver (OnDataChannel c) = add_data_channel c"
| "deliver (OnAddStream s) = add_legacy kStreamAdded None [s] None"
| "deliver (OnRemoveStream s) = add_legacy kStreamRemoved None [s] None"
| "deliver (OnAddTrack r ss owner) = add_legacy kTrackAdded r ss owner"
| "deliver (OnTrack t) = add_transceiver t"
| "deliver (OnRemoveTrack r owner) = remove_receiver r owner"
| "deliver OnRenegotiationNeeded = push_event (EmptyEvent\<lparr>fe_kind := kRenegotiationNeeded\<rparr>)"
| "deliver (OnIceConnectionReceivingChange b) =
     push_event (EmptyEvent\<lparr>fe_kind := kIceReceiving, fe_state := of_bool b\<rparr>)"
| "deliver (OnInterestingUsage u) =
     push_event (EmptyEvent\<lparr>fe_kind := kInterestingUsage, fe_ice_state := u\<rparr>)"
| "deliver (OnNegotiationNeededEvent i) =
     push_event (EmptyEvent\<lparr>fe_kind := kNegotiationNeeded, fe_event_id := i\<rparr>)"
| "deliver (OnConnectionChange s) =
     push_event (EmptyEvent\<lparr>fe_kind := kConnectionState, fe_state := s\<rparr>)"
| "deliver (OnIceConnectionChange s) =
     push_event (EmptyEvent\<lparr>fe_kind := kLegacyIceConnectionState, fe_ice_state := s\<rparr>)"
| "deliver (OnStandardizedIceConnectionChange s) =
     push_event (EmptyEvent\<lparr>fe_kind := kStandardizedIceConnectionState, fe_ice_state := s\<rparr>)"
| "deliver (OnIceGatheringChange s) =
     push_event (EmptyEvent\<lparr>fe_kind := kIceGatheringState, fe_state := s\<rparr>)"
| "deliver (OnIceCandidate c) =
     (case c of None \<Rightarrow> (\<lambda>es. es) | Some c \<Rightarrow> push_event (candidate_event kIceCandidate c))"
| "deliver (OnIceCandidateRemoved c) =
     (case c of None \<Rightarrow> (\<lambda>es. es) | Some c \<Rightarrow> push_event (candidate_event kIceCandidateRemoved c))"
| "deliver (OnIceSelectedCandidatePairChanged n r l m d e) = push_event (pair_changed n r l m d e)"
| "deliver (OnIceCandidateError a p u c t) =
     push_event (EmptyEvent\<lparr>fe_kind := kIceCandidateError, fe_address := a, fe_port := p,
       fe_url := u, fe_error_code := c, fe_message := t\<rparr>)"
| "deliver (OnChannelMessage m) =
     push_event (EmptyEvent\<lparr>fe_kind := kChannelMessage, fe_channel_message := m\<rparr>)"
| "deliver (OnDescriptionCreated i d) = complete (description_created i d)"
| "deliver (OnFailure i ty m) = complete (ErrorEvent i ty m)"
| "deliver (OnSetComplete i r) = complete (set_complete i r)"
| "deliver (OnStatsDelivered i report t stats) =
     complete (EmptyEvent\<lparr>fe_kind := kStatsReport, fe_operation_id := i,
       fe_stats_report := Some report, fe_stats_timestamp_us := t,
       fe_stats_records := stats_records stats\<rparr>)"
| "deliver (OnLegacyStats i reports) =
     stage_legacy (EmptyEvent\<lparr>fe_kind := kLegacyStatsReport, fe_operation_id := i,
       fe_legacy_stats := reports\<rparr>)"
| "deliver (RetirementFence i) = publish_legacy i"

subsection \<open>Field lemmas\<close>

lemma signal_fields [simp]:
  "es_events (signal_readiness es) = es_events es"
  "es_staged (signal_readiness es) = es_staged es"
  "es_retained (signal_readiness es) = es_retained es"
  "es_retained_bytes (signal_readiness es) = es_retained_bytes es"
  "es_dropped (signal_readiness es) = es_dropped es"
  "es_pending (signal_readiness es) = es_pending es"
  "es_admitted (signal_readiness es) = es_admitted es"
  "es_stats_operation (signal_readiness es) = es_stats_operation es"
  "es_sdp_operation (signal_readiness es) = es_sdp_operation es"
  "es_data_channels (signal_readiness es) = es_data_channels es"
  "es_next_data_channel (signal_readiness es) = es_next_data_channel es"
  "es_transceivers (signal_readiness es) = es_transceivers es"
  "es_receivers (signal_readiness es) = es_receivers es"
  "es_legacy (signal_readiness es) = es_legacy es"
  "es_next_media (signal_readiness es) = es_next_media es"
  "es_closed (signal_readiness es) = es_closed es"
  by (simp_all add: signal_readiness_def Let_def split: prod.splits option.splits)

lemma signal_raises [simp]: "changed (es_readiness (signal_readiness es))"
  by (simp add: signal_readiness_def notify_def)

lemma event_fields [simp]:
  "fe_kind EmptyEvent = 0" "fe_operation_id EmptyEvent = 0"
  "fe_kind (ErrorEvent i ty m) = 1" "fe_operation_id (ErrorEvent i ty m) = i"
  "fe_kind (ClosedOperation i) = 1" "fe_operation_id (ClosedOperation i) = i"
  "fe_kind (arrival k i) = k" "fe_operation_id (arrival k i) = i"
  "fe_kind closed_event = 8" "fe_kind (candidate_event k c) = k"
  "fe_kind (description_created i d) = 1" "fe_operation_id (description_created i d) = i"
  "fe_kind (set_complete i r) = 1" "fe_operation_id (set_complete i r) = i"
  "fe_kind (pair_changed n rs l l2 t u) = 17"
  by (simp_all add: EmptyEvent_def ErrorEvent_def ClosedOperation_def arrival_def closed_event_def
      candidate_event_def description_created_def set_complete_def pair_changed_def Let_def
      split: option.split prod.split)

lemma filter_erase_first: "(\<And>x. P x \<Longrightarrow> \<not> Q x) \<Longrightarrow> filter Q (erase_first P xs) = filter Q xs"
  by (induction xs) auto

lemma advisory_not_terminal: "advisory k \<Longrightarrow> \<not> terminal_kind k"
  by (auto simp: advisory_def terminal_kind_def word_le_nat_alt)

subsection \<open>Operations and their events\<close>

definition queued_ops :: "event_state \<Rightarrow> u64 list" where
  "queued_ops es = map fe_operation_id (filter (\<lambda>e. terminal_kind (fe_kind e)) (es_events es))"

text \<open>Every admitted operation is either pending or has its one terminal event in the queue.\<close>

definition ops_inv :: "event_state \<Rightarrow> bool" where
  "ops_inv es \<longleftrightarrow> distinct (es_admitted es) \<and> distinct (es_pending es) \<and> distinct (queued_ops es)
     \<and> set (es_admitted es) = set (es_pending es) \<union> set (queued_ops es)
     \<and> set (es_pending es) \<inter> set (queued_ops es) = {}
     \<and> length (es_admitted es) \<le> 64
     \<and> 0 \<notin> set (es_pending es) \<and> 0 \<notin> set (queued_ops es)
     \<and> (\<forall>e. es_staged es = Some e \<longrightarrow> terminal_kind (fe_kind e))
     \<and> (es_stats_operation es \<noteq> 0 \<longrightarrow> es_stats_operation es \<in> set (es_pending es) \<union> set (queued_ops es))
     \<and> (es_closed es \<longrightarrow> es_pending es = [])"

lemma queued_ops_signal [simp]: "queued_ops (signal_readiness es) = queued_ops es"
  by (simp add: queued_ops_def)

lemma ops_inv_signal [simp]: "ops_inv (signal_readiness es) = ops_inv es"
  by (simp add: ops_inv_def)

lemma distinct_insort_insert: "distinct xs \<Longrightarrow> distinct (insort_insert x xs)"
  by (cases "x \<in> set xs") (simp_all add: insort_insert_insort insort_insert_triv distinct_insort)

lemma length_insort_insert: "x \<notin> set xs \<Longrightarrow> length (insort_insert x xs) = Suc (length xs)"
  by (simp add: insort_insert_insort)

lemma begin_locked_ops:
  assumes "ops_inv es" "i \<noteq> 0" "begin_locked i es = (st, es')"
  shows "ops_inv es'" and "st \<noteq> 0 \<Longrightarrow> es' = es"
    and "st = 0 \<Longrightarrow> i \<notin> set (es_admitted es) \<and> i \<in> set (es_pending es')
           \<and> set (es_admitted es') = insert i (set (es_admitted es)) \<and> es_events es' = es_events es"
proof -
  show "ops_inv es'"
  proof (cases "es_closed es \<or> 64 \<le> length (es_admitted es) \<or> i \<in> set (es_admitted es)")
    case True
    with assms show ?thesis by (auto simp: begin_locked_def split: if_splits)
  next
    case False
    with assms(3) have es': "es' = es\<lparr>es_admitted := insort_insert i (es_admitted es),
        es_pending := insort_insert i (es_pending es)\<rparr>" by (simp add: begin_locked_def)
    from False assms(1,2) show ?thesis
      unfolding es' ops_inv_def queued_ops_def
      by (simp add: distinct_insort_insert length_insort_insert set_insort_insert)
  qed
qed (use assms in \<open>auto simp: begin_locked_def set_insort_insert split: if_splits\<close>)

lemma queued_ops_simps [simp]:
  "queued_ops (es\<lparr>es_sdp_operation := j\<rparr>) = queued_ops es"
  "queued_ops (es\<lparr>es_stats_operation := j\<rparr>) = queued_ops es"
  "queued_ops (es\<lparr>es_staged := st\<rparr>) = queued_ops es"
  "queued_ops (es\<lparr>es_pending := p\<rparr>) = queued_ops es"
  "queued_ops (es\<lparr>es_admitted := p\<rparr>) = queued_ops es"
  by (simp_all add: queued_ops_def)

lemma queued_ops_append [simp]:
  "queued_ops (es\<lparr>es_events := xs @ ys\<rparr>)
     = queued_ops (es\<lparr>es_events := xs\<rparr>) @ queued_ops (es\<lparr>es_events := ys\<rparr>)"
  by (simp add: queued_ops_def)

lemma queued_ops_events [simp]: "queued_ops (es\<lparr>es_events := es_events es\<rparr>) = queued_ops es"
  by (simp add: queued_ops_def)

lemma queued_ops_one [simp]: "queued_ops (es\<lparr>es_events := [e]\<rparr>)
    = (if terminal_kind (fe_kind e) then [fe_operation_id e] else [])"
  by (simp add: queued_ops_def)

lemma ops_inv_sdp [simp]: "ops_inv (es\<lparr>es_sdp_operation := j\<rparr>) = ops_inv es"
  unfolding ops_inv_def by simp

lemma ops_inv_stats:
  "ops_inv es \<Longrightarrow> j \<noteq> 0 \<longrightarrow> j \<in> set (es_admitted es) \<Longrightarrow> ops_inv (es\<lparr>es_stats_operation := j\<rparr>)"
  unfolding ops_inv_def by simp

lemma begin_operation_ops:
  assumes "ops_inv es" "i \<noteq> 0" "begin_operation i sdp es = (st, es')"
  shows "ops_inv es'" and "st \<noteq> 0 \<Longrightarrow> es' = es"
    and "st = 0 \<Longrightarrow> i \<notin> set (es_admitted es)
           \<and> set (es_admitted es') = insert i (set (es_admitted es)) \<and> es_events es' = es_events es"
proof -
  obtain st1 es1 where b: "begin_locked i es = (st1, es1)" by (metis prod.exhaust)
  note facts = begin_locked_ops [OF assms(1,2) b]
  from assms(3) b have r: "(st, es') = (4, es)
      \<or> st = st1 \<and> es' = (if st1 = 0 \<and> sdp then es1\<lparr>es_sdp_operation := i\<rparr> else es1)"
    by (auto simp: begin_operation_def split: if_splits)
  have upd: "ops_inv (es1\<lparr>es_sdp_operation := i\<rparr>)" if "st1 = 0"
    using facts(1) by simp
  from r facts(1) upd assms(1) show "ops_inv es'" by (auto split: if_splits)
  from r facts(2) show "st \<noteq> 0 \<Longrightarrow> es' = es" by auto
  from r facts(3) show "st = 0 \<Longrightarrow> i \<notin> set (es_admitted es)
      \<and> set (es_admitted es') = insert i (set (es_admitted es)) \<and> es_events es' = es_events es"
    by (auto split: if_splits)
qed

lemma begin_stats_ops:
  assumes "ops_inv es" "i \<noteq> 0" "begin_stats i es = (st, es')"
  shows "ops_inv es'" and "st \<noteq> 0 \<Longrightarrow> es' = es"
    and "st = 0 \<Longrightarrow> i \<notin> set (es_admitted es)
           \<and> set (es_admitted es') = insert i (set (es_admitted es)) \<and> es_events es' = es_events es"
proof -
  obtain st1 es1 where b: "begin_locked i es = (st1, es1)" by (metis prod.exhaust)
  note facts = begin_locked_ops [OF assms(1,2) b]
  from assms(3) b have r: "(st, es') = (1, es) \<or> (st, es') = (3, es)
      \<or> st = st1 \<and> es' = (if st1 = 0 then es1\<lparr>es_stats_operation := i\<rparr> else es1)"
    by (auto simp: begin_stats_def split: if_splits)
  have upd: "ops_inv (es1\<lparr>es_stats_operation := i\<rparr>)" if "st1 = 0"
    using facts(1) facts(3) [OF that] by (simp add: ops_inv_stats)
  from r facts(1) upd assms(1) show "ops_inv es'" by (auto split: if_splits)
  from r facts(2) show "st \<noteq> 0 \<Longrightarrow> es' = es" by auto
  from r facts(3) show "st = 0 \<Longrightarrow> i \<notin> set (es_admitted es)
      \<and> set (es_admitted es') = insert i (set (es_admitted es)) \<and> es_events es' = es_events es"
    by (auto split: if_splits)
qed

lemma begin_stats_reject:
  assumes "ops_inv es" "i \<noteq> 0" "begin_stats i es = (0, es')"
  shows "reject_stats i es' = es"
proof -
  from assms have es': "es' = es\<lparr>es_admitted := insort_insert i (es_admitted es),
      es_pending := insort_insert i (es_pending es), es_stats_operation := i\<rparr>"
    and new: "es_stats_operation es = 0" "i \<notin> set (es_admitted es)"
    by (auto simp: begin_stats_def begin_locked_def split: if_splits)
  from assms(1) new have "i \<notin> set (es_pending es)" by (simp add: ops_inv_def)
  with new es' assms(1) show ?thesis
    by (simp add: reject_stats_def insort_insert_insort ops_inv_def remove1_insort_key)
qed

lemma complete_ops:
  assumes "ops_inv es" "terminal_kind (fe_kind e)"
  shows "ops_inv (complete e es)"
proof (cases "fe_operation_id e \<in> set (es_pending es)")
  case True
  let ?es = "es\<lparr>es_pending := remove1 (fe_operation_id e) (es_pending es),
           es_sdp_operation :=
             (if fe_operation_id e = es_sdp_operation es then 0 else es_sdp_operation es),
           es_events := es_events es @ [e]\<rparr>"
  have "queued_ops ?es = queued_ops es @ [fe_operation_id e]"
    using assms(2) by (simp add: queued_ops_def)
  moreover have "es_closed es \<longrightarrow> es_pending es = []" using assms(1) by (simp add: ops_inv_def)
  ultimately have "ops_inv ?es" using assms True
    unfolding ops_inv_def by (auto simp: set_remove1_eq)
  with True show ?thesis by (simp add: complete_def)
qed (use assms in \<open>simp add: complete_def\<close>)

lemma stage_legacy_ops:
  assumes "ops_inv es" "terminal_kind (fe_kind e)"
  shows "ops_inv (stage_legacy e es)"
  using assms unfolding stage_legacy_def ops_inv_def by simp

lemma publish_legacy_ops:
  assumes "ops_inv es"
  shows "ops_inv (publish_legacy i es)"
proof (cases "\<exists>e. es_staged es = Some e \<and> fe_operation_id e = i \<and> i \<in> set (es_pending es)")
  case True
  then obtain e where e: "es_staged es = Some e" "fe_operation_id e = i" "i \<in> set (es_pending es)"
    by blast
  let ?es = "es\<lparr>es_pending := remove1 i (es_pending es), es_events := es_events es @ [e],
                  es_staged := None\<rparr>"
  have "terminal_kind (fe_kind e)" using assms e(1) by (simp add: ops_inv_def)
  then have "queued_ops ?es = queued_ops es @ [i]" using e(2) by (simp add: queued_ops_def)
  moreover have "es_closed es \<longrightarrow> es_pending es = []" using assms by (simp add: ops_inv_def)
  ultimately have "ops_inv ?es" using assms e True
    unfolding ops_inv_def by (auto simp: set_remove1_eq)
  with e show ?thesis by (simp add: publish_legacy_def)
next
  case False
  have "ops_inv (es\<lparr>es_staged := None\<rparr>)" using assms unfolding ops_inv_def by simp
  with False assms show ?thesis
    by (auto simp: publish_legacy_def split: option.splits)
qed

definition same_ops :: "event_state \<Rightarrow> event_state \<Rightarrow> bool" where
  "same_ops es es' \<longleftrightarrow> es_admitted es' = es_admitted es \<and> es_pending es' = es_pending es
     \<and> queued_ops es' = queued_ops es \<and> es_staged es' = es_staged es
     \<and> es_stats_operation es' = es_stats_operation es \<and> es_closed es' = es_closed es"

lemma same_ops_inv: "same_ops es es' \<Longrightarrow> ops_inv es' = ops_inv es"
  unfolding same_ops_def ops_inv_def by simp

lemma same_ops_refl [simp]: "same_ops es es"
  by (simp add: same_ops_def)

lemma same_ops_signal [simp]: "same_ops es (signal_readiness es') = same_ops es es'"
  by (simp add: same_ops_def)

lemma same_ops_updates [simp]:
  "same_ops es (es'\<lparr>es_next_data_channel := k\<rparr>) = same_ops es es'"
  "same_ops es (es'\<lparr>es_next_media := k\<rparr>) = same_ops es es'"
  "same_ops es (es'\<lparr>es_data_channels := dc\<rparr>) = same_ops es es'"
  "same_ops es (es'\<lparr>es_transceivers := dc\<rparr>) = same_ops es es'"
  "same_ops es (es'\<lparr>es_receivers := rc\<rparr>) = same_ops es es'"
  "same_ops es (es'\<lparr>es_legacy := la\<rparr>) = same_ops es es'"
  "same_ops es (es'\<lparr>es_dropped := dr\<rparr>) = same_ops es es'"
  "same_ops es (es'\<lparr>es_coalesced := dr\<rparr>) = same_ops es es'"
  "same_ops es (es'\<lparr>es_retained := n\<rparr>) = same_ops es es'"
  "same_ops es (es'\<lparr>es_retained_bytes := n\<rparr>) = same_ops es es'"
  by (simp_all add: same_ops_def queued_ops_def)

lemma terminal_erase_first [simp]:
  "\<not> terminal_kind k \<Longrightarrow> filter (\<lambda>e. terminal_kind (fe_kind e)) (erase_first (\<lambda>old. fe_kind old = k) xs)
     = filter (\<lambda>e. terminal_kind (fe_kind e)) xs"
  by (rule filter_erase_first) simp

lemma push_control_same_ops:
  "\<not> terminal_kind (fe_kind e) \<Longrightarrow> same_ops es (snd (push_control_locked e es))"
  by (auto simp: push_control_locked_def Let_def same_ops_def queued_ops_def)

lemma admit_arrival_same_ops:
  "\<not> terminal_kind (fe_kind e) \<Longrightarrow> same_ops es (snd (admit_arrival_locked e es))"
  using push_control_same_ops by (simp add: admit_arrival_locked_def)

lemma same_ops_admit:
  "same_ops es es' \<Longrightarrow> \<not> terminal_kind (fe_kind e) \<Longrightarrow> same_ops es (snd (admit_arrival_locked e es'))"
  using admit_arrival_same_ops [of e es'] by (simp add: same_ops_def)

lemma terminal_kinds [simp]:
  "terminal_kind 1" "terminal_kind 12" "terminal_kind 16" "\<not> terminal_kind 0" "\<not> terminal_kind 2"
  "\<not> terminal_kind 3" "\<not> terminal_kind 4" "\<not> terminal_kind 5" "\<not> terminal_kind 6"
  "\<not> terminal_kind 7" "\<not> terminal_kind 8" "\<not> terminal_kind 9" "\<not> terminal_kind 10"
  "\<not> terminal_kind 11" "\<not> terminal_kind 13" "\<not> terminal_kind 14" "\<not> terminal_kind 15"
  "\<not> terminal_kind 17" "\<not> terminal_kind 18" "\<not> terminal_kind 19" "\<not> terminal_kind 20"
  "\<not> terminal_kind 21" "\<not> terminal_kind 22" "\<not> terminal_kind 23" "\<not> terminal_kind 24"
  by (simp_all add: terminal_kind_def)

lemma arrival_ops [simp]:
  "same_ops es (add_data_channel c es)"
  "same_ops es (add_transceiver c es)"
  "same_ops es (remove_receiver c ow es)"
  "kind \<in> {18, 19, 20} \<Longrightarrow> same_ops es (add_legacy kind c ss ow es)"
  using same_ops_admit [of es "es\<lparr>es_next_data_channel := es_next_data_channel es + 1\<rparr>"]
    same_ops_admit [of es "es\<lparr>es_next_media := es_next_media es + 1\<rparr>"]
  by (auto simp: add_data_channel_def add_transceiver_def remove_receiver_def add_legacy_def
      Let_def case_prod_unfold)

lemma push_event_same_ops:
  "\<not> terminal_kind (fe_kind e) \<Longrightarrow> same_ops es (push_event e es)"
  by (simp add: push_event_def push_control_same_ops)

lemma same_ops_fields:
  assumes "same_ops es es'"
  shows "es_admitted es' = es_admitted es" "es_closed es' = es_closed es"
  using assms by (simp_all add: same_ops_def)

lemmas quiet_ops =
  arrival_ops [THEN same_ops_inv] push_event_same_ops [THEN same_ops_inv]
  arrival_ops [THEN same_ops_fields(1)] push_event_same_ops [THEN same_ops_fields(1)]
  arrival_ops [THEN same_ops_fields(2)] push_event_same_ops [THEN same_ops_fields(2)]

lemma keeps_admitted [simp]:
  "es_admitted (complete e es) = es_admitted es" "es_admitted (stage_legacy e es) = es_admitted es"
  "es_admitted (publish_legacy i es) = es_admitted es" "es_closed (complete e es) = es_closed es"
  "es_closed (stage_legacy e es) = es_closed es" "es_closed (publish_legacy i es) = es_closed es"
  by (simp_all add: complete_def stage_legacy_def publish_legacy_def split: option.split)

text \<open>No callback admits or forgets an operation.\<close>

lemma deliver_ops:
  "ops_inv es \<Longrightarrow> ops_inv (deliver cb es)"
  "es_admitted (deliver cb es) = es_admitted es"
  "es_closed (deliver cb es) = es_closed es"
  by (cases cb; simp add: quiet_ops complete_ops stage_legacy_ops publish_legacy_ops
      split: option.split)+

lemma take_event_ops:
  assumes "ops_inv es" "take_event es = (e, es')"
  shows "ops_inv es'"
    and "if terminal_kind (fe_kind e)
         then fe_operation_id e \<in> set (es_admitted es)
           \<and> set (es_admitted es') = set (es_admitted es) - {fe_operation_id e}
         else es_admitted es' = es_admitted es"
proof -
  have "ops_inv es' \<and> (if terminal_kind (fe_kind e)
         then fe_operation_id e \<in> set (es_admitted es)
           \<and> set (es_admitted es') = set (es_admitted es) - {fe_operation_id e}
         else es_admitted es' = es_admitted es)"
  proof (cases "es_events es")
    case Nil
    with assms show ?thesis by (simp add: take_event_def)
  next
    case (Cons x xs)
    let ?rest = "es\<lparr>es_events := xs\<rparr>"
    from Cons assms(2) have e: "e = x" by (simp add: take_event_def Let_def)
    show ?thesis
    proof (cases "terminal_kind (fe_kind x)")
      case True
      then have q: "queued_ops es = fe_operation_id x # queued_ops ?rest"
        using Cons by (simp add: queued_ops_def)
      from Cons True assms(2) have es': "es' = ?rest\<lparr>
          es_admitted := remove1 (fe_operation_id x) (es_admitted es),
          es_stats_operation := (if fe_operation_id x = es_stats_operation es then 0
                                 else es_stats_operation es)\<rparr>"
        by (auto simp: take_event_def Let_def)
      have "length (remove1 (fe_operation_id x) (es_admitted es)) \<le> length (es_admitted es)"
        by (simp add: length_remove1)
      with assms(1) q True e show ?thesis
        unfolding es' ops_inv_def by (auto simp: set_remove1_eq)
    next
      case False
      with Cons have "queued_ops ?rest = queued_ops es" by (simp add: queued_ops_def)
      then have "same_ops es ?rest" by (simp add: same_ops_def)
      moreover from Cons False assms(2) have "es' = ?rest \<or> (\<exists>n m. es' = ?rest\<lparr>es_retained := n,
          es_retained_bytes := m\<rparr>)"
        by (auto simp: take_event_def Let_def split: if_splits)
      ultimately have "same_ops es es'" by auto
      with assms(1) False e show ?thesis by (simp add: same_ops_inv same_ops_fields)
    qed
  qed
  then show "ops_inv es'" "if terminal_kind (fe_kind e)
         then fe_operation_id e \<in> set (es_admitted es)
           \<and> set (es_admitted es') = set (es_admitted es) - {fe_operation_id e}
         else es_admitted es' = es_admitted es" by simp_all
qed

lemma take_event_closed [simp]: "es_closed (snd (take_event es)) = es_closed es"
  by (simp add: take_event_def Let_def split: list.split)

text \<open>Closing settles every pending operation.\<close>

lemma close_events_ops:
  assumes "ops_inv es"
  shows "ops_inv (close_events es)" "es_admitted (close_events es) = es_admitted es"
    "es_closed (close_events es)" "es_pending (close_events es) = []"
proof -
  have "ops_inv (close_events es) \<and> es_pending (close_events es) = []"
  proof (cases "es_closed es")
    case True
    with assms have "es_pending es = []" by (simp add: ops_inv_def)
    with True assms show ?thesis by (simp add: close_events_def)
  next
    case False
    define settled where "settled = (case es_staged es of
        Some e \<Rightarrow> if fe_operation_id e \<in> set (es_pending es) then [e] else [] | None \<Rightarrow> [])"
    define rest where "rest = (case es_staged es of
        Some e \<Rightarrow> remove1 (fe_operation_id e) (es_pending es) | None \<Rightarrow> es_pending es)"
    let ?es = "close_events es"
    have settled: "distinct (map fe_operation_id settled @ rest)"
      "set (map fe_operation_id settled @ rest) = set (es_pending es)"
      "filter (\<lambda>e. terminal_kind (fe_kind e)) settled = settled"
      using assms
      by (auto simp: settled_def rest_def ops_inv_def set_remove1_eq remove1_idem
          split: option.split)
    have "es_events ?es = filter (\<lambda>e. terminal_kind (fe_kind e)) (es_events es) @ settled
        @ map ClosedOperation rest @ [closed_event]"
      using False
      by (simp add: close_events_def Let_def settled_def rest_def remove1_idem split: option.split)
    then have q: "queued_ops ?es = queued_ops es @ map fe_operation_id settled @ rest"
      using settled(3) by (simp add: queued_ops_def comp_def filter_map)
    have f: "es_admitted ?es = es_admitted es" "es_pending ?es = []" "es_staged ?es = None"
      "es_stats_operation ?es = es_stats_operation es"
      using False by (simp_all add: close_events_def Let_def split: option.split)
    have "set (queued_ops ?es) = set (es_pending es) \<union> set (queued_ops es)"
      using settled(2) unfolding q by auto
    moreover have "distinct (queued_ops ?es)"
      using assms settled(1,2) unfolding q ops_inv_def by auto
    ultimately show ?thesis using assms f unfolding ops_inv_def by simp
  qed
  then show "ops_inv (close_events es)" "es_pending (close_events es) = []" by simp_all
  show "es_admitted (close_events es) = es_admitted es" "es_closed (close_events es)"
    by (simp_all add: close_events_def Let_def split: option.split)
qed

subsection \<open>The queue's bounds\<close>

definition advisory_kinds :: "ffi_peer_event list \<Rightarrow> u8 list" where
  "advisory_kinds es = map fe_kind (filter (\<lambda>e. advisory (fe_kind e)) es)"

definition control_event :: "ffi_peer_event \<Rightarrow> bool" where
  "control_event e \<longleftrightarrow>
     \<not> advisory (fe_kind e) \<and> \<not> terminal_kind (fe_kind e) \<and> fe_kind e \<noteq> kClosed"

text \<open>The two counters are exact, an advisory kind is queued once, and a closed state keeps only
  outcomes and the notice of its closing.\<close>

definition queue_inv :: "event_state \<Rightarrow> bool" where
  "queue_inv es \<longleftrightarrow>
     es_retained es = length (filter control_event (es_events es)) \<and> es_retained es \<le> 128
     \<and> es_retained_bytes es = sum_list (map control_bytes (filter control_event (es_events es)))
     \<and> es_retained_bytes es \<le> 256 * 1024
     \<and> distinct (advisory_kinds (es_events es))
     \<and> length (filter (\<lambda>e. fe_kind e = kClosed) (es_events es)) \<le> of_bool (es_closed es)
     \<and> (es_closed es \<longrightarrow> (\<forall>e\<in>set (es_events es). terminal_kind (fe_kind e) \<or> fe_kind e = kClosed))"

lemma set_erase_first: "set (erase_first P xs) \<subseteq> set xs"
  by (induction xs) auto

lemma erase_first_advisory:
  assumes "advisory k"
  shows "filter control_event (erase_first (\<lambda>old. fe_kind old = k) xs) = filter control_event xs"
    and "filter (\<lambda>e. fe_kind e = 8) (erase_first (\<lambda>old. fe_kind old = k) xs)
         = filter (\<lambda>e. fe_kind e = 8) xs"
  using assms by (auto intro!: filter_erase_first simp: control_event_def advisory_def word_le_nat_alt)

lemma advisory_kinds_simps [simp]:
  "advisory_kinds [] = []"
  "advisory_kinds (x # xs) = (if advisory (fe_kind x) then fe_kind x # advisory_kinds xs
                              else advisory_kinds xs)"
  "advisory_kinds (xs @ ys) = advisory_kinds xs @ advisory_kinds ys"
  by (simp_all add: advisory_kinds_def)

lemma erase_first_kinds:
  "distinct (advisory_kinds xs) \<Longrightarrow> advisory k \<Longrightarrow>
     advisory_kinds (erase_first (\<lambda>old. fe_kind old = k) xs) = remove1 k (advisory_kinds xs)"
  by (induction xs) (auto split: if_splits)

lemma no_erase_first: "\<not> list_ex P xs \<Longrightarrow> erase_first P xs = xs"
  by (induction xs) auto

lemma kinds_simps [simp]:
  "\<not> advisory 1" "\<not> advisory 12" "\<not> advisory 16" "\<not> advisory 8" "\<not> advisory 9" "\<not> advisory 10"
  "\<not> advisory 11" "\<not> advisory 18" "\<not> advisory 19" "\<not> advisory 20" "\<not> advisory 0"
  by (simp_all add: advisory_def word_le_nat_alt)

lemma queue_inv_signal [simp]: "queue_inv (signal_readiness es) = queue_inv es"
  by (simp add: queue_inv_def)

lemma queue_inv_updates [simp]:
  "queue_inv (es\<lparr>es_next_data_channel := k\<rparr>) = queue_inv es"
  "queue_inv (es\<lparr>es_next_media := k\<rparr>) = queue_inv es"
  "queue_inv (es\<lparr>es_data_channels := dc\<rparr>) = queue_inv es"
  "queue_inv (es\<lparr>es_transceivers := dc\<rparr>) = queue_inv es"
  "queue_inv (es\<lparr>es_receivers := rc\<rparr>) = queue_inv es"
  "queue_inv (es\<lparr>es_legacy := la\<rparr>) = queue_inv es"
  "queue_inv (es\<lparr>es_dropped := dr\<rparr>) = queue_inv es"
  "queue_inv (es\<lparr>es_admitted := p\<rparr>) = queue_inv es"
  "queue_inv (es\<lparr>es_pending := p\<rparr>) = queue_inv es"
  "queue_inv (es\<lparr>es_stats_operation := j\<rparr>) = queue_inv es"
  "queue_inv (es\<lparr>es_sdp_operation := j\<rparr>) = queue_inv es"
  "queue_inv (es\<lparr>es_staged := st\<rparr>) = queue_inv es"
  by (simp_all add: queue_inv_def)

lemma push_control_queue:
  assumes "queue_inv es" "\<not> es_closed es" "fe_kind e \<noteq> kClosed" "\<not> terminal_kind (fe_kind e)"
  shows "queue_inv (snd (push_control_locked e es))"
proof (cases "advisory (fe_kind e)")
  case True
  let ?xs = "erase_first (\<lambda>old. fe_kind old = fe_kind e) (es_events es)"
  from assms(1) have d: "distinct (advisory_kinds (es_events es))"
    by (simp add: queue_inv_def)
  have "es_events (snd (push_control_locked e es)) = ?xs @ [e]"
    "es_retained (snd (push_control_locked e es)) = es_retained es"
    "es_retained_bytes (snd (push_control_locked e es)) = es_retained_bytes es"
    "es_closed (snd (push_control_locked e es)) = es_closed es"
    using True by (simp_all add: push_control_locked_def Let_def no_erase_first)
  with assms erase_first_kinds [OF d True] True show ?thesis
    unfolding queue_inv_def
    by (simp add: erase_first_advisory control_event_def)
next
  case False
  then have c: "control_event e" using assms by (simp add: control_event_def)
  have le: "es_retained_bytes es + control_bytes e \<le> 262144"
    if "\<not> 262144 - es_retained_bytes es < control_bytes e"
  proof -
    have "es_retained_bytes es \<le> 262144" using assms(1) by (simp add: queue_inv_def)
    with that show ?thesis by linarith
  qed
  show ?thesis
  proof (cases "128 \<le> es_retained es \<or> 262144 - es_retained_bytes es < control_bytes e")
    case True
    with False assms show ?thesis by (auto simp: push_control_locked_def Let_def)
  next
    case bounds: False
    with False have "push_control_locked e es = (True, es\<lparr>es_retained := es_retained es + 1,
        es_retained_bytes := es_retained_bytes es + control_bytes e,
        es_events := es_events es @ [e]\<rparr>)" by (simp add: push_control_locked_def Let_def)
    with bounds le c False assms show ?thesis by (simp add: queue_inv_def)
  qed
qed

lemma push_control_closed [simp]: "es_closed (snd (push_control_locked e es)) = es_closed es"
  by (simp add: push_control_locked_def Let_def)

lemma admit_arrival_queue:
  "queue_inv es \<Longrightarrow> \<not> es_closed es \<Longrightarrow> fe_kind e \<noteq> kClosed \<Longrightarrow> \<not> terminal_kind (fe_kind e) \<Longrightarrow>
     queue_inv (snd (admit_arrival_locked e es))"
  by (simp add: admit_arrival_locked_def push_control_queue)

lemma append_terminal_queue:
  assumes "queue_inv es" "terminal_kind (fe_kind e)"
  shows "queue_inv (es\<lparr>es_events := es_events es @ [e]\<rparr>)"
proof -
  have "\<not> control_event e" "\<not> advisory (fe_kind e)" "fe_kind e \<noteq> 8"
    using assms(2) by (auto simp: control_event_def terminal_kind_def)
  with assms show ?thesis unfolding queue_inv_def by auto
qed

lemma complete_queue: "queue_inv es \<Longrightarrow> terminal_kind (fe_kind e) \<Longrightarrow> queue_inv (complete e es)"
  using append_terminal_queue [of es e] by (simp add: complete_def queue_inv_def)

lemma publish_legacy_queue: "ops_inv es \<Longrightarrow> queue_inv es \<Longrightarrow> queue_inv (publish_legacy i es)"
proof -
  assume inv: "ops_inv es" "queue_inv es"
  have t: "terminal_kind (fe_kind e)" if "es_staged es = Some e" for e
    using that inv(1) by (simp add: ops_inv_def)
  have "queue_inv (es\<lparr>es_pending := remove1 i (es_pending es), es_events := es_events es @ [e],
      es_staged := None\<rparr>)" if "es_staged es = Some e" for e
    using append_terminal_queue [OF inv(2) t [OF that]] by (simp add: queue_inv_def)
  with inv(2) show ?thesis by (simp add: publish_legacy_def split: option.split)
qed

lemma stage_legacy_queue [simp]: "queue_inv (stage_legacy e es) = queue_inv es"
  by (simp add: stage_legacy_def)

lemma begin_queue:
  "begin_operation i sdp es = (st, es') \<Longrightarrow> queue_inv es' = queue_inv es"
  "begin_stats i es = (st, es') \<Longrightarrow> queue_inv es' = queue_inv es"
  by (auto simp: begin_operation_def begin_stats_def begin_locked_def split: if_splits)

lemma push_event_queue:
  "queue_inv es \<Longrightarrow> fe_kind e \<noteq> kClosed \<Longrightarrow> \<not> terminal_kind (fe_kind e) \<Longrightarrow> queue_inv (push_event e es)"
  by (simp add: push_event_def push_control_queue)

lemma arrival_queue:
  assumes "queue_inv es"
  shows "queue_inv (add_data_channel c es)" "queue_inv (add_transceiver c es)"
    "queue_inv (remove_receiver c ow es)"
    "kind \<in> {18, 19, 20} \<Longrightarrow> queue_inv (add_legacy kind c ss ow es)"
  using assms
  by (auto simp: add_data_channel_def add_transceiver_def remove_receiver_def add_legacy_def
      Let_def case_prod_unfold admit_arrival_queue)

lemma deliver_queue: "ops_inv es \<Longrightarrow> queue_inv es \<Longrightarrow> queue_inv (deliver cb es)"
  by (cases cb; simp add: push_event_queue arrival_queue complete_queue publish_legacy_queue
      split: option.split)

lemma take_event_queue:
  assumes "queue_inv es" "take_event es = (e, es')"
  shows "queue_inv es'"
proof (cases "es_events es")
  case Nil
  with assms show ?thesis by (simp add: take_event_def)
next
  case (Cons x xs)
  from assms(2) have es': "es' = snd (take_event es)" by simp
  have "es_events es' = xs" "es_closed es' = es_closed es"
    "es_retained es' = (if control_event x then es_retained es - 1 else es_retained es)"
    "es_retained_bytes es'
       = (if control_event x then es_retained_bytes es - control_bytes x else es_retained_bytes es)"
    using Cons unfolding es' by (simp_all add: take_event_def Let_def control_event_def)
  with assms(1) Cons show ?thesis by (auto simp: queue_inv_def split: if_splits)
qed

lemma close_events_queue:
  assumes "ops_inv es" "queue_inv es"
  shows "queue_inv (close_events es)"
proof (cases "es_closed es")
  case True
  with assms show ?thesis by (simp add: close_events_def)
next
  case False
  define settled where "settled = (case es_staged es of
      Some e \<Rightarrow> if fe_operation_id e \<in> set (es_pending es) then [e] else [] | None \<Rightarrow> [])"
  define rest where "rest = (case es_staged es of
      Some e \<Rightarrow> remove1 (fe_operation_id e) (es_pending es) | None \<Rightarrow> es_pending es)"
  define xs where "xs = filter (\<lambda>e. terminal_kind (fe_kind e)) (es_events es) @ settled
      @ map ClosedOperation rest"
  have ev: "es_events (close_events es) = xs @ [closed_event]"
    and rt: "es_retained (close_events es) = 0" "es_retained_bytes (close_events es) = 0"
      "es_closed (close_events es)"
    using False
    by (simp_all add: close_events_def Let_def settled_def rest_def remove1_idem xs_def split: option.split)
  have t: "\<forall>e\<in>set xs. terminal_kind (fe_kind e)"
  proof -
    have "\<forall>e. es_staged es = Some e \<longrightarrow> terminal_kind (fe_kind e)"
      using assms(1) by (simp add: ops_inv_def)
    then show ?thesis by (auto simp: xs_def settled_def split: option.splits if_splits)
  qed
  then have "\<forall>e\<in>set xs. \<not> control_event e \<and> \<not> advisory (fe_kind e) \<and> fe_kind e \<noteq> kClosed"
    by (auto simp: control_event_def terminal_kind_def)
  then have "filter control_event xs = []" "advisory_kinds xs = []"
    "filter (\<lambda>e. fe_kind e = kClosed) xs = []"
    by (simp_all only: filter_empty_conv advisory_kinds_def map_is_Nil_conv) blast+
  with rt t show ?thesis
    unfolding queue_inv_def ev by (simp add: control_event_def)
qed

subsection \<open>Arrivals\<close>

text \<open>What the owner's decoding needs of an event: numbers it knows, and the handle of an arrival.\<close>

definition event_values :: "ffi_peer_event \<Rightarrow> bool" where
  "event_values e \<longleftrightarrow>
     (let k = fe_kind e in
       k \<noteq> kNoEvent \<and> k \<le> kChannelMessage
     \<and> (k = kOperationComplete \<and> fe_error_type e = 0 \<and> fe_has_description e \<longrightarrow> fe_sdp_type e \<le> 3)
     \<and> (k = kConnectionState \<or> k = kSignalingState \<longrightarrow> fe_state e \<le> 5)
     \<and> (k = kIceGatheringState \<longrightarrow> fe_state e \<le> 2)
     \<and> (k = kChannelMessage \<longrightarrow> cm_direction (fe_channel_message e) \<le> 1
         \<and> cm_data_type (fe_channel_message e) \<le> 1)
     \<and> (k = kStatsReport \<longrightarrow> (\<forall>r\<in>set (fe_stats_records e). stats_record_from_ffi r \<noteq> None)))"

definition event_backed :: "event_state \<Rightarrow> ffi_peer_event \<Rightarrow> bool" where
  "event_backed es e \<longleftrightarrow>
     (let k = fe_kind e; i = fe_operation_id e in event_values e
     \<and> (k = kDataChannel \<longrightarrow> (\<exists>p. map_of (es_data_channels es) i = Some (Some p)))
     \<and> (k = kTrack \<longrightarrow> (\<exists>p. map_of (es_transceivers es) i = Some (Some p)))
     \<and> (k = kTrackRemoved \<longrightarrow> (\<exists>p ow. map_of (es_receivers es) i = Some (Some p, ow)))
     \<and> (k = kStreamAdded \<or> k = kStreamRemoved \<longrightarrow>
         (\<exists>a. map_of (es_legacy es) i = Some a \<and> la_streams a \<noteq> []))
     \<and> (k = kTrackAdded \<longrightarrow> (\<exists>a p. map_of (es_legacy es) i = Some a \<and> la_receiver a = Some p)))"

text \<open>The map that holds an arrival's handle, 0 for the other events.\<close>

definition arrival_map :: "u8 \<Rightarrow> nat" where
  "arrival_map k = (if k = kDataChannel then 1 else if k = kTrack then 2
     else if k = kTrackRemoved then 3
     else if k = kStreamAdded \<or> k = kStreamRemoved \<or> k = kTrackAdded then 4 else 0)"

definition arrival_keys :: "ffi_peer_event list \<Rightarrow> (nat \<times> u64) list" where
  "arrival_keys es = map (\<lambda>e. (arrival_map (fe_kind e), fe_operation_id e))
     (filter (\<lambda>e. arrival_map (fe_kind e) \<noteq> 0) es)"

text \<open>After at most \<open>n\<close> arrivals: identifiers are issued upwards, each queued event is backed, and
  no two queued events share a handle.\<close>

definition arrivals_inv :: "nat \<Rightarrow> event_state \<Rightarrow> bool" where
  "arrivals_inv n es \<longleftrightarrow>
     unat (es_next_data_channel es) \<le> n \<and> unat (es_next_media es) \<le> n
     \<and> (\<forall>k\<in>set (keys (es_data_channels es)). k < es_next_data_channel es)
     \<and> (\<forall>k\<in>set (keys (es_transceivers es)). k < es_next_media es)
     \<and> (\<forall>k\<in>set (keys (es_receivers es)). k < es_next_media es)
     \<and> (\<forall>k\<in>set (keys (es_legacy es)). k < es_next_media es)
     \<and> (\<forall>e\<in>set (es_events es). event_backed es e)
     \<and> distinct (arrival_keys (es_events es))
     \<and> (\<forall>e. es_staged es = Some e \<longrightarrow> fe_kind e = kLegacyStatsReport)"

lemma arrival_keys_simps [simp]:
  "arrival_keys [] = []"
  "arrival_keys (x # xs) = (if arrival_map (fe_kind x) \<noteq> 0
     then (arrival_map (fe_kind x), fe_operation_id x) # arrival_keys xs else arrival_keys xs)"
  "arrival_keys (xs @ ys) = arrival_keys xs @ arrival_keys ys"
  by (simp_all add: arrival_keys_def)

lemma set_arrival_keys: "set (arrival_keys xs)
    = {(arrival_map (fe_kind e), fe_operation_id e) | e. e \<in> set xs \<and> arrival_map (fe_kind e) \<noteq> 0}"
  by (auto simp: arrival_keys_def)

lemma arrival_keys_erase: "set (arrival_keys (erase_first P xs)) \<subseteq> set (arrival_keys xs)"
  by (induction xs) auto

lemma distinct_arrivals_erase:
  "distinct (arrival_keys xs) \<Longrightarrow> distinct (arrival_keys (erase_first P xs))"
proof (induction xs)
  case (Cons x xs)
  with arrival_keys_erase [of P xs] show ?case by (auto split: if_splits)
qed simp

lemma arrival_keys_filter: "set (arrival_keys (filter P xs)) \<subseteq> set (arrival_keys xs)"
  by (induction xs) auto

lemma distinct_arrivals_filter:
  "distinct (arrival_keys xs) \<Longrightarrow> distinct (arrival_keys (filter P xs))"
proof (induction xs)
  case (Cons x xs)
  with arrival_keys_filter [of P xs] show ?case by (auto split: if_splits)
qed simp

text \<open>Only the handle maps matter for backing.\<close>

definition same_handles :: "event_state \<Rightarrow> event_state \<Rightarrow> bool" where
  "same_handles es es' \<longleftrightarrow> es_data_channels es' = es_data_channels es
     \<and> es_transceivers es' = es_transceivers es \<and> es_receivers es' = es_receivers es
     \<and> es_legacy es' = es_legacy es"

lemma same_handles_backed: "same_handles es es' \<Longrightarrow> event_backed es' e = event_backed es e"
  by (simp add: same_handles_def event_backed_def)

lemma arrivals_inv_frame:
  assumes "arrivals_inv n es" "same_handles es es'"
    and "es_next_data_channel es' = es_next_data_channel es" "es_next_media es' = es_next_media es"
    and "\<forall>e\<in>set (es_events es'). e \<in> set (es_events es) \<or> event_backed es e"
    and "distinct (arrival_keys (es_events es'))"
    and "\<forall>e. es_staged es' = Some e \<longrightarrow> fe_kind e = kLegacyStatsReport"
  shows "arrivals_inv n es'"
proof -
  have "\<forall>e\<in>set (es_events es'). event_backed es' e"
    using assms(1,2,5) by (auto simp: same_handles_backed arrivals_inv_def)
  with assms show ?thesis by (simp add: arrivals_inv_def same_handles_def)
qed

lemma arrivals_inv_mono: "arrivals_inv n es \<Longrightarrow> n \<le> m \<Longrightarrow> arrivals_inv m es"
  by (auto simp: arrivals_inv_def)

lemma arrival_map_terminal: "terminal_kind k \<Longrightarrow> arrival_map k = 0"
  by (auto simp: terminal_kind_def arrival_map_def)

lemma append_backed:
  assumes "arrivals_inv n es" "event_backed es e" "arrival_map (fe_kind e) = 0"
    and "es_events es' = es_events es @ [e]" "same_handles es es'"
    and "es_next_data_channel es' = es_next_data_channel es" "es_next_media es' = es_next_media es"
    and "es_staged es' = es_staged es \<or> es_staged es' = None"
  shows "arrivals_inv n es'"
proof (rule arrivals_inv_frame [OF assms(1,5-7)])
  show "\<forall>e\<in>set (es_events es'). e \<in> set (es_events es) \<or> event_backed es e"
    using assms(2,4) by auto
  show "distinct (arrival_keys (es_events es'))"
    using assms(1,3,4) by (simp add: arrivals_inv_def)
  show "\<forall>e. es_staged es' = Some e \<longrightarrow> fe_kind e = kLegacyStatsReport"
    using assms(1,8) by (auto simp: arrivals_inv_def)
qed

lemma arrivals_inv_updates [simp]:
  "arrivals_inv n (signal_readiness es) = arrivals_inv n es"
  "arrivals_inv n (es\<lparr>es_pending := p\<rparr>) = arrivals_inv n es"
  "arrivals_inv n (es\<lparr>es_admitted := p\<rparr>) = arrivals_inv n es"
  "arrivals_inv n (es\<lparr>es_sdp_operation := j\<rparr>) = arrivals_inv n es"
  "arrivals_inv n (es\<lparr>es_stats_operation := j\<rparr>) = arrivals_inv n es"
  "arrivals_inv n (es\<lparr>es_dropped := dr\<rparr>) = arrivals_inv n es"
  "arrivals_inv n (es\<lparr>es_retained := m\<rparr>) = arrivals_inv n es"
  "arrivals_inv n (es\<lparr>es_retained_bytes := m\<rparr>) = arrivals_inv n es"
  by (simp_all add: arrivals_inv_def event_backed_def)

lemma complete_arrivals:
  assumes "arrivals_inv n es" "event_backed es e" "arrival_map (fe_kind e) = 0"
  shows "arrivals_inv n (complete e es)"
  using append_backed [OF assms] assms(1) by (simp add: complete_def same_handles_def)

lemma stage_legacy_arrivals:
  "arrivals_inv n es \<Longrightarrow> fe_kind e = kLegacyStatsReport \<Longrightarrow> arrivals_inv n (stage_legacy e es)"
  by (auto simp: stage_legacy_def arrivals_inv_def event_backed_def)

lemma legacy_backed: "fe_kind e = kLegacyStatsReport \<Longrightarrow> event_backed es e"
  by (simp add: event_backed_def event_values_def word_le_nat_alt)

lemma unstage_arrivals: "arrivals_inv n es \<Longrightarrow> arrivals_inv n (es\<lparr>es_staged := None\<rparr>)"
  by (simp add: arrivals_inv_def event_backed_def)

lemma publish_legacy_arrivals:
  assumes "arrivals_inv n es"
  shows "arrivals_inv n (publish_legacy i es)"
proof -
  have "arrivals_inv n (es\<lparr>es_pending := p, es_events := es_events es @ [e], es_staged := None\<rparr>)"
    if "es_staged es = Some e" for e p
  proof -
    have k: "fe_kind e = 16" using assms that by (simp add: arrivals_inv_def)
    have "arrival_map (fe_kind e) = 0" unfolding k by (simp add: arrival_map_def)
    from append_backed [OF assms legacy_backed [OF k] this] show ?thesis
      by (simp add: same_handles_def)
  qed
  with assms unstage_arrivals [OF assms] show ?thesis
    by (simp add: publish_legacy_def split: option.split)
qed

lemma push_control_arrivals:
  assumes "arrivals_inv n es" "event_backed es e" "arrival_map (fe_kind e) = 0"
  shows "arrivals_inv n (snd (push_control_locked e es))"
proof (cases "advisory (fe_kind e)")
  case True
  let ?xs = "erase_first (\<lambda>old. fe_kind old = fe_kind e) (es_events es)"
  let ?es = "snd (push_control_locked e es)"
  have ev: "es_events ?es = ?xs @ [e]" and st: "es_staged ?es = es_staged es"
    "es_next_data_channel ?es = es_next_data_channel es" "es_next_media ?es = es_next_media es"
    "same_handles es ?es"
    using True by (simp_all add: push_control_locked_def Let_def no_erase_first same_handles_def)
  have "\<forall>x\<in>set (es_events ?es). x \<in> set (es_events es) \<or> event_backed es x"
    using ev assms(2) set_erase_first by fastforce
  moreover have "distinct (arrival_keys (es_events ?es))"
    using ev assms(1,3) distinct_arrivals_erase by (auto simp: arrivals_inv_def)
  ultimately show ?thesis
    using assms(1) st by (intro arrivals_inv_frame [OF assms(1)]) (auto simp: arrivals_inv_def)
next
  case False
  with append_backed [OF assms] assms(1) show ?thesis
    by (simp add: push_control_locked_def Let_def same_handles_def)
qed

lemma push_event_arrivals:
  "arrivals_inv n es \<Longrightarrow> event_backed es e \<Longrightarrow> arrival_map (fe_kind e) = 0 \<Longrightarrow>
     arrivals_inv n (push_event e es)"
  by (simp add: push_event_def push_control_arrivals)

definition handles_extend :: "event_state \<Rightarrow> event_state \<Rightarrow> bool" where
  "handles_extend es es' \<longleftrightarrow>
     map_of (es_data_channels es) \<subseteq>\<^sub>m map_of (es_data_channels es')
     \<and> map_of (es_transceivers es) \<subseteq>\<^sub>m map_of (es_transceivers es')
     \<and> map_of (es_receivers es) \<subseteq>\<^sub>m map_of (es_receivers es')
     \<and> map_of (es_legacy es) \<subseteq>\<^sub>m map_of (es_legacy es')"

lemma map_le_lookup: "m \<subseteq>\<^sub>m m' \<Longrightarrow> m i = Some x \<Longrightarrow> m' i = Some x"
  by (auto simp: map_le_def dom_def)

lemma map_of_key: "map_of al i = Some v \<Longrightarrow> i \<in> fst ` set al"
  by (force dest: map_of_SomeD)

lemma backed_extend: "handles_extend es es' \<Longrightarrow> event_backed es e \<Longrightarrow> event_backed es' e"
proof -
  assume ext: "handles_extend es es'" and b: "event_backed es e"
  from ext have "map_of (es_data_channels es) \<subseteq>\<^sub>m map_of (es_data_channels es')"
    "map_of (es_transceivers es) \<subseteq>\<^sub>m map_of (es_transceivers es')"
    "map_of (es_receivers es) \<subseteq>\<^sub>m map_of (es_receivers es')"
    "map_of (es_legacy es) \<subseteq>\<^sub>m map_of (es_legacy es')" by (simp_all add: handles_extend_def)
  note look = this [THEN map_le_lookup]
  let ?i = "fe_operation_id e"
  from b have v: "event_values e"
    and h: "fe_kind e = 9 \<longrightarrow> (\<exists>p. map_of (es_data_channels es) ?i = Some (Some p))"
      "fe_kind e = 10 \<longrightarrow> (\<exists>p. map_of (es_transceivers es) ?i = Some (Some p))"
      "fe_kind e = 11 \<longrightarrow> (\<exists>p ow. map_of (es_receivers es) ?i = Some (Some p, ow))"
      "fe_kind e = 18 \<or> fe_kind e = 19 \<longrightarrow>
         (\<exists>a. map_of (es_legacy es) ?i = Some a \<and> la_streams a \<noteq> [])"
      "fe_kind e = 20 \<longrightarrow> (\<exists>a p. map_of (es_legacy es) ?i = Some a \<and> la_receiver a = Some p)"
    by (simp_all add: event_backed_def Let_def)
  from h(1) look(1) have "fe_kind e = 9 \<longrightarrow> (\<exists>p. map_of (es_data_channels es') ?i = Some (Some p))"
    by blast
  moreover from h(2) look(2)
  have "fe_kind e = 10 \<longrightarrow> (\<exists>p. map_of (es_transceivers es') ?i = Some (Some p))" by blast
  moreover from h(3) look(3)
  have "fe_kind e = 11 \<longrightarrow> (\<exists>p ow. map_of (es_receivers es') ?i = Some (Some p, ow))" by blast
  moreover from h(4) look(4) have "fe_kind e = 18 \<or> fe_kind e = 19 \<longrightarrow>
      (\<exists>a. map_of (es_legacy es') ?i = Some a \<and> la_streams a \<noteq> [])" by blast
  moreover from h(5) look(4)
  have "fe_kind e = 20 \<longrightarrow> (\<exists>a p. map_of (es_legacy es') ?i = Some a \<and> la_receiver a = Some p)"
    by blast
  ultimately show ?thesis using v by (simp add: event_backed_def Let_def)
qed

lemma emplace_fresh: "k \<notin> set (keys m) \<Longrightarrow> emplace k v m = m @ [(k, v)]"
  by (simp add: emplace_def)

lemma map_of_emplace: "k \<notin> fst ` set m \<Longrightarrow> map_of (emplace k v m) k = Some v"
  by (auto simp: emplace_def map_add_def dest: map_of_key split: option.split)

lemma map_le_emplace: "map_of m \<subseteq>\<^sub>m map_of (emplace k v m)"
  by (auto simp: emplace_def map_le_def map_add_def split: option.split)

lemma queued_arrival_key:
  assumes "arrivals_inv n es" "(m, i) \<in> set (arrival_keys (es_events es))"
  shows "(m = 1 \<longrightarrow> i < es_next_data_channel es) \<and> (m \<noteq> 1 \<longrightarrow> i < es_next_media es)"
proof -
  from assms(2) obtain e where e: "e \<in> set (es_events es)" "arrival_map (fe_kind e) = m" "m \<noteq> 0"
    "fe_operation_id e = i" by (auto simp: set_arrival_keys)
  have b: "event_backed es e" using assms(1) e(1) by (simp add: arrivals_inv_def)
  consider "fe_kind e = 9" "m = 1" | "fe_kind e = 10" "m = 2" | "fe_kind e = 11" "m = 3"
    | "fe_kind e = 18 \<or> fe_kind e = 19" "m = 4" | "fe_kind e = 20" "m = 4"
    using e(2,3) by (auto simp: arrival_map_def split: if_splits)
  then show ?thesis
  proof cases
    case 1
    with b e(4) have "i \<in> set (keys (es_data_channels es))" by (auto simp: event_backed_def dest: map_of_key)
    with 1 assms(1) show ?thesis by (auto simp: arrivals_inv_def)
  next
    case 2
    with b e(4) have "i \<in> set (keys (es_transceivers es))" by (auto simp: event_backed_def dest: map_of_key)
    with 2 assms(1) show ?thesis by (auto simp: arrivals_inv_def)
  next
    case 3
    with b e(4) have "i \<in> set (keys (es_receivers es))" by (auto simp: event_backed_def dest: map_of_key)
    with 3 assms(1) show ?thesis by (auto simp: arrivals_inv_def)
  next
    case 4
    with b e(4) have "i \<in> set (keys (es_legacy es))" by (auto simp: event_backed_def dest: map_of_key)
    with 4 assms(1) show ?thesis by (auto simp: arrivals_inv_def)
  next
    case 5
    with b e(4) have "i \<in> set (keys (es_legacy es))" by (auto simp: event_backed_def dest: map_of_key)
    with 5 assms(1) show ?thesis by (auto simp: arrivals_inv_def)
  qed
qed

lemma word_succ_bound:
  assumes "unat (x :: u64) \<le> n" "Suc n < 2 ^ 64"
  shows "unat (x + 1) = Suc (unat x)" "x < x + 1" "k < x \<Longrightarrow> k < x + 1"
proof -
  have "x \<noteq> - 1" using assms by (auto simp: unsigned_minus_1_eq_mask mask_eq_exp_minus_1)
  then show u: "unat (x + 1) = Suc (unat x)"
    using unatSuc [of x] by (simp add: add.commute [of x] eq_neg_iff_add_eq_0)
  then show "x < x + 1" "k < x \<Longrightarrow> k < x + 1" by (simp_all add: word_less_nat_alt)
qed

lemma new_arrival:
  assumes "arrivals_inv n es" "es_events es' = es_events es @ [e]" "es_staged es' = es_staged es"
    and "handles_extend es es'" "event_backed es' e"
    and "(arrival_map (fe_kind e), fe_operation_id e) \<notin> set (arrival_keys (es_events es))"
    and "unat (es_next_data_channel es') \<le> Suc n" "unat (es_next_media es') \<le> Suc n"
    and "\<forall>k\<in>set (keys (es_data_channels es')). k < es_next_data_channel es'"
    and "\<forall>k\<in>set (keys (es_transceivers es')). k < es_next_media es'"
    and "\<forall>k\<in>set (keys (es_receivers es')). k < es_next_media es'"
    and "\<forall>k\<in>set (keys (es_legacy es')). k < es_next_media es'"
  shows "arrivals_inv (Suc n) es'"
  using assms backed_extend [OF assms(4)] unfolding arrivals_inv_def by simp

lemma admit_arrival_cases:
  assumes "admit_arrival_locked e es = (admitted, es')" "\<not> advisory (fe_kind e)"
  obtains (refused) "\<not> admitted" "es' = es\<lparr>es_dropped := es_dropped es + 1\<rparr>"
  | (queued) n m where "admitted" "es' = es\<lparr>es_retained := n, es_retained_bytes := m,
      es_events := es_events es @ [e]\<rparr>"
  using assms
  by (auto simp: admit_arrival_locked_def push_control_locked_def Let_def split: if_splits)

lemma spent_identifier:
  assumes "arrivals_inv n es" "Suc n < 2 ^ 64"
  shows "arrivals_inv (Suc n) (es\<lparr>es_next_data_channel := es_next_data_channel es + 1\<rparr>)"
    "arrivals_inv (Suc n) (es\<lparr>es_next_media := es_next_media es + 1\<rparr>)"
proof -
  have b: "unat (es_next_data_channel es) \<le> n" "unat (es_next_media es) \<le> n"
    using assms(1) by (simp_all add: arrivals_inv_def)
  show "arrivals_inv (Suc n) (es\<lparr>es_next_data_channel := es_next_data_channel es + 1\<rparr>)"
    "arrivals_inv (Suc n) (es\<lparr>es_next_media := es_next_media es + 1\<rparr>)"
    using assms(1) word_succ_bound [OF b(1) assms(2)] word_succ_bound [OF b(2) assms(2)]
    by (auto simp: arrivals_inv_def event_backed_def)
qed

lemma arrivals_inv_dropped:
  "arrivals_inv n es \<Longrightarrow> es' = es\<lparr>es_dropped := d\<rparr> \<Longrightarrow> arrivals_inv n es'"
  by simp

lemma add_data_channel_arrivals:
  assumes "arrivals_inv n es" "Suc n < 2 ^ 64" "p \<noteq> None"
  shows "arrivals_inv (Suc n) (add_data_channel p es)"
proof (cases "es_closed es")
  case True
  with assms(1) arrivals_inv_mono [of n es "Suc n"] show ?thesis by (auto simp: add_data_channel_def)
next
  case False
  let ?i = "es_next_data_channel es"
  let ?es = "es\<lparr>es_next_data_channel := ?i + 1\<rparr>"
  obtain adm es2 where r: "admit_arrival_locked (arrival 9 ?i) ?es = (adm, es2)"
    by (metis prod.exhaust)
  have na: "\<not> advisory (fe_kind (arrival 9 ?i))" by simp
  from False r have def: "add_data_channel p es = signal_readiness
      (if adm then es2\<lparr>es_data_channels := emplace ?i p (es_data_channels es2)\<rparr> else es2)"
    by (auto simp: add_data_channel_def Let_def)
  show ?thesis
  proof (cases rule: admit_arrival_cases [OF r na])
    case 1
    with def spent_identifier(1) [OF assms(1,2)] show ?thesis by simp
  next
    case queued: (2 c m)
    have b: "unat (es_next_data_channel es) \<le> n" "unat (es_next_media es) \<le> n"
      and lt: "\<forall>k\<in>set (keys (es_data_channels es)). k < ?i"
      using assms(1) by (simp_all add: arrivals_inv_def)
    note w = word_succ_bound [OF b(1) assms(2)]
    have fresh: "?i \<notin> set (keys (es_data_channels es))" using lt by auto
    have new: "(arrival_map (fe_kind (arrival 9 ?i)), fe_operation_id (arrival 9 ?i))
        \<notin> set (arrival_keys (es_events es))"
      using queued_arrival_key [OF assms(1), of 1 ?i] by (auto simp: arrival_map_def)
    let ?es' = "es2\<lparr>es_data_channels := emplace ?i p (es_data_channels es2)\<rparr>"
    have bk: "event_backed ?es' (arrival 9 ?i)"
      using assms(3-) fresh queued
      by (auto simp: event_backed_def event_values_def map_of_emplace word_le_nat_alt Let_def)
    have "arrivals_inv (Suc n) ?es'"
      using assms(1) queued fresh lt w b
      by (intro new_arrival [OF assms(1) _ _ _ bk new])
        (auto simp: emplace_fresh handles_extend_def map_le_emplace arrivals_inv_def)
    with def queued(1) show ?thesis by simp
  qed
qed

lemma add_transceiver_arrivals:
  assumes "arrivals_inv n es" "Suc n < 2 ^ 64" "p \<noteq> None"
  shows "arrivals_inv (Suc n) (add_transceiver p es)"
proof (cases "es_closed es")
  case True
  with assms(1) arrivals_inv_mono [of n es "Suc n"] show ?thesis by (auto simp: add_transceiver_def)
next
  case False
  let ?i = "es_next_media es"
  let ?es = "es\<lparr>es_next_media := ?i + 1\<rparr>"
  obtain adm es2 where r: "admit_arrival_locked (arrival 10 ?i) ?es = (adm, es2)"
    by (metis prod.exhaust)
  have na: "\<not> advisory (fe_kind (arrival 10 ?i))" by simp
  from False r have def: "add_transceiver p es = signal_readiness
      (if adm then es2\<lparr>es_transceivers := emplace ?i p (es_transceivers es2)\<rparr> else es2)"
    by (auto simp: add_transceiver_def Let_def)
  show ?thesis
  proof (cases rule: admit_arrival_cases [OF r na])
    case 1
    with def spent_identifier(2) [OF assms(1,2)] show ?thesis by simp
  next
    case queued: (2 c m)
    have b: "unat (es_next_data_channel es) \<le> n" "unat (es_next_media es) \<le> n"
      and lt: "\<forall>k\<in>set (keys (es_transceivers es)). k < ?i"
      using assms(1) by (simp_all add: arrivals_inv_def)
    note w = word_succ_bound [OF b(2) assms(2)]
    have fresh: "?i \<notin> set (keys (es_transceivers es))" using lt by auto
    have new: "(arrival_map (fe_kind (arrival 10 ?i)), fe_operation_id (arrival 10 ?i))
        \<notin> set (arrival_keys (es_events es))"
      using queued_arrival_key [OF assms(1), of 2 ?i] by (auto simp: arrival_map_def)
    let ?es' = "es2\<lparr>es_transceivers := emplace ?i p (es_transceivers es2)\<rparr>"
    have bk: "event_backed ?es' (arrival 10 ?i)"
      using assms(3-) fresh queued
      by (auto simp: event_backed_def event_values_def map_of_emplace word_le_nat_alt Let_def)
    have "arrivals_inv (Suc n) ?es'"
      using assms(1) queued fresh lt w b
      by (intro new_arrival [OF assms(1) _ _ _ bk new])
        (auto simp: emplace_fresh handles_extend_def map_le_emplace arrivals_inv_def)
    with def queued(1) show ?thesis by simp
  qed
qed

lemma remove_receiver_arrivals:
  assumes "arrivals_inv n es" "Suc n < 2 ^ 64" "p \<noteq> None"
  shows "arrivals_inv (Suc n) (remove_receiver p ow es)"
proof (cases "es_closed es")
  case True
  with assms(1) arrivals_inv_mono [of n es "Suc n"] show ?thesis by (auto simp: remove_receiver_def)
next
  case False
  let ?i = "es_next_media es"
  let ?es = "es\<lparr>es_next_media := ?i + 1\<rparr>"
  obtain adm es2 where r: "admit_arrival_locked (arrival 11 ?i) ?es = (adm, es2)"
    by (metis prod.exhaust)
  have na: "\<not> advisory (fe_kind (arrival 11 ?i))" by simp
  from False r have def: "remove_receiver p ow es = signal_readiness
      (if adm then es2\<lparr>es_receivers := emplace ?i (p, ow) (es_receivers es2)\<rparr> else es2)"
    by (auto simp: remove_receiver_def Let_def)
  show ?thesis
  proof (cases rule: admit_arrival_cases [OF r na])
    case 1
    with def spent_identifier(2) [OF assms(1,2)] show ?thesis by simp
  next
    case queued: (2 c m)
    have b: "unat (es_next_data_channel es) \<le> n" "unat (es_next_media es) \<le> n"
      and lt: "\<forall>k\<in>set (keys (es_receivers es)). k < ?i"
      using assms(1) by (simp_all add: arrivals_inv_def)
    note w = word_succ_bound [OF b(2) assms(2)]
    have fresh: "?i \<notin> set (keys (es_receivers es))" using lt by auto
    have new: "(arrival_map (fe_kind (arrival 11 ?i)), fe_operation_id (arrival 11 ?i))
        \<notin> set (arrival_keys (es_events es))"
      using queued_arrival_key [OF assms(1), of 3 ?i] by (auto simp: arrival_map_def)
    let ?es' = "es2\<lparr>es_receivers := emplace ?i (p, ow) (es_receivers es2)\<rparr>"
    have bk: "event_backed ?es' (arrival 11 ?i)"
      using assms(3-) fresh queued
      by (auto simp: event_backed_def event_values_def map_of_emplace word_le_nat_alt Let_def)
    have "arrivals_inv (Suc n) ?es'"
      using assms(1) queued fresh lt w b
      by (intro new_arrival [OF assms(1) _ _ _ bk new])
        (auto simp: emplace_fresh handles_extend_def map_le_emplace arrivals_inv_def)
    with def queued(1) show ?thesis by simp
  qed
qed

lemma add_legacy_arrivals:
  assumes "arrivals_inv n es" "Suc n < 2 ^ 64" "kind \<in> {18, 19, 20}"
    "kind \<noteq> 20 \<longrightarrow> ss \<noteq> []" "kind = 20 \<longrightarrow> p \<noteq> None"
  shows "arrivals_inv (Suc n) (add_legacy kind p ss ow es)"
proof (cases "es_closed es \<or> 128 < length ss")
  case True
  with assms(1) arrivals_inv_mono [of n es "Suc n"] show ?thesis by (auto simp: add_legacy_def)
next
  case False
  let ?i = "es_next_media es"
  let ?es = "es\<lparr>es_next_media := ?i + 1\<rparr>"
  obtain adm es2 where r: "admit_arrival_locked (arrival kind ?i) ?es = (adm, es2)"
    by (metis prod.exhaust)
  have na: "\<not> advisory (fe_kind (arrival kind ?i))" using assms(3) by auto
  from False r have def: "add_legacy kind p ss ow es = signal_readiness
      (if adm then es2\<lparr>es_legacy := emplace ?i \<lparr>la_receiver = p, la_owner = ow, la_streams = ss\<rparr> (es_legacy es2)\<rparr> else es2)"
    by (auto simp: add_legacy_def Let_def)
  show ?thesis
  proof (cases rule: admit_arrival_cases [OF r na])
    case 1
    with def spent_identifier(2) [OF assms(1,2)] show ?thesis by simp
  next
    case queued: (2 c m)
    have b: "unat (es_next_data_channel es) \<le> n" "unat (es_next_media es) \<le> n"
      and lt: "\<forall>k\<in>set (keys (es_legacy es)). k < ?i"
      using assms(1) by (simp_all add: arrivals_inv_def)
    note w = word_succ_bound [OF b(2) assms(2)]
    have fresh: "?i \<notin> set (keys (es_legacy es))" using lt by auto
    have new: "(arrival_map (fe_kind (arrival kind ?i)), fe_operation_id (arrival kind ?i))
        \<notin> set (arrival_keys (es_events es))"
      using queued_arrival_key [OF assms(1), of 4 ?i] assms(3) by (auto simp: arrival_map_def)
    let ?es' = "es2\<lparr>es_legacy := emplace ?i \<lparr>la_receiver = p, la_owner = ow, la_streams = ss\<rparr> (es_legacy es2)\<rparr>"
    have bk: "event_backed ?es' (arrival kind ?i)"
      using assms(3-) fresh queued
      by (auto simp: event_backed_def event_values_def map_of_emplace word_le_nat_alt Let_def)
    have "arrivals_inv (Suc n) ?es'"
      using assms(1) queued fresh lt w b
      by (intro new_arrival [OF assms(1) _ _ _ bk new])
        (auto simp: emplace_fresh handles_extend_def map_le_emplace arrivals_inv_def)
    with def queued(1) show ?thesis by simp
  qed
qed

text \<open>The SDK's documented values: enumerators of its state enumerations, and references that are
  not null.\<close>

fun callback_ok :: "sdk_callback \<Rightarrow> bool" where
  "callback_ok (OnSignalingChange s) = (s \<le> 5)"
| "callback_ok (OnConnectionChange s) = (s \<le> 5)"
| "callback_ok (OnIceGatheringChange s) = (s \<le> 2)"
| "callback_ok (OnDataChannel c) = (c \<noteq> None)"
| "callback_ok (OnTrack t) = (t \<noteq> None)"
| "callback_ok (OnRemoveTrack r ow) = (r \<noteq> None)"
| "callback_ok (OnAddTrack r ss ow) = (r \<noteq> None)"
| "callback_ok (OnChannelMessage m) = (cm_direction m \<le> 1 \<and> cm_data_type m \<le> 1)"
| "callback_ok (OnDescriptionCreated i d) = (case d of None \<Rightarrow> True | Some (ty, sdp) \<Rightarrow> ty \<le> 3)"
| "callback_ok cb = True"

lemma plain_backed:
  "arrival_map (fe_kind e) = 0 \<Longrightarrow> event_backed es e = event_values e"
  by (auto simp: event_backed_def arrival_map_def Let_def split: if_splits)

lemma set_complete_fields [simp]: "fe_has_description (set_complete i r) = False"
  by (simp add: set_complete_def ErrorEvent_def EmptyEvent_def split: option.split prod.split)

lemma error_event_fields [simp]: "fe_has_description (ErrorEvent i ty m) = False"
  "fe_has_description (ClosedOperation i) = False"
  by (simp_all add: ErrorEvent_def EmptyEvent_def ClosedOperation_def)

lemma description_values:
  "callback_ok (OnDescriptionCreated i d) \<Longrightarrow> event_values (description_created i d)"
  by (auto simp: event_values_def description_created_def Let_def EmptyEvent_def word_le_nat_alt
      split: option.splits)

lemma description_arrivals:
  assumes "callback_ok (OnDescriptionCreated i d)" "arrivals_inv n es"
  shows "arrivals_inv n (complete (description_created i d) es)"
proof -
  have m: "arrival_map (fe_kind (description_created i d)) = 0" by (simp add: arrival_map_def)
  show ?thesis
    using complete_arrivals [OF assms(2) _ m] plain_backed [OF m] description_values [OF assms(1)]
    by simp
qed

lemma deliver_arrivals:
  assumes "arrivals_inv n es" "Suc n < 2 ^ 64" "callback_ok cb"
  shows "arrivals_inv (Suc n) (deliver cb es)"
proof (cases "\<exists>i d. cb = OnDescriptionCreated i d")
  case True
  with description_arrivals assms(3) arrivals_inv_mono [OF assms(1), of "Suc n"]
  show ?thesis by auto
next
  case False
  note up = arrivals_inv_mono [OF assms(1), of "Suc n"]
  note plain = push_event_arrivals complete_arrivals stage_legacy_arrivals publish_legacy_arrivals
  show ?thesis using assms up False
    by (cases cb; simp add: plain plain_backed arrival_map_def event_values_def word_le_nat_alt
        add_data_channel_arrivals add_transceiver_arrivals remove_receiver_arrivals
        add_legacy_arrivals stats_records_decode split: option.splits)
qed

lemma begin_arrivals:
  "begin_operation i sdp es = (st, es') \<Longrightarrow> arrivals_inv n es \<Longrightarrow> arrivals_inv n es'"
  "begin_stats i es = (st, es') \<Longrightarrow> arrivals_inv n es \<Longrightarrow> arrivals_inv n es'"
  by (auto simp: begin_operation_def begin_stats_def begin_locked_def split: if_splits)

lemma take_event_arrivals:
  assumes "arrivals_inv n es" "take_event es = (e, es')"
  shows "arrivals_inv n es'" "same_handles es es'"
    and "es_events es \<noteq> [] \<Longrightarrow> event_backed es' e
      \<and> (arrival_map (fe_kind e) \<noteq> 0 \<longrightarrow>
           (arrival_map (fe_kind e), fe_operation_id e) \<notin> set (arrival_keys (es_events es')))"
    and "es_events es = [] \<Longrightarrow> fe_kind e = kNoEvent \<and> es' = es"
proof -
  from assms(2) have es': "es' = snd (take_event es)" by simp
  have h: "same_handles es es'" "es_events es' = tl (es_events es)" "es_staged es' = es_staged es"
    "es_next_data_channel es' = es_next_data_channel es" "es_next_media es' = es_next_media es"
    unfolding es' by (auto simp: take_event_def Let_def same_handles_def split: list.split)
  then show "same_handles es es'" by simp
  have sub: "set (tl (es_events es)) \<subseteq> set (es_events es)" by (cases "es_events es") auto
  have d: "distinct (arrival_keys (es_events es))" using assms(1) by (simp add: arrivals_inv_def)
  then have "distinct (arrival_keys (tl (es_events es)))"
    by (cases "es_events es") (auto split: if_splits)
  with h sub assms(1) show "arrivals_inv n es'"
    by (intro arrivals_inv_frame [OF assms(1)]) (auto simp: arrivals_inv_def)
  show "event_backed es' e \<and> (arrival_map (fe_kind e) \<noteq> 0 \<longrightarrow>
      (arrival_map (fe_kind e), fe_operation_id e) \<notin> set (arrival_keys (es_events es')))"
    if "es_events es \<noteq> []"
  proof -
    from that obtain x xs where xs: "es_events es = x # xs" by (cases "es_events es") auto
    with assms(2) have "e = x" by (simp add: take_event_def Let_def)
    moreover have "event_backed es x" using assms(1) xs by (simp add: arrivals_inv_def)
    ultimately show ?thesis using d h(1,2) xs by (auto simp: same_handles_backed split: if_splits)
  qed
  show "fe_kind e = kNoEvent \<and> es' = es" if "es_events es = []"
    using assms(2) that by (auto simp: take_event_def)
qed

lemma backed_delete:
  assumes "event_backed es x" "arrival_map (fe_kind x) \<noteq> m \<or> fe_operation_id x \<noteq> i"
  shows "m = 1 \<Longrightarrow> event_backed (es\<lparr>es_data_channels := AList.delete i (es_data_channels es)\<rparr>) x"
    "m = 2 \<Longrightarrow> event_backed (es\<lparr>es_transceivers := AList.delete i (es_transceivers es)\<rparr>) x"
    "m = 3 \<Longrightarrow> event_backed (es\<lparr>es_receivers := AList.delete i (es_receivers es)\<rparr>) x"
    "m = 4 \<Longrightarrow> event_backed (es\<lparr>es_legacy := AList.delete i (es_legacy es)\<rparr>) x"
  using assms by (auto simp: event_backed_def arrival_map_def delete_conv Let_def)

lemma delete_handle_arrivals:
  assumes "arrivals_inv n es" "(m, i) \<notin> set (arrival_keys (es_events es))" "m \<noteq> 0"
  shows "m = 1 \<Longrightarrow> arrivals_inv n (es\<lparr>es_data_channels := AList.delete i (es_data_channels es)\<rparr>)"
    "m = 2 \<Longrightarrow> arrivals_inv n (es\<lparr>es_transceivers := AList.delete i (es_transceivers es)\<rparr>)"
    "m = 3 \<Longrightarrow> arrivals_inv n (es\<lparr>es_receivers := AList.delete i (es_receivers es)\<rparr>)"
    "m = 4 \<Longrightarrow> arrivals_inv n (es\<lparr>es_legacy := AList.delete i (es_legacy es)\<rparr>)"
proof -
  have k: "event_backed es x \<and> (arrival_map (fe_kind x) \<noteq> m \<or> fe_operation_id x \<noteq> i)"
    if "x \<in> set (es_events es)" for x
    using that assms by (auto simp: arrivals_inv_def set_arrival_keys)
  note bd = backed_delete [OF k [THEN conjunct1] k [THEN conjunct2]]
  show "m = 1 \<Longrightarrow> arrivals_inv n (es\<lparr>es_data_channels := AList.delete i (es_data_channels es)\<rparr>)"
    "m = 2 \<Longrightarrow> arrivals_inv n (es\<lparr>es_transceivers := AList.delete i (es_transceivers es)\<rparr>)"
    "m = 3 \<Longrightarrow> arrivals_inv n (es\<lparr>es_receivers := AList.delete i (es_receivers es)\<rparr>)"
    "m = 4 \<Longrightarrow> arrivals_inv n (es\<lparr>es_legacy := AList.delete i (es_legacy es)\<rparr>)"
    using assms(1) bd by (auto simp: arrivals_inv_def AList.delete_eq)
qed

lemma arrival_keys_plain: "\<forall>e\<in>set xs. arrival_map (fe_kind e) = 0 \<Longrightarrow> arrival_keys xs = []"
  by (induction xs) auto

lemma close_events_arrivals:
  assumes "arrivals_inv n es"
  shows "arrivals_inv n (close_events es)"
proof (cases "es_closed es")
  case True
  with assms show ?thesis by (simp add: close_events_def)
next
  case False
  let ?es = "close_events es"
  have ev: "\<forall>e\<in>set (es_events ?es). e \<in> set (es_events es) \<and> terminal_kind (fe_kind e)
      \<or> es_staged es = Some e \<or> (\<exists>i. e = ClosedOperation i) \<or> e = closed_event"
    using False by (auto simp: close_events_def Let_def split: option.splits if_splits)
  have f: "es_data_channels ?es = []" "es_transceivers ?es = []" "es_receivers ?es = []"
    "es_legacy ?es = []" "es_staged ?es = None"
    "es_next_data_channel ?es = es_next_data_channel es" "es_next_media ?es = es_next_media es"
    using False by (simp_all add: close_events_def Let_def split: option.splits)
  have plain: "arrival_map (fe_kind e) = 0 \<and> event_backed ?es e" if "e \<in> set (es_events ?es)" for e
  proof -
    from ev that consider "e \<in> set (es_events es)" "terminal_kind (fe_kind e)"
      | "es_staged es = Some e" | i where "e = ClosedOperation i" | "e = closed_event" by blast
    then show ?thesis
    proof cases
      case 1
      then have "event_backed es e" using assms by (simp add: arrivals_inv_def)
      with arrival_map_terminal [OF 1(2)] show ?thesis by (simp add: plain_backed)
    next
      case 2
      then have k: "fe_kind e = 16" using assms by (simp add: arrivals_inv_def)
      then show ?thesis by (simp add: legacy_backed arrival_map_def)
    next
      case (3 i)
      then show ?thesis by (simp add: plain_backed arrival_map_def event_values_def word_le_nat_alt)
    next
      case 4
      then show ?thesis by (simp add: plain_backed arrival_map_def event_values_def word_le_nat_alt)
    qed
  qed
  then have "arrival_keys (es_events ?es) = []" by (simp add: arrival_keys_plain)
  with plain f assms show ?thesis by (simp add: arrivals_inv_def)
qed

lemma event_state_new_inv:
  "ops_inv (event_state_new r)" "queue_inv (event_state_new r)" "arrivals_inv 1 (event_state_new r)"
  by (simp_all add: event_state_new_def ops_inv_def queued_ops_def queue_inv_def arrivals_inv_def)

text \<open>How much a state can hold: 64 outcomes, 128 control events, one event of each of the six
  advisory kinds, and the closing notice.\<close>

lemma queue_length_bound:
  assumes "ops_inv es" "queue_inv es"
  shows "length (es_events es) \<le> 199"
proof -
  let ?ev = "es_events es"
  have split: "length xs = length (filter (\<lambda>e. terminal_kind (fe_kind e)) xs)
      + length (filter control_event xs) + length (advisory_kinds xs)
      + length (filter (\<lambda>e. fe_kind e = kClosed) xs)" for xs
    by (induction xs) (auto simp: control_event_def dest: advisory_not_terminal)
  have "length (filter (\<lambda>e. terminal_kind (fe_kind e)) ?ev) = length (queued_ops es)"
    by (simp add: queued_ops_def)
  also have "\<dots> = card (set (queued_ops es))" using assms(1) by (simp add: ops_inv_def distinct_card)
  also have "\<dots> \<le> card (set (es_admitted es))"
    using assms(1) by (intro card_mono) (auto simp: ops_inv_def)
  also have "\<dots> \<le> 64" using assms(1) card_length [of "es_admitted es"] by (simp add: ops_inv_def)
  finally have t: "length (filter (\<lambda>e. terminal_kind (fe_kind e)) ?ev) \<le> 64" .
  have kinds: "advisory k \<Longrightarrow> k \<in> {3, 4, 5, 6, 21, 22}" for k :: u8
  proof -
    assume "advisory k"
    then have "unat k \<in> {3, 4, 5, 6, 21, 22}" by (auto simp: advisory_def word_le_nat_alt)
    then show ?thesis by (auto simp: word_unat_eq_iff)
  qed
  have "set (advisory_kinds ?ev) \<subseteq> {3, 4, 5, 6, 21, 22}"
    using kinds by (auto simp: advisory_kinds_def)
  then have "card (set (advisory_kinds ?ev)) \<le> card {3, 4, 5, 6, 21, 22 :: u8}"
    by (intro card_mono) simp_all
  also have "\<dots> = 6" by simp
  finally have a: "length (advisory_kinds ?ev) \<le> 6"
    using assms(2) by (simp add: queue_inv_def distinct_card)
  have "length (filter (\<lambda>e. fe_kind e = kClosed) ?ev) \<le> 1"
    using assms(2) by (cases "es_closed es") (simp_all add: queue_inv_def)
  moreover have "length (filter control_event ?ev) \<le> 128" using assms(2) by (simp add: queue_inv_def)
  ultimately show ?thesis using t a split [of ?ev] by linarith
qed

end
