(* ===== verification/PeerOperations.thy ===== *)
theory PeerOperations
  imports PeerEvents
begin

text \<open>
  The owner's side of a peer connection (\<open>src/peer.rs\<close>, with the adapters of \<open>native/peer.cc\<close> it
  calls): the values its events are decoded to, the asynchronous requests with their admission, the
  taking of events and closing.  A Rust \<open>String\<close> is its bytes, which \<open>String::from_utf8\<close> has
  checked; a panic (\<open>unreachable!\<close>, \<open>assert!\<close>) is an outer \<open>None\<close>.  What the SDK does when it is
  called is an argument of each step: its parsers' answers and the callbacks it makes before it
  returns.
\<close>

subsection \<open>UTF-8\<close>

definition continuation :: "u8 \<Rightarrow> bool" where
  "continuation b \<longleftrightarrow> 0x80 \<le> b \<and> b \<le> 0xBF"

text \<open>The bytes of the first character, 0 if it is ill-formed (RFC 3629: no overlong forms, no
  surrogates, nothing above U+10FFFF).\<close>

definition utf8_width :: "bytes \<Rightarrow> nat" where
  "utf8_width bs = (case bs of
       [] \<Rightarrow> 0
     | a # xs \<Rightarrow>
         if a < 0x80 then 1
         else if 0xC2 \<le> a \<and> a \<le> 0xDF then
           (case xs of b # _ \<Rightarrow> if continuation b then 2 else 0 | _ \<Rightarrow> 0)
         else if 0xE0 \<le> a \<and> a \<le> 0xEF then
           (case xs of b # c # _ \<Rightarrow>
                if continuation b \<and> continuation c \<and> (a = 0xE0 \<longrightarrow> 0xA0 \<le> b)
                   \<and> (a = 0xED \<longrightarrow> b \<le> 0x9F)
                then 3 else 0
            | _ \<Rightarrow> 0)
         else if 0xF0 \<le> a \<and> a \<le> 0xF4 then
           (case xs of b # c # d # _ \<Rightarrow>
                if continuation b \<and> continuation c \<and> continuation d \<and> (a = 0xF0 \<longrightarrow> 0x90 \<le> b)
                   \<and> (a = 0xF4 \<longrightarrow> b \<le> 0x8F)
                then 4 else 0
            | _ \<Rightarrow> 0)
         else 0)"

function utf8_ok :: "bytes \<Rightarrow> bool" where
  "utf8_ok bs = (if bs = [] then True else if utf8_width bs = 0 then False
     else utf8_ok (drop (utf8_width bs) bs))"
  by pat_completeness auto

termination utf8_ok
  by (relation "measure length") simp_all

declare utf8_ok.simps [simp del]

definition from_utf8 :: "bytes \<Rightarrow> (bytes, bytes) result" where
  "from_utf8 bs = (if utf8_ok bs then Inr bs else Inl bs)"

definition text_of :: "bytes \<Rightarrow> string" where
  "text_of bs = map (\<lambda>b. char_of (unat b)) bs"

subsection \<open>Values\<close>

datatype session_description_type = Offer | ProvisionalAnswer | Answer | Rollback

record session_description =
  sd_kind :: session_description_type
  sd_sdp :: bytes

datatype peer_ice_connection_state =
    IceNew | IceChecking | IceConnected | IceCompleted | IceFailed | IceDisconnected | IceClosed
  | IceMax | IceNative i32

definition ice_from_raw :: "i32 \<Rightarrow> peer_ice_connection_state" where
  "ice_from_raw v = (if v = 0 then IceNew else if v = 1 then IceChecking
     else if v = 2 then IceConnected else if v = 3 then IceCompleted else if v = 4 then IceFailed
     else if v = 5 then IceDisconnected else if v = 6 then IceClosed else if v = 7 then IceMax
     else IceNative v)"

fun ice_raw :: "peer_ice_connection_state \<Rightarrow> i32" where
  "ice_raw IceNew = 0" | "ice_raw IceChecking = 1" | "ice_raw IceConnected = 2"
| "ice_raw IceCompleted = 3" | "ice_raw IceFailed = 4" | "ice_raw IceDisconnected = 5"
| "ice_raw IceClosed = 6" | "ice_raw IceMax = 7" | "ice_raw (IceNative v) = v"

datatype signaling_state =
    SignalingStable | HaveLocalOffer | HaveLocalProvisionalAnswer | HaveRemoteOffer
  | HaveRemoteProvisionalAnswer | SignalingClosed

datatype connection_state =
    ConnectionNew | Connecting | Connected | Disconnected | ConnectionFailed | ConnectionClosed

datatype ice_gathering_state = GatheringNew | Gathering | GatheringComplete

definition sdp_type :: "u8 \<Rightarrow> session_description_type option" where
  "sdp_type v = (if v = 0 then Some Offer else if v = 1 then Some ProvisionalAnswer
     else if v = 2 then Some Answer else if v = 3 then Some Rollback else None)"

fun sdp_type_raw :: "session_description_type \<Rightarrow> u8" where
  "sdp_type_raw Offer = 0" | "sdp_type_raw ProvisionalAnswer = 1"
| "sdp_type_raw Answer = 2" | "sdp_type_raw Rollback = 3"

definition connection_state :: "u8 \<Rightarrow> connection_state option" where
  "connection_state v = (if v = 0 then Some ConnectionNew else if v = 1 then Some Connecting
     else if v = 2 then Some Connected else if v = 3 then Some Disconnected
     else if v = 4 then Some ConnectionFailed else if v = 5 then Some ConnectionClosed else None)"

definition signaling_state :: "u8 \<Rightarrow> signaling_state option" where
  "signaling_state v = (if v = 0 then Some SignalingStable else if v = 1 then Some HaveLocalOffer
     else if v = 2 then Some HaveLocalProvisionalAnswer else if v = 3 then Some HaveRemoteOffer
     else if v = 4 then Some HaveRemoteProvisionalAnswer
     else if v = 5 then Some SignalingClosed else None)"

definition gathering_state :: "u8 \<Rightarrow> ice_gathering_state option" where
  "gathering_state v = (if v = 0 then Some GatheringNew else if v = 1 then Some Gathering
     else if v = 2 then Some GatheringComplete else None)"

definition error_kind :: "u8 \<Rightarrow> peer_error_kind" where
  "error_kind v = (if v = 1 then UnsupportedOperation else if v = 2 then UnsupportedParameter
     else if v = 3 then InvalidParameter else if v = 4 then InvalidRange else if v = 5 then Syntax
     else if v = 6 then InvalidState else if v = 7 then InvalidModification
     else if v = 8 then Network else if v = 9 then ResourceExhausted else if v = 10 then Internal
     else if v = 11 then Operation else if v = 255 then Closed else Internal)"

record ice_candidate =
  ic_sdp_mid :: bytes
  ic_sdp_mline_index :: i32
  ic_candidate :: bytes

text \<open>\<open>TryFrom<SessionDescriptionBytes>\<close> and \<open>TryFrom<IceCandidateBytes>\<close>.\<close>

definition description_from_bytes :: "session_description \<Rightarrow> (bytes, session_description) result" where
  "description_from_bytes v = and_then (from_utf8 (sd_sdp v)) (\<lambda>sdp. Inr (v\<lparr>sd_sdp := sdp\<rparr>))"

definition candidate_from_bytes :: "ice_candidate \<Rightarrow> (bytes, ice_candidate) result" where
  "candidate_from_bytes v = and_then (from_utf8 (ic_sdp_mid v)) (\<lambda>mid.
     and_then (from_utf8 (ic_candidate v)) (\<lambda>candidate.
       Inr (v\<lparr>ic_sdp_mid := mid, ic_candidate := candidate\<rparr>)))"

datatype message_direction = MessageSend | MessageReceive
datatype message_kind = MessageText | MessageBinary

record peer_data_channel_message =
  dm_unix_timestamp_ms :: i64
  dm_datachannel_id :: i32
  dm_label :: bytes
  dm_direction :: message_direction
  dm_kind :: message_kind
  dm_bytes :: bytes

record ice_candidate_pair_change =
  pc_transport_name :: bytes
  pc_local :: nat
  pc_remote :: nat
  pc_last_data_received_ms :: i64
  pc_reason :: bytes
  pc_estimated_disconnected_time_ms :: i64

definition pair_change_from_native :: "ice_pair_change \<Rightarrow> ice_candidate_pair_change" where
  "pair_change_from_native v = \<lparr>pc_transport_name = pair_transport_name v, pc_local = pair_local v,
     pc_remote = pair_remote v, pc_last_data_received_ms = pair_last_data_received_ms v,
     pc_reason = pair_reason v, pc_estimated_disconnected_time_ms = pair_disconnected_ms v\<rparr>"

record peer_error_bytes =
  peb_kind :: peer_error_kind
  peb_message :: bytes

record peer_stats_snapshot =
  ps_report :: pointer
  ps_operation_id :: u64
  ps_timestamp_us :: i64
  ps_records :: "peer_stats_record list"

datatype peer_connection_event =
    RenegotiationNeeded
  | IceConnectionReceivingChanged bool
  | InterestingUsage i32
  | DataChannelMessage peer_data_channel_message
  | IceSelectedCandidatePairChanged ice_candidate_pair_change
  | Stats peer_stats_snapshot
  | LegacyStats u64 nat
  | OperationComplete u64 "(peer_error, session_description option) result"
  | OperationCompleteBytes u64 session_description
  | OperationFailedBytes u64 peer_error_bytes
  | IceCandidate ice_candidate
  | IceCandidateBytes ice_candidate
  | IceCandidateRemoved ice_candidate
  | IceCandidateRemovedBytes ice_candidate
  | ConnectionStateChanged connection_state
  | SignalingStateChanged signaling_state
  | IceGatheringStateChanged ice_gathering_state
  | IceConnectionStateChanged peer_ice_connection_state
  | StandardizedIceConnectionStateChanged peer_ice_connection_state
  | NegotiationNeeded u32
  | IceCandidateError string i32 string i32 bytes
  | IceCandidateErrorBytes string i32 string i32 bytes
  | DataChannel nat
  | Track nat
  | TrackRemoved nat pointer
  | StreamAdded pointer
  | StreamRemoved pointer
  | TrackAdded nat pointer "pointer list"
  | PeerClosed

subsection \<open>Decoding an event\<close>

definition operation_event :: "ffi_peer_event \<Rightarrow> peer_connection_event option" where
  "operation_event e = (let i = fe_operation_id e in
     if fe_error_type e \<noteq> 0 then
       let kind = error_kind (fe_error_type e) in
       Some (case from_utf8 (fe_message e) of
           Inr message \<Rightarrow> OperationComplete i (Inl \<lparr>pe_kind = kind, pe_message = text_of message\<rparr>)
         | Inl message \<Rightarrow> OperationFailedBytes i \<lparr>peb_kind = kind, peb_message = message\<rparr>)
     else if \<not> fe_has_description e then Some (OperationComplete i (Inr None))
     else
       map_option (\<lambda>kind. case from_utf8 (fe_sdp e) of
           Inr sdp \<Rightarrow> OperationComplete i (Inr (Some \<lparr>sd_kind = kind, sd_sdp = sdp\<rparr>))
         | Inl sdp \<Rightarrow> OperationCompleteBytes i \<lparr>sd_kind = kind, sd_sdp = sdp\<rparr>)
       (sdp_type (fe_sdp_type e)))"

definition candidate_observation :: "ffi_peer_event \<Rightarrow> peer_connection_event" where
  "candidate_observation e =
     (let removed = fe_kind e = 15;
          bytes = \<lparr>ic_sdp_mid = fe_sdp_mid e, ic_sdp_mline_index = fe_sdp_mline_index e,
                   ic_candidate = fe_candidate e\<rparr>
      in case candidate_from_bytes bytes of
           Inr v \<Rightarrow> if removed then IceCandidateRemoved v else IceCandidate v
         | Inl _ \<Rightarrow> if removed then IceCandidateRemovedBytes bytes else IceCandidateBytes bytes)"

definition message_observation :: "channel_message \<Rightarrow> peer_connection_event option" where
  "message_observation m =
     Option.bind (if cm_direction m = 0 then Some MessageSend
                  else if cm_direction m = 1 then Some MessageReceive else None) (\<lambda>direction.
     map_option (\<lambda>kind. DataChannelMessage
       \<lparr>dm_unix_timestamp_ms = cm_unix_timestamp_ms m, dm_datachannel_id = cm_datachannel_id m,
        dm_label = cm_label m, dm_direction = direction, dm_kind = kind, dm_bytes = cm_data m\<rparr>)
     (if cm_data_type m = 0 then Some MessageText
      else if cm_data_type m = 1 then Some MessageBinary else None))"

definition candidate_error_event :: "ffi_peer_event \<Rightarrow> peer_connection_event" where
  "candidate_error_event e = (case from_utf8 (fe_message e) of
       Inr message \<Rightarrow> IceCandidateError (fe_address e) (fe_port e) (fe_url e) (fe_error_code e) message
     | Inl message \<Rightarrow>
         IceCandidateErrorBytes (fe_address e) (fe_port e) (fe_url e) (fe_error_code e) message)"

text \<open>The records of a statistics event, all or (on an unknown kind) none.\<close>

definition stats_event :: "ffi_peer_event \<Rightarrow> peer_connection_event option" where
  "stats_event e =
     (let records = map stats_record_from_ffi (fe_stats_records e) in
      if None \<in> set records then None
      else Some (Stats \<lparr>ps_report = fe_stats_report e, ps_operation_id = fe_operation_id e,
             ps_timestamp_us = fe_stats_timestamp_us e, ps_records = map the records\<rparr>))"

text \<open>The adapters that hand an arrival over; the wrappers keep a null reference null.\<close>

definition peer_take_stream_event :: "u64 \<Rightarrow> event_state \<Rightarrow> pointer option \<times> event_state" where
  "peer_take_stream_event i es =
     (let (a, es) = take_legacy i es in
      (case la_streams a of [] \<Rightarrow> None | s # _ \<Rightarrow> Some s, es))"

definition peer_take_track_event ::
  "u64 \<Rightarrow> event_state \<Rightarrow> (pointer \<times> pointer \<times> pointer list) \<times> event_state" where
  "peer_take_track_event i es =
     (let (a, es) = take_legacy i es in ((la_receiver a, la_owner a, la_streams a), es))"

definition handle_event :: "ffi_peer_event \<Rightarrow> event_state \<Rightarrow> (peer_connection_event \<times> event_state) option"
where
  "handle_event e es =
     (let k = fe_kind e; i = fe_operation_id e in
      if k = 9 then
        let (native, es) = take_data_channel i es in map_option (\<lambda>p. (DataChannel p, es)) native
      else if k = 10 then
        let (native, es) = take_transceiver i es in map_option (\<lambda>p. (Track p, es)) native
      else if k = 11 then
        let ((native, owner), es) = take_receiver i es
        in map_option (\<lambda>p. (TrackRemoved p owner, es)) native
      else if k = 18 \<or> k = 19 then
        let (native, es) = peer_take_stream_event i es
        in map_option (\<lambda>s. (if k = 18 then StreamAdded s else StreamRemoved s, es)) native
      else if k = 20 then
        let ((receiver, owner, streams), es) = peer_take_track_event i es
        in map_option (\<lambda>r. (TrackAdded r owner streams, es)) receiver
      else None)"

definition plain_event :: "ffi_peer_event \<Rightarrow> peer_connection_event option" where
  "plain_event e =
     (let k = fe_kind e in
      if k = 17 then Some (IceSelectedCandidatePairChanged (pair_change_from_native (fe_pair_change e)))
      else if k = 16 then Some (LegacyStats (fe_operation_id e) (fe_legacy_stats e))
      else if k = 12 then stats_event e
      else if k = 1 then operation_event e
      else if k = 2 \<or> k = 15 then Some (candidate_observation e)
      else if k = 3 then map_option ConnectionStateChanged (connection_state (fe_state e))
      else if k = 4 then map_option SignalingStateChanged (signaling_state (fe_state e))
      else if k = 5 then map_option IceGatheringStateChanged (gathering_state (fe_state e))
      else if k = 13 then Some (IceConnectionStateChanged (ice_from_raw (fe_ice_state e)))
      else if k = 14 then Some (StandardizedIceConnectionStateChanged (ice_from_raw (fe_ice_state e)))
      else if k = 6 then Some (NegotiationNeeded (fe_event_id e))
      else if k = 7 then Some (candidate_error_event e)
      else if k = 8 then Some PeerClosed
      else if k = 21 then Some RenegotiationNeeded
      else if k = 22 then Some (IceConnectionReceivingChanged (fe_state e \<noteq> 0))
      else if k = 23 then Some (InterestingUsage (fe_ice_state e))
      else if k = 24 then message_observation (fe_channel_message e)
      else None)"

definition event_from_ffi ::
  "ffi_peer_event \<Rightarrow> event_state \<Rightarrow> (peer_connection_event option \<times> event_state) option" where
  "event_from_ffi e es =
     (let k = fe_kind e in
      if k = 0 then Some (None, es)
      else if k = 9 \<or> k = 10 \<or> k = 11 \<or> k = 18 \<or> k = 19 \<or> k = 20
      then map_option (\<lambda>(v, es). (Some v, es)) (handle_event e es)
      else map_option (\<lambda>v. (Some v, es)) (plain_event e))"

subsection \<open>Requests\<close>

record offer_answer_options =
  oa_receive_video :: "u32 option"
  oa_receive_audio :: "u32 option"
  oa_voice_activity_detection :: bool
  oa_ice_restart :: bool
  oa_use_rtp_mux :: bool
  oa_raw_packetization_for_video :: bool
  oa_simulcast_layers :: u32
  oa_use_obsolete_sctp_sdp :: bool

definition options_default :: offer_answer_options where
  "options_default = \<lparr>oa_receive_video = None, oa_receive_audio = None,
     oa_voice_activity_detection = True, oa_ice_restart = False, oa_use_rtp_mux = True,
     oa_raw_packetization_for_video = False, oa_simulcast_layers = 1,
     oa_use_obsolete_sctp_sdp = False\<rparr>"

record ffi_offer_answer_options =
  fo_receive_video :: i32
  fo_receive_audio :: i32
  fo_voice_activity_detection :: bool
  fo_ice_restart :: bool
  fo_use_rtp_mux :: bool
  fo_raw_packetization_for_video :: bool
  fo_simulcast_layers :: i32
  fo_use_obsolete_sctp_sdp :: bool

text \<open>\<open>i32::try_from\<close> on a \<open>u32\<close>: the same 32 bits, unless the top one is set.\<close>

definition i32_try_from :: "u32 \<Rightarrow> 'e \<Rightarrow> ('e, i32) result" where
  "i32_try_from v err = (if unat v < 2 ^ 31 then Inr v else Inl err)"

definition options_range :: peer_error where
  "options_range = \<lparr>pe_kind = InvalidRange,
     pe_message = ''offer/answer count exceeds native i32 range''\<rparr>"

definition option_or_unset :: "'e \<Rightarrow> u32 option \<Rightarrow> ('e, i32) result" where
  "option_or_unset err v = (case v of None \<Rightarrow> Inr (- 1) | Some v \<Rightarrow> i32_try_from v err)"

definition options_to_native ::
  "offer_answer_options \<Rightarrow> (peer_error, ffi_offer_answer_options) result" where
  "options_to_native o' =
     and_then (option_or_unset options_range (oa_receive_video o')) (\<lambda>video.
     and_then (option_or_unset options_range (oa_receive_audio o')) (\<lambda>audio.
     and_then (i32_try_from (oa_simulcast_layers o') options_range) (\<lambda>layers.
     Inr \<lparr>fo_receive_video = video, fo_receive_audio = audio,
          fo_voice_activity_detection = oa_voice_activity_detection o',
          fo_ice_restart = oa_ice_restart o', fo_use_rtp_mux = oa_use_rtp_mux o',
          fo_raw_packetization_for_video = oa_raw_packetization_for_video o',
          fo_simulcast_layers = layers,
          fo_use_obsolete_sctp_sdp = oa_use_obsolete_sctp_sdp o'\<rparr>)))"

text \<open>What the binding asks of the SDK, parsed descriptions and candidates by address; the last
  component says whether the SDK's legacy observer is used.\<close>

datatype stats_selector = AllStats | SenderStats pointer | ReceiverStats pointer

datatype sdk_request =
    SdkCreateOffer u64 ffi_offer_answer_options
  | SdkCreateAnswer u64 ffi_offer_answer_options
  | SdkSetLocalAuto u64 bool
  | SdkSetLocal u64 nat bool
  | SdkSetRemote u64 nat bool
  | SdkAddCandidate u64 nat
  | SdkGetStats u64 stats_selector
  | SdkGetLegacyStats u64 pointer u8
  | SdkModifyCandidate bool nat
  | SdkSetBitrate "i32 option" "i32 option" "i32 option"
  | SdkClose

text \<open>The SDK during one call: its parsers, the callbacks it makes before it returns, and its answer
  (the legacy stats acceptance, the synchronous candidate answer, the error of \<open>SetBitrate\<close>).\<close>

record sdk =
  sdk_parse_description :: "session_description_type \<Rightarrow> bytes \<Rightarrow> (bytes, nat) result"
  sdk_parse_candidate :: "bytes \<Rightarrow> i32 \<Rightarrow> bytes \<Rightarrow> (bytes, nat) result"
  sdk_callbacks :: "sdk_request \<Rightarrow> sdk_callback list"
  sdk_accepts :: "sdk_request \<Rightarrow> bool"
  sdk_error :: "sdk_request \<Rightarrow> u8 \<times> string"

definition sdk_call :: "sdk \<Rightarrow> sdk_request \<Rightarrow> event_state \<Rightarrow> event_state" where
  "sdk_call sdk r es = fold deliver (sdk_callbacks sdk r) es"

definition parse_description ::
  "sdk \<Rightarrow> u8 \<Rightarrow> bytes \<Rightarrow> (bytes, nat) result" where
  "parse_description sdk ty sdp = (case sdp_type ty of
       None \<Rightarrow> Inl (text_bytes ''invalid session description type'')
     | Some t \<Rightarrow> if t = Rollback \<and> sdp \<noteq> [] then Inl (text_bytes ''rollback must not contain SDP'')
         else sdk_parse_description sdk t sdp)"

subsubsection \<open>The adapters\<close>

definition peer_create_offer ::
  "sdk \<Rightarrow> u64 \<Rightarrow> ffi_offer_answer_options \<Rightarrow> event_state \<Rightarrow> u8 \<times> event_state" where
  "peer_create_offer sdk i options es =
     (let (status, es) = begin_operation i True es in
      if status \<noteq> 0 then (status, es) else (0, sdk_call sdk (SdkCreateOffer i options) es))"

definition peer_create_answer ::
  "sdk \<Rightarrow> u64 \<Rightarrow> ffi_offer_answer_options \<Rightarrow> event_state \<Rightarrow> u8 \<times> event_state" where
  "peer_create_answer sdk i options es =
     (let (status, es) = begin_operation i True es in
      if status \<noteq> 0 then (status, es) else (0, sdk_call sdk (SdkCreateAnswer i options) es))"

definition peer_set_local_description_auto ::
  "sdk \<Rightarrow> u64 \<Rightarrow> bool \<Rightarrow> event_state \<Rightarrow> u8 \<times> event_state" where
  "peer_set_local_description_auto sdk i legacy es =
     (let (status, es) = begin_operation i True es in
      if status \<noteq> 0 then (status, es) else (0, sdk_call sdk (SdkSetLocalAuto i legacy) es))"

definition peer_set_local_description ::
  "sdk \<Rightarrow> u64 \<Rightarrow> u8 \<Rightarrow> bytes \<Rightarrow> bool \<Rightarrow> event_state \<Rightarrow> u8 \<times> event_state" where
  "peer_set_local_description sdk i ty sdp legacy es =
     (let (status, es) = begin_operation i True es in
      if status \<noteq> 0 then (status, es)
      else case parse_description sdk ty sdp of
        Inl message \<Rightarrow> (0, complete (ErrorEvent i 5 message) es)
      | Inr description \<Rightarrow> (0, sdk_call sdk (SdkSetLocal i description legacy) es))"

definition peer_set_remote_description ::
  "sdk \<Rightarrow> u64 \<Rightarrow> u8 \<Rightarrow> bytes \<Rightarrow> bool \<Rightarrow> event_state \<Rightarrow> u8 \<times> event_state" where
  "peer_set_remote_description sdk i ty sdp legacy es =
     (let (status, es) = begin_operation i True es in
      if status \<noteq> 0 then (status, es)
      else case parse_description sdk ty sdp of
        Inl message \<Rightarrow> (0, complete (ErrorEvent i 5 message) es)
      | Inr description \<Rightarrow> (0, sdk_call sdk (SdkSetRemote i description legacy) es))"

definition peer_add_ice_candidate ::
  "sdk \<Rightarrow> u64 \<Rightarrow> bytes \<Rightarrow> i32 \<Rightarrow> bytes \<Rightarrow> event_state \<Rightarrow> u8 \<times> event_state" where
  "peer_add_ice_candidate sdk i mid index candidate es =
     (let (status, es) = begin_operation i False es in
      if status \<noteq> 0 then (status, es)
      else case sdk_parse_candidate sdk mid index candidate of
        Inl message \<Rightarrow> (0, complete (ErrorEvent i 5 message) es)
      | Inr c \<Rightarrow> (0, sdk_call sdk (SdkAddCandidate i c) es))"

definition peer_request_stats ::
  "sdk \<Rightarrow> stats_selector \<Rightarrow> u64 \<Rightarrow> event_state \<Rightarrow> u8 \<times> event_state" where
  "peer_request_stats sdk selector i es =
     (let (status, es) = begin_stats i es in
      if status \<noteq> 0 then (status, es) else (0, sdk_call sdk (SdkGetStats i selector) es))"

text \<open>Also returns the new \<open>legacy_operation\<close>.\<close>

definition RequestLegacyStats ::
  "sdk \<Rightarrow> pointer \<Rightarrow> u8 \<Rightarrow> u64 \<Rightarrow> event_state \<Rightarrow> u64 \<Rightarrow> u8 \<times> event_state \<times> u64" where
  "RequestLegacyStats sdk selector level i es legacy =
     (let (status, es) = begin_stats i es in
      if status \<noteq> 0 then (status, es, legacy)
      else
        let es = sdk_call sdk (SdkGetLegacyStats i selector level) es in
        if \<not> sdk_accepts sdk (SdkGetLegacyStats i selector level)
        then (5, reject_stats i es, legacy)
        else (0, es, i))"

subsubsection \<open>The owner's methods\<close>

text \<open>A peer connection: its native events, the two closed flags (\<open>PeerInner::closed\<close>, the native
  \<open>State::closed\<close>), the next identifier, the native legacy operation, and the selector track a
  legacy statistics request keeps alive.  The leases of senders and streams that \<open>close\<close> also drops
  are not part of it.\<close>

record peer_connection =
  pn_events :: event_state
  pn_closed :: bool
  pn_native_closed :: bool
  pn_next_operation :: u64
  pn_legacy_operation :: u64
  pn_selector :: "(u64 \<times> nat) option"

definition peer_connection_new :: "readiness \<Rightarrow> peer_connection" where
  "peer_connection_new signal = \<lparr>pn_events = event_state_new signal, pn_closed = False,
     pn_native_closed = False, pn_next_operation = 1, pn_legacy_operation = 0, pn_selector = None\<rparr>"

definition next_operation :: "peer_connection \<Rightarrow> u64 \<times> peer_connection" where
  "next_operation pn = (pn_next_operation pn,
     pn\<lparr>pn_next_operation :=
       (case u64_checked_succ (pn_next_operation pn) of None \<Rightarrow> 1 | Some n \<Rightarrow> n)\<rparr>)"

definition peer_closed_error :: peer_error where
  "peer_closed_error = \<lparr>pe_kind = Closed, pe_message = ''peer connection is closed''\<rparr>"

definition operation_admission :: "u64 \<Rightarrow> u8 \<Rightarrow> (peer_error, u64) result option" where
  "operation_admission i status =
     (if status = 0 then Some (Inr i)
      else if status = 1 then Some (Inl peer_closed_error)
      else if status = 2 then Some (Inl \<lparr>pe_kind = ResourceExhausted,
        pe_message = ''consume operation outcomes before submitting more work (limit 64)''\<rparr>)
      else if status = 3 then Some (Inl \<lparr>pe_kind = InvalidState,
        pe_message = ''previous stats result not yet consumed''\<rparr>)
      else if status = 4 then Some (Inl \<lparr>pe_kind = ResourceExhausted,
        pe_message = ''await the pending native SDP operation before submitting another''\<rparr>)
      else None)"

type_synonym admission = "(peer_error, u64) result option"

text \<open>Every method takes an identifier, hands it to its adapter and decodes the status.\<close>

definition admit :: "(u64 \<Rightarrow> event_state \<Rightarrow> u8 \<times> event_state) \<Rightarrow> peer_connection
    \<Rightarrow> admission \<times> peer_connection" where
  "admit native pn =
     (let (i, pn) = next_operation pn; (status, es) = native i (pn_events pn)
      in (operation_admission i status, pn\<lparr>pn_events := es\<rparr>))"

definition create_offer_with_options ::
  "sdk \<Rightarrow> offer_answer_options \<Rightarrow> peer_connection \<Rightarrow> admission \<times> peer_connection" where
  "create_offer_with_options sdk options pn = (case options_to_native options of
       Inl e \<Rightarrow> (Some (Inl e), pn)
     | Inr options \<Rightarrow> admit (\<lambda>i. peer_create_offer sdk i options) pn)"

definition create_answer_with_options ::
  "sdk \<Rightarrow> offer_answer_options \<Rightarrow> peer_connection \<Rightarrow> admission \<times> peer_connection" where
  "create_answer_with_options sdk options pn = (case options_to_native options of
       Inl e \<Rightarrow> (Some (Inl e), pn)
     | Inr options \<Rightarrow> admit (\<lambda>i. peer_create_answer sdk i options) pn)"

definition create_answer :: "sdk \<Rightarrow> peer_connection \<Rightarrow> admission \<times> peer_connection" where
  "create_answer sdk pn = create_answer_with_options sdk options_default pn"

definition set_local_description_auto_impl ::
  "sdk \<Rightarrow> bool \<Rightarrow> peer_connection \<Rightarrow> admission \<times> peer_connection" where
  "set_local_description_auto_impl sdk legacy pn =
     admit (\<lambda>i. peer_set_local_description_auto sdk i legacy) pn"

definition set_local_description_impl ::
  "sdk \<Rightarrow> session_description \<Rightarrow> bool \<Rightarrow> peer_connection \<Rightarrow> admission \<times> peer_connection" where
  "set_local_description_impl sdk d legacy pn =
     admit (\<lambda>i. peer_set_local_description sdk i (sdp_type_raw (sd_kind d)) (sd_sdp d) legacy) pn"

definition set_remote_description_impl ::
  "sdk \<Rightarrow> session_description \<Rightarrow> bool \<Rightarrow> peer_connection \<Rightarrow> admission \<times> peer_connection" where
  "set_remote_description_impl sdk d legacy pn =
     admit (\<lambda>i. peer_set_remote_description sdk i (sdp_type_raw (sd_kind d)) (sd_sdp d) legacy) pn"

definition add_ice_candidate_bytes ::
  "sdk \<Rightarrow> ice_candidate \<Rightarrow> peer_connection \<Rightarrow> admission \<times> peer_connection" where
  "add_ice_candidate_bytes sdk c pn =
     admit (\<lambda>i. peer_add_ice_candidate sdk i (ic_sdp_mid c) (ic_sdp_mline_index c) (ic_candidate c)) pn"

definition request_stats :: "sdk \<Rightarrow> peer_connection \<Rightarrow> admission \<times> peer_connection" where
  "request_stats sdk pn = admit (peer_request_stats sdk AllStats) pn"

definition request_stats_with_sender_selector ::
  "sdk \<Rightarrow> pointer \<Rightarrow> peer_connection \<Rightarrow> admission \<times> peer_connection" where
  "request_stats_with_sender_selector sdk selector pn =
     admit (peer_request_stats sdk (SenderStats selector)) pn"

definition request_stats_with_receiver_selector ::
  "sdk \<Rightarrow> pointer \<Rightarrow> peer_connection \<Rightarrow> admission \<times> peer_connection" where
  "request_stats_with_receiver_selector sdk selector pn =
     admit (peer_request_stats sdk (ReceiverStats selector)) pn"

datatype legacy_stats_request_error = Binding peer_error | NativeRejected

datatype legacy_stats_output_level = LevelStandard | LevelDebug

fun level_raw :: "legacy_stats_output_level \<Rightarrow> u8" where
  "level_raw LevelStandard = 0"
| "level_raw LevelDebug = 1"

definition request_legacy_stats_at ::
  "sdk \<Rightarrow> u64 \<Rightarrow> pointer \<Rightarrow> legacy_stats_output_level \<Rightarrow> peer_connection
     \<Rightarrow> (legacy_stats_request_error, u64) result option \<times> peer_connection" where
  "request_legacy_stats_at sdk i selector level pn =
     (let (status, es, legacy) = RequestLegacyStats sdk selector (level_raw level) i (pn_events pn)
            (pn_legacy_operation pn);
          pn = pn\<lparr>pn_events := es, pn_legacy_operation := legacy\<rparr>
      in if status = 5 then (Some (Inl NativeRejected), pn)
         else case operation_admission i status of
             None \<Rightarrow> (None, pn)
           | Some (Inl e) \<Rightarrow> (Some (Inl (Binding e)), pn)
           | Some (Inr admitted) \<Rightarrow>
               (Some (Inr admitted),
                pn\<lparr>pn_selector := map_option (\<lambda>track. (admitted, track)) selector\<rparr>))"

definition request_legacy_stats_with_track ::
  "sdk \<Rightarrow> pointer \<Rightarrow> legacy_stats_output_level \<Rightarrow> peer_connection
     \<Rightarrow> (legacy_stats_request_error, u64) result option \<times> peer_connection" where
  "request_legacy_stats_with_track sdk selector level pn =
     (let (i, pn) = next_operation pn in request_legacy_stats_at sdk i selector level pn)"

datatype ice_candidate_disposition = CandidateAccepted | CandidateRejected

text \<open>The synchronous candidate call: status and, on a parse error, its message.\<close>

definition peer_modify_ice_candidate ::
  "sdk \<Rightarrow> bool \<Rightarrow> ice_candidate \<Rightarrow> peer_connection \<Rightarrow> u8 \<times> bytes \<times> peer_connection" where
  "peer_modify_ice_candidate sdk remove c pn =
     (if pn_native_closed pn then (1, [], pn)
      else case sdk_parse_candidate sdk (ic_sdp_mid c) (ic_sdp_mline_index c) (ic_candidate c) of
          Inl message \<Rightarrow> (2, message, pn)
        | Inr a \<Rightarrow>
            (if sdk_accepts sdk (SdkModifyCandidate remove a) then 0 else 3, [],
             pn\<lparr>pn_events := sdk_call sdk (SdkModifyCandidate remove a) (pn_events pn)\<rparr>))"

definition modify_ice_candidate_bytes ::
  "sdk \<Rightarrow> ice_candidate \<Rightarrow> bool \<Rightarrow> peer_connection
     \<Rightarrow> (peer_error_bytes, ice_candidate_disposition) result option \<times> peer_connection" where
  "modify_ice_candidate_bytes sdk c remove pn =
     (let (status, message, pn) = peer_modify_ice_candidate sdk remove c pn in
      (if status = 0 then Some (Inr CandidateAccepted)
       else if status = 1 then
         Some (Inl \<lparr>peb_kind = Closed, peb_message = text_bytes ''peer connection is closed''\<rparr>)
       else if status = 2 then Some (Inl \<lparr>peb_kind = Syntax, peb_message = message\<rparr>)
       else if status = 3 then Some (Inr CandidateRejected)
       else None, pn))"

definition modify_ice_candidate ::
  "sdk \<Rightarrow> ice_candidate \<Rightarrow> bool \<Rightarrow> peer_connection
     \<Rightarrow> (peer_error, ice_candidate_disposition) result option \<times> peer_connection" where
  "modify_ice_candidate sdk c remove pn =
     (let (r, pn) = modify_ice_candidate_bytes sdk c remove pn in
      (map_option (\<lambda>r. case r of
           Inr d \<Rightarrow> Inr d
         | Inl e \<Rightarrow> Inl (case from_utf8 (peb_message e) of
               Inr message \<Rightarrow> \<lparr>pe_kind = peb_kind e, pe_message = text_of message\<rparr>
             | Inl _ \<Rightarrow> \<lparr>pe_kind = MessageNotUtf8,
                 pe_message = ''native candidate error is not UTF-8; use byte candidate methods''\<rparr>)) r,
       pn))"

definition bitrate_range :: peer_error where
  "bitrate_range = \<lparr>pe_kind = InvalidParameter, pe_message = ''bitrate exceeds native i32 range''\<rparr>"

definition unset_negative :: "i32 \<Rightarrow> i32 option" where
  "unset_negative v = (if 0 \<le> sint v then Some v else None)"

definition peer_set_bitrate ::
  "sdk \<Rightarrow> i32 \<Rightarrow> i32 \<Rightarrow> i32 \<Rightarrow> event_state \<Rightarrow> (u8 \<times> string) \<times> event_state" where
  "peer_set_bitrate sdk minimum start maximum es =
     (let r = SdkSetBitrate (unset_negative minimum) (unset_negative start) (unset_negative maximum)
      in (sdk_error sdk r, sdk_call sdk r es))"

definition set_bitrate ::
  "sdk \<Rightarrow> u32 option \<Rightarrow> u32 option \<Rightarrow> u32 option \<Rightarrow> peer_connection
     \<Rightarrow> (peer_error, unit) result \<times> peer_connection" where
  "set_bitrate sdk minimum start maximum pn =
     (if pn_closed pn then (Inl peer_closed_error, pn)
      else case and_then (option_or_unset bitrate_range minimum) (\<lambda>minimum.
                and_then (option_or_unset bitrate_range start) (\<lambda>start.
                and_then (option_or_unset bitrate_range maximum) (\<lambda>maximum.
                Inr (minimum, start, maximum)))) of
          Inl e \<Rightarrow> (Inl e, pn)
        | Inr (minimum, start, maximum) \<Rightarrow>
            let ((ty, message), es) = peer_set_bitrate sdk minimum start maximum (pn_events pn)
            in (if ty = 0 then Inr () else Inl \<lparr>pe_kind = error_kind ty, pe_message = message\<rparr>,
                pn\<lparr>pn_events := es\<rparr>))"

text \<open>\<open>peer_take_event\<close> also checks that a finished legacy continuation has left the driver's queue;
  that queue is the SDK's and not part of the model.\<close>

definition peer_take_event :: "peer_connection \<Rightarrow> ffi_peer_event \<times> peer_connection" where
  "peer_take_event pn =
     (let (e, es) = take_event (pn_events pn) in
      (e, pn\<lparr>pn_events := es, pn_legacy_operation :=
         (if (fe_kind e = kLegacyStatsReport \<or> fe_kind e = kOperationComplete)
             \<and> fe_operation_id e \<noteq> 0 \<and> fe_operation_id e = pn_legacy_operation pn
          then 0 else pn_legacy_operation pn)\<rparr>))"

definition try_next_event ::
  "peer_connection \<Rightarrow> (peer_connection_event option \<times> peer_connection) option" where
  "try_next_event pn =
     (let (e, pn) = peer_take_event pn;
          pn = (if (fe_kind e = 1 \<or> fe_kind e = 16)
                  \<and> (case pn_selector pn of None \<Rightarrow> False | Some (i, _) \<Rightarrow> i = fe_operation_id e)
                then pn\<lparr>pn_selector := None\<rparr> else pn)
      in map_option (\<lambda>(v, es). (v, pn\<lparr>pn_events := es\<rparr>)) (event_from_ffi e (pn_events pn)))"

definition event_observation :: "peer_connection \<Rightarrow> u64 \<times> u64 \<times> nat \<times> nat \<times> nat" where
  "event_observation pn = observation_of (pn_events pn)"

text \<open>\<open>allowed\<close> is \<open>peer_control_call_allowed\<close>, asked by the wrapper and again by the adapter.\<close>

definition close_peer_connection ::
  "sdk \<Rightarrow> bool \<Rightarrow> peer_connection \<Rightarrow> bool \<times> peer_connection" where
  "close_peer_connection sdk allowed pn =
     (if pn_native_closed pn then (True, pn)
      else if \<not> allowed then (False, pn)
      else (True, pn\<lparr>pn_native_closed := True, pn_legacy_operation := 0,
             pn_events := close_events (sdk_call sdk SdkClose (pn_events pn))\<rparr>))"

definition close_peer ::
  "sdk \<Rightarrow> bool \<Rightarrow> bool \<Rightarrow> bool \<Rightarrow> peer_connection \<Rightarrow> (peer_error, unit) result \<times> peer_connection" where
  "close_peer sdk callback_active allowed allowed_native pn =
     (if pn_closed pn then (Inr (), pn)
      else if callback_active then (Inl \<lparr>pe_kind = InvalidState, pe_message =
        ''cannot close a peer from an active native provider/context callback; retry on a caller-owned control queue''\<rparr>, pn)
      else if \<not> allowed then (Inl \<lparr>pe_kind = InvalidState, pe_message =
        ''this native role cannot synchronously close a peer on signaling''\<rparr>, pn)
      else
        let (ok, pn) = close_peer_connection sdk allowed_native (pn\<lparr>pn_closed := True\<rparr>) in
        if ok then (Inr (), pn\<lparr>pn_selector := None\<rparr>)
        else (Inl \<lparr>pe_kind = Internal, pe_message = ''failed to close peer connection''\<rparr>,
              pn\<lparr>pn_closed := False\<rparr>))"

subsection \<open>Descriptions\<close>

record ffi_description_snapshot =
  ds_slot :: u8
  ds_kind :: u8
  ds_sdp :: bytes

record peer_descriptions =
  current_local :: "session_description option"
  current_remote :: "session_description option"
  pending_local :: "session_description option"
  pending_remote :: "session_description option"

text \<open>A description of the SDK: its type and its serialization, which may fail.\<close>

type_synonym sdk_description = "u8 \<times> bytes option"

fun copy_descriptions ::
  "(u8 \<times> sdk_description option) list \<Rightarrow> ffi_description_snapshot list option" where
  "copy_descriptions [] = Some []"
| "copy_descriptions ((slot, None) # ds) = copy_descriptions ds"
| "copy_descriptions ((slot, Some (kind, None)) # ds) = None"
| "copy_descriptions ((slot, Some (kind, Some sdp)) # ds) =
     map_option ((#) \<lparr>ds_slot = slot, ds_kind = kind, ds_sdp = sdp\<rparr>) (copy_descriptions ds)"

definition peer_descriptions ::
  "sdk_description option \<Rightarrow> sdk_description option \<Rightarrow> sdk_description option
     \<Rightarrow> sdk_description option \<Rightarrow> peer_connection \<Rightarrow> u8 \<times> ffi_description_snapshot list" where
  "peer_descriptions cl cr pl pr pn =
     (if pn_native_closed pn then (1, [])
      else case copy_descriptions [(0, cl), (1, cr), (2, pl), (3, pr)] of
          None \<Rightarrow> (2, [])
        | Some ds \<Rightarrow> (0, ds))"

fun place_descriptions ::
  "ffi_description_snapshot list \<Rightarrow> peer_descriptions \<Rightarrow> peer_descriptions option" where
  "place_descriptions [] r = Some r"
| "place_descriptions (d # ds) r =
     Option.bind (sdp_type (ds_kind d)) (\<lambda>kind.
       let v = Some \<lparr>sd_kind = kind, sd_sdp = ds_sdp d\<rparr> in
       if ds_slot d = 0 then place_descriptions ds (r\<lparr>current_local := v\<rparr>)
       else if ds_slot d = 1 then place_descriptions ds (r\<lparr>current_remote := v\<rparr>)
       else if ds_slot d = 2 then place_descriptions ds (r\<lparr>pending_local := v\<rparr>)
       else if ds_slot d = 3 then place_descriptions ds (r\<lparr>pending_remote := v\<rparr>)
       else None)"

definition descriptions_bytes ::
  "u8 \<times> ffi_description_snapshot list \<Rightarrow> (peer_error, peer_descriptions) result option" where
  "descriptions_bytes native = (case native of (status, ds) \<Rightarrow>
     if status = 0 then
       map_option Inr (place_descriptions ds
         \<lparr>current_local = None, current_remote = None, pending_local = None, pending_remote = None\<rparr>)
     else if status = 1 then Some (Inl peer_closed_error)
     else Some (Inl \<lparr>pe_kind = Internal, pe_message = ''failed to serialize peer descriptions''\<rparr>))"

definition description_project ::
  "session_description option \<Rightarrow> (peer_error, session_description option) result" where
  "description_project v = (case v of None \<Rightarrow> Inr None
     | Some d \<Rightarrow> (case description_from_bytes d of
           Inr d \<Rightarrow> Inr (Some d)
         | Inl _ \<Rightarrow> Inl \<lparr>pe_kind = DescriptionNotUtf8,
             pe_message = ''native SDP is not UTF-8; use descriptions_bytes''\<rparr>))"

definition descriptions ::
  "u8 \<times> ffi_description_snapshot list \<Rightarrow> (peer_error, peer_descriptions) result option" where
  "descriptions native = map_option (\<lambda>r. and_then r (\<lambda>ds.
     and_then (description_project (current_local ds)) (\<lambda>cl.
     and_then (description_project (current_remote ds)) (\<lambda>cr.
     and_then (description_project (pending_local ds)) (\<lambda>pl.
     and_then (description_project (pending_remote ds)) (\<lambda>pr.
     Inr \<lparr>current_local = cl, current_remote = cr, pending_local = pl, pending_remote = pr\<rparr>))))))
     (descriptions_bytes native)"

definition effective_local :: "peer_descriptions \<Rightarrow> session_description option" where
  "effective_local ds = (case pending_local ds of None \<Rightarrow> current_local ds | Some d \<Rightarrow> Some d)"

definition effective_remote :: "peer_descriptions \<Rightarrow> session_description option" where
  "effective_remote ds = (case pending_remote ds of None \<Rightarrow> current_remote ds | Some d \<Rightarrow> Some d)"

subsection \<open>Correctness of the value conversions\<close>

lemma i32_try_from_eq: "i32_try_from v err = Inr w \<longleftrightarrow> unat v < 2 ^ 31 \<and> w = v"
  by (auto simp: i32_try_from_def)

lemma sint_small: "unat (v :: u32) < 2 ^ 31 \<Longrightarrow> sint v = int (unat v)"
proof -
  assume a: "unat v < 2 ^ 31"
  then have "int (unat v) < int (2 ^ 31)" by (simp only: of_nat_less_iff)
  then have "uint v < 2 ^ 31" by simp
  moreover have "- (2 ^ 31) \<le> uint v" by (rule order_trans [of _ 0]) simp_all
  ultimately have "signed_take_bit 31 (uint v) = uint v" by (intro signed_take_bit_int_eq_self)
  then have "sint v = uint v" by (simp add: sint_uint)
  then show ?thesis by simp
qed

text \<open>What a count stands for: unset is -1, and a count is itself.\<close>

fun count_value :: "u32 option \<Rightarrow> int" where
  "count_value None = - 1"
| "count_value (Some v) = int (unat v)"

fun count_fits :: "u32 option \<Rightarrow> bool" where
  "count_fits None = True"
| "count_fits (Some v) = (unat v < 2 ^ 31)"

lemma option_or_unset_cases:
  "option_or_unset err v = (if count_fits v then Inr (case v of None \<Rightarrow> - 1 | Some v \<Rightarrow> v) else Inl err)"
  by (cases v) (simp_all add: option_or_unset_def i32_try_from_def)

lemma count_value_sint: "count_fits v \<Longrightarrow> sint (case v of None \<Rightarrow> - 1 | Some v \<Rightarrow> v) = count_value v"
  by (cases v) (simp_all add: sint_small)

text \<open>Offer and answer options reach the SDK exactly or not at all: the conversion fails with
  \<open>InvalidRange\<close> exactly when a count does not fit a signed 32-bit integer, and otherwise each
  signed count is the option's count, -1 where it is unset, with the flags unchanged.\<close>

theorem options_convert_exactly:
  "case options_to_native o' of
     Inl e \<Rightarrow> e = options_range \<and> \<not> (count_fits (oa_receive_video o') \<and> count_fits (oa_receive_audio o')
         \<and> count_fits (Some (oa_simulcast_layers o')))
   | Inr n \<Rightarrow> sint (fo_receive_video n) = count_value (oa_receive_video o')
       \<and> sint (fo_receive_audio n) = count_value (oa_receive_audio o')
       \<and> sint (fo_simulcast_layers n) = count_value (Some (oa_simulcast_layers o'))
       \<and> fo_ice_restart n = oa_ice_restart o' \<and> fo_use_rtp_mux n = oa_use_rtp_mux o'
       \<and> fo_voice_activity_detection n = oa_voice_activity_detection o'
       \<and> fo_raw_packetization_for_video n = oa_raw_packetization_for_video o'
       \<and> fo_use_obsolete_sctp_sdp n = oa_use_obsolete_sctp_sdp o'"
  by (simp add: options_to_native_def option_or_unset_cases count_value_sint i32_try_from_def
      sint_small)

subsection \<open>Description snapshots\<close>

text \<open>What a snapshot of the SDK's description is to the owner.\<close>

fun snapshot_of :: "sdk_description option \<Rightarrow> session_description option" where
  "snapshot_of (Some (kind, Some sdp)) = Some \<lparr>sd_kind = the (sdp_type kind), sd_sdp = sdp\<rparr>"
| "snapshot_of _ = None"

fun serializes :: "sdk_description option \<Rightarrow> bool" where
  "serializes (Some (kind, None)) = False"
| "serializes _ = True"

fun known_type :: "sdk_description option \<Rightarrow> bool" where
  "known_type (Some (kind, _)) = (sdp_type kind \<noteq> None)"
| "known_type None = True"

lemma sdk_description_cases:
  obtains "d = None" | kind where "d = Some (kind, None)" | kind sdp where "d = Some (kind, Some sdp)"
  by (cases d) (auto, metis option.exhaust)

lemma known_type_Some: "known_type (Some (kind, x)) \<Longrightarrow> \<exists>t. sdp_type kind = Some t"
  by auto

text \<open>A snapshot of the descriptions is faithful and atomic: when the peer is open and the SDK
  serializes all its descriptions, each is in the field it belongs to, with its type and bytes; when
  one does not serialize there is an error and no partial result; a closed peer answers \<open>Closed\<close>.\<close>

theorem descriptions_faithful:
  assumes "list_all known_type [cl, cr, pl, pr]"
  shows "descriptions_bytes (peer_descriptions cl cr pl pr pn) =
    (if pn_native_closed pn then Some (Inl peer_closed_error)
     else if \<not> list_all serializes [cl, cr, pl, pr] then Some (Inl \<lparr>pe_kind = Internal,
       pe_message = ''failed to serialize peer descriptions''\<rparr>)
     else Some (Inr \<lparr>current_local = snapshot_of cl, current_remote = snapshot_of cr,
       pending_local = snapshot_of pl, pending_remote = snapshot_of pr\<rparr>))"
  using assms
  by (cases cl rule: sdk_description_cases; cases cr rule: sdk_description_cases;
      cases pl rule: sdk_description_cases; cases pr rule: sdk_description_cases;
      auto simp: peer_descriptions_def descriptions_bytes_def)

lemma descriptions_faithful_witness:
  "descriptions_bytes (peer_descriptions (Some (0, Some [0x76])) None None (Some (2, Some [0x77]))
     (peer_connection_new readiness_default))
   = Some (Inr \<lparr>current_local = Some \<lparr>sd_kind = Offer, sd_sdp = [0x76]\<rparr>, current_remote = None,
       pending_local = None, pending_remote = Some \<lparr>sd_kind = Answer, sd_sdp = [0x77]\<rparr>\<rparr>)"
  by (subst descriptions_faithful) (simp_all add: sdp_type_def peer_connection_new_def)

end
