(* ===== verification/PeerHistory.thy ===== *)
theory PeerHistory
  imports PeerOperations OutcomeLedger
begin

text \<open>
  Executions of a peer connection: the owner's requests, the SDK's callbacks at any time, the
  taking of events and closing, in any order.  Each accepted request is settled by exactly one
  outcome event, also across closing; no decoding panics; what is queued stays within its bounds.
\<close>

subsection \<open>Actions\<close>

datatype peer_request =
    CreateOffer offer_answer_options
  | CreateAnswer offer_answer_options
  | SetLocalAuto bool
  | SetLocal session_description bool
  | SetRemote session_description bool
  | AddCandidate ice_candidate
  | RequestStats
  | RequestSenderStats pointer
  | RequestReceiverStats pointer
  | LegacyStatsRequest pointer legacy_stats_output_level

datatype peer_reply =
    Accepted u64
  | Refused
  | Taken "peer_connection_event option"
  | Returned

definition admission_reply :: "('e, u64) result option \<times> peer_connection
    \<Rightarrow> (peer_reply \<times> peer_connection) option" where
  "admission_reply = (\<lambda>(r, pn). map_option (\<lambda>r. (case r of Inl _ \<Rightarrow> Refused | Inr i \<Rightarrow> Accepted i, pn)) r)"

text \<open>The one error type of the session's submissions, into which the wrapper's errors convert.\<close>

definition into_legacy :: "admission \<times> peer_connection
    \<Rightarrow> (legacy_stats_request_error, u64) result option \<times> peer_connection" where
  "into_legacy = (\<lambda>(r, pn).
     (map_option (\<lambda>r. case r of Inl e \<Rightarrow> Inl (Binding e) | Inr i \<Rightarrow> Inr i) r, pn))"

fun request_result :: "sdk \<Rightarrow> peer_request \<Rightarrow> peer_connection
    \<Rightarrow> (legacy_stats_request_error, u64) result option \<times> peer_connection" where
  "request_result sdk (CreateOffer o') pn =
     into_legacy (create_offer_with_options sdk o' pn)"
| "request_result sdk (CreateAnswer o') pn =
     into_legacy (create_answer_with_options sdk o' pn)"
| "request_result sdk (SetLocalAuto b) pn =
     into_legacy (set_local_description_auto_impl sdk b pn)"
| "request_result sdk (SetLocal d b) pn =
     into_legacy (set_local_description_impl sdk d b pn)"
| "request_result sdk (SetRemote d b) pn =
     into_legacy (set_remote_description_impl sdk d b pn)"
| "request_result sdk (AddCandidate c) pn =
     into_legacy (add_ice_candidate_bytes sdk c pn)"
| "request_result sdk RequestStats pn =
     into_legacy (request_stats sdk pn)"
| "request_result sdk (RequestSenderStats s) pn =
     into_legacy (request_stats_with_sender_selector sdk s pn)"
| "request_result sdk (RequestReceiverStats s) pn =
     into_legacy (request_stats_with_receiver_selector sdk s pn)"
| "request_result sdk (LegacyStatsRequest s l) pn =
     request_legacy_stats_with_track sdk s l pn"

definition submit :: "sdk \<Rightarrow> peer_request \<Rightarrow> peer_connection \<Rightarrow> (peer_reply \<times> peer_connection) option" where
  "submit sdk r pn = admission_reply (request_result sdk r pn)"

lemma into_legacy_reply [simp]: "admission_reply (into_legacy r) = admission_reply r"
  by (cases r) (auto simp: admission_reply_def into_legacy_def option.map_comp comp_def
      intro!: option.map_cong split: sum.split)

lemma submit_simps [simp]:
  "submit sdk (CreateOffer o') pn = admission_reply (create_offer_with_options sdk o' pn)"
  "submit sdk (CreateAnswer o') pn = admission_reply (create_answer_with_options sdk o' pn)"
  "submit sdk (SetLocalAuto b) pn = admission_reply (set_local_description_auto_impl sdk b pn)"
  "submit sdk (SetLocal d b) pn = admission_reply (set_local_description_impl sdk d b pn)"
  "submit sdk (SetRemote d b) pn = admission_reply (set_remote_description_impl sdk d b pn)"
  "submit sdk (AddCandidate c) pn = admission_reply (add_ice_candidate_bytes sdk c pn)"
  "submit sdk RequestStats pn = admission_reply (request_stats sdk pn)"
  "submit sdk (RequestSenderStats s) pn = admission_reply (request_stats_with_sender_selector sdk s pn)"
  "submit sdk (RequestReceiverStats s) pn = admission_reply (request_stats_with_receiver_selector sdk s pn)"
  "submit sdk (LegacyStatsRequest s l) pn = admission_reply (request_legacy_stats_with_track sdk s l pn)"
  by (simp_all add: submit_def)

datatype peer_action =
    Submit sdk peer_request
  | Callback sdk_callback
  | TakeEvent
  | ModifyCandidate sdk ice_candidate bool
  | SetBitrate sdk "u32 option" "u32 option" "u32 option"
  | ClosePeer sdk bool bool bool

fun peer_step :: "peer_action \<Rightarrow> peer_connection \<Rightarrow> (peer_reply \<times> peer_connection) option" where
  "peer_step (Submit sdk r) pn = submit sdk r pn"
| "peer_step (Callback cb) pn = Some (Returned, pn\<lparr>pn_events := deliver cb (pn_events pn)\<rparr>)"
| "peer_step TakeEvent pn = map_option (\<lambda>(e, pn). (Taken e, pn)) (try_next_event pn)"
| "peer_step (ModifyCandidate sdk c remove) pn =
     (let (r, pn) = modify_ice_candidate_bytes sdk c remove pn in map_option (\<lambda>_. (Returned, pn)) r)"
| "peer_step (SetBitrate sdk a b c) pn = Some (Returned, snd (set_bitrate sdk a b c pn))"
| "peer_step (ClosePeer sdk active allowed native) pn =
     Some (Returned, snd (close_peer sdk active allowed native pn))"

fun accepted :: "peer_reply \<Rightarrow> u64 option" where
  "accepted (Accepted i) = Some i"
| "accepted _ = None"

fun settles :: "peer_connection_event \<Rightarrow> u64 option" where
  "settles (OperationComplete i _) = Some i"
| "settles (OperationCompleteBytes i _) = Some i"
| "settles (OperationFailedBytes i _) = Some i"
| "settles (Stats s) = Some (ps_operation_id s)"
| "settles (LegacyStats i _) = Some i"
| "settles _ = None"

fun outcome :: "peer_reply \<Rightarrow> u64 option" where
  "outcome (Taken (Some e)) = settles e"
| "outcome _ = None"

text \<open>What the SDK is known to do: its enumerations, its references, at most \<open>m\<close> callbacks during a
  call, and no callback for a legacy statistics request it rejects.\<close>

fun concerns :: "u64 \<Rightarrow> sdk_callback \<Rightarrow> bool" where
  "concerns i (OnDescriptionCreated j _) = (i = j)"
| "concerns i (OnFailure j _ _) = (i = j)"
| "concerns i (OnSetComplete j _) = (i = j)"
| "concerns i (OnStatsDelivered j _ _ _) = (i = j)"
| "concerns i (OnLegacyStats j _) = (i = j)"
| "concerns i (RetirementFence j) = (i = j)"
| "concerns i _ = False"

definition sdk_ok :: "nat \<Rightarrow> sdk \<Rightarrow> bool" where
  "sdk_ok m sdk \<longleftrightarrow>
     (\<forall>r. list_all callback_ok (sdk_callbacks sdk r) \<and> length (sdk_callbacks sdk r) \<le> m)
     \<and> (\<forall>i sel level. \<not> sdk_accepts sdk (SdkGetLegacyStats i sel level) \<longrightarrow>
          list_all (\<lambda>cb. \<not> concerns i cb) (sdk_callbacks sdk (SdkGetLegacyStats i sel level)))"

fun action_ok :: "nat \<Rightarrow> peer_action \<Rightarrow> bool" where
  "action_ok m (Submit sdk _) = sdk_ok m sdk"
| "action_ok m (Callback cb) = callback_ok cb"
| "action_ok m TakeEvent = True"
| "action_ok m (ModifyCandidate sdk _ _) = sdk_ok m sdk"
| "action_ok m (SetBitrate sdk _ _ _) = sdk_ok m sdk"
| "action_ok m (ClosePeer sdk _ _ _) = sdk_ok m sdk"

subsection \<open>Requests\<close>

lemma fold_deliver_ops:
  "ops_inv es \<Longrightarrow> ops_inv (fold deliver cbs es)"
  "es_admitted (fold deliver cbs es) = es_admitted es"
  "es_closed (fold deliver cbs es) = es_closed es"
  by (induction cbs arbitrary: es) (simp_all add: deliver_ops)

lemma fold_deliver_inv:
  "ops_inv es \<Longrightarrow> queue_inv es \<Longrightarrow> arrivals_inv n es \<Longrightarrow> list_all callback_ok cbs
     \<Longrightarrow> n + length cbs < 2 ^ 64
     \<Longrightarrow> queue_inv (fold deliver cbs es) \<and> arrivals_inv (n + length cbs) (fold deliver cbs es)"
proof (induction cbs arbitrary: es n)
  case (Cons cb cbs)
  from Cons.prems have "ops_inv (deliver cb es)" "queue_inv (deliver cb es)"
    "arrivals_inv (Suc n) (deliver cb es)"
    by (simp_all add: deliver_ops deliver_queue deliver_arrivals)
  from Cons.IH [OF this] Cons.prems show ?case by simp
qed simp

text \<open>What an adapter does to the events: it asks for admission of \<open>i\<close>; if it is given, a run of
  callbacks follows (a description that does not parse is one failure); if the SDK then rejects
  the request, the admission is taken back.\<close>

definition begins :: "u64 \<Rightarrow> event_state \<Rightarrow> u8 \<Rightarrow> event_state \<Rightarrow> bool" where
  "begins i es status es' \<longleftrightarrow>
     (\<exists>sdp. begin_operation i sdp es = (status, es')) \<or> begin_stats i es = (status, es')"

definition admits :: "nat \<Rightarrow> u64 \<Rightarrow> event_state \<Rightarrow> u8 \<Rightarrow> event_state \<Rightarrow> bool" where
  "admits m i es status es' \<longleftrightarrow> (\<exists>st es1 cbs. begins i es st es1
      \<and> list_all callback_ok cbs \<and> length cbs \<le> max 1 m
      \<and> (st \<noteq> 0 \<longrightarrow> status = st \<and> es' = es1)
      \<and> (st = 0 \<longrightarrow> status = 0 \<and> es' = fold deliver cbs es1
           \<or> status = 5 \<and> list_all (\<lambda>cb. \<not> concerns i cb) cbs
             \<and> es' = reject_stats i (fold deliver cbs es1)))"

lemma begins_ops:
  assumes "begins i es st es'" "ops_inv es" "i \<noteq> 0"
  shows "ops_inv es'" "st \<noteq> 0 \<Longrightarrow> es' = es"
    "st = 0 \<Longrightarrow> i \<notin> set (es_admitted es) \<and> set (es_admitted es') = insert i (set (es_admitted es))
       \<and> es_events es' = es_events es"
  using assms begin_operation_ops [of es i] begin_stats_ops [of es i]
  unfolding begins_def by blast+

lemma begins_pending:
  assumes "begins i es 0 es'" shows "i \<in> set (es_pending es')" "es_closed es' = es_closed es"
  using assms
  by (auto simp: begins_def begin_operation_def begin_stats_def begin_locked_def set_insort_insert
      split: if_splits)

lemma begins_inv:
  assumes "begins i es st es'"
  shows "queue_inv es' = queue_inv es" "arrivals_inv n es \<Longrightarrow> arrivals_inv n es'"
proof -
  from assms consider sdp where "begin_operation i sdp es = (st, es')" | "begin_stats i es = (st, es')"
    by (auto simp: begins_def)
  note cases = this
  from cases show "queue_inv es' = queue_inv es" by cases (rule begin_queue, assumption)+
  show "arrivals_inv n es'" if "arrivals_inv n es"
    using cases that by cases (rule begin_arrivals, assumption+)+
qed

lemma begins_status: "begins i es st es' \<Longrightarrow> st \<in> {0, 1, 2, 3, 4}"
  by (auto simp: begins_def begin_operation_def begin_stats_def begin_locked_def split: if_splits)

lemma same_ops_pending: "same_ops es es' \<Longrightarrow> es_pending es' = es_pending es"
  by (simp add: same_ops_def)

lemmas quiet_pending =
  arrival_ops [THEN same_ops_pending] push_event_same_ops [THEN same_ops_pending]

lemma other_pending:
  "i \<noteq> fe_operation_id e \<Longrightarrow> i \<in> set (es_pending es) \<Longrightarrow> i \<in> set (es_pending (complete e es))"
  "i \<in> set (es_pending es) \<Longrightarrow> i \<in> set (es_pending (stage_legacy e es))"
  "i \<noteq> j \<Longrightarrow> i \<in> set (es_pending es) \<Longrightarrow> i \<in> set (es_pending (publish_legacy j es))"
  by (auto simp: complete_def stage_legacy_def publish_legacy_def in_set_remove1 split: option.split)

lemma unconcerned_pending:
  "\<not> concerns i cb \<Longrightarrow> i \<in> set (es_pending es) \<Longrightarrow> i \<in> set (es_pending (deliver cb es))"
  by (cases cb; simp add: quiet_pending other_pending split: option.split)

lemma unconcerned_fold:
  "list_all (\<lambda>cb. \<not> concerns i cb) cbs \<Longrightarrow> i \<in> set (es_pending es)
     \<Longrightarrow> i \<in> set (es_pending (fold deliver cbs es))"
  by (induction cbs arbitrary: es) (simp_all add: unconcerned_pending)

text \<open>Taking an admission back leaves no trace of it.\<close>

lemma reject_stats_ops:
  assumes "ops_inv es" "i \<in> set (es_pending es)"
  shows "ops_inv (reject_stats i es)"
    "set (es_admitted (reject_stats i es)) = set (es_admitted es) - {i}"
    "es_closed (reject_stats i es) = es_closed es"
    "queue_inv (reject_stats i es) = queue_inv es"
    "arrivals_inv n es \<Longrightarrow> arrivals_inv n (reject_stats i es)"
proof -
  let ?es = "es\<lparr>es_pending := remove1 i (es_pending es), es_admitted := remove1 i (es_admitted es)\<rparr>"
  have r: "reject_stats i es
      = ?es\<lparr>es_stats_operation := if es_stats_operation es = i then 0 else es_stats_operation es\<rparr>"
    by (simp add: reject_stats_def Let_def)
  have q: "queued_ops (reject_stats i es) = queued_ops es" by (simp add: queued_ops_def r)
  have "length (remove1 i (es_admitted es)) \<le> length (es_admitted es)" by (simp add: length_remove1)
  with assms q show "ops_inv (reject_stats i es)"
    unfolding ops_inv_def by (auto simp: r set_remove1_eq)
  show "set (es_admitted (reject_stats i es)) = set (es_admitted es) - {i}"
    using assms(1) by (simp add: r set_remove1_eq ops_inv_def)
  show "es_closed (reject_stats i es) = es_closed es" by (simp add: r)
  show "queue_inv (reject_stats i es) = queue_inv es" by (simp add: r)
  show "arrivals_inv n es \<Longrightarrow> arrivals_inv n (reject_stats i es)" by (simp add: r)
qed

text \<open>A request keeps the invariants; the operation is under way afterwards exactly when its status
  is 0, and then it was not before.\<close>

lemma admits_ops:
  assumes "admits m i es st es'" "ops_inv es" "i \<noteq> 0"
  shows "ops_inv es'" "es_closed es' = es_closed es" "st \<in> {0, 1, 2, 3, 4, 5}"
    "st = 0 \<Longrightarrow> i \<notin> set (es_admitted es) \<and> set (es_admitted es') = insert i (set (es_admitted es))"
    "st \<noteq> 0 \<Longrightarrow> set (es_admitted es') = set (es_admitted es)"
    "queue_inv es \<Longrightarrow> arrivals_inv n es \<Longrightarrow> n + max 1 m < 2 ^ 64
       \<Longrightarrow> queue_inv es' \<and> arrivals_inv (n + max 1 m) es'"
proof -
  from assms(1) obtain st1 es1 cbs where b: "begins i es st1 es1"
    and cbs: "list_all callback_ok cbs" "length cbs \<le> max 1 m"
    and r: "st1 \<noteq> 0 \<Longrightarrow> st = st1 \<and> es' = es1"
      "st1 = 0 \<Longrightarrow> st = 0 \<and> es' = fold deliver cbs es1
         \<or> st = 5 \<and> list_all (\<lambda>cb. \<not> concerns i cb) cbs \<and> es' = reject_stats i (fold deliver cbs es1)"
    unfolding admits_def by blast
  note ops = begins_ops [OF b assms(2,3)]
  let ?f = "fold deliver cbs es1"
  consider "st1 \<noteq> 0" "st = st1" "es' = es" | "st1 = 0" "st = 0" "es' = ?f"
    | "st1 = 0" "st = 5" "i \<in> set (es_pending ?f)" "es' = reject_stats i ?f"
  proof (cases "st1 = 0")
    case True
    with b have "i \<in> set (es_pending es1)" using begins_pending by blast
    from unconcerned_fold [OF _ this] r(2) [OF True] True that show thesis by blast
  qed (use r(1) ops(2) that in blast)
  note cases = this
  note f = fold_deliver_ops [where cbs = cbs]
  have closed: "es_closed es1 = es_closed es" if "st1 = 0" using begins_pending b that by blast
  show "ops_inv es'"
    by (cases rule: cases) (use assms(2) ops(1) f reject_stats_ops in auto)
  show "es_closed es' = es_closed es"
    by (cases rule: cases) (use ops(1) closed f reject_stats_ops in auto)
  show "st \<in> {0, 1, 2, 3, 4, 5}"
    by (cases rule: cases) (use begins_status [OF b] in auto)
  show "i \<notin> set (es_admitted es) \<and> set (es_admitted es') = insert i (set (es_admitted es))"
    if "st = 0"
    by (cases rule: cases) (use that ops f in auto)
  show "set (es_admitted es') = set (es_admitted es)" if "st \<noteq> 0"
    by (cases rule: cases) (use that ops f reject_stats_ops [of ?f i] in auto)
  show "queue_inv es' \<and> arrivals_inv (n + max 1 m) es'"
    if q: "queue_inv es" "arrivals_inv n es" "n + max 1 m < 2 ^ 64"
  proof -
    from q(1,2) have "queue_inv es1" "arrivals_inv n es1" using begins_inv [OF b] by auto
    with fold_deliver_inv [of es1 n cbs] ops(1) cbs q(3)
    have "queue_inv ?f" "arrivals_inv (n + length cbs) ?f" by auto
    then have "queue_inv ?f" "arrivals_inv (n + max 1 m) ?f"
      using arrivals_inv_mono cbs(2) by auto
    moreover have "arrivals_inv (n + max 1 m) es" using arrivals_inv_mono [OF q(2)] by simp
    ultimately show ?thesis
      by (cases rule: cases) (use q(1) ops(1) f reject_stats_ops [of ?f i] in auto)
  qed
qed

lemma failure_is_callback: "complete (ErrorEvent i ty message) es = fold deliver [OnFailure i ty message] es"
  by simp

lemma sdk_ok_callbacks:
  "sdk_ok m sdk \<Longrightarrow> list_all callback_ok (sdk_callbacks sdk r) \<and> length (sdk_callbacks sdk r) \<le> max 1 m"
  by (auto simp: sdk_ok_def intro: order_trans [OF _ max.cobounded2])

text \<open>After an accepted admission, a call of the SDK or one failure.\<close>

lemma admits_begin:
  assumes "begins i es st es1" "sdk_ok m sdk"
    "(status, es') = (if st \<noteq> 0 then (st, es1) else (0, sdk_call sdk r es1))
     \<or> (status, es') = (if st \<noteq> 0 then (st, es1) else (0, complete (ErrorEvent i ty message) es1))"
  shows "admits m i es status es' \<and> status \<noteq> 5"
proof -
  have five: "st \<noteq> 5" using begins_status [OF assms(1)] by auto
  have ok: "list_all callback_ok [OnFailure i ty message]" "length [OnFailure i ty message] \<le> max 1 m"
    by simp_all
  from assms(3) consider "st \<noteq> 0" "status = st" "es' = es1"
    | "st = 0" "status = 0" "es' = fold deliver (sdk_callbacks sdk r) es1"
    | "st = 0" "status = 0" "es' = fold deliver [OnFailure i ty message] es1"
    by (cases "st = 0") (auto simp: sdk_call_def)
  then show ?thesis
  proof cases
    case 1
    with assms(1) ok five show ?thesis unfolding admits_def by blast
  next
    case 2
    moreover from this assms(1) sdk_ok_callbacks [OF assms(2), of r] have "admits m i es status es'"
      unfolding admits_def by blast
    ultimately show ?thesis by simp
  next
    case 3
    moreover from this assms(1) ok have "admits m i es status es'" unfolding admits_def by blast
    ultimately show ?thesis by simp
  qed
qed

lemma admits_parse:
  assumes "begins i es st es1" "sdk_ok m sdk"
    "(status, es') = (if st \<noteq> 0 then (st, es1) else case p of
         Inl message \<Rightarrow> (0, complete (ErrorEvent i 5 message) es1)
       | Inr d \<Rightarrow> (0, sdk_call sdk (R d) es1))"
  shows "admits m i es status es' \<and> status \<noteq> 5"
proof (cases p)
  case (Inl message)
  show ?thesis
    by (rule admits_begin [OF assms(1,2), where message = message and ty = 5]) (use assms(3) Inl in simp)
next
  case (Inr d)
  show ?thesis by (rule admits_begin [OF assms(1,2), where r = "R d"]) (use assms(3) Inr in simp)
qed

lemma adapters_admit:
  assumes "sdk_ok m sdk"
  shows "peer_create_offer sdk i opts es = (st, es') \<Longrightarrow> admits m i es st es' \<and> st \<noteq> 5"
    "peer_create_answer sdk i opts es = (st, es') \<Longrightarrow> admits m i es st es' \<and> st \<noteq> 5"
    "peer_set_local_description_auto sdk i legacy es = (st, es') \<Longrightarrow> admits m i es st es' \<and> st \<noteq> 5"
    "peer_set_local_description sdk i ty sdp legacy es = (st, es') \<Longrightarrow> admits m i es st es' \<and> st \<noteq> 5"
    "peer_set_remote_description sdk i ty sdp legacy es = (st, es') \<Longrightarrow> admits m i es st es' \<and> st \<noteq> 5"
    "peer_add_ice_candidate sdk i mid index c es = (st, es') \<Longrightarrow> admits m i es st es' \<and> st \<noteq> 5"
    "peer_request_stats sdk selector i es = (st, es') \<Longrightarrow> admits m i es st es' \<and> st \<noteq> 5"
proof -
  obtain st1 es1 where b1: "begin_operation i True es = (st1, es1)" by (metis prod.exhaust)
  obtain st2 es2 where b2: "begin_operation i False es = (st2, es2)" by (metis prod.exhaust)
  obtain st3 es3 where b3: "begin_stats i es = (st3, es3)" by (metis prod.exhaust)
  have b: "begins i es st1 es1" "begins i es st2 es2" "begins i es st3 es3"
    using b1 b2 b3 by (auto simp: begins_def)
  show "peer_create_offer sdk i opts es = (st, es') \<Longrightarrow> admits m i es st es' \<and> st \<noteq> 5"
    by (rule admits_begin [OF b(1) assms, where r = "SdkCreateOffer i opts"]) (simp add: peer_create_offer_def b1)
  show "peer_create_answer sdk i opts es = (st, es') \<Longrightarrow> admits m i es st es' \<and> st \<noteq> 5"
    by (rule admits_begin [OF b(1) assms, where r = "SdkCreateAnswer i opts"]) (simp add: peer_create_answer_def b1)
  show "peer_set_local_description_auto sdk i legacy es = (st, es') \<Longrightarrow> admits m i es st es' \<and> st \<noteq> 5"
    by (rule admits_begin [OF b(1) assms, where r = "SdkSetLocalAuto i legacy"]) (simp add: peer_set_local_description_auto_def b1)
  show "peer_set_local_description sdk i ty sdp legacy es = (st, es')
      \<Longrightarrow> admits m i es st es' \<and> st \<noteq> 5"
    by (rule admits_parse [OF b(1) assms, where R = "\<lambda>d. SdkSetLocal i d legacy" and p = "parse_description sdk ty sdp"])
      (simp add: peer_set_local_description_def b1 split: sum.splits)
  show "peer_set_remote_description sdk i ty sdp legacy es = (st, es')
      \<Longrightarrow> admits m i es st es' \<and> st \<noteq> 5"
    by (rule admits_parse [OF b(1) assms, where R = "\<lambda>d. SdkSetRemote i d legacy" and p = "parse_description sdk ty sdp"])
      (simp add: peer_set_remote_description_def b1 split: sum.splits)
  show "peer_add_ice_candidate sdk i mid index c es = (st, es')
      \<Longrightarrow> admits m i es st es' \<and> st \<noteq> 5"
    by (rule admits_parse [OF b(2) assms, where R = "SdkAddCandidate i" and p = "sdk_parse_candidate sdk mid index c"])
      (simp add: peer_add_ice_candidate_def b2 split: sum.splits)
  show "peer_request_stats sdk selector i es = (st, es') \<Longrightarrow> admits m i es st es' \<and> st \<noteq> 5"
    by (rule admits_begin [OF b(3) assms, where r = "SdkGetStats i selector"]) (simp add: peer_request_stats_def b3)
qed

lemma legacy_admits:
  assumes "sdk_ok m sdk" "RequestLegacyStats sdk selector level i es legacy = (st, es', legacy')"
  shows "admits m i es st es'"
proof -
  obtain st1 es1 where b1: "begin_stats i es = (st1, es1)" by (metis prod.exhaust)
  then have b: "begins i es st1 es1" by (simp add: begins_def)
  let ?r = "SdkGetLegacyStats i selector level"
  show ?thesis
  proof (cases "st1 = 0 \<and> \<not> sdk_accepts sdk ?r")
    case True
    then have "list_all (\<lambda>cb. \<not> concerns i cb) (sdk_callbacks sdk ?r)"
      using assms(1) by (simp add: sdk_ok_def)
    moreover have "st = 5" "es' = reject_stats i (fold deliver (sdk_callbacks sdk ?r) es1)"
      using assms(2) True b1 by (auto simp: RequestLegacyStats_def Let_def sdk_call_def)
    ultimately show ?thesis
      using b True sdk_ok_callbacks [OF assms(1), of ?r] unfolding admits_def by blast
  next
    case False
    then have "(st, es') = (if st1 \<noteq> 0 then (st1, es1) else (0, sdk_call sdk ?r es1))"
      using assms(2) b1 by (auto simp: RequestLegacyStats_def Let_def)
    then show ?thesis using admits_begin [OF b assms(1)] by blast
  qed
qed

subsection \<open>The owner's invariant\<close>

text \<open>\<open>ledger_inv\<close> is what the accounting of operations needs; \<open>peer_inv n\<close> adds the bounds of the
  queue and the arrivals, at most \<open>n\<close> so far.\<close>

definition ledger_inv :: "peer_connection \<Rightarrow> bool" where
  "ledger_inv pn \<longleftrightarrow> ops_inv (pn_events pn) \<and> pn_next_operation pn \<noteq> 0"

definition peer_inv :: "nat \<Rightarrow> peer_connection \<Rightarrow> bool" where
  "peer_inv n pn \<longleftrightarrow> ledger_inv pn \<and> queue_inv (pn_events pn) \<and> arrivals_inv n (pn_events pn)
     \<and> pn_closed pn = es_closed (pn_events pn) \<and> pn_native_closed pn = es_closed (pn_events pn)"

definition under_way :: "peer_connection \<Rightarrow> u64 set" where
  "under_way pn = set (es_admitted (pn_events pn))"

lemma next_operation_fields:
  assumes "next_operation pn = (i, pn')"
  shows "i = pn_next_operation pn" "pn_next_operation pn' \<noteq> 0" "pn_events pn' = pn_events pn"
    "pn_closed pn' = pn_closed pn" "pn_native_closed pn' = pn_native_closed pn"
    "pn_legacy_operation pn' = pn_legacy_operation pn" "pn_selector pn' = pn_selector pn"
proof -
  have "n \<noteq> 0" if "u64_checked_succ (pn_next_operation pn) = Some n" for n
    using u64_checked_succ_unat [OF that] by auto
  with assms show "i = pn_next_operation pn" "pn_next_operation pn' \<noteq> 0" "pn_events pn' = pn_events pn"
    "pn_closed pn' = pn_closed pn" "pn_native_closed pn' = pn_native_closed pn"
    "pn_legacy_operation pn' = pn_legacy_operation pn" "pn_selector pn' = pn_selector pn"
    by (auto simp: next_operation_def split: option.splits)
qed

text \<open>A reply and the state after it agree on what is under way.\<close>

definition request_done :: "nat \<Rightarrow> peer_connection \<Rightarrow> (peer_reply \<times> peer_connection) option \<Rightarrow> bool" where
  "request_done m pn r \<longleftrightarrow> (\<exists>reply pn'. r = Some (reply, pn') \<and> ledger_inv pn'
     \<and> (reply = Refused \<and> under_way pn' = under_way pn
        \<or> (\<exists>i. reply = Accepted i \<and> i \<notin> under_way pn \<and> under_way pn' = insert i (under_way pn)))
     \<and> (\<forall>n. peer_inv n pn \<longrightarrow> n + max 1 m < 2 ^ 64 \<longrightarrow> peer_inv (n + max 1 m) pn'))"

lemma peer_inv_mono: "peer_inv n pn \<Longrightarrow> n \<le> k \<Longrightarrow> peer_inv k pn"
  using arrivals_inv_mono by (auto simp: peer_inv_def)

lemma admitted_done:
  assumes "admits m i (pn_events pn) st es'" "i \<noteq> 0" "ledger_inv pn"
    "pn_next_operation pn' \<noteq> 0" "pn_closed pn' = pn_closed pn"
    "pn_native_closed pn' = pn_native_closed pn" "pn_events pn' = es'"
    "reply = (if st = 0 then Accepted i else Refused)"
  shows "request_done m pn (Some (reply, pn'))"
proof -
  have "ops_inv (pn_events pn)" using assms(3) by (simp add: ledger_inv_def)
  note a = admits_ops [OF assms(1) this assms(2)]
  have "ledger_inv pn'" using a(1) assms(4,7) by (simp add: ledger_inv_def)
  moreover have "peer_inv (n + max 1 m) pn'" if "peer_inv n pn" "n + max 1 m < 2 ^ 64" for n
    using that a(2) a(6) [of n] calculation assms(5-7) by (simp add: peer_inv_def)
  moreover have "st = 0 \<and> i \<notin> under_way pn \<and> under_way pn' = insert i (under_way pn)
      \<or> st \<noteq> 0 \<and> under_way pn' = under_way pn"
    using a(4,5) assms(7) by (cases "st = 0") (simp_all add: under_way_def)
  ultimately show ?thesis using assms(8) unfolding request_done_def by auto
qed

lemma admit_done:
  assumes "ledger_inv pn"
    "\<And>i st es'. native i (pn_events pn) = (st, es') \<Longrightarrow> admits m i (pn_events pn) st es' \<and> st \<noteq> 5"
  shows "request_done m pn (admission_reply (admit native pn))"
proof -
  obtain i pn1 where n: "next_operation pn = (i, pn1)" by (metis prod.exhaust)
  note f = next_operation_fields [OF n]
  obtain st es' where s: "native i (pn_events pn) = (st, es')" by (metis prod.exhaust)
  with assms(2) have a: "admits m i (pn_events pn) st es'" "st \<noteq> 5" by blast+
  have i: "i \<noteq> 0" using assms(1) f(1) by (simp add: ledger_inv_def)
  have st: "st \<in> {0, 1, 2, 3, 4}" using admits_ops(3) [OF a(1) _ i] a(2) assms(1)
    by (auto simp: ledger_inv_def)
  have "admission_reply (admit native pn)
      = Some (if st = 0 then Accepted i else Refused, pn1\<lparr>pn_events := es'\<rparr>)"
    using n s f(3) st by (auto simp: admit_def admission_reply_def operation_admission_def)
  then show ?thesis using admitted_done [OF a(1) i assms(1)] f by simp
qed

lemma unchanged_done: "ledger_inv pn \<Longrightarrow> request_done m pn (Some (Refused, pn))"
  using peer_inv_mono unfolding request_done_def by fastforce

lemma options_done:
  assumes "ledger_inv pn" "\<And>opts. request_done m pn (admission_reply (admit (f opts) pn))"
  shows "request_done m pn (admission_reply (case options_to_native o' of
     Inl e \<Rightarrow> (Some (Inl e), pn) | Inr opts \<Rightarrow> admit (f opts) pn))"
  using assms unchanged_done by (auto simp: admission_reply_def split: sum.split)

lemma legacy_done:
  assumes "ledger_inv pn" "sdk_ok m sdk"
  shows "request_done m pn (admission_reply (request_legacy_stats_with_track sdk selector level pn))"
proof -
  obtain i pn1 where n: "next_operation pn = (i, pn1)" by (metis prod.exhaust)
  note f = next_operation_fields [OF n]
  obtain st es' legacy' where s: "RequestLegacyStats sdk selector (level_raw level) i (pn_events pn)
      (pn_legacy_operation pn) = (st, es', legacy')" by (metis prod.exhaust)
  have a: "admits m i (pn_events pn) st es'" by (rule legacy_admits [OF assms(2) s])
  have i: "i \<noteq> 0" using assms(1) f(1) by (simp add: ledger_inv_def)
  have st: "st \<in> {0, 1, 2, 3, 4, 5}" using admits_ops(3) [OF a _ i] assms(1)
    by (auto simp: ledger_inv_def)
  let ?pn = "pn1\<lparr>pn_events := es', pn_legacy_operation := legacy'\<rparr>"
  let ?pn' = "if st = 0 then ?pn\<lparr>pn_selector := map_option (\<lambda>track. (i, track)) selector\<rparr> else ?pn"
  have "admission_reply (request_legacy_stats_with_track sdk selector level pn)
      = Some (if st = 0 then Accepted i else Refused, ?pn')"
    using n s f st
    by (auto simp: request_legacy_stats_with_track_def request_legacy_stats_at_def Let_def
        admission_reply_def operation_admission_def)
  then show ?thesis using admitted_done [OF a i assms(1), of ?pn'] f by simp
qed

lemma submit_done:
  assumes "ledger_inv pn" "sdk_ok m sdk"
  shows "request_done m pn (submit sdk r pn)"
proof -
  note ad = adapters_admit [OF assms(2)]
  note dn = admit_done [OF assms(1)]
  show ?thesis
  proof (cases r)
    case (CreateOffer o')
    show ?thesis unfolding CreateOffer submit_simps create_offer_with_options_def
      by (rule options_done [OF assms(1) dn]) (rule ad)
  next
    case (CreateAnswer o')
    show ?thesis unfolding CreateAnswer submit_simps create_answer_with_options_def
      by (rule options_done [OF assms(1) dn]) (rule ad)
  next
    case (SetLocalAuto b)
    show ?thesis unfolding SetLocalAuto submit_simps set_local_description_auto_impl_def
      by (rule dn) (rule ad)
  next
    case (SetLocal d b)
    show ?thesis unfolding SetLocal submit_simps set_local_description_impl_def
      by (rule dn) (rule ad)
  next
    case (SetRemote d b)
    show ?thesis unfolding SetRemote submit_simps set_remote_description_impl_def
      by (rule dn) (rule ad)
  next
    case (AddCandidate c)
    show ?thesis unfolding AddCandidate submit_simps add_ice_candidate_bytes_def
      by (rule dn) (rule ad)
  next
    case RequestStats
    show ?thesis unfolding RequestStats submit_simps request_stats_def by (rule dn) (rule ad)
  next
    case (RequestSenderStats s)
    show ?thesis unfolding RequestSenderStats submit_simps request_stats_with_sender_selector_def
      by (rule dn) (rule ad)
  next
    case (RequestReceiverStats s)
    show ?thesis unfolding RequestReceiverStats submit_simps request_stats_with_receiver_selector_def
      by (rule dn) (rule ad)
  next
    case (LegacyStatsRequest s l)
    show ?thesis unfolding LegacyStatsRequest submit_simps by (rule legacy_done [OF assms])
  qed
qed

subsection \<open>Events\<close>

lemma take_handles_same_ops:
  "take_data_channel i es = (p, es') \<Longrightarrow> same_ops es es'"
  "take_transceiver i es = (p, es') \<Longrightarrow> same_ops es es'"
  "take_receiver i es = (q, es') \<Longrightarrow> same_ops es es'"
  "take_legacy i es = (a, es') \<Longrightarrow> same_ops es es'"
  by (auto simp: take_data_channel_def take_transceiver_def take_receiver_def take_legacy_def
      split: option.splits)

lemma handle_event_ops:
  assumes "handle_event e es = Some (v, es')"
  shows "same_ops es es'" "settles v = None"
  using assms
  by (auto simp: handle_event_def peer_take_stream_event_def peer_take_track_event_def Let_def
      dest: take_handles_same_ops split: if_splits prod.splits list.splits)

lemma plain_event_settles:
  assumes "plain_event e = Some v"
  shows "settles v = (if terminal_kind (fe_kind e) then Some (fe_operation_id e) else None)"
proof -
  have op: "settles v = Some (fe_operation_id e)" if "operation_event e = Some v"
    using that by (cases "from_utf8 (fe_sdp e)"; cases "from_utf8 (fe_message e)")
      (auto simp: operation_event_def Let_def split: if_splits)
  have st: "settles v = Some (fe_operation_id e)" if "stats_event e = Some v"
    using that by (auto simp: stats_event_def Let_def split: if_splits)
  have ms: "settles v = None" if "message_observation m = Some v" for m
    using that by (auto simp: message_observation_def split: if_splits)
  have cd: "settles (candidate_observation e) = None"
    by (simp add: candidate_observation_def Let_def split: sum.split)
  have ce: "settles (candidate_error_event e) = None"
    by (simp add: candidate_error_event_def split: sum.split)
  show ?thesis
  proof (cases "terminal_kind (fe_kind e)")
    case True
    then consider "fe_kind e = 1" | "fe_kind e = 12" | "fe_kind e = 16" by (auto simp: terminal_kind_def)
    then show ?thesis
      by cases (use assms op st in \<open>auto simp: plain_event_def\<close>)
  next
    case False
    then have k: "fe_kind e \<noteq> 1" "fe_kind e \<noteq> 12" "fe_kind e \<noteq> 16"
      by (auto simp: terminal_kind_def)
    show ?thesis using assms k ms cd ce False
      by (auto simp: plain_event_def Let_def split: if_splits)
  qed
qed

definition settled_by :: "peer_connection_event option \<Rightarrow> u64 option" where
  "settled_by v = Option.bind v settles"

lemma arrival_kinds_not_terminal:
  "k \<in> {0, 9, 10, 11, 18, 19, 20} \<Longrightarrow> \<not> terminal_kind k"
  by auto

lemma event_from_ffi_ops:
  assumes "event_from_ffi e es = Some (v, es')"
  shows "same_ops es es'"
    "settled_by v = (if terminal_kind (fe_kind e) then Some (fe_operation_id e) else None)"
proof -
  have "same_ops es es' \<and>
    settled_by v = (if terminal_kind (fe_kind e) then Some (fe_operation_id e) else None)"
  proof (cases "fe_kind e \<in> {0, 9, 10, 11, 18, 19, 20}")
    case True
    then have "\<not> terminal_kind (fe_kind e)" by (rule arrival_kinds_not_terminal)
    moreover from True assms have "v = None \<and> es' = es \<or> (\<exists>w. handle_event e es = Some (w, es') \<and> v = Some w)"
      by (auto simp: event_from_ffi_def Let_def)
    ultimately show ?thesis using handle_event_ops by (auto simp: settled_by_def)
  next
    case False
    then obtain w where "plain_event e = Some w" "v = Some w" "es' = es"
      using assms by (auto simp: event_from_ffi_def Let_def)
    with plain_event_settles show ?thesis by (simp add: settled_by_def)
  qed
  then show "same_ops es es'"
    "settled_by v = (if terminal_kind (fe_kind e) then Some (fe_operation_id e) else None)" by auto
qed

lemma kind_enum: "(k :: u8) \<le> 24 \<Longrightarrow> k \<in> {0, 1, 2, 3, 4, 5, 6, 7, 8, 9, 10, 11, 12, 13, 14, 15, 16, 17, 18, 19,
    20, 21, 22, 23, 24}"
proof -
  assume "k \<le> 24"
  then have "unat k \<in> {0, 1, 2, 3, 4, 5, 6, 7, 8, 9, 10, 11, 12, 13, 14, 15, 16, 17, 18, 19, 20, 21,
      22, 23, 24}"
    by (simp add: word_le_nat_alt) presburger
  then show ?thesis by (simp add: word_unat_eq_iff)
qed

lemma state_enum: "(s :: u8) \<le> 5 \<Longrightarrow> s \<in> {0, 1, 2, 3, 4, 5}" "(s :: u8) \<le> 3 \<Longrightarrow> s \<in> {0, 1, 2, 3}"
  "(s :: u8) \<le> 2 \<Longrightarrow> s \<in> {0, 1, 2}" "(s :: u8) \<le> 1 \<Longrightarrow> s \<in> {0, 1}"
  using kind_enum [of s] order_trans [of s _ 24] by (auto simp: word_le_nat_alt)

lemma plain_event_total:
  assumes "event_values e" "fe_kind e \<notin> {9, 10, 11, 18, 19, 20}"
  shows "plain_event e \<noteq> None"
proof -
  let ?k = "fe_kind e"
  have v: "?k \<noteq> 0" "?k \<le> 24"
    "?k = 1 \<and> fe_error_type e = 0 \<and> fe_has_description e \<longrightarrow> fe_sdp_type e \<le> 3"
    "?k = 3 \<or> ?k = 4 \<longrightarrow> fe_state e \<le> 5" "?k = 5 \<longrightarrow> fe_state e \<le> 2"
    "?k = 24 \<longrightarrow> cm_direction (fe_channel_message e) \<le> 1 \<and> cm_data_type (fe_channel_message e) \<le> 1"
    "?k = 12 \<longrightarrow> (\<forall>r\<in>set (fe_stats_records e). stats_record_from_ffi r \<noteq> None)"
    using assms(1) unfolding event_values_def Let_def by blast+
  have op: "operation_event e \<noteq> None" if "?k = 1"
    using v(3) that state_enum(2) [of "fe_sdp_type e"]
    by (auto simp: operation_event_def Let_def sdp_type_def)
  have st: "stats_event e \<noteq> None" if "?k = 12"
    using v(7) that by (force simp: stats_event_def Let_def)
  have ms: "message_observation (fe_channel_message e) \<noteq> None" if "?k = 24"
    using v(6) that state_enum(4) [of "cm_direction (fe_channel_message e)"]
      state_enum(4) [of "cm_data_type (fe_channel_message e)"]
    by (auto simp: message_observation_def)
  have cs: "connection_state (fe_state e) \<noteq> None" "signaling_state (fe_state e) \<noteq> None"
    if "?k = 3 \<or> ?k = 4"
    using v(4) that state_enum(1) [of "fe_state e"]
    by (auto simp: connection_state_def signaling_state_def)
  have gs: "gathering_state (fe_state e) \<noteq> None" if "?k = 5"
    using v(5) that state_enum(3) [of "fe_state e"] by (auto simp: gathering_state_def)
  have "?k \<in> {1, 2, 3, 4, 5, 6, 7, 8, 12, 13, 14, 15, 16, 17, 21, 22, 23, 24}"
    using kind_enum [OF v(2)] v(1) assms(2) by auto
  with op st ms cs gs show ?thesis by (auto simp: plain_event_def)
qed

text \<open>An arrival's handle is there, and taking it breaks no other event.\<close>

lemma handle_event_total:
  assumes "event_backed es e" "fe_kind e \<in> {9, 10, 11, 18, 19, 20}" "arrivals_inv n es"
    "(arrival_map (fe_kind e), fe_operation_id e) \<notin> set (arrival_keys (es_events es))"
  shows "\<exists>v es'. handle_event e es = Some (v, es') \<and> arrivals_inv n es' \<and> queue_inv es' = queue_inv es"
proof -
  note b = assms(1) [unfolded event_backed_def Let_def]
  let ?i = "fe_operation_id e"
  note del = delete_handle_arrivals [OF assms(3,4)]
  from assms(2) consider "fe_kind e = 9" | "fe_kind e = 10" | "fe_kind e = 11"
    | "fe_kind e = 18 \<or> fe_kind e = 19" | "fe_kind e = 20" by auto
  then show ?thesis
  proof cases
    case 1
    with b obtain p where "map_of (es_data_channels es) ?i = Some (Some p)" by auto
    then show ?thesis using 1 del(1)
      by (auto simp: handle_event_def take_data_channel_def arrival_map_def)
  next
    case 2
    with b obtain p where "map_of (es_transceivers es) ?i = Some (Some p)" by auto
    then show ?thesis using 2 del(2)
      by (auto simp: handle_event_def take_transceiver_def arrival_map_def)
  next
    case 3
    with b obtain p ow where "map_of (es_receivers es) ?i = Some (Some p, ow)" by auto
    then show ?thesis using 3 del(3)
      by (auto simp: handle_event_def take_receiver_def arrival_map_def)
  next
    case 4
    with b obtain a s ss where "map_of (es_legacy es) ?i = Some a" "la_streams a = s # ss"
      by (auto simp: neq_Nil_conv)
    then show ?thesis using 4 del(4)
      by (auto simp: handle_event_def take_legacy_def peer_take_stream_event_def
          arrival_map_def Let_def)
  next
    case 5
    with b obtain a p where "map_of (es_legacy es) ?i = Some a" "la_receiver a = Some p" by auto
    then show ?thesis using 5 del(4)
      by (auto simp: handle_event_def take_legacy_def peer_take_track_event_def
          arrival_map_def Let_def)
  qed
qed

lemma event_from_ffi_total:
  assumes "event_backed es e" "arrivals_inv n es" "queue_inv es"
    "arrival_map (fe_kind e) \<noteq> 0 \<longrightarrow>
       (arrival_map (fe_kind e), fe_operation_id e) \<notin> set (arrival_keys (es_events es))"
  shows "\<exists>v es'. event_from_ffi e es = Some (v, es') \<and> arrivals_inv n es' \<and> queue_inv es'"
proof (cases "fe_kind e \<in> {9, 10, 11, 18, 19, 20}")
  case True
  then have "arrival_map (fe_kind e) \<noteq> 0" by (auto simp: arrival_map_def)
  with assms(4) handle_event_total [OF assms(1) True assms(2)] assms(3) True show ?thesis
    by (auto simp: event_from_ffi_def Let_def)
next
  case False
  have "event_values e" using assms(1) by (simp add: event_backed_def Let_def)
  with plain_event_total [OF this False] assms(2,3) False show ?thesis
    by (auto simp: event_from_ffi_def Let_def)
qed

lemma try_next_event_eq:
  assumes "take_event (pn_events pn) = (e, es1)"
  shows "event_from_ffi e es1 = None \<Longrightarrow> try_next_event pn = None"
    "event_from_ffi e es1 = Some (v, es2) \<Longrightarrow> \<exists>pn'. try_next_event pn = Some (v, pn')
       \<and> pn_events pn' = es2 \<and> pn_next_operation pn' = pn_next_operation pn
       \<and> pn_closed pn' = pn_closed pn \<and> pn_native_closed pn' = pn_native_closed pn"
  using assms by (auto simp: try_next_event_def peer_take_event_def)

lemma take_ledger:
  assumes "ledger_inv pn" "try_next_event pn = Some (v, pn')"
  shows "ledger_inv pn' \<and> under_way pn' = under_way pn - set_option (settled_by v)
    \<and> (\<forall>i. settled_by v = Some i \<longrightarrow> i \<in> under_way pn)"
proof -
  obtain e es1 where t: "take_event (pn_events pn) = (e, es1)" by (metis prod.exhaust)
  from assms(1) have ops: "ops_inv (pn_events pn)" by (simp add: ledger_inv_def)
  note tk = take_event_ops [OF ops t]
  note eq = try_next_event_eq [OF t]
  obtain es2 where d: "event_from_ffi e es1 = Some (v, es2)"
    and pn': "pn_events pn' = es2" "pn_next_operation pn' = pn_next_operation pn"
    using assms(2) eq(1) eq(2) by (cases "event_from_ffi e es1") force+
  note f = event_from_ffi_ops [OF d]
  have "ops_inv es2" "es_admitted es2 = es_admitted es1"
    using tk(1) f(1) by (simp_all add: same_ops_inv same_ops_fields)
  with tk(2) f(2) pn' assms(1) show ?thesis
    by (cases "terminal_kind (fe_kind e)") (auto simp: ledger_inv_def under_way_def)
qed

lemma take_total:
  assumes "peer_inv n pn"
  shows "\<exists>v pn'. try_next_event pn = Some (v, pn') \<and> peer_inv n pn'"
proof -
  obtain e es1 where t: "take_event (pn_events pn) = (e, es1)" by (metis prod.exhaust)
  have i: "ops_inv (pn_events pn)" "queue_inv (pn_events pn)" "arrivals_inv n (pn_events pn)"
    using assms by (simp_all add: peer_inv_def ledger_inv_def)
  note tk = take_event_arrivals [OF i(3) t]
  have q: "queue_inv es1" using take_event_queue [OF i(2)] t by simp
  have "\<exists>v es2. event_from_ffi e es1 = Some (v, es2) \<and> arrivals_inv n es2 \<and> queue_inv es2"
  proof (cases "es_events (pn_events pn) = []")
    case True
    with tk(4) have "event_from_ffi e es1 = Some (None, es1)" by (simp add: event_from_ffi_def)
    with tk(1) q show ?thesis by blast
  next
    case False
    with event_from_ffi_total tk(1,3) q show ?thesis by blast
  qed
  then obtain v es2 where d: "event_from_ffi e es1 = Some (v, es2)" "arrivals_inv n es2"
    "queue_inv es2" by blast
  have ops: "ops_inv es2" "es_closed es2 = es_closed (pn_events pn)"
    using event_from_ffi_ops(1) [OF d(1)] take_event_ops(1) [OF i(1) t]
      take_event_closed [of "pn_events pn"] t
    by (auto simp: same_ops_inv same_ops_fields)
  obtain pn' where "try_next_event pn = Some (v, pn')" "pn_events pn' = es2"
    "pn_next_operation pn' = pn_next_operation pn" "pn_closed pn' = pn_closed pn"
    "pn_native_closed pn' = pn_native_closed pn"
    using try_next_event_eq(2) [OF t d(1)] by auto
  with d(2,3) ops assms show ?thesis by (auto simp: peer_inv_def ledger_inv_def)
qed

text \<open>The calls that neither admit nor settle: callbacks, and perhaps the closing of the events.\<close>

lemma quiet_ledger:
  assumes "ledger_inv pn" "pn_next_operation pn' = pn_next_operation pn"
    "pn_events pn' \<in> {fold deliver cbs (pn_events pn), close_events (fold deliver cbs (pn_events pn))}"
  shows "ledger_inv pn' \<and> under_way pn' = under_way pn"
  using assms fold_deliver_ops [where es = "pn_events pn" and cbs = cbs]
    close_events_ops [of "fold deliver cbs (pn_events pn)"]
  by (auto simp: ledger_inv_def under_way_def)

lemma quiet_inv:
  assumes "peer_inv n pn" "pn_next_operation pn' = pn_next_operation pn"
    "list_all callback_ok cbs" "length cbs \<le> k" "n + k < 2 ^ 64"
    "pn_events pn' = fold deliver cbs (pn_events pn) \<and> pn_closed pn' = pn_closed pn
       \<and> pn_native_closed pn' = pn_native_closed pn
     \<or> pn_events pn' = close_events (fold deliver cbs (pn_events pn)) \<and> pn_closed pn'
       \<and> pn_native_closed pn'"
  shows "peer_inv (n + k) pn'"
proof -
  let ?f = "fold deliver cbs (pn_events pn)"
  have i: "ops_inv (pn_events pn)" "queue_inv (pn_events pn)" "arrivals_inv n (pn_events pn)"
    using assms(1) by (simp_all add: peer_inv_def ledger_inv_def)
  from fold_deliver_inv [OF i assms(3)] assms(4,5)
  have f: "queue_inv ?f" "arrivals_inv (n + k) ?f" using arrivals_inv_mono by auto
  note ops = fold_deliver_ops [where cbs = cbs and es = "pn_events pn"]
  have l: "ledger_inv pn'"
    using quiet_ledger [of pn pn' cbs] assms(1,2,6) by (auto simp: peer_inv_def)
  from assms(6) show ?thesis
  proof
    assume "pn_events pn' = ?f \<and> pn_closed pn' = pn_closed pn \<and> pn_native_closed pn' = pn_native_closed pn"
    with f l ops assms(1) show ?thesis by (simp add: peer_inv_def)
  next
    assume "pn_events pn' = close_events ?f \<and> pn_closed pn' \<and> pn_native_closed pn'"
    with f l ops(1) [OF i(1)] close_events_ops(3) close_events_queue close_events_arrivals
    show ?thesis by (simp add: peer_inv_def)
  qed
qed

lemma modify_quiet:
  obtains d pn' cbs where "modify_ice_candidate_bytes sdk c remove pn = (Some d, pn')"
    "pn' = pn\<lparr>pn_events := fold deliver cbs (pn_events pn)\<rparr>" "cbs = [] \<or> (\<exists>r. cbs = sdk_callbacks sdk r)"
proof -
  obtain st msg pn' where m: "peer_modify_ice_candidate sdk remove c pn = (st, msg, pn')"
    by (metis prod.exhaust)
  then have "st \<in> {0, 1, 2, 3}" and r: "pn' = pn \<or> (\<exists>r. pn' = pn\<lparr>pn_events := fold deliver
      (sdk_callbacks sdk r) (pn_events pn)\<rparr>)"
    by (auto simp: peer_modify_ice_candidate_def sdk_call_def split: if_splits sum.splits)
  with m have "\<exists>d. modify_ice_candidate_bytes sdk c remove pn = (Some d, pn')"
    by (auto simp: modify_ice_candidate_bytes_def)
  with r that [of _ pn' "[]"] that [of _ pn' "sdk_callbacks sdk _"] show thesis by auto
qed

lemma set_bitrate_quiet:
  obtains cbs where "snd (set_bitrate sdk a b c pn) = pn\<lparr>pn_events := fold deliver cbs (pn_events pn)\<rparr>"
    "cbs = [] \<or> (\<exists>r. cbs = sdk_callbacks sdk r)"
proof -
  have "snd (set_bitrate sdk a b c pn) = pn \<or> (\<exists>r. snd (set_bitrate sdk a b c pn)
      = pn\<lparr>pn_events := fold deliver (sdk_callbacks sdk r) (pn_events pn)\<rparr>)"
    by (auto simp: set_bitrate_def peer_set_bitrate_def sdk_call_def Let_def
        split: sum.splits prod.splits)
  then show thesis using that [of "[]"] that [of "sdk_callbacks sdk _"] by auto
qed

text \<open>Closing either refuses and changes nothing, or closes both sides.\<close>

lemma close_peer_cases:
  assumes "peer_inv n pn"
  shows "snd (close_peer sdk active allowed native pn) = pn
    \<or> fst (close_peer sdk active allowed native pn) = Inr ()
      \<and> (let pn' = snd (close_peer sdk active allowed native pn) in
         pn_events pn' = close_events (fold deliver (sdk_callbacks sdk SdkClose) (pn_events pn))
         \<and> pn_closed pn' \<and> pn_native_closed pn' \<and> pn_next_operation pn' = pn_next_operation pn)"
  using assms
  by (auto simp: close_peer_def close_peer_connection_def sdk_call_def peer_inv_def Let_def)

lemma close_peer_ledger:
  "pn_next_operation (snd (close_peer sdk active allowed native pn)) = pn_next_operation pn
   \<and> (\<exists>cbs. pn_events (snd (close_peer sdk active allowed native pn))
      \<in> {fold deliver cbs (pn_events pn), close_events (fold deliver cbs (pn_events pn))})"
proof -
  have "pn_events pn = fold deliver [] (pn_events pn)" by simp
  then show ?thesis
    by (auto simp: close_peer_def close_peer_connection_def sdk_call_def Let_def split: prod.splits
        intro: exI [of _ "[]"])
qed

lemma peer_step_ledger:
  assumes "action_ok m a" "ledger_inv pn" "peer_step a pn = Some (r, pn')"
  shows "ledger_inv pn'
    \<and> under_way pn' = under_way pn \<union> set_option (accepted r) - set_option (outcome r)
    \<and> (\<forall>i. accepted r = Some i \<longrightarrow> i \<notin> under_way pn \<and> outcome r = None)
    \<and> (\<forall>i. outcome r = Some i \<longrightarrow> i \<in> under_way pn)"
proof (cases a)
  case (Submit sdk req)
  with assms submit_done [OF assms(2), of m sdk req] have "request_done m pn (Some (r, pn'))" by simp
  then show ?thesis unfolding request_done_def by auto
next
  case TakeEvent
  then obtain v where v: "try_next_event pn = Some (v, pn')" "r = Taken v" using assms(3) by auto
  have "outcome (Taken v) = settled_by v" by (cases v) (simp_all add: settled_by_def)
  with take_ledger [OF assms(2) v(1)] v(2) show ?thesis by auto
next
  case (Callback cb)
  with assms(3) have "r = Returned" "pn' = pn\<lparr>pn_events := fold deliver [cb] (pn_events pn)\<rparr>" by auto
  with quiet_ledger [OF assms(2), of pn' "[cb]"] show ?thesis by auto
next
  case (ModifyCandidate sdk c remove)
  obtain d pn1 cbs where "modify_ice_candidate_bytes sdk c remove pn = (Some d, pn1)"
    "pn1 = pn\<lparr>pn_events := fold deliver cbs (pn_events pn)\<rparr>" by (rule modify_quiet)
  with ModifyCandidate assms(3) quiet_ledger [OF assms(2), of pn1 cbs] show ?thesis by auto
next
  case (SetBitrate sdk lo st hi)
  obtain cbs where "snd (set_bitrate sdk lo st hi pn) = pn\<lparr>pn_events := fold deliver cbs (pn_events pn)\<rparr>"
    by (rule set_bitrate_quiet)
  with SetBitrate assms(3) have "r = Returned" "pn' = pn\<lparr>pn_events := fold deliver cbs (pn_events pn)\<rparr>"
    by auto
  with quiet_ledger [OF assms(2), of pn' cbs] show ?thesis by auto
next
  case (ClosePeer sdk active allowed native)
  with assms(3) have "r = Returned" "pn' = snd (close_peer sdk active allowed native pn)" by auto
  with close_peer_ledger [of sdk active allowed native pn] quiet_ledger [OF assms(2), of pn']
  show ?thesis by auto
qed

lemma peer_step_total:
  assumes "action_ok m a" "peer_inv n pn" "n + max 1 m < 2 ^ 64"
  shows "\<exists>r pn'. peer_step a pn = Some (r, pn') \<and> peer_inv (n + max 1 m) pn'"
proof (cases a)
  case (Submit sdk req)
  with assms(1,2) have "request_done m pn (submit sdk req pn)"
    by (intro submit_done) (simp_all add: peer_inv_def)
  with assms(2,3) Submit show ?thesis unfolding request_done_def by auto
next
  case TakeEvent
  with take_total [OF assms(2)] peer_inv_mono [of n _ "n + max 1 m"] show ?thesis by fastforce
next
  case (Callback cb)
  with assms quiet_inv [OF assms(2), of "pn\<lparr>pn_events := deliver cb (pn_events pn)\<rparr>" "[cb]" "max 1 m"]
  show ?thesis by auto
next
  case (ModifyCandidate sdk c remove)
  obtain d pn1 cbs where m: "modify_ice_candidate_bytes sdk c remove pn = (Some d, pn1)"
    "pn1 = pn\<lparr>pn_events := fold deliver cbs (pn_events pn)\<rparr>"
    "cbs = [] \<or> (\<exists>r. cbs = sdk_callbacks sdk r)" by (rule modify_quiet)
  have "list_all callback_ok cbs \<and> length cbs \<le> max 1 m"
    using m(3) assms(1) ModifyCandidate sdk_ok_callbacks [of m sdk] by auto
  with quiet_inv [OF assms(2), of pn1 cbs "max 1 m"] m assms(3) ModifyCandidate
  show ?thesis by simp
next
  case (SetBitrate sdk lo st hi)
  obtain cbs where s: "snd (set_bitrate sdk lo st hi pn) = pn\<lparr>pn_events := fold deliver cbs (pn_events pn)\<rparr>"
    "cbs = [] \<or> (\<exists>r. cbs = sdk_callbacks sdk r)" by (rule set_bitrate_quiet)
  have "list_all callback_ok cbs \<and> length cbs \<le> max 1 m"
    using s(2) assms(1) SetBitrate sdk_ok_callbacks [of m sdk] by auto
  with quiet_inv [OF assms(2), of "snd (set_bitrate sdk lo st hi pn)" cbs "max 1 m"] s assms(3) SetBitrate
  show ?thesis by simp
next
  case (ClosePeer sdk active allowed native)
  let ?pn = "snd (close_peer sdk active allowed native pn)"
  from close_peer_cases [OF assms(2), of sdk active allowed native]
  have "peer_inv (n + max 1 m) ?pn"
  proof
    assume "?pn = pn"
    with peer_inv_mono [OF assms(2)] show ?thesis by simp
  next
    assume c: "fst (close_peer sdk active allowed native pn) = Inr () \<and> (let pn' = ?pn in
         pn_events pn' = close_events (fold deliver (sdk_callbacks sdk SdkClose) (pn_events pn))
         \<and> pn_closed pn' \<and> pn_native_closed pn' \<and> pn_next_operation pn' = pn_next_operation pn)"
    with quiet_inv [OF assms(2), of ?pn "sdk_callbacks sdk SdkClose" "max 1 m"] assms(1,3) ClosePeer
      sdk_ok_callbacks [of m sdk SdkClose] show ?thesis by (simp add: Let_def)
  qed
  with ClosePeer show ?thesis by simp
qed

text \<open>The peer connection keeps the contract of accepted operations and their outcomes.\<close>

interpretation peer_ledger: outcome_ledger peer_step ledger_inv "action_ok m" under_way accepted outcome
  for m
  using peer_step_ledger by unfold_locales blast+

lemma peer_connection_new_inv: "peer_inv 1 (peer_connection_new signal)"
  using event_state_new_inv [of signal] event_state_new_def [of signal]
  by (simp add: peer_inv_def ledger_inv_def peer_connection_new_def)

lemma run_total:
  "list_all (action_ok m) as \<Longrightarrow> peer_inv n pn \<Longrightarrow> n + length as * max 1 m < 2 ^ 64
     \<Longrightarrow> \<exists>rs pn'. run_steps peer_step as pn = Some (rs, pn')
         \<and> peer_inv (n + length as * max 1 m) pn'"
proof (induction as arbitrary: n pn)
  case (Cons a as)
  have "n + max 1 m < 2 ^ 64" using Cons.prems(3) by simp
  with Cons.prems obtain r pn1 where s: "peer_step a pn = Some (r, pn1)" "peer_inv (n + max 1 m) pn1"
    using peer_step_total [of m a n pn] by auto
  have "n + max 1 m + length as * max 1 m < 2 ^ 64" using Cons.prems(3) by simp
  from Cons.IH [OF _ s(2) this] Cons.prems(1) s(1) show ?case
    by (auto simp: add.assoc)
qed simp

subsection \<open>Draining a closed peer\<close>

lemma take_handles_events:
  "take_data_channel i es = (p, es') \<Longrightarrow> es_events es' = es_events es"
  "take_transceiver i es = (p, es') \<Longrightarrow> es_events es' = es_events es"
  "take_receiver i es = (q, es') \<Longrightarrow> es_events es' = es_events es"
  "take_legacy i es = (a, es') \<Longrightarrow> es_events es' = es_events es"
  by (auto simp: take_data_channel_def take_transceiver_def take_receiver_def take_legacy_def
      split: option.splits)

lemma event_from_ffi_events: "event_from_ffi e es = Some (v, es') \<Longrightarrow> es_events es' = es_events es"
  by (auto simp: event_from_ffi_def handle_event_def peer_take_stream_event_def
      peer_take_track_event_def Let_def dest: take_handles_events
      split: if_splits prod.splits list.splits)

lemma take_shrinks:
  assumes "peer_inv n pn"
  shows "\<exists>v pn'. try_next_event pn = Some (v, pn') \<and> peer_inv n pn'
    \<and> es_events (pn_events pn') = tl (es_events (pn_events pn))
    \<and> es_closed (pn_events pn') = es_closed (pn_events pn)"
proof -
  obtain e es1 where t: "take_event (pn_events pn) = (e, es1)" by (metis prod.exhaust)
  have es1: "es_events es1 = tl (es_events (pn_events pn))" "es_closed es1 = es_closed (pn_events pn)"
    using t take_event_closed [of "pn_events pn"]
    by (auto simp: take_event_def Let_def split: list.splits if_splits)
  obtain v pn' where p: "try_next_event pn = Some (v, pn')" "peer_inv n pn'"
    using take_total [OF assms] by blast
  note eq = try_next_event_eq [OF t]
  obtain es2 where d: "event_from_ffi e es1 = Some (v, es2)" "pn_events pn' = es2"
    using p(1) eq(1) eq(2) by (cases "event_from_ffi e es1") force+
  then have "es_events es2 = es_events es1" "es_closed es2 = es_closed es1"
    using event_from_ffi_events event_from_ffi_ops(1) same_ops_fields by blast+
  with es1 d(2) p show ?thesis by auto
qed

lemma drain:
  "peer_inv n pn \<Longrightarrow> length (es_events (pn_events pn)) \<le> k \<Longrightarrow>
     \<exists>rs pn'. run_steps peer_step (replicate k TakeEvent) pn = Some (rs, pn') \<and> peer_inv n pn'
       \<and> es_events (pn_events pn') = [] \<and> es_closed (pn_events pn') = es_closed (pn_events pn)"
proof (induction k arbitrary: pn)
  case (Suc k)
  obtain v pn1 where t: "try_next_event pn = Some (v, pn1)" "peer_inv n pn1"
    "es_events (pn_events pn1) = tl (es_events (pn_events pn))"
    "es_closed (pn_events pn1) = es_closed (pn_events pn)"
    using take_shrinks [OF Suc.prems(1)] by blast
  have "length (es_events (pn_events pn1)) \<le> k" using t(3) Suc.prems(2) by simp
  from Suc.IH [OF t(2) this] t(1,4) show ?case by auto
qed simp

lemma drained_nothing_under_way:
  assumes "peer_inv n pn" "es_closed (pn_events pn)" "es_events (pn_events pn) = []"
  shows "under_way pn = {}"
  using assms by (simp add: peer_inv_def ledger_inv_def ops_inv_def under_way_def queued_ops_def)

subsection \<open>Text and bytes\<close>

lemma text_bytes_of [simp]: "text_bytes (text_of bs) = bs"
proof -
  have "of_char (char_of (unat b) :: char) = b" for b :: u8
  proof -
    have "unat b < 256" using unsigned_less [of b] by simp
    then have "(of_char (char_of (unat b) :: char) :: nat) = unat b" by (simp add: mod_less)
    then show ?thesis by (metis of_nat_of_char of_nat_unat ucast_id)
  qed
  then show ?thesis by (simp add: text_bytes_def text_of_def comp_def)
qed

text \<open>The native byte strings of an event, and those its decoded value carries.\<close>

definition native_bytes :: "ffi_peer_event \<Rightarrow> bytes list" where
  "native_bytes e =
     (if fe_kind e = 1 then
        (if fe_error_type e \<noteq> 0 then [fe_message e]
         else if fe_has_description e then [fe_sdp e] else [])
      else if fe_kind e = 2 \<or> fe_kind e = 15 then [fe_sdp_mid e, fe_candidate e]
      else if fe_kind e = 7 then [fe_message e] else [])"

fun carried_bytes :: "peer_connection_event \<Rightarrow> bytes list" where
  "carried_bytes (OperationComplete i (Inl e)) = [text_bytes (pe_message e)]"
| "carried_bytes (OperationComplete i (Inr (Some d))) = [sd_sdp d]"
| "carried_bytes (OperationCompleteBytes i d) = [sd_sdp d]"
| "carried_bytes (OperationFailedBytes i e) = [peb_message e]"
| "carried_bytes (IceCandidate c) = [ic_sdp_mid c, ic_candidate c]"
| "carried_bytes (IceCandidateBytes c) = [ic_sdp_mid c, ic_candidate c]"
| "carried_bytes (IceCandidateRemoved c) = [ic_sdp_mid c, ic_candidate c]"
| "carried_bytes (IceCandidateRemovedBytes c) = [ic_sdp_mid c, ic_candidate c]"
| "carried_bytes (IceCandidateError a p u c m) = [m]"
| "carried_bytes (IceCandidateErrorBytes a p u c m) = [m]"
| "carried_bytes _ = []"

fun bytes_variant :: "peer_connection_event \<Rightarrow> bool" where
  "bytes_variant (OperationCompleteBytes i d) = True"
| "bytes_variant (OperationFailedBytes i e) = True"
| "bytes_variant (IceCandidateBytes c) = True"
| "bytes_variant (IceCandidateRemovedBytes c) = True"
| "bytes_variant (IceCandidateErrorBytes a p u c m) = True"
| "bytes_variant _ = False"

lemma operation_event_bytes:
  assumes "operation_event e = Some v" "fe_kind e = 1"
  shows "carried_bytes v = native_bytes e \<and> bytes_variant v = (\<not> list_all utf8_ok (native_bytes e))"
  using assms
  by (auto simp: operation_event_def native_bytes_def from_utf8_def Let_def split: if_splits)

lemma candidate_bytes:
  assumes "fe_kind e = 2 \<or> fe_kind e = 15"
  shows "carried_bytes (candidate_observation e) = native_bytes e
    \<and> bytes_variant (candidate_observation e) = (\<not> list_all utf8_ok (native_bytes e))"
  using assms
  by (cases "utf8_ok (fe_sdp_mid e)"; cases "utf8_ok (fe_candidate e)")
    (auto simp: candidate_observation_def candidate_from_bytes_def native_bytes_def from_utf8_def
      Let_def)

lemma candidate_error_bytes:
  assumes "fe_kind e = 7"
  shows "carried_bytes (candidate_error_event e) = native_bytes e
    \<and> bytes_variant (candidate_error_event e) = (\<not> list_all utf8_ok (native_bytes e))"
  using assms by (simp add: candidate_error_event_def native_bytes_def from_utf8_def)

text \<open>C28. Decoding keeps the native bytes of completions, candidates and candidate errors: the decoded
  value carries exactly them, and is the bytes variant exactly when they are not all UTF-8.\<close>

theorem decoding_keeps_bytes:
  assumes "event_from_ffi e es = Some (Some v, es')" "fe_kind e = 1 \<or> fe_kind e = 2 \<or> fe_kind e = 7 \<or> fe_kind e = 15"
  shows "carried_bytes v = native_bytes e \<and> bytes_variant v = (\<not> list_all utf8_ok (native_bytes e))"
proof -
  from assms have "plain_event e = Some v" by (auto simp: event_from_ffi_def)
  then show ?thesis using assms(2) operation_event_bytes candidate_bytes candidate_error_bytes
    by (auto simp: plain_event_def)
qed

lemma decoding_keeps_bytes_witness:
  "\<exists>v. event_from_ffi (EmptyEvent\<lparr>fe_kind := 1, fe_operation_id := 7, fe_has_description := True,
        fe_sdp_type := 2, fe_sdp := [0xC0, 0x80]\<rparr>) (event_state_new readiness_default)
      = Some (Some v, event_state_new readiness_default)
    \<and> carried_bytes v = [[0xC0, 0x80]] \<and> bytes_variant v"
proof -
  let ?e = "EmptyEvent\<lparr>fe_kind := 1, fe_operation_id := 7, fe_has_description := True, fe_sdp_type := 2,
      fe_sdp := [0xC0, 0x80]\<rparr>"
  have bad: "\<not> utf8_ok [0xC0, 0x80]" by (simp add: utf8_ok.simps utf8_width_def word_le_nat_alt word_less_nat_alt)
  then have d: "event_from_ffi ?e (event_state_new readiness_default)
      = Some (Some (OperationCompleteBytes 7 \<lparr>sd_kind = Answer, sd_sdp = [0xC0, 0x80]\<rparr>),
          event_state_new readiness_default)"
    by (simp add: event_from_ffi_def plain_event_def operation_event_def EmptyEvent_def sdp_type_def
        from_utf8_def)
  have "native_bytes ?e = [[0xC0, 0x80]]" by (simp add: native_bytes_def EmptyEvent_def)
  with decoding_keeps_bytes [OF d] d bad show ?thesis
    by (intro exI [of _ "OperationCompleteBytes 7 \<lparr>sd_kind = Answer, sd_sdp = [0xC0, 0x80]\<rparr>"])
      (simp add: EmptyEvent_def)
qed

subsection \<open>Executions\<close>

lemma card_under_way: "ledger_inv pn \<Longrightarrow> card (under_way pn) \<le> 64"
  using card_length [of "es_admitted (pn_events pn)"]
  by (simp add: ledger_inv_def ops_inv_def under_way_def)

lemma new_ledger: "ledger_inv (peer_connection_new signal)" "under_way (peer_connection_new signal) = {}"
  using peer_connection_new_inv [of signal]
  by (simp_all add: peer_inv_def under_way_def peer_connection_new_def event_state_new_def)

text \<open>A concrete SDK: an offer is answered at once, nothing else makes a callback.\<close>

definition prompt_sdk :: sdk where
  "prompt_sdk = \<lparr>sdk_parse_description = (\<lambda>_ _. Inl []), sdk_parse_candidate = (\<lambda>_ _ _. Inl []),
     sdk_callbacks = (\<lambda>r. case r of SdkCreateOffer i _ \<Rightarrow> [OnDescriptionCreated i (Some (0, [0x76]))]
                          | _ \<Rightarrow> []),
     sdk_accepts = (\<lambda>_. True), sdk_error = (\<lambda>_. (0, []))\<rparr>"

lemma prompt_sdk_ok: "sdk_ok 1 prompt_sdk"
  by (simp add: sdk_ok_def prompt_sdk_def split: sdk_request.split)

lemma utf8_ascii: "list_all (\<lambda>b. b < 0x80) bs \<Longrightarrow> utf8_ok bs"
  by (induction bs) (simp_all add: utf8_ok.simps utf8_width_def)

lemmas sample_values = options_default_def prompt_sdk_def EmptyEvent_def ClosedOperation_def
  closed_event_def readiness_default_def description_created_def

lemmas sample_steps = create_offer_with_options_def options_to_native_def option_or_unset_def
  i32_try_from_def admit_def next_operation_def u64_checked_succ_def peer_create_offer_def
  begin_operation_def begin_locked_def insort_insert_insort operation_admission_def
  admission_reply_def sdk_call_def complete_def request_stats_def peer_request_stats_def
  begin_stats_def close_peer_def close_peer_connection_def close_events_def
  signal_readiness_def notify_def

definition sample_actions :: "peer_action list" where
  "sample_actions = [Submit prompt_sdk (CreateOffer options_default), Submit prompt_sdk RequestStats,
     ClosePeer prompt_sdk False True True]"

lemma sample_actions_ok: "list_all (action_ok 1) sample_actions"
  using prompt_sdk_ok by (simp add: sample_actions_def)

lemma sample_run: "\<exists>pn. run_steps peer_step sample_actions (peer_connection_new readiness_default)
     = Some ([Accepted 1, Accepted 2, Returned], pn) \<and> pn_closed pn"
  by (simp add: sample_steps sample_values sample_actions_def peer_connection_new_def
      event_state_new_def)

text \<open>C15. Every accepted request is settled exactly once.  Over any interleaving of requests, SDK
  callbacks, event taking and closing, the number of times an identifier was accepted is the number
  of outcome events taken for it, plus one if it is still under way; at most 64 are.\<close>

theorem operations_settle_exactly_once:
  assumes "list_all (action_ok m) as"
    "run_steps peer_step as (peer_connection_new signal) = Some (rs, pn)"
  shows "occurrences accepted i rs = occurrences outcome i rs + of_bool (i \<in> under_way pn)
    \<and> card (under_way pn) \<le> 64"
proof (rule conjI)
  show "occurrences accepted i rs = occurrences outcome i rs + of_bool (i \<in> under_way pn)"
    using peer_ledger.run_balance [OF assms(2,1) new_ledger(1), of i] by (simp add: new_ledger)
  show "card (under_way pn) \<le> 64"
    using card_under_way peer_ledger.run_inv [OF assms(2,1) new_ledger(1)] by blast
qed

lemma operations_settle_exactly_once_witness:
  "\<exists>pn. run_steps peer_step sample_actions (peer_connection_new readiness_default)
     = Some ([Accepted 1, Accepted 2, Returned], pn) \<and> 1 \<in> under_way pn \<and> 3 \<notin> under_way pn"
proof -
  obtain pn where r: "run_steps peer_step sample_actions (peer_connection_new readiness_default)
     = Some ([Accepted 1, Accepted 2, Returned], pn)" using sample_run by blast
  have o: "occurrences accepted i [Accepted 1, Accepted 2, Returned] = of_bool (i = 1) + of_bool (i = 2)"
    "occurrences outcome i [Accepted 1, Accepted 2, Returned] = 0" for i by auto
  note once = operations_settle_exactly_once [OF sample_actions_ok r, unfolded o, THEN conjunct1]
  have "1 \<in> under_way pn" using once [of 1] by (cases "1 \<in> under_way pn") simp_all
  moreover have "3 \<notin> under_way pn" using once [of 3] by (cases "3 \<in> under_way pn") simp_all
  ultimately have "1 \<in> under_way pn \<and> 3 \<notin> under_way pn" ..
  with r show ?thesis by blast
qed

text \<open>C17. No execution of fewer than \<open>2 ^ 64\<close> steps and callbacks panics: every status the adapters
  return and every queued event is one the wrapper knows, every arrival still has its handle.  What
  is queued stays bounded: 199 events, of which 128 control events with 256 KiB.\<close>

theorem peer_never_panics:
  assumes "list_all (action_ok m) as" "Suc (length as * max 1 m) < 2 ^ 64"
  shows "\<exists>rs pn. run_steps peer_step as (peer_connection_new signal) = Some (rs, pn)
    \<and> length (es_events (pn_events pn)) \<le> 199 \<and> es_retained (pn_events pn) \<le> 128
    \<and> es_retained_bytes (pn_events pn) \<le> 256 * 1024"
proof -
  obtain rs pn where r: "run_steps peer_step as (peer_connection_new signal) = Some (rs, pn)"
    "peer_inv (1 + length as * max 1 m) pn"
    using run_total [OF assms(1) peer_connection_new_inv [of signal]] assms(2) by auto
  then have "ops_inv (pn_events pn)" "queue_inv (pn_events pn)"
    by (simp_all add: peer_inv_def ledger_inv_def)
  with queue_length_bound r(1) show ?thesis by (fastforce simp: queue_inv_def)
qed

lemma peer_never_panics_witness:
  "\<exists>rs pn. run_steps peer_step sample_actions (peer_connection_new readiness_default) = Some (rs, pn)
    \<and> length (es_events (pn_events pn)) \<le> 199"
  using peer_never_panics [OF sample_actions_ok, of readiness_default]
  by (auto simp: sample_actions_def)

lemma takes_accept_nothing:
  "run_steps peer_step (replicate k TakeEvent) pn = Some (rs, pn') \<Longrightarrow> occurrences accepted i rs = 0"
  by (induction k arbitrary: pn rs) (auto split: bind_splits)

text \<open>C16. Closing loses no outcome: once a peer is closed, taking 199 events yields an outcome for
  every operation that was accepted before, and nothing stays under way.\<close>

theorem closing_settles_every_operation:
  assumes "list_all (action_ok m) as" "Suc (length as * max 1 m) < 2 ^ 64"
    "run_steps peer_step as (peer_connection_new signal) = Some (rs, pn)" "pn_closed pn"
  shows "\<exists>rs' pn'. run_steps peer_step (replicate 199 TakeEvent) pn = Some (rs', pn')
    \<and> under_way pn' = {}
    \<and> (\<forall>i. occurrences accepted i rs = occurrences outcome i rs + occurrences outcome i rs')"
proof -
  let ?n = "1 + length as * max 1 m"
  have p: "peer_inv ?n pn"
    using run_total [OF assms(1) peer_connection_new_inv [of signal]] assms(2,3) by auto
  then have "length (es_events (pn_events pn)) \<le> 199"
    by (intro queue_length_bound) (simp_all add: peer_inv_def ledger_inv_def)
  from drain [OF p this] obtain rs' pn' where d:
    "run_steps peer_step (replicate 199 TakeEvent) pn = Some (rs', pn')" "peer_inv ?n pn'"
    "es_events (pn_events pn') = []" "es_closed (pn_events pn') = es_closed (pn_events pn)" by blast
  have u: "under_way pn' = {}"
    using drained_nothing_under_way [OF d(2)] d(3,4) p assms(4) by (simp add: peer_inv_def)
  have k: "list_all (action_ok m) (replicate 199 TakeEvent)" by (simp add: list_all_iff)
  have l: "ledger_inv pn" using p by (simp add: peer_inv_def)
  have none: "occurrences accepted i rs' = 0" for i
    using d(1) by (rule takes_accept_nothing)
  have "occurrences accepted i rs = occurrences outcome i rs + occurrences outcome i rs'" for i
    using peer_ledger.run_balance [OF assms(3,1) new_ledger(1), of i]
      peer_ledger.run_balance [OF d(1) k l, of i] u none [of i] by (simp add: new_ledger)
  with d(1) u show ?thesis by blast
qed

lemma closing_settles_every_operation_witness:
  "\<exists>pn rs' pn'. run_steps peer_step sample_actions (peer_connection_new readiness_default)
       = Some ([Accepted 1, Accepted 2, Returned], pn)
     \<and> run_steps peer_step (replicate 199 TakeEvent) pn = Some (rs', pn')
     \<and> occurrences outcome 1 rs' = 1 \<and> occurrences outcome 2 rs' = 1 \<and> occurrences outcome 3 rs' = 0"
proof -
  obtain pn where r: "run_steps peer_step sample_actions (peer_connection_new readiness_default)
     = Some ([Accepted 1, Accepted 2, Returned], pn)" "pn_closed pn" using sample_run by blast
  have n: "Suc (length sample_actions * max 1 1) < 2 ^ 64" by (simp add: sample_actions_def)
  from closing_settles_every_operation [OF sample_actions_ok n r] obtain rs' pn' where d:
    "run_steps peer_step (replicate 199 TakeEvent) pn = Some (rs', pn')"
    "\<forall>i. occurrences accepted i [Accepted 1, Accepted 2, Returned]
       = occurrences outcome i [Accepted 1, Accepted 2, Returned] + occurrences outcome i rs'" by blast
  from d(2) [rule_format, of 1] d(2) [rule_format, of 2] d(2) [rule_format, of 3] d(1) r(1)
  show ?thesis by auto
qed

end
