(* ===== verification/Session.thy ===== *)
theory Session
  imports PeerHistory
begin

text \<open>
  The session of \<open>src/production.rs\<close> (with \<open>production_media.rs\<close>): the owner of a graph of native
  objects that the application only knows by identifiers.  Modelled are the peers with their
  outstanding operations, the resources the peers' events and calls bring in (channels, senders,
  receivers, transceivers, tracks, streams), the receivers' sinks, the raw video sources, and
  closing.  A native object is its address, a \<open>HashMap\<close> an association list; identifiers of every
  kind come from one counter.  The readiness is one object shared by the session and its peers.
\<close>

subsection \<open>State\<close>

record 'a resource =
  res_peer :: u64
  res_value :: 'a

record transceiver_resource =
  tr_value :: nat
  tr_sender :: u64
  tr_receiver :: u64

record session_peer =
  sp_value :: peer_connection
  sp_outstanding :: "u64 list"

datatype media_sink =
    SinkPcm nat
  | SinkRawVideo nat
  | SinkEncodedAudio nat
  | SinkEncodedVideo nat
  | SinkRawAndEncodedVideo nat nat

text \<open>\<open>se_next\<close> is the process-wide counter; \<open>se_released\<close> collects the native objects that have been
  closed.\<close>

record session =
  se_next :: u64
  se_peers :: "(u64 \<times> session_peer) list"
  se_channels :: "(u64 \<times> nat resource) list"
  se_senders :: "(u64 \<times> nat resource) list"
  se_receivers :: "(u64 \<times> nat resource) list"
  se_transceivers :: "(u64 \<times> transceiver_resource resource) list"
  se_media_tracks :: "(u64 \<times> nat resource) list"
  se_media_streams :: "(u64 \<times> pointer resource) list"
  se_media_sinks :: "(u64 \<times> media_sink) list"
  se_sources :: "(u64 \<times> nat) list"
  se_released :: "nat list"
  se_readiness :: readiness
  se_closed :: bool

definition session_new :: "u64 \<Rightarrow> session" where
  "session_new n = \<lparr>se_next = n, se_peers = [], se_channels = [], se_senders = [],
     se_receivers = [], se_transceivers = [], se_media_tracks = [], se_media_streams = [],
     se_media_sinks = [], se_sources = [], se_released = [],
     se_readiness = readiness_default, se_closed = False\<rparr>"

text \<open>What surrounds one call: the SDK, the thread it runs on, and the answers of native objects.\<close>

record environment =
  en_sdk :: sdk
  en_callback_active :: bool
  en_control_allowed :: bool
  en_close :: "nat \<Rightarrow> (peer_error, unit) result"
  en_transceiver :: "nat \<Rightarrow> nat \<times> nat"
  en_label :: "nat \<Rightarrow> bytes"

type_synonym 'a outcome = "(peer_error, 'a) result \<times> session"

text \<open>The \<open>?\<close> operator.\<close>

definition attempt :: "('e, 'a) result \<times> 's \<Rightarrow> ('a \<Rightarrow> 's \<Rightarrow> ('e, 'b) result \<times> 's)
    \<Rightarrow> ('e, 'b) result \<times> 's" where
  "attempt r k = (case r of (Inl e, s) \<Rightarrow> (Inl e, s) | (Inr a, s) \<Rightarrow> k a s)"

lemma attempt_simps [simp]:
  "attempt (Inl e, s) k = (Inl e, s)" "attempt (Inr a, s) k = k a s"
  by (simp_all add: attempt_def)

definition session_error :: "peer_error_kind \<Rightarrow> string \<Rightarrow> peer_error" where
  "session_error kind message = \<lparr>pe_kind = kind, pe_message = message\<rparr>"

definition missing :: peer_error where
  "missing = session_error InvalidParameter ''resource does not belong to this session''"

definition check_open :: "session \<Rightarrow> (peer_error, unit) result" where
  "check_open s = (if se_closed s then Inl (session_error Closed ''session is closed'') else Inr ())"

definition check_control_call :: "environment \<Rightarrow> (peer_error, unit) result" where
  "check_control_call env =
     (if en_callback_active env then Inl (session_error InvalidState
        ''cannot synchronously control the session from a native provider/context callback'')
      else if \<not> en_control_allowed env then Inl (session_error InvalidState
        ''this native role cannot synchronously control the session on signaling'')
      else Inr ())"

definition next_id :: "session \<Rightarrow> u64 outcome" where
  "next_id s = (case u64_checked_succ (se_next s) of
       None \<Rightarrow> (Inl (session_error ResourceExhausted ''session resource identities exhausted''), s)
     | Some n \<Rightarrow> (Inr (se_next s), s\<lparr>se_next := n\<rparr>))"

subsection \<open>Peers and operations\<close>

text \<open>A peer works on the session's readiness.\<close>

definition lend :: "readiness \<Rightarrow> peer_connection \<Rightarrow> peer_connection" where
  "lend r pn = pn\<lparr>pn_events := (pn_events pn)\<lparr>es_readiness := r\<rparr>\<rparr>"

definition put_peer :: "u64 \<Rightarrow> session_peer \<Rightarrow> session \<Rightarrow> session" where
  "put_peer p v s = s\<lparr>se_peers := AList.update p v (se_peers s),
     se_readiness := es_readiness (pn_events (sp_value v))\<rparr>"

definition create_peer_with_dependencies ::
  "(peer_error, unit) result \<Rightarrow> session \<Rightarrow> u64 outcome" where
  "create_peer_with_dependencies native s =
     (case check_open s of Inl e \<Rightarrow> (Inl e, s) | Inr _ \<Rightarrow>
      attempt (next_id s) (\<lambda>i s.
      case native of Inl e \<Rightarrow> (Inl e, s) | Inr _ \<Rightarrow>
        (Inr i, put_peer i \<lparr>sp_value = peer_connection_new (se_readiness s), sp_outstanding = []\<rparr> s)))"

text \<open>\<open>None\<close> is a panic.\<close>

definition submit_operation :: "sdk \<Rightarrow> peer_request \<Rightarrow> u64 \<Rightarrow> session_peer \<Rightarrow> session
    \<Rightarrow> ((legacy_stats_request_error, u64) result \<times> session) option" where
  "submit_operation sdk req p v s =
     (if pn_closed (sp_value v) then Some (Inl (Binding (session_error Closed ''peer is closed'')), s)
      else if 64 \<le> length (sp_outstanding v) then Some (Inl (Binding (session_error ResourceExhausted
        ''consume operation outcomes before submitting more work (limit 64)'')), s)
      else
        let (r, pn) = request_result sdk req (lend (se_readiness s) (sp_value v)) in
        map_option (\<lambda>r. case r of
            Inl e \<Rightarrow> (Inl e, put_peer p (v\<lparr>sp_value := pn\<rparr>) s)
          | Inr i \<Rightarrow> (Inr i, put_peer p
              \<lparr>sp_value = pn, sp_outstanding = List.insert i (sp_outstanding v)\<rparr> s)) r)"

definition operation_for :: "sdk \<Rightarrow> (peer_error, peer_request) result \<Rightarrow> u64 \<Rightarrow> session
    \<Rightarrow> ((legacy_stats_request_error, u64) result \<times> session) option" where
  "operation_for sdk req p s =
     (case and_then req (\<lambda>req. and_then (ok_or (map_of (se_peers s) p) missing) (\<lambda>v. Inr (req, v))) of
        Inl e \<Rightarrow> Some (Inl (Binding e), s)
      | Inr (req, v) \<Rightarrow> submit_operation sdk req p v s)"

definition operation :: "sdk \<Rightarrow> peer_request \<Rightarrow> u64 \<Rightarrow> session
    \<Rightarrow> ((legacy_stats_request_error, u64) result \<times> session) option" where
  "operation sdk req p s = operation_for sdk (and_then (check_open s) (\<lambda>_. Inr req)) p s"

text \<open>The requests of the application.\<close>

type_synonym session_admission =
  "((legacy_stats_request_error, u64) result \<times> session) option"

definition session_create_offer :: "sdk \<Rightarrow> u64 \<Rightarrow> bool \<Rightarrow> session \<Rightarrow> session_admission" where
  "session_create_offer sdk p ice_restart = operation sdk
     (if ice_restart then CreateOffer (options_default\<lparr>oa_ice_restart := True\<rparr>)
      else CreateOffer options_default) p"

definition session_create_offer_with_options ::
  "sdk \<Rightarrow> u64 \<Rightarrow> offer_answer_options \<Rightarrow> session \<Rightarrow> session_admission" where
  "session_create_offer_with_options sdk p options = operation sdk (CreateOffer options) p"

definition session_create_answer_with_options ::
  "sdk \<Rightarrow> u64 \<Rightarrow> offer_answer_options \<Rightarrow> session \<Rightarrow> session_admission" where
  "session_create_answer_with_options sdk p options = operation sdk (CreateAnswer options) p"

definition session_create_answer :: "sdk \<Rightarrow> u64 \<Rightarrow> session \<Rightarrow> session_admission" where
  "session_create_answer sdk p = operation sdk (CreateAnswer options_default) p"

definition session_set_local_description_auto :: "sdk \<Rightarrow> u64 \<Rightarrow> session \<Rightarrow> session_admission" where
  "session_set_local_description_auto sdk p = operation sdk (SetLocalAuto False) p"

definition session_set_local_description_auto_legacy ::
  "sdk \<Rightarrow> u64 \<Rightarrow> session \<Rightarrow> session_admission" where
  "session_set_local_description_auto_legacy sdk p = operation sdk (SetLocalAuto True) p"

definition session_set_local_description ::
  "sdk \<Rightarrow> u64 \<Rightarrow> session_description \<Rightarrow> session \<Rightarrow> session_admission" where
  "session_set_local_description sdk p d = operation sdk (SetLocal d False) p"

definition session_set_local_description_legacy ::
  "sdk \<Rightarrow> u64 \<Rightarrow> session_description \<Rightarrow> session \<Rightarrow> session_admission" where
  "session_set_local_description_legacy sdk p d = operation sdk (SetLocal d True) p"

definition session_set_remote_description ::
  "sdk \<Rightarrow> u64 \<Rightarrow> session_description \<Rightarrow> session \<Rightarrow> session_admission" where
  "session_set_remote_description sdk p d = operation sdk (SetRemote d False) p"

definition session_set_remote_description_legacy ::
  "sdk \<Rightarrow> u64 \<Rightarrow> session_description \<Rightarrow> session \<Rightarrow> session_admission" where
  "session_set_remote_description_legacy sdk p d = operation sdk (SetRemote d True) p"

definition session_add_ice_candidate ::
  "sdk \<Rightarrow> u64 \<Rightarrow> ice_candidate \<Rightarrow> session \<Rightarrow> session_admission" where
  "session_add_ice_candidate sdk p c = operation sdk (AddCandidate c) p"

definition session_request_stats :: "sdk \<Rightarrow> u64 \<Rightarrow> session \<Rightarrow> session_admission" where
  "session_request_stats sdk p = operation sdk RequestStats p"

definition request_legacy_stats_selected :: "sdk \<Rightarrow> u64 \<Rightarrow> u64 option \<Rightarrow> legacy_stats_output_level
    \<Rightarrow> session \<Rightarrow> ((legacy_stats_request_error, u64) result \<times> session) option" where
  "request_legacy_stats_selected sdk p selector level s = operation_for sdk
     (and_then (check_open s) (\<lambda>_. case selector of
          None \<Rightarrow> Inr (LegacyStatsRequest None level)
        | Some t \<Rightarrow> and_then (ok_or (map_of (se_media_tracks s) t) missing) (\<lambda>r.
            Inr (LegacyStatsRequest (Some (res_value r)) level)))) p s"

definition request_sender_stats :: "sdk \<Rightarrow> u64 \<Rightarrow> session
    \<Rightarrow> ((legacy_stats_request_error, u64) result \<times> session) option" where
  "request_sender_stats sdk sender s =
     (case and_then (check_open s) (\<lambda>_. ok_or (map_of (se_senders s) sender) missing) of
        Inl e \<Rightarrow> Some (Inl (Binding e), s)
      | Inr r \<Rightarrow> operation_for sdk (Inr (RequestSenderStats (Some (res_value r)))) (res_peer r) s)"

definition request_receiver_stats :: "sdk \<Rightarrow> u64 \<Rightarrow> session
    \<Rightarrow> ((legacy_stats_request_error, u64) result \<times> session) option" where
  "request_receiver_stats sdk receiver s =
     (case and_then (check_open s) (\<lambda>_. ok_or (map_of (se_receivers s) receiver) missing) of
        Inl e \<Rightarrow> Some (Inl (Binding e), s)
      | Inr r \<Rightarrow> operation_for sdk (Inr (RequestReceiverStats (Some (res_value r)))) (res_peer r) s)"

definition request_selected_sender_stats :: "sdk \<Rightarrow> u64 \<Rightarrow> u64 option \<Rightarrow> session
    \<Rightarrow> ((legacy_stats_request_error, u64) result \<times> session) option" where
  "request_selected_sender_stats sdk p selector s = operation_for sdk
     (and_then (check_open s) (\<lambda>_. case selector of
          None \<Rightarrow> Inr (RequestSenderStats None)
        | Some i \<Rightarrow> and_then (ok_or (map_of (se_senders s) i) missing) (\<lambda>r.
            Inr (RequestSenderStats (Some (res_value r)))))) p s"

definition request_selected_receiver_stats :: "sdk \<Rightarrow> u64 \<Rightarrow> u64 option \<Rightarrow> session
    \<Rightarrow> ((legacy_stats_request_error, u64) result \<times> session) option" where
  "request_selected_receiver_stats sdk p selector s = operation_for sdk
     (and_then (check_open s) (\<lambda>_. case selector of
          None \<Rightarrow> Inr (RequestReceiverStats None)
        | Some i \<Rightarrow> and_then (ok_or (map_of (se_receivers s) i) missing) (\<lambda>r.
            Inr (RequestReceiverStats (Some (res_value r)))))) p s"

text \<open>Adding and removing candidates synchronously; the errors are of bytes.\<close>

definition bytes_error :: "peer_error \<Rightarrow> peer_error_bytes" where
  "bytes_error e = \<lparr>peb_kind = pe_kind e, peb_message = text_bytes (pe_message e)\<rparr>"

definition session_modify_ice_candidate :: "sdk \<Rightarrow> bool \<Rightarrow> u64 \<Rightarrow> ice_candidate \<Rightarrow> session
    \<Rightarrow> ((peer_error_bytes, ice_candidate_disposition) result \<times> session) option" where
  "session_modify_ice_candidate sdk remove p c s =
     (case and_then (check_open s) (\<lambda>_. ok_or (map_of (se_peers s) p) missing) of
        Inl e \<Rightarrow> Some (Inl (bytes_error e), s)
      | Inr v \<Rightarrow>
          let (r, pn) = modify_ice_candidate_bytes sdk c remove (lend (se_readiness s) (sp_value v))
          in map_option (\<lambda>r. (r, put_peer p (v\<lparr>sp_value := pn\<rparr>) s)) r)"

subsection \<open>Resources\<close>

definition find_resource :: "('a \<Rightarrow> bool) \<Rightarrow> (u64 \<times> 'a) list \<Rightarrow> u64 option" where
  "find_resource same m = map_option fst (find (\<lambda>(_, r). same r) m)"

definition insert_sender :: "u64 \<Rightarrow> nat \<Rightarrow> session \<Rightarrow> u64 outcome" where
  "insert_sender p v s =
     (case find_resource (\<lambda>r. res_peer r = p \<and> res_value r = v) (se_senders s) of
        Some i \<Rightarrow> (Inr i, s)
      | None \<Rightarrow> attempt (next_id s) (\<lambda>i s.
          (Inr i, s\<lparr>se_senders := AList.update i \<lparr>res_peer = p, res_value = v\<rparr> (se_senders s)\<rparr>)))"

definition insert_receiver :: "u64 \<Rightarrow> nat \<Rightarrow> session \<Rightarrow> u64 outcome" where
  "insert_receiver p v s =
     (case find_resource (\<lambda>r. res_peer r = p \<and> res_value r = v) (se_receivers s) of
        Some i \<Rightarrow> (Inr i, s)
      | None \<Rightarrow> attempt (next_id s) (\<lambda>i s.
          (Inr i, s\<lparr>se_receivers := AList.update i \<lparr>res_peer = p, res_value = v\<rparr> (se_receivers s)\<rparr>)))"

definition insert_transceiver :: "environment \<Rightarrow> u64 \<Rightarrow> nat \<Rightarrow> session \<Rightarrow> u64 outcome" where
  "insert_transceiver env p v s =
     attempt (insert_receiver p (snd (en_transceiver env v)) s) (\<lambda>receiver s.
     case find_resource (\<lambda>r. res_peer r = p \<and> tr_value (res_value r) = v) (se_transceivers s) of
       Some i \<Rightarrow> (Inr i, s)
     | None \<Rightarrow>
         attempt (insert_sender p (fst (en_transceiver env v)) s) (\<lambda>sender s.
         attempt (next_id s) (\<lambda>i s.
           (Inr i, s\<lparr>se_transceivers := AList.update i \<lparr>res_peer = p, res_value =
              \<lparr>tr_value = v, tr_sender = sender, tr_receiver = receiver\<rparr>\<rparr> (se_transceivers s)\<rparr>))))"

definition insert_media_track :: "u64 \<Rightarrow> nat \<Rightarrow> session \<Rightarrow> u64 outcome" where
  "insert_media_track p v s =
     (case find_resource (\<lambda>r. res_value r = v) (se_media_tracks s) of
        Some i \<Rightarrow> (Inr i, s)
      | None \<Rightarrow> attempt (next_id s) (\<lambda>i s.
          (Inr i, s\<lparr>se_media_tracks :=
             AList.update i \<lparr>res_peer = p, res_value = v\<rparr> (se_media_tracks s)\<rparr>)))"

definition insert_media_stream :: "u64 \<Rightarrow> pointer \<Rightarrow> session \<Rightarrow> u64 outcome" where
  "insert_media_stream p v s =
     (case find_resource (\<lambda>r. res_value r = v) (se_media_streams s) of
        Some i \<Rightarrow> (Inr i, s)
      | None \<Rightarrow> attempt (next_id s) (\<lambda>i s.
          (Inr i, s\<lparr>se_media_streams :=
             AList.update i \<lparr>res_peer = p, res_value = v\<rparr> (se_media_streams s)\<rparr>)))"

text \<open>\<open>iter().map(insert).collect()\<close>: stops at the first error.\<close>

fun collect_ids :: "('v \<Rightarrow> session \<Rightarrow> u64 outcome) \<Rightarrow> 'v list \<Rightarrow> session \<Rightarrow> u64 list outcome" where
  "collect_ids ins [] s = (Inr [], s)"
| "collect_ids ins (v # vs) s =
     attempt (ins v s) (\<lambda>i s. attempt (collect_ids ins vs s) (\<lambda>ids s. (Inr (i # ids), s)))"

text \<open>The calls that return identifiers of a peer's native objects; \<open>native\<close> is what the peer returns.\<close>

definition require_peer :: "u64 \<Rightarrow> session \<Rightarrow> (peer_error, session_peer) result" where
  "require_peer p s = and_then (check_open s) (\<lambda>_. ok_or (map_of (se_peers s) p) missing)"

definition session_senders :: "nat list \<Rightarrow> u64 \<Rightarrow> session \<Rightarrow> u64 list outcome" where
  "session_senders native p s = (case require_peer p s of Inl e \<Rightarrow> (Inl e, s)
     | Inr _ \<Rightarrow> collect_ids (insert_sender p) native s)"

definition session_receivers :: "nat list \<Rightarrow> u64 \<Rightarrow> session \<Rightarrow> u64 list outcome" where
  "session_receivers native p s = (case require_peer p s of Inl e \<Rightarrow> (Inl e, s)
     | Inr _ \<Rightarrow> collect_ids (insert_receiver p) native s)"

definition session_transceivers ::
  "environment \<Rightarrow> (peer_error, nat list) result \<Rightarrow> u64 \<Rightarrow> session \<Rightarrow> u64 list outcome" where
  "session_transceivers env native p s = (case and_then (require_peer p s) (\<lambda>_. native) of
       Inl e \<Rightarrow> (Inl e, s) | Inr vs \<Rightarrow> collect_ids (insert_transceiver env p) vs s)"

definition add_session_transceiver ::
  "environment \<Rightarrow> (peer_error, nat) result \<Rightarrow> u64 \<Rightarrow> session \<Rightarrow> u64 outcome" where
  "add_session_transceiver env native p s = (case and_then (require_peer p s) (\<lambda>_. native) of
       Inl e \<Rightarrow> (Inl e, s) | Inr v \<Rightarrow> insert_transceiver env p v s)"

definition peer_streams ::
  "(peer_error, pointer list) result \<Rightarrow> u64 \<Rightarrow> session \<Rightarrow> u64 list outcome" where
  "peer_streams native p s = (case and_then (require_peer p s) (\<lambda>_. native) of
       Inl e \<Rightarrow> (Inl e, s) | Inr vs \<Rightarrow> collect_ids (insert_media_stream p) vs s)"

definition sender_track_reference :: "pointer \<Rightarrow> u64 \<Rightarrow> session \<Rightarrow> u64 option outcome" where
  "sender_track_reference native sender s = (case map_of (se_senders s) sender of
       None \<Rightarrow> (Inl missing, s)
     | Some r \<Rightarrow> (case native of None \<Rightarrow> (Inr None, s)
         | Some v \<Rightarrow> attempt (insert_media_track (res_peer r) v s) (\<lambda>i s. (Inr (Some i), s))))"

definition receiver_track_reference :: "pointer \<Rightarrow> u64 \<Rightarrow> session \<Rightarrow> u64 option outcome" where
  "receiver_track_reference native receiver s = (case map_of (se_receivers s) receiver of
       None \<Rightarrow> (Inl missing, s)
     | Some r \<Rightarrow> (case native of None \<Rightarrow> (Inr None, s)
         | Some v \<Rightarrow> attempt (insert_media_track (res_peer r) v s) (\<lambda>i s. (Inr (Some i), s))))"

definition release_media_track_reference :: "u64 \<Rightarrow> session \<Rightarrow> unit outcome" where
  "release_media_track_reference track s =
     (case map_of (se_media_tracks s) track of
        None \<Rightarrow> (Inl missing, s)
      | Some _ \<Rightarrow> (Inr (), s\<lparr>se_media_tracks := AList.delete track (se_media_tracks s)\<rparr>))"

definition receiver_streams :: "pointer list \<Rightarrow> u64 \<Rightarrow> session \<Rightarrow> u64 list outcome" where
  "receiver_streams native receiver s = (case map_of (se_receivers s) receiver of
       None \<Rightarrow> (Inl missing, s)
     | Some r \<Rightarrow> collect_ids (insert_media_stream (res_peer r)) native s)"

definition stream_tracks :: "nat list \<Rightarrow> u64 \<Rightarrow> session \<Rightarrow> u64 list outcome" where
  "stream_tracks native stream s = (case map_of (se_media_streams s) stream of
       None \<Rightarrow> (Inl missing, s)
     | Some r \<Rightarrow> collect_ids (insert_media_track (res_peer r)) native s)"

definition stream_find_track :: "pointer \<Rightarrow> u64 \<Rightarrow> session \<Rightarrow> u64 option outcome" where
  "stream_find_track native stream s = (case map_of (se_media_streams s) stream of
       None \<Rightarrow> (Inl missing, s)
     | Some r \<Rightarrow> (case native of None \<Rightarrow> (Inr None, s)
         | Some v \<Rightarrow> attempt (insert_media_track (res_peer r) v s) (\<lambda>i s. (Inr (Some i), s))))"

definition release_media_stream :: "u64 \<Rightarrow> session \<Rightarrow> unit outcome" where
  "release_media_stream stream s =
     (case map_of (se_media_streams s) stream of
        None \<Rightarrow> (Inl missing, s)
      | Some _ \<Rightarrow> (Inr (), s\<lparr>se_media_streams := AList.delete stream (se_media_streams s)\<rparr>))"

definition transceiver_sender :: "u64 \<Rightarrow> session \<Rightarrow> (peer_error, u64) result" where
  "transceiver_sender i s = and_then (ok_or (map_of (se_transceivers s) i) missing) (\<lambda>r.
     Inr (tr_sender (res_value r)))"

definition transceiver_receiver :: "u64 \<Rightarrow> session \<Rightarrow> (peer_error, u64) result" where
  "transceiver_receiver i s = and_then (ok_or (map_of (se_transceivers s) i) missing) (\<lambda>r.
     Inr (tr_receiver (res_value r)))"

definition create_channel_bytes ::
  "(peer_error, nat) result \<Rightarrow> u64 \<Rightarrow> session \<Rightarrow> u64 outcome" where
  "create_channel_bytes native p s = (case check_open s of Inl e \<Rightarrow> (Inl e, s) | Inr _ \<Rightarrow>
     attempt (next_id s) (\<lambda>i s.
     case and_then (ok_or (map_of (se_peers s) p) missing) (\<lambda>_. native) of
       Inl e \<Rightarrow> (Inl e, s)
     | Inr v \<Rightarrow> (Inr i, s\<lparr>se_channels :=
         AList.update i \<lparr>res_peer = p, res_value = v\<rparr> (se_channels s)\<rparr>)))"

definition create_raw_video_source :: "(peer_error, nat) result \<Rightarrow> session \<Rightarrow> u64 outcome" where
  "create_raw_video_source native s = (case check_open s of Inl e \<Rightarrow> (Inl e, s) | Inr _ \<Rightarrow>
     attempt (next_id s) (\<lambda>i s. case native of
       Inl e \<Rightarrow> (Inl e, s)
     | Inr v \<Rightarrow> (Inr i, s\<lparr>se_sources := AList.update i v (se_sources s)\<rparr>)))"

subsection \<open>Events\<close>

text \<open>The variants the session passes on unchanged carry the peer's event.\<close>

datatype session_event =
    Passed peer_connection_event
  | ChannelArrived u64 bytes
  | TrackArrived u64 u64
  | ReceiverRemoved u64
  | StreamArrived u64
  | StreamGone u64
  | TrackWithStreams u64 "u64 list"

text \<open>\<open>None\<close> is the panic of \<open>self.transceivers[&transceiver]\<close>.\<close>

definition session_event :: "environment \<Rightarrow> u64 \<Rightarrow> peer_connection_event \<Rightarrow> session
    \<Rightarrow> session_event outcome option" where
  "session_event env p e s = (case e of
       DataChannel v \<Rightarrow> Some (attempt (next_id s) (\<lambda>i s.
         (Inr (ChannelArrived i (en_label env v)),
          s\<lparr>se_channels := AList.update i \<lparr>res_peer = p, res_value = v\<rparr> (se_channels s)\<rparr>)))
     | Track v \<Rightarrow> (case insert_transceiver env p v s of
         (Inl e, s) \<Rightarrow> Some (Inl e, s)
       | (Inr i, s) \<Rightarrow> map_option (\<lambda>r. (Inr (TrackArrived i (tr_receiver (res_value r))), s))
           (map_of (se_transceivers s) i))
     | TrackRemoved v _ \<Rightarrow> Some (attempt (insert_receiver p v s) (\<lambda>i s. (Inr (ReceiverRemoved i), s)))
     | StreamAdded v \<Rightarrow> Some (attempt (insert_media_stream p v s) (\<lambda>i s. (Inr (StreamArrived i), s)))
     | StreamRemoved v \<Rightarrow> Some (attempt (insert_media_stream p v s) (\<lambda>i s. (Inr (StreamGone i), s)))
     | TrackAdded v _ streams \<Rightarrow> Some (attempt (insert_receiver p v s) (\<lambda>receiver s.
         attempt (collect_ids (insert_media_stream p) streams s) (\<lambda>ids s.
         (Inr (TrackWithStreams receiver ids), s))))
     | _ \<Rightarrow> Some (Inr (Passed e), s))"

definition try_peer_event ::
  "environment \<Rightarrow> u64 \<Rightarrow> session \<Rightarrow> session_event option outcome option" where
  "try_peer_event env p s = (case map_of (se_peers s) p of
       None \<Rightarrow> Some (Inl missing, s)
     | Some v \<Rightarrow> (case try_next_event (lend (se_readiness s) (sp_value v)) of
         None \<Rightarrow> None
       | Some (None, pn) \<Rightarrow> Some (Inr None, put_peer p (v\<lparr>sp_value := pn\<rparr>) s)
       | Some (Some e, pn) \<Rightarrow>
           map_option (\<lambda>r. attempt r (\<lambda>e s. (Inr (Some e), s)))
             (session_event env p e (put_peer p \<lparr>sp_value = pn, sp_outstanding =
               (case settles e of None \<Rightarrow> sp_outstanding v
                | Some i \<Rightarrow> remove1 i (sp_outstanding v))\<rparr> s))))"

subsection \<open>Sinks\<close>

definition receiver_without_sink :: "u64 \<Rightarrow> session \<Rightarrow> (peer_error, nat) result" where
  "receiver_without_sink i s = and_then (check_open s) (\<lambda>_.
     if i \<in> set (keys (se_media_sinks s))
     then Inl (session_error InvalidState ''receiver already has a sink'')
     else and_then (ok_or (map_of (se_receivers s) i) missing) (\<lambda>r. Inr (res_value r)))"

text \<open>The five ways to attach; \<open>native\<close> is what the receiver (or its track) answers.  A raw sink whose
  encoded companion is refused is dropped, which closes it.\<close>

definition attach_one :: "(nat \<Rightarrow> media_sink) \<Rightarrow> (nat \<Rightarrow> (peer_error, nat) result) \<Rightarrow> u64 \<Rightarrow> session
    \<Rightarrow> unit outcome" where
  "attach_one sink native i s = (case and_then (receiver_without_sink i s) native of
       Inl e \<Rightarrow> (Inl e, s)
     | Inr h \<Rightarrow> (Inr (), s\<lparr>se_media_sinks := AList.update i (sink h) (se_media_sinks s)\<rparr>))"

definition attach_pcm :: "(nat \<Rightarrow> (peer_error, nat) result) \<Rightarrow> u64 \<Rightarrow> session \<Rightarrow> unit outcome" where
  "attach_pcm = attach_one SinkPcm"

definition attach_raw_video :: "(nat \<Rightarrow> (peer_error, nat) result) \<Rightarrow> u64 \<Rightarrow> session \<Rightarrow> unit outcome" where
  "attach_raw_video = attach_one SinkRawVideo"

definition attach_encoded_audio :: "(nat \<Rightarrow> (peer_error, nat) result) \<Rightarrow> u64 \<Rightarrow> session \<Rightarrow> unit outcome"
where
  "attach_encoded_audio = attach_one SinkEncodedAudio"

definition attach_encoded_video :: "(nat \<Rightarrow> (peer_error, nat) result) \<Rightarrow> u64 \<Rightarrow> session \<Rightarrow> unit outcome"
where
  "attach_encoded_video = attach_one SinkEncodedVideo"

definition attach_raw_and_encoded_video :: "(nat \<Rightarrow> (peer_error, nat) result)
    \<Rightarrow> (nat \<Rightarrow> (peer_error, nat) result) \<Rightarrow> u64 \<Rightarrow> session \<Rightarrow> unit outcome" where
  "attach_raw_and_encoded_video raw encoded i s = (case receiver_without_sink i s of
       Inl e \<Rightarrow> (Inl e, s)
     | Inr r \<Rightarrow> (case raw r of
           Inl e \<Rightarrow> (Inl e, s)
         | Inr h \<Rightarrow> (case encoded r of
               Inl e \<Rightarrow> (Inl e, s\<lparr>se_released := h # se_released s\<rparr>)
             | Inr h' \<Rightarrow> (Inr (), s\<lparr>se_media_sinks :=
                 AList.update i (SinkRawAndEncodedVideo h h') (se_media_sinks s)\<rparr>))))"

definition release_native :: "nat \<Rightarrow> session \<Rightarrow> unit outcome" where
  "release_native h s = (Inr (), s\<lparr>se_released := h # se_released s\<rparr>)"

definition close_native :: "environment \<Rightarrow> nat \<Rightarrow> session \<Rightarrow> unit outcome" where
  "close_native env h s = (case en_close env h of
       Inl e \<Rightarrow> (Inl e, s)
     | Inr _ \<Rightarrow> release_native h s)"

fun sink_close :: "environment \<Rightarrow> media_sink \<Rightarrow> session \<Rightarrow> unit outcome" where
  "sink_close env (SinkPcm h) s = close_native env h s"
| "sink_close env (SinkRawVideo h) s = close_native env h s"
| "sink_close env (SinkEncodedAudio h) s = close_native env h s"
| "sink_close env (SinkEncodedVideo h) s = release_native h s"
| "sink_close env (SinkRawAndEncodedVideo raw encoded) s =
     attempt (close_native env raw s) (\<lambda>_ s. release_native encoded s)"

definition close_media_sink :: "environment \<Rightarrow> u64 \<Rightarrow> session \<Rightarrow> unit outcome" where
  "close_media_sink env i s =
     (case and_then (check_open s) (\<lambda>_. ok_or (map_of (se_receivers s) i) missing) of
        Inl e \<Rightarrow> (Inl e, s)
      | Inr _ \<Rightarrow> attempt (case map_of (se_media_sinks s) i of
            None \<Rightarrow> (Inr (), s)
          | Some sink \<Rightarrow> sink_close env sink s)
        (\<lambda>_ s. (Inr (), s\<lparr>se_media_sinks := AList.delete i (se_media_sinks s)\<rparr>)))"

subsection \<open>Closing\<close>

fun for_each :: "('x \<Rightarrow> session \<Rightarrow> unit outcome) \<Rightarrow> 'x list \<Rightarrow> session \<Rightarrow> unit outcome" where
  "for_each f [] s = (Inr (), s)"
| "for_each f (x # xs) s = attempt (f x s) (\<lambda>_ s. for_each f xs s)"

definition close_channel :: "environment \<Rightarrow> u64 \<Rightarrow> session \<Rightarrow> unit outcome" where
  "close_channel env i s =
     (case and_then (ok_or (map_of (se_channels s) i) missing) (\<lambda>r.
        and_then (check_control_call env) (\<lambda>_. Inr (res_value r))) of
        Inl e \<Rightarrow> (Inl e, s)
      | Inr h \<Rightarrow> close_native env h s)"

definition close_session_source :: "environment \<Rightarrow> u64 \<Rightarrow> session \<Rightarrow> unit outcome" where
  "close_session_source env i s = (case map_of (se_sources s) i of
       None \<Rightarrow> (Inr (), s)
     | Some h \<Rightarrow> (case check_control_call env of
           Inl e \<Rightarrow> (Inl e, s)
         | Inr _ \<Rightarrow> attempt (close_native env h s) (\<lambda>_ s.
             (Inr (), s\<lparr>se_sources := AList.delete i (se_sources s)\<rparr>))))"

definition peer_values :: "u64 \<Rightarrow> (u64 \<times> 'a resource) list \<Rightarrow> (u64 \<times> 'a) list" where
  "peer_values p m = map (\<lambda>(i, r). (i, res_value r)) (filter (\<lambda>(_, r). res_peer r = p) m)"

text \<open>The observers that are unregistered before the peer closes are not part of the state.\<close>

definition close_session_peer :: "environment \<Rightarrow> u64 \<Rightarrow> session \<Rightarrow> unit outcome" where
  "close_session_peer env p s =
     (case and_then (ok_or (map_of (se_peers s) p) missing) (\<lambda>v.
        and_then (check_control_call env) (\<lambda>_. Inr v)) of
        Inl e \<Rightarrow> (Inl e, s)
      | Inr v \<Rightarrow>
          let (r, pn) = close_peer (en_sdk env) (en_callback_active env) (en_control_allowed env)
                (en_control_allowed env) (lend (se_readiness s) (sp_value v))
          in attempt (r, put_peer p (v\<lparr>sp_value := pn\<rparr>) s) (\<lambda>_ s.
             attempt (for_each (close_native env) (map snd (peer_values p (se_channels s))) s) (\<lambda>_ s.
             for_each (\<lambda>i s. case map_of (se_media_sinks s) i of
                   None \<Rightarrow> (Inr (), s)
                 | Some sink \<Rightarrow> sink_close env sink s)
               (map fst (peer_values p (se_receivers s))) s)))"

text \<open>Of the maps that \<open>shutdown\<close> clears only the sources are part of the state; encoders, decoders,
  other sinks and observers that it closes are not.\<close>

definition shutdown :: "environment \<Rightarrow> session \<Rightarrow> unit outcome" where
  "shutdown env s =
     (if se_closed s then (Inr (), s)
      else case check_control_call env of
        Inl e \<Rightarrow> (Inl e, s)
      | Inr _ \<Rightarrow>
          attempt (for_each (close_session_peer env) (keys (se_peers s)) s) (\<lambda>_ s.
          attempt (for_each (close_native env) (map snd (se_sources s)) s) (\<lambda>_ s.
          (Inr (), s\<lparr>se_sources := [], se_closed := True,
             se_readiness := snd (notify (se_readiness s))\<rparr>))))"

end
