(* ===== verification/SessionGraph.thy ===== *)
theory SessionGraph
  imports Session "HOL-Library.Multiset" "HOL-Library.Sublist"
begin

text \<open>
  The session's graph: every identifier is handed out once and keeps its meaning, a native object
  has one identifier, the parts of a transceiver and the owner of every object are known, and sinks
  are of known receivers.  \<open>names\<close> is what the calls do that give identifiers, \<open>prunes\<close> what those do
  that release, attach and close; both preserve \<open>graph_inv\<close>.
\<close>

subsection \<open>Identifiers\<close>

lemma update_unbound: "map_of m i = None \<Longrightarrow> AList.update i v m = m @ [(i, v)]"
  by (induction m) (auto split: if_splits)

lemma find_resource_Some:
  "find_resource same m = Some i \<Longrightarrow> \<exists>r. (i, r) \<in> set m \<and> same r"
  by (induction m) (auto simp: find_resource_def split: if_splits prod.splits)

lemma find_resource_None:
  "find_resource same m = None \<Longrightarrow> (i, r) \<in> set m \<Longrightarrow> \<not> same r"
  by (auto simp: find_resource_def find_None_iff)

lemma next_id_Inr:
  assumes "next_id s = (Inr i, s')"
  shows "i = se_next s" "s' = s\<lparr>se_next := i + 1\<rparr>" "i < i + 1"
  using assms u64_checked_succ_unat [of "se_next s"]
  by (auto simp: next_id_def u64_checked_succ_def word_less_nat_alt split: option.splits if_splits)

lemma next_id_Inl: "next_id s = (Inl e, s') \<Longrightarrow> s' = s"
  by (auto simp: next_id_def split: option.splits)

text \<open>All identifiers of objects; sinks are named by their receivers.\<close>

definition session_ids :: "session \<Rightarrow> u64 list" where
  "session_ids s = map fst (se_peers s) @ map fst (se_channels s) @ map fst (se_senders s)
     @ map fst (se_receivers s) @ map fst (se_transceivers s) @ map fst (se_media_tracks s)
     @ map fst (se_media_streams s) @ map fst (se_sources s)"

definition ids_inv :: "session \<Rightarrow> bool" where
  "ids_inv s \<longleftrightarrow> distinct (session_ids s) \<and> (\<forall>i \<in> set (session_ids s). i < se_next s)"

lemma ids_inv_distinct:
  assumes "ids_inv s"
  shows "distinct (map fst (se_peers s))" "distinct (map fst (se_channels s))"
    "distinct (map fst (se_senders s))" "distinct (map fst (se_receivers s))"
    "distinct (map fst (se_transceivers s))" "distinct (map fst (se_media_tracks s))"
    "distinct (map fst (se_media_streams s))" "distinct (map fst (se_sources s))"
  using assms by (simp_all add: ids_inv_def session_ids_def)

lemma ids_inv_fresh:
  assumes "ids_inv s"
  shows "map_of (se_peers s) (se_next s) = None" "map_of (se_channels s) (se_next s) = None"
    "map_of (se_senders s) (se_next s) = None" "map_of (se_receivers s) (se_next s) = None"
    "map_of (se_transceivers s) (se_next s) = None" "map_of (se_media_tracks s) (se_next s) = None"
    "map_of (se_media_streams s) (se_next s) = None" "map_of (se_sources s) (se_next s) = None"
proof -
  have "se_next s \<notin> set (session_ids s)" using assms by (auto simp: ids_inv_def)
  then show "map_of (se_peers s) (se_next s) = None" "map_of (se_channels s) (se_next s) = None"
    "map_of (se_senders s) (se_next s) = None" "map_of (se_receivers s) (se_next s) = None"
    "map_of (se_transceivers s) (se_next s) = None" "map_of (se_media_tracks s) (se_next s) = None"
    "map_of (se_media_streams s) (se_next s) = None" "map_of (se_sources s) (se_next s) = None"
    by (simp_all add: session_ids_def map_of_eq_None_iff)
qed

lemma ids_inv_insert:
  assumes "ids_inv s" "mset (session_ids s') = add_mset (se_next s) (mset (session_ids s))"
    "se_next s' = se_next s + 1" "se_next s < se_next s + 1"
  shows "ids_inv s'"
proof -
  have "mset (session_ids s') = mset (se_next s # session_ids s)" using assms(2) by simp
  then have "set (session_ids s') = insert (se_next s) (set (session_ids s))"
    "distinct (session_ids s') = distinct (se_next s # session_ids s)"
    using mset_eq_setD [of "session_ids s'"] mset_eq_imp_distinct_iff [of "session_ids s'"]
    by (metis list.simps(15))+
  with assms(1,3,4) show ?thesis unfolding ids_inv_def by (auto intro: less_trans)
qed

subsection \<open>The graph\<close>

definition owners :: "session \<Rightarrow> u64 list" where
  "owners s = map (res_peer \<circ> snd) (se_channels s) @ map (res_peer \<circ> snd) (se_senders s)
     @ map (res_peer \<circ> snd) (se_receivers s) @ map (res_peer \<circ> snd) (se_transceivers s)
     @ map (res_peer \<circ> snd) (se_media_tracks s) @ map (res_peer \<circ> snd) (se_media_streams s)"

definition sinks_ok :: "(u64 \<times> nat resource) list \<Rightarrow> (u64 \<times> media_sink) list \<Rightarrow> bool" where
  "sinks_ok receivers sinks \<longleftrightarrow>
     distinct (map fst sinks) \<and> set (map fst sinks) \<subseteq> set (map fst receivers)"

text \<open>One identifier for one native object.\<close>

definition one_name :: "session \<Rightarrow> bool" where
  "one_name s \<longleftrightarrow> distinct (map snd (se_senders s)) \<and> distinct (map snd (se_receivers s))
     \<and> distinct (map (\<lambda>(_, r). (res_peer r, tr_value (res_value r))) (se_transceivers s))
     \<and> distinct (map (res_value \<circ> snd) (se_media_tracks s))
     \<and> distinct (map (res_value \<circ> snd) (se_media_streams s))"

definition linked :: "session \<Rightarrow> transceiver_resource resource \<Rightarrow> bool" where
  "linked s r \<longleftrightarrow> map_option res_peer (map_of (se_senders s) (tr_sender (res_value r))) = Some (res_peer r)
     \<and> map_option res_peer (map_of (se_receivers s) (tr_receiver (res_value r))) = Some (res_peer r)"

definition graph_inv :: "session \<Rightarrow> bool" where
  "graph_inv s \<longleftrightarrow> ids_inv s \<and> set (owners s) \<subseteq> set (map fst (se_peers s)) \<and> one_name s
     \<and> (\<forall>(i, r) \<in> set (se_transceivers s). linked s r)
     \<and> sinks_ok (se_receivers s) (se_media_sinks s)"

text \<open>What the calls that only name objects do: no identifier given so far changes its meaning, and
  they touch nothing else.\<close>

definition extends :: "session \<Rightarrow> session \<Rightarrow> bool" where
  "extends s s' \<longleftrightarrow> se_next s \<le> se_next s' \<and> (\<forall>i < se_next s.
     map_of (se_channels s') i = map_of (se_channels s) i
     \<and> map_of (se_senders s') i = map_of (se_senders s) i
     \<and> map_of (se_receivers s') i = map_of (se_receivers s) i
     \<and> map_of (se_transceivers s') i = map_of (se_transceivers s) i
     \<and> map_of (se_media_tracks s') i = map_of (se_media_tracks s) i
     \<and> map_of (se_media_streams s') i = map_of (se_media_streams s) i)"

definition same_rest :: "session \<Rightarrow> session \<Rightarrow> bool" where
  "same_rest s s' \<longleftrightarrow> se_peers s' = se_peers s \<and> se_media_sinks s' = se_media_sinks s
     \<and> se_sources s' = se_sources s \<and> se_released s' = se_released s
     \<and> se_readiness s' = se_readiness s \<and> se_closed s' = se_closed s"

definition names :: "session \<Rightarrow> session \<Rightarrow> bool" where
  "names s s' \<longleftrightarrow> extends s s' \<and> same_rest s s' \<and> graph_inv s'"

lemma extends_refl [simp]: "extends s s"
  by (simp add: extends_def)

lemma extends_trans: "extends s t \<Longrightarrow> extends t u \<Longrightarrow> extends s u"
  by (auto simp: extends_def intro: order_trans dest: order_less_le_trans)

lemma names_refl [simp]: "names s s \<longleftrightarrow> graph_inv s"
  by (simp add: names_def same_rest_def)

lemma names_trans: "names s t \<Longrightarrow> names t u \<Longrightarrow> names s u"
  using extends_trans by (auto simp: names_def same_rest_def)

lemma graph_inv_parts:
  assumes "graph_inv s"
  shows "ids_inv s" "set (owners s) \<subseteq> set (map fst (se_peers s))" "one_name s"
    "(i, r) \<in> set (se_transceivers s) \<Longrightarrow> linked s r" "sinks_ok (se_receivers s) (se_media_sinks s)"
  using assms by (auto simp: graph_inv_def)

lemma known_below:
  assumes "graph_inv s"
  shows "map_of (se_senders s) i = Some x \<Longrightarrow> i < se_next s"
    "map_of (se_receivers s) i = Some y \<Longrightarrow> i < se_next s"
proof -
  have below: "\<And>j. j \<in> set (session_ids s) \<Longrightarrow> j < se_next s"
    using graph_inv_parts(1) [OF assms] by (simp add: ids_inv_def)
  show "map_of (se_senders s) i = Some x \<Longrightarrow> i < se_next s"
    using below [of i] by (simp add: session_ids_def map_of_eq_None_iff domI flip: dom_map_of_conv_image_fst)
  show "map_of (se_receivers s) i = Some y \<Longrightarrow> i < se_next s"
    using below [of i] by (simp add: session_ids_def domI flip: dom_map_of_conv_image_fst)
qed

lemma linked_grown:
  assumes "graph_inv s" "extends s s'" "(i, r) \<in> set (se_transceivers s)"
  shows "linked s' r"
proof -
  from graph_inv_parts(4) [OF assms(1,3)] obtain x y where
    "map_of (se_senders s) (tr_sender (res_value r)) = Some x" "res_peer x = res_peer r"
    "map_of (se_receivers s) (tr_receiver (res_value r)) = Some y" "res_peer y = res_peer r"
    by (auto simp: linked_def)
  with known_below [OF assms(1)] assms(2) show ?thesis by (simp add: linked_def extends_def)
qed

lemma map_of_below: "i < (n :: u64) \<Longrightarrow> ([n \<mapsto> v] ++ m) i = m i"
  by (auto simp: map_add_def split: option.split)

text \<open>Adding one object under the next identifier.\<close>

lemma namesI:
  assumes "graph_inv s" "se_next s < se_next s + 1" "se_next s' = se_next s + 1" "same_rest s s'"
    "extends s s'" "mset (session_ids s') = add_mset (se_next s) (mset (session_ids s))"
    "set (owners s') \<subseteq> insert p (set (owners s))" "p \<in> set (map fst (se_peers s))" "one_name s'"
    "\<And>i r. (i, r) \<in> set (se_transceivers s') \<Longrightarrow> (i, r) \<in> set (se_transceivers s) \<or> linked s' r"
    "set (map fst (se_receivers s)) \<subseteq> set (map fst (se_receivers s'))"
  shows "names s s'"
proof -
  note g = graph_inv_parts [OF assms(1)]
  have "ids_inv s'" using ids_inv_insert g(1) assms(2,3,6) by blast
  moreover have "set (owners s') \<subseteq> set (map fst (se_peers s'))"
    using assms(4,7,8) g(2) by (auto simp: same_rest_def)
  moreover have "\<forall>(i, r) \<in> set (se_transceivers s'). linked s' r"
    using assms(10) linked_grown [OF assms(1,5)] by blast
  moreover have "sinks_ok (se_receivers s') (se_media_sinks s')"
    using subset_trans [OF _ assms(11)] g(5) assms(4)
    by (simp add: same_rest_def sinks_ok_def del: set_map)
  ultimately show ?thesis using assms(4,5,9) by (simp add: names_def graph_inv_def)
qed

lemmas adding = same_rest_def extends_def session_ids_def owners_def update_unbound map_of_below
  less_imp_le

lemma add_sender:
  assumes "graph_inv s" "p \<in> set (map fst (se_peers s))" "se_next s < se_next s + 1"
    "\<And>i r. (i, r) \<in> set (se_senders s) \<Longrightarrow> \<not> (res_peer r = p \<and> res_value r = v)"
  shows "names s (s\<lparr>se_next := se_next s + 1,
     se_senders := AList.update (se_next s) \<lparr>res_peer = p, res_value = v\<rparr> (se_senders s)\<rparr>)"
proof -
  note g = graph_inv_parts [OF assms(1)]
  note f = ids_inv_fresh [OF g(1)]
  have "\<lparr>res_peer = p, res_value = v\<rparr> \<notin> set (map snd (se_senders s))" using assms(4) by fastforce
  then have "one_name (s\<lparr>se_next := se_next s + 1,
     se_senders := AList.update (se_next s) \<lparr>res_peer = p, res_value = v\<rparr> (se_senders s)\<rparr>)"
    using g(3) f by (simp add: one_name_def update_unbound)
  then show ?thesis using assms f by (intro namesI [where p = p]) (auto simp: adding)
qed

lemma add_receiver:
  assumes "graph_inv s" "p \<in> set (map fst (se_peers s))" "se_next s < se_next s + 1"
    "\<And>i r. (i, r) \<in> set (se_receivers s) \<Longrightarrow> \<not> (res_peer r = p \<and> res_value r = v)"
  shows "names s (s\<lparr>se_next := se_next s + 1,
     se_receivers := AList.update (se_next s) \<lparr>res_peer = p, res_value = v\<rparr> (se_receivers s)\<rparr>)"
proof -
  note g = graph_inv_parts [OF assms(1)]
  note f = ids_inv_fresh [OF g(1)]
  have "\<lparr>res_peer = p, res_value = v\<rparr> \<notin> set (map snd (se_receivers s))" using assms(4) by fastforce
  then have "one_name (s\<lparr>se_next := se_next s + 1,
     se_receivers := AList.update (se_next s) \<lparr>res_peer = p, res_value = v\<rparr> (se_receivers s)\<rparr>)"
    using g(3) f by (simp add: one_name_def update_unbound)
  then show ?thesis using assms f by (intro namesI [where p = p]) (auto simp: adding)
qed

lemma add_media_track:
  assumes "graph_inv s" "p \<in> set (map fst (se_peers s))" "se_next s < se_next s + 1"
    "\<And>i r. (i, r) \<in> set (se_media_tracks s) \<Longrightarrow> \<not> res_value r = v"
  shows "names s (s\<lparr>se_next := se_next s + 1,
     se_media_tracks := AList.update (se_next s) \<lparr>res_peer = p, res_value = v\<rparr> (se_media_tracks s)\<rparr>)"
proof -
  note g = graph_inv_parts [OF assms(1)]
  note f = ids_inv_fresh [OF g(1)]
  have "v \<notin> set (map (res_value \<circ> snd) (se_media_tracks s))" using assms(4) by fastforce
  then have "one_name (s\<lparr>se_next := se_next s + 1,
     se_media_tracks := AList.update (se_next s) \<lparr>res_peer = p, res_value = v\<rparr> (se_media_tracks s)\<rparr>)"
    using g(3) f by (simp add: one_name_def update_unbound)
  then show ?thesis using assms f by (intro namesI [where p = p]) (auto simp: adding)
qed

lemma add_media_stream:
  assumes "graph_inv s" "p \<in> set (map fst (se_peers s))" "se_next s < se_next s + 1"
    "\<And>i r. (i, r) \<in> set (se_media_streams s) \<Longrightarrow> \<not> res_value r = v"
  shows "names s (s\<lparr>se_next := se_next s + 1,
     se_media_streams := AList.update (se_next s) \<lparr>res_peer = p, res_value = v\<rparr> (se_media_streams s)\<rparr>)"
proof -
  note g = graph_inv_parts [OF assms(1)]
  note f = ids_inv_fresh [OF g(1)]
  have "v \<notin> set (map (res_value \<circ> snd) (se_media_streams s))" using assms(4) by fastforce
  then have "one_name (s\<lparr>se_next := se_next s + 1,
     se_media_streams := AList.update (se_next s) \<lparr>res_peer = p, res_value = v\<rparr> (se_media_streams s)\<rparr>)"
    using g(3) f by (simp add: one_name_def update_unbound)
  then show ?thesis using assms f by (intro namesI [where p = p]) (auto simp: adding)
qed

lemma add_channel:
  assumes "graph_inv s" "p \<in> set (map fst (se_peers s))" "se_next s < se_next s + 1"
  shows "names s (s\<lparr>se_next := se_next s + 1,
     se_channels := AList.update (se_next s) \<lparr>res_peer = p, res_value = v\<rparr> (se_channels s)\<rparr>)"
proof -
  note g = graph_inv_parts [OF assms(1)]
  have "one_name (s\<lparr>se_next := se_next s + 1,
     se_channels := AList.update (se_next s) \<lparr>res_peer = p, res_value = v\<rparr> (se_channels s)\<rparr>)"
    using g(3) by (simp add: one_name_def)
  then show ?thesis using assms ids_inv_fresh [OF g(1)]
    by (intro namesI [where p = p]) (auto simp: adding)
qed

lemma add_transceiver:
  assumes "graph_inv s" "p \<in> set (map fst (se_peers s))" "se_next s < se_next s + 1"
    "\<And>i r. (i, r) \<in> set (se_transceivers s) \<Longrightarrow> \<not> (res_peer r = p \<and> tr_value (res_value r) = v)"
    "map_of (se_senders s) sender = Some \<lparr>res_peer = p, res_value = w\<rparr>"
    "map_of (se_receivers s) receiver = Some \<lparr>res_peer = p, res_value = u\<rparr>"
  shows "names s (s\<lparr>se_next := se_next s + 1,
     se_transceivers := AList.update (se_next s) \<lparr>res_peer = p, res_value =
       \<lparr>tr_value = v, tr_sender = sender, tr_receiver = receiver\<rparr>\<rparr> (se_transceivers s)\<rparr>)"
proof -
  note g = graph_inv_parts [OF assms(1)]
  note f = ids_inv_fresh [OF g(1)]
  let ?s = "s\<lparr>se_next := se_next s + 1,
     se_transceivers := AList.update (se_next s) \<lparr>res_peer = p, res_value =
       \<lparr>tr_value = v, tr_sender = sender, tr_receiver = receiver\<rparr>\<rparr> (se_transceivers s)\<rparr>"
  have "(p, v) \<notin> set (map (\<lambda>(_, r). (res_peer r, tr_value (res_value r))) (se_transceivers s))"
    using assms(4) by fastforce
  then have "one_name ?s" using g(3) f by (simp add: one_name_def update_unbound)
  moreover have "linked ?s \<lparr>res_peer = p, res_value =
       \<lparr>tr_value = v, tr_sender = sender, tr_receiver = receiver\<rparr>\<rparr>"
    using assms(5,6) by (simp add: linked_def)
  ultimately show ?thesis using assms(1-3) f by (intro namesI [where p = p]) (auto simp: adding)
qed

subsection \<open>The naming calls\<close>

lemma next_id_names:
  assumes "graph_inv s" "next_id s = (Inr i, s')"
  shows "names s s'"
proof -
  note n = next_id_Inr [OF assms(2)]
  have "session_ids s' = session_ids s" "owners s' = owners s" "one_name s' = one_name s"
    "linked s' = linked s" "se_next s \<le> se_next s'"
    using n by (auto simp: session_ids_def owners_def one_name_def linked_def fun_eq_iff)
  moreover have "\<forall>i \<in> set (session_ids s). i < se_next s'"
    using assms(1) n(1,2,3) by (auto simp: graph_inv_def ids_inv_def intro: less_trans)
  ultimately show ?thesis using assms(1) n(2)
    by (simp add: names_def extends_def same_rest_def graph_inv_def ids_inv_def)
qed

text \<open>Naming an object unless it already has a name.\<close>

definition name_object :: "u64 option \<Rightarrow> (u64 \<Rightarrow> session \<Rightarrow> session) \<Rightarrow> session \<Rightarrow> u64 outcome" where
  "name_object known add s = (case known of Some i \<Rightarrow> (Inr i, s)
     | None \<Rightarrow> attempt (next_id s) (\<lambda>i s. (Inr i, add i s)))"

lemma name_object_names:
  assumes "graph_inv s" "name_object known add s = (r, s')"
    "\<And>i. known = Some i \<Longrightarrow> P i s"
    "\<And>t. known = None \<Longrightarrow> t = add (se_next s) (s\<lparr>se_next := se_next s + 1\<rparr>) \<Longrightarrow>
       se_next s < se_next s + 1 \<Longrightarrow> names s t \<and> P (se_next s) t"
  shows "names s s' \<and> (\<forall>i. r = Inr i \<longrightarrow> P i s')"
proof (cases "next_id s")
  case (Pair q t)
  show ?thesis
  proof (cases q)
    case (Inl e)
    then have "t = s" using next_id_Inl Pair by blast
    with Inl Pair assms(1-3) show ?thesis by (auto simp: name_object_def split: option.splits)
  next
    case (Inr i)
    with Pair have n: "next_id s = (Inr i, t)" by simp
    note i = next_id_Inr [OF n]
    show ?thesis
    proof (cases known)
      case None
      from assms(2) None n i(2) have "r = Inr i" "s' = add i (s\<lparr>se_next := i + 1\<rparr>)"
        by (simp_all add: name_object_def)
      with assms(4) [OF None, of s'] i(1,3) show ?thesis by simp
    next
      case (Some j)
      with assms(1-3) show ?thesis by (auto simp: name_object_def)
    qed
  qed
qed

lemma known_resource:
  assumes "find_resource same m = Some i" "distinct (map fst m)"
  shows "\<exists>x. map_of m i = Some x \<and> same x"
  using find_resource_Some [OF assms(1)] assms(2) by (auto simp: map_of_eq_Some_iff)

lemma insert_sender_names:
  assumes "graph_inv s" "p \<in> set (map fst (se_peers s))" "insert_sender p v s = (r, s')"
  shows "names s s' \<and> (\<forall>i. r = Inr i \<longrightarrow> map_of (se_senders s') i = Some \<lparr>res_peer = p, res_value = v\<rparr>)"
proof (rule name_object_names [OF assms(1)])
  let ?same = "\<lambda>r. res_peer r = p \<and> res_value r = v"
  show "name_object (find_resource ?same (se_senders s)) (\<lambda>i s. s\<lparr>se_senders :=
      AList.update i \<lparr>res_peer = p, res_value = v\<rparr> (se_senders s)\<rparr>) s = (r, s')"
    using assms(3) by (simp add: insert_sender_def name_object_def)
  show "map_of (se_senders s) i = Some \<lparr>res_peer = p, res_value = v\<rparr>" if "find_resource ?same (se_senders s) = Some i" for i
    using known_resource [OF that] ids_inv_distinct [OF graph_inv_parts(1) [OF assms(1)]] by fastforce
  show "names s t \<and> map_of (se_senders t) (se_next s) = Some \<lparr>res_peer = p, res_value = v\<rparr>" if "find_resource ?same (se_senders s) = None"
    "t = s\<lparr>se_next := se_next s + 1\<rparr>\<lparr>se_senders := AList.update (se_next s)
       \<lparr>res_peer = p, res_value = v\<rparr> (se_senders (s\<lparr>se_next := se_next s + 1\<rparr>))\<rparr>"
    "se_next s < se_next s + 1" for t
    using add_sender [OF assms(1,2) that(3) find_resource_None [OF that(1)]] that(2)
    by (simp add: update_conv)
qed

lemma insert_receiver_names:
  assumes "graph_inv s" "p \<in> set (map fst (se_peers s))" "insert_receiver p v s = (r, s')"
  shows "names s s' \<and> (\<forall>i. r = Inr i \<longrightarrow> map_of (se_receivers s') i = Some \<lparr>res_peer = p, res_value = v\<rparr>)"
proof (rule name_object_names [OF assms(1)])
  let ?same = "\<lambda>r. res_peer r = p \<and> res_value r = v"
  show "name_object (find_resource ?same (se_receivers s)) (\<lambda>i s. s\<lparr>se_receivers :=
      AList.update i \<lparr>res_peer = p, res_value = v\<rparr> (se_receivers s)\<rparr>) s = (r, s')"
    using assms(3) by (simp add: insert_receiver_def name_object_def)
  show "map_of (se_receivers s) i = Some \<lparr>res_peer = p, res_value = v\<rparr>" if "find_resource ?same (se_receivers s) = Some i" for i
    using known_resource [OF that] ids_inv_distinct [OF graph_inv_parts(1) [OF assms(1)]] by fastforce
  show "names s t \<and> map_of (se_receivers t) (se_next s) = Some \<lparr>res_peer = p, res_value = v\<rparr>" if "find_resource ?same (se_receivers s) = None"
    "t = s\<lparr>se_next := se_next s + 1\<rparr>\<lparr>se_receivers := AList.update (se_next s)
       \<lparr>res_peer = p, res_value = v\<rparr> (se_receivers (s\<lparr>se_next := se_next s + 1\<rparr>))\<rparr>"
    "se_next s < se_next s + 1" for t
    using add_receiver [OF assms(1,2) that(3) find_resource_None [OF that(1)]] that(2)
    by (simp add: update_conv)
qed

lemma insert_media_track_names:
  assumes "graph_inv s" "p \<in> set (map fst (se_peers s))" "insert_media_track p v s = (r, s')"
  shows "names s s' \<and> (\<forall>i. r = Inr i \<longrightarrow> map_option res_value (map_of (se_media_tracks s') i) = Some v)"
proof (rule name_object_names [OF assms(1)])
  let ?same = "\<lambda>r. res_value r = v"
  show "name_object (find_resource ?same (se_media_tracks s)) (\<lambda>i s. s\<lparr>se_media_tracks :=
      AList.update i \<lparr>res_peer = p, res_value = v\<rparr> (se_media_tracks s)\<rparr>) s = (r, s')"
    using assms(3) by (simp add: insert_media_track_def name_object_def)
  show "map_option res_value (map_of (se_media_tracks s) i) = Some v" if "find_resource ?same (se_media_tracks s) = Some i" for i
    using known_resource [OF that] ids_inv_distinct [OF graph_inv_parts(1) [OF assms(1)]] by fastforce
  show "names s t \<and> map_option res_value (map_of (se_media_tracks t) (se_next s)) = Some v" if "find_resource ?same (se_media_tracks s) = None"
    "t = s\<lparr>se_next := se_next s + 1\<rparr>\<lparr>se_media_tracks := AList.update (se_next s)
       \<lparr>res_peer = p, res_value = v\<rparr> (se_media_tracks (s\<lparr>se_next := se_next s + 1\<rparr>))\<rparr>"
    "se_next s < se_next s + 1" for t
    using add_media_track [OF assms(1,2) that(3) find_resource_None [OF that(1)]] that(2)
    by (simp add: update_conv)
qed

lemma insert_media_stream_names:
  assumes "graph_inv s" "p \<in> set (map fst (se_peers s))" "insert_media_stream p v s = (r, s')"
  shows "names s s' \<and> (\<forall>i. r = Inr i \<longrightarrow> map_option res_value (map_of (se_media_streams s') i) = Some v)"
proof (rule name_object_names [OF assms(1)])
  let ?same = "\<lambda>r. res_value r = v"
  show "name_object (find_resource ?same (se_media_streams s)) (\<lambda>i s. s\<lparr>se_media_streams :=
      AList.update i \<lparr>res_peer = p, res_value = v\<rparr> (se_media_streams s)\<rparr>) s = (r, s')"
    using assms(3) by (simp add: insert_media_stream_def name_object_def)
  show "map_option res_value (map_of (se_media_streams s) i) = Some v" if "find_resource ?same (se_media_streams s) = Some i" for i
    using known_resource [OF that] ids_inv_distinct [OF graph_inv_parts(1) [OF assms(1)]] by fastforce
  show "names s t \<and> map_option res_value (map_of (se_media_streams t) (se_next s)) = Some v" if "find_resource ?same (se_media_streams s) = None"
    "t = s\<lparr>se_next := se_next s + 1\<rparr>\<lparr>se_media_streams := AList.update (se_next s)
       \<lparr>res_peer = p, res_value = v\<rparr> (se_media_streams (s\<lparr>se_next := se_next s + 1\<rparr>))\<rparr>"
    "se_next s < se_next s + 1" for t
    using add_media_stream [OF assms(1,2) that(3) find_resource_None [OF that(1)]] that(2)
    by (simp add: update_conv)
qed


lemma attempt_cases:
  assumes "attempt q k = (r, s')"
  obtains e where "q = (Inl e, s')" "r = Inl e" | a t where "q = (Inr a, t)" "k a t = (r, s')"
  using assms by (cases q; cases "fst q") (auto simp: attempt_def)

lemma names_graph: "names s s' \<Longrightarrow> graph_inv s'"
  by (simp add: names_def)

lemma names_peers: "names s s' \<Longrightarrow> se_peers s' = se_peers s"
  by (simp add: names_def same_rest_def)

lemma names_extends: "names s s' \<Longrightarrow> extends s s'"
  by (simp add: names_def)

lemma names_receiver:
  "graph_inv s \<Longrightarrow> names s s' \<Longrightarrow> map_of (se_receivers s) i = Some x \<Longrightarrow>
     map_of (se_receivers s') i = Some x"
  using known_below(2) by (simp add: names_def extends_def)

lemma insert_transceiver_names:
  assumes "graph_inv s" "p \<in> set (map fst (se_peers s))" "insert_transceiver env p v s = (r, s')"
  shows "names s s' \<and> (\<forall>i. r = Inr i \<longrightarrow>
    (\<exists>x. map_of (se_transceivers s') i = Some x \<and> res_peer x = p \<and> tr_value (res_value x) = v))"
proof -
  obtain q s1 where q: "insert_receiver p (snd (en_transceiver env v)) s = (q, s1)" by (metis prod.exhaust)
  note q1 = insert_receiver_names [OF assms(1,2) q]
  then have g1: "graph_inv s1" "p \<in> set (map fst (se_peers s1))"
    using names_graph names_peers assms(2) by auto
  show ?thesis
  proof (cases q)
    case (Inl e)
    with assms(3) q q1 show ?thesis by (auto simp: insert_transceiver_def)
  next
    case (Inr receiver)
    let ?same = "\<lambda>r. res_peer r = p \<and> tr_value (res_value r) = v"
    show ?thesis
    proof (cases "find_resource ?same (se_transceivers s1)")
      case (Some i)
      with known_resource [OF Some] ids_inv_distinct [OF graph_inv_parts(1) [OF g1(1)]]
      show ?thesis using assms(3) q q1 Inr by (auto simp: insert_transceiver_def)
    next
      case None
      obtain w s2 where w: "insert_sender p (fst (en_transceiver env v)) s1 = (w, s2)"
        by (metis prod.exhaust)
      note w1 = insert_sender_names [OF g1 w]
      then have g2: "graph_inv s2" "p \<in> set (map fst (se_peers s2))"
        using names_graph names_peers g1(2) by auto
      have ss2: "names s s2" using q1 w1 names_trans by blast
      have tr: "se_transceivers s2 = se_transceivers s1"
        using w by (auto simp: insert_sender_def next_id_def attempt_def split: option.splits if_splits)
      show ?thesis
      proof (cases w)
        case (Inl e)
        with assms(3) q \<open>q = Inr receiver\<close> None w ss2 show ?thesis
          by (auto simp: insert_transceiver_def)
      next
        case (Inr sender)
        have rr: "map_of (se_receivers s2) receiver
            = Some \<lparr>res_peer = p, res_value = snd (en_transceiver env v)\<rparr>"
          using q1 w1 \<open>q = Inr receiver\<close> names_receiver g1(1) by blast
        have sr: "map_of (se_senders s2) sender
            = Some \<lparr>res_peer = p, res_value = fst (en_transceiver env v)\<rparr>" using w1 Inr by blast
        have "names s2 s' \<and> (\<forall>i. r = Inr i \<longrightarrow>
          (\<exists>x. map_of (se_transceivers s') i = Some x \<and> res_peer x = p \<and> tr_value (res_value x) = v))"
        proof (rule name_object_names [OF g2(1)])
          show "name_object None (\<lambda>i s. s\<lparr>se_transceivers := AList.update i \<lparr>res_peer = p, res_value =
              \<lparr>tr_value = v, tr_sender = sender, tr_receiver = receiver\<rparr>\<rparr> (se_transceivers s)\<rparr>) s2 = (r, s')"
            using assms(3) q \<open>q = Inr receiver\<close> None w Inr
            by (simp add: insert_transceiver_def name_object_def)
        qed (use add_transceiver [OF g2 _ _ sr rr, of v] find_resource_None [OF None] tr
             in \<open>auto simp: update_conv\<close>)
        with ss2 names_trans show ?thesis by blast
      qed
    qed
  qed
qed

lemma collect_ids_names:
  assumes "\<And>v s r s'. graph_inv s \<Longrightarrow> p \<in> set (map fst (se_peers s)) \<Longrightarrow> ins v s = (r, s') \<Longrightarrow> names s s'"
  shows "graph_inv s \<Longrightarrow> p \<in> set (map fst (se_peers s)) \<Longrightarrow> collect_ids ins vs s = (r, s') \<Longrightarrow> names s s'"
proof (induction vs arbitrary: s r)
  case (Cons v vs)
  from Cons.prems(3) have "attempt (ins v s) (\<lambda>i s. attempt (collect_ids ins vs s)
    (\<lambda>ids s. (Inr (i # ids), s))) = (r, s')" by simp
  then show ?case
  proof (cases rule: attempt_cases)
    case (1 e)
    with assms Cons.prems(1,2) show ?thesis by blast
  next
    case (2 i t)
    with assms Cons.prems(1,2) have t: "names s t" by blast
    obtain q u where u: "collect_ids ins vs t = (q, u)" by (metis prod.exhaust)
    have "p \<in> set (map fst (se_peers t))" using names_peers [OF t] Cons.prems(2) by simp
    from Cons.IH [OF names_graph [OF t] this] u 2(2) have "names t u" by (cases q) auto
    moreover have "u = s'" using 2(2) u by (cases q) auto
    ultimately show ?thesis using t names_trans by blast
  qed
qed simp


lemma same_names:
  assumes "attempt q (\<lambda>i s. (f i, s)) = (r, s')" "\<And>q1 t. q = (q1, t) \<Longrightarrow> names s t"
  shows "names s s'"
  using assms by (cases rule: attempt_cases) auto

lemma find_names:
  assumes "graph_inv s" "map_of m i = Some x" "res_peer x \<in> set (map fst (se_peers s))"
  shows "(case native of None \<Rightarrow> (Inr None, s)
     | Some v \<Rightarrow> attempt (insert_media_track (res_peer x) v s) (\<lambda>i s. (Inr (Some i), s))) = (r, s') \<Longrightarrow> names s s'"
proof (cases native)
  case (Some v)
  assume "(case native of None \<Rightarrow> (Inr None, s)
     | Some v \<Rightarrow> attempt (insert_media_track (res_peer x) v s) (\<lambda>i s. (Inr (Some i), s))) = (r, s')"
  with Some have "attempt (insert_media_track (res_peer x) v s) (\<lambda>i s. (Inr (Some i), s)) = (r, s')"
    by simp
  then show ?thesis by (rule same_names) (use insert_media_track_names [OF assms(1,3)] in blast)
qed (use assms(1) in simp)

lemma owner_listed: "map_of m i = Some x \<Longrightarrow> res_peer x \<in> set (map (res_peer \<circ> snd) m)"
  by (auto dest!: map_of_SomeD intro: rev_image_eqI)

lemma owner_exists:
  assumes "graph_inv s"
  shows "map_of (se_channels s) i = Some c \<Longrightarrow> res_peer c \<in> set (map fst (se_peers s))"
    "map_of (se_senders s) i = Some x \<Longrightarrow> res_peer x \<in> set (map fst (se_peers s))"
    "map_of (se_receivers s) i = Some x \<Longrightarrow> res_peer x \<in> set (map fst (se_peers s))"
    "map_of (se_transceivers s) i = Some t \<Longrightarrow> res_peer t \<in> set (map fst (se_peers s))"
    "map_of (se_media_tracks s) i = Some x \<Longrightarrow> res_peer x \<in> set (map fst (se_peers s))"
    "map_of (se_media_streams s) i = Some m \<Longrightarrow> res_peer m \<in> set (map fst (se_peers s))"
  using graph_inv_parts(2) [OF assms] owner_listed [of "se_channels s"] owner_listed [of "se_senders s"]
    owner_listed [of "se_receivers s"] owner_listed [of "se_transceivers s"]
    owner_listed [of "se_media_tracks s"] owner_listed [of "se_media_streams s"]
  by (auto simp only: owners_def set_append Un_subset_iff)

lemma require_peer_exists: "require_peer p s = Inr v \<Longrightarrow> p \<in> set (map fst (se_peers s))"
  by (auto simp: require_peer_def and_then_def ok_or_def check_open_def
      split: sum.splits option.splits if_splits dest!: map_of_SomeD intro: rev_image_eqI)

lemmas naming_calls = session_senders_def session_receivers_def session_transceivers_def
  add_session_transceiver_def peer_streams_def receiver_streams_def stream_tracks_def

lemma naming_calls_names:
  assumes "graph_inv s"
  shows "session_senders vs p s = (r, s') \<Longrightarrow> names s s'"
    "session_receivers vs p s = (r, s') \<Longrightarrow> names s s'"
    "session_transceivers env native p s = (r, s') \<Longrightarrow> names s s'"
    "add_session_transceiver env new p s = (q, s') \<Longrightarrow> names s s'"
    "peer_streams streams p s = (r, s') \<Longrightarrow> names s s'"
    "receiver_streams ws p s = (r, s') \<Longrightarrow> names s s'"
    "stream_tracks vs p s = (r, s') \<Longrightarrow> names s s'"
    "sender_track_reference w p s = (r', s') \<Longrightarrow> names s s'"
    "receiver_track_reference w p s = (r', s') \<Longrightarrow> names s s'"
    "stream_find_track w p s = (r', s') \<Longrightarrow> names s s'"
proof -
  note ins = insert_sender_names insert_receiver_names insert_transceiver_names insert_media_track_names
    insert_media_stream_names
  note own = owner_exists [OF assms]
  show "session_senders vs p s = (r, s') \<Longrightarrow> names s s'"
    unfolding naming_calls using assms collect_ids_names [of p "insert_sender p" s] ins(1) require_peer_exists
    by (fastforce split: sum.splits)
  show "session_receivers vs p s = (r, s') \<Longrightarrow> names s s'"
    unfolding naming_calls using assms collect_ids_names [of p "insert_receiver p" s] ins(2) require_peer_exists
    by (fastforce split: sum.splits)
  show "session_transceivers env native p s = (r, s') \<Longrightarrow> names s s'"
    unfolding naming_calls using assms collect_ids_names [of p "insert_transceiver env p" s] ins(3) require_peer_exists
    by (fastforce simp: and_then_def split: sum.splits)
  show "add_session_transceiver env new p s = (q, s') \<Longrightarrow> names s s'"
    unfolding naming_calls using assms ins(3) require_peer_exists
    by (fastforce simp: and_then_def split: sum.splits)
  show "peer_streams streams p s = (r, s') \<Longrightarrow> names s s'"
    unfolding naming_calls using assms collect_ids_names [of p "insert_media_stream p" s] ins(5) require_peer_exists
    by (fastforce simp: and_then_def split: sum.splits)
  show "receiver_streams ws p s = (r, s') \<Longrightarrow> names s s'"
  proof (cases "map_of (se_receivers s) p")
    case (Some x)
    assume "receiver_streams ws p s = (r, s')"
    with Some have "collect_ids (insert_media_stream (res_peer x)) ws s = (r, s')"
      by (simp add: receiver_streams_def)
    from collect_ids_names [OF _ assms own(3) [OF Some] this] ins(5) show ?thesis by blast
  qed (use assms in \<open>simp add: receiver_streams_def\<close>)
  show "stream_tracks vs p s = (r, s') \<Longrightarrow> names s s'"
  proof (cases "map_of (se_media_streams s) p")
    case (Some x)
    assume "stream_tracks vs p s = (r, s')"
    with Some have "collect_ids (insert_media_track (res_peer x)) vs s = (r, s')"
      by (simp add: stream_tracks_def)
    from collect_ids_names [OF _ assms own(6) [OF Some] this] ins(4) show ?thesis by blast
  qed (use assms in \<open>simp add: stream_tracks_def\<close>)
  show "sender_track_reference w p s = (r', s') \<Longrightarrow> names s s'"
    using assms find_names [where m = "se_senders s" and i = p and native = w, OF assms _ own(2)]
    by (cases "map_of (se_senders s) p") (simp_all add: sender_track_reference_def)
  show "receiver_track_reference w p s = (r', s') \<Longrightarrow> names s s'"
    using assms find_names [where m = "se_receivers s" and i = p and native = w, OF assms _ own(3)]
    by (cases "map_of (se_receivers s) p") (simp_all add: receiver_track_reference_def)
  show "stream_find_track w p s = (r', s') \<Longrightarrow> names s s'"
    using assms find_names [where m = "se_media_streams s" and i = p and native = w, OF assms _ own(6)]
    by (cases "map_of (se_media_streams s) p") (simp_all add: stream_find_track_def)
qed

lemma create_channel_bytes_names:
  assumes "graph_inv s" "create_channel_bytes native p s = (r, s')"
  shows "names s s'"
proof (cases "check_open s")
  case (Inl e)
  with assms show ?thesis by (simp add: create_channel_bytes_def)
next
  case (Inr u)
  with assms(2) have "attempt (next_id s) (\<lambda>i s.
     case and_then (ok_or (map_of (se_peers s) p) missing) (\<lambda>_. native) of
       Inl e \<Rightarrow> (Inl e, s)
     | Inr v \<Rightarrow> (Inr i, s\<lparr>se_channels :=
         AList.update i \<lparr>res_peer = p, res_value = v\<rparr> (se_channels s)\<rparr>)) = (r, s')"
    by (simp add: create_channel_bytes_def)
  then show ?thesis
  proof (cases rule: attempt_cases)
    case (1 e)
    with next_id_Inl [OF 1(1)] assms(1) show ?thesis by simp
  next
    case (2 i t)
    note n = next_id_Inr [OF 2(1)] next_id_names [OF assms(1) 2(1)]
    show ?thesis
    proof (cases "and_then (ok_or (map_of (se_peers t) p) missing) (\<lambda>_. native)")
      case (Inl e)
      with 2(2) n(4) show ?thesis by auto
    next
      case (Inr v)
      then have "p \<in> set (map fst (se_peers s))" using names_peers [OF n(4)]
        by (auto simp: and_then_def ok_or_def split: option.splits dest!: map_of_SomeD intro: rev_image_eqI)
      from add_channel [OF assms(1) this, of v] Inr 2(2) n(1-3) show ?thesis by auto
    qed
  qed
qed

subsection \<open>Events\<close>

lemma session_event_names:
  assumes "graph_inv s" "p \<in> set (map fst (se_peers s))"
  shows "\<exists>r s'. session_event env p e s = Some (r, s') \<and> names s s'
    \<and> (\<forall>i. settles e = Some i \<longrightarrow> r = Inr (Passed e))"
proof (cases e)
  case (DataChannel v)
  obtain q t where q: "next_id s = (q, t)" by (metis prod.exhaust)
  show ?thesis
  proof (cases q)
    case (Inl x)
    with q next_id_Inl [of s x t] DataChannel assms show ?thesis by (simp add: session_event_def)
  next
    case (Inr i)
    with q have n: "next_id s = (Inr i, t)" by simp
    from add_channel [OF assms, of v] next_id_Inr [OF n] n DataChannel show ?thesis
      by (simp add: session_event_def)
  qed
next
  case (Track v)
  obtain q t where q: "insert_transceiver env p v s = (q, t)" by (metis prod.exhaust)
  from insert_transceiver_names [OF assms q] q Track show ?thesis
    by (cases q) (auto simp: session_event_def)
next
  case (TrackRemoved v w)
  obtain q t where q: "insert_receiver p v s = (q, t)" by (metis prod.exhaust)
  from insert_receiver_names [OF assms q] q TrackRemoved show ?thesis
    by (cases q) (auto simp: session_event_def)
next
  case (StreamAdded v)
  obtain q t where q: "insert_media_stream p v s = (q, t)" by (metis prod.exhaust)
  from insert_media_stream_names [OF assms q] q StreamAdded show ?thesis
    by (cases q) (auto simp: session_event_def)
next
  case (StreamRemoved v)
  obtain q t where q: "insert_media_stream p v s = (q, t)" by (metis prod.exhaust)
  from insert_media_stream_names [OF assms q] q StreamRemoved show ?thesis
    by (cases q) (auto simp: session_event_def)
next
  case (TrackAdded v w streams)
  obtain q t where q: "insert_receiver p v s = (q, t)" by (metis prod.exhaust)
  note t = insert_receiver_names [OF assms q]
  then have t': "graph_inv t" "p \<in> set (map fst (se_peers t))" using names_graph names_peers assms by auto
  obtain q' u where u: "collect_ids (insert_media_stream p) streams t = (q', u)" by (metis prod.exhaust)
  have "names t u" using collect_ids_names [OF _ t' u] insert_media_stream_names by blast
  then have "names s u" using t names_trans by blast
  with t q u TrackAdded show ?thesis by (cases q; cases q') (auto simp: session_event_def)
qed (use assms in \<open>simp_all add: session_event_def\<close>)


subsection \<open>Releasing, attaching and closing\<close>

text \<open>What every call preserves: an identifier keeps its meaning, or loses it for ever.\<close>

definition persists :: "session \<Rightarrow> session \<Rightarrow> bool" where
  "persists s s' \<longleftrightarrow> se_next s \<le> se_next s' \<and> (\<forall>i < se_next s.
     map_of (se_channels s') i = map_of (se_channels s) i
     \<and> map_of (se_senders s') i = map_of (se_senders s) i
     \<and> map_of (se_receivers s') i = map_of (se_receivers s) i
     \<and> map_of (se_transceivers s') i = map_of (se_transceivers s) i
     \<and> (map_of (se_peers s') i = None) = (map_of (se_peers s) i = None)
     \<and> map_of (se_media_tracks s') i \<in> {None, map_of (se_media_tracks s) i}
     \<and> map_of (se_media_streams s') i \<in> {None, map_of (se_media_streams s) i}
     \<and> map_of (se_sources s') i \<in> {None, map_of (se_sources s) i})"

lemma persists_refl [simp]: "persists s s"
  by (simp add: persists_def)

lemma lost_trans: "x \<in> {None, y} \<Longrightarrow> y \<in> {None, z} \<Longrightarrow> x \<in> {None, z}"
  by auto

lemma persists_trans:
  assumes "persists s t" "persists t u"
  shows "persists s u"
  unfolding persists_def
proof (intro conjI allI impI)
  show "se_next s \<le> se_next u" using assms by (auto simp: persists_def)
next
  fix i assume s: "i < se_next s"
  then have t: "i < se_next t" using assms(1) by (auto simp: persists_def)
  note st = assms(1) [unfolded persists_def, THEN conjunct2, rule_format, OF s]
  note tu = assms(2) [unfolded persists_def, THEN conjunct2, rule_format, OF t]
  show "map_of (se_channels u) i = map_of (se_channels s) i"
    "map_of (se_senders u) i = map_of (se_senders s) i"
    "map_of (se_receivers u) i = map_of (se_receivers s) i"
    "map_of (se_transceivers u) i = map_of (se_transceivers s) i"
    "(map_of (se_peers u) i = None) = (map_of (se_peers s) i = None)"
    using st tu by simp_all
  show "map_of (se_media_tracks u) i \<in> {None, map_of (se_media_tracks s) i}"
    "map_of (se_media_streams u) i \<in> {None, map_of (se_media_streams s) i}"
    "map_of (se_sources u) i \<in> {None, map_of (se_sources s) i}"
    using lost_trans [of _ "map_of (se_media_tracks t) i"] lost_trans [of _ "map_of (se_media_streams t) i"]
      lost_trans [of _ "map_of (se_sources t) i"] st tu by simp_all
qed

lemma names_persists: "names s s' \<Longrightarrow> persists s s'"
  by (simp add: names_def extends_def same_rest_def persists_def)

text \<open>A table some of whose entries are gone.\<close>

definition thinned :: "('k \<times> 'v) list \<Rightarrow> ('k \<times> 'v) list \<Rightarrow> bool" where
  "thinned xs ys \<longleftrightarrow> (\<exists>P. ys = filter (\<lambda>x. P (fst x)) xs)"

lemma thinned_refl [simp]: "thinned xs xs"
  unfolding thinned_def by (intro exI [of _ "\<lambda>_. True"]) simp

lemma thinned_empty [simp]: "thinned xs []"
  unfolding thinned_def by (intro exI [of _ "\<lambda>_. False"]) simp

lemma thinned_delete [simp]: "thinned xs (AList.delete i xs)"
  unfolding thinned_def by (intro exI [of _ "\<lambda>k. i \<noteq> k"]) (simp add: AList.delete_eq case_prod_beta')

lemma thinned_trans: "thinned xs ys \<Longrightarrow> thinned ys zs \<Longrightarrow> thinned xs zs"
proof -
  assume "thinned xs ys" "thinned ys zs"
  then obtain P Q where "ys = filter (\<lambda>x. P (fst x)) xs" "zs = filter (\<lambda>x. Q (fst x)) ys"
    unfolding thinned_def by blast
  then show ?thesis unfolding thinned_def
    by (intro exI [of _ "\<lambda>k. P k \<and> Q k"]) (simp add: conj_commute)
qed

lemma thinned_map_of: "thinned xs ys \<Longrightarrow> map_of ys i \<in> {None, map_of xs i}"
proof -
  have "map_of (filter (\<lambda>x. P (fst x)) xs) i = (if P i then map_of xs i else None)" for P
    by (induction xs) auto
  then show "thinned xs ys \<Longrightarrow> map_of ys i \<in> {None, map_of xs i}" by (auto simp: thinned_def)
qed

lemma thinned_subseq: "thinned xs ys \<Longrightarrow> subseq (map f ys) (map f xs)"
  by (auto simp: thinned_def intro: subseq_map)

lemma subseq_distinct: "subseq xs ys \<Longrightarrow> distinct ys \<Longrightarrow> distinct xs"
  by (auto simp: subseq_conv_nths distinct_nthsI)

lemma subseq_subset: "subseq xs ys \<Longrightarrow> set xs \<subseteq> set ys"
  by (auto simp: subseq_conv_nths dest: in_set_nthsD)

text \<open>Calls that remove names of tracks, streams and sources, and rearrange sinks.\<close>

definition prunes :: "session \<Rightarrow> session \<Rightarrow> bool" where
  "prunes s s' \<longleftrightarrow> se_next s' = se_next s \<and> map fst (se_peers s') = map fst (se_peers s)
     \<and> se_channels s' = se_channels s \<and> se_senders s' = se_senders s
     \<and> se_receivers s' = se_receivers s \<and> se_transceivers s' = se_transceivers s
     \<and> thinned (se_media_tracks s) (se_media_tracks s')
     \<and> thinned (se_media_streams s) (se_media_streams s')
     \<and> thinned (se_sources s) (se_sources s')
     \<and> sinks_ok (se_receivers s) (se_media_sinks s')"

lemma prunes_persists:
  assumes "prunes s s'"
  shows "persists s s'"
proof -
  have "(map_of (se_peers s') i = None) = (map_of (se_peers s) i = None)" for i
    using assms by (metis map_of_eq_None_iff prunes_def list.set_map)
  with assms show ?thesis unfolding prunes_def persists_def
    by (intro conjI allI impI) (simp_all only: thinned_map_of order_refl)
qed

lemma prunes_graph:
  assumes "graph_inv s" "prunes s s'"
  shows "graph_inv s'"
proof -
  note g = graph_inv_parts [OF assms(1)]
  note e = assms(2) [unfolded prunes_def]
  have ids: "subseq (session_ids s') (session_ids s)"
    using e by (auto simp: session_ids_def intro!: list_emb_append_mono thinned_subseq)
  have own: "subseq (owners s') (owners s)"
    using e by (auto simp: owners_def intro!: list_emb_append_mono thinned_subseq)
  have "ids_inv s'"
    using g(1) e subseq_distinct [OF ids] subseq_subset [OF ids] by (auto simp: ids_inv_def)
  moreover have "one_name s'"
    using g(3) e by (auto simp: one_name_def intro: subseq_distinct [OF thinned_subseq])
  moreover have "linked s' = linked s" using e by (simp add: linked_def fun_eq_iff)
  moreover have "set (owners s') \<subseteq> set (map fst (se_peers s'))"
    using subseq_subset [OF own] g(2) e by simp
  moreover have "\<forall>(i, r) \<in> set (se_transceivers s'). linked s r" using g(4) e by auto
  ultimately show ?thesis using e by (simp add: graph_inv_def)
qed

lemma graph_prunes_refl: "graph_inv s \<Longrightarrow> prunes s s"
  using graph_inv_parts [of s] by (simp add: prunes_def)

lemma prunes_trans:
  assumes "prunes s t" "prunes t u"
  shows "prunes s u"
proof -
  note e = assms [unfolded prunes_def]
  have "thinned (se_media_tracks s) (se_media_tracks u)"
    by (rule thinned_trans [of _ "se_media_tracks t"]) (use e in simp_all)
  moreover have "thinned (se_media_streams s) (se_media_streams u)"
    by (rule thinned_trans [of _ "se_media_streams t"]) (use e in simp_all)
  moreover have "thinned (se_sources s) (se_sources u)"
    by (rule thinned_trans [of _ "se_sources t"]) (use e in simp_all)
  ultimately show ?thesis using e by (simp add: prunes_def)
qed


lemma put_peer_prunes:
  "graph_inv s \<Longrightarrow> map_of (se_peers s) p = Some w \<Longrightarrow> prunes s (put_peer p v s)"
  using graph_prunes_refl [of s] map_of_SomeD [of "se_peers s" p w]
  by (auto simp: prunes_def put_peer_def update_keys intro: rev_image_eqI)

lemma attempt_prunes:
  assumes "attempt q k = (r, s')" "graph_inv s" "prunes s (snd q)"
    "\<And>a t r s'. graph_inv t \<Longrightarrow> k a t = (r, s') \<Longrightarrow> prunes t s'"
  shows "prunes s s'"
  using assms(1)
proof (cases rule: attempt_cases)
  case (2 a t)
  then show ?thesis using assms(3) assms(4) [OF _ 2(2)] prunes_graph [OF assms(2,3)] prunes_trans
    by auto
qed (use assms(3) in simp)

lemma for_each_prunes:
  assumes "\<And>x s r s'. graph_inv s \<Longrightarrow> f x s = (r, s') \<Longrightarrow> prunes s s'"
  shows "graph_inv s \<Longrightarrow> for_each f xs s = (r, s') \<Longrightarrow> prunes s s'"
proof (induction xs arbitrary: s r s')
  case (Cons x xs)
  from Cons.prems(2) have a: "attempt (f x s) (\<lambda>_ s. for_each f xs s) = (r, s')" by simp
  show ?case
  proof (rule attempt_prunes [OF a Cons.prems(1)])
    show "prunes s (snd (f x s))" using assms [OF Cons.prems(1)] by (metis prod.collapse)
  qed (rule Cons.IH)
qed (use graph_prunes_refl in simp)

lemma for_each_prunes_snd:
  assumes "\<And>x s r s'. graph_inv s \<Longrightarrow> f x s = (r, s') \<Longrightarrow> prunes s s'" "graph_inv s"
  shows "prunes s (snd (for_each f xs s))"
  using for_each_prunes [where f = f, OF assms(1,2)] by (cases "for_each f xs s") simp

lemma released_prunes: "graph_inv s \<Longrightarrow> prunes s (s\<lparr>se_released := hs\<rparr>)"
  using graph_prunes_refl [of s] by (simp add: prunes_def)

lemma close_native_prunes: "graph_inv s \<Longrightarrow> close_native env h s = (r, s') \<Longrightarrow> prunes s s'"
  using released_prunes graph_prunes_refl
  by (auto simp: close_native_def release_native_def split: sum.splits)

lemma sink_close_prunes: "graph_inv s \<Longrightarrow> sink_close env sink s = (r, s') \<Longrightarrow> prunes s s'"
  using close_native_prunes released_prunes
  by (cases sink) (auto simp: release_native_def prod_eq_iff intro: attempt_prunes)

lemma close_sink_of_prunes:
  assumes "graph_inv s"
  shows "(case map_of (se_media_sinks s) i of None \<Rightarrow> (Inr (), s)
    | Some sink \<Rightarrow> sink_close env sink s) = (r, s') \<Longrightarrow> prunes s s'"
  using assms graph_prunes_refl [OF assms] sink_close_prunes [OF assms]
  by (cases "map_of (se_media_sinks s) i") auto

lemma close_session_peer_prunes:
  assumes "graph_inv s" "close_session_peer env p s = (r, s')"
  shows "prunes s s'"
proof (cases "and_then (ok_or (map_of (se_peers s) p) missing) (\<lambda>v.
        and_then (check_control_call env) (\<lambda>_. Inr v))")
  case (Inl e)
  with assms graph_prunes_refl show ?thesis by (simp add: close_session_peer_def)
next
  case (Inr v)
  then have v: "map_of (se_peers s) p = Some v"
    by (auto simp: and_then_def ok_or_def split: option.splits sum.splits)
  obtain q pn where c: "close_peer (en_sdk env) (en_callback_active env) (en_control_allowed env)
      (en_control_allowed env) (lend (se_readiness s) (sp_value v)) = (q, pn)" by (metis prod.exhaust)
  have "attempt (q, put_peer p (v\<lparr>sp_value := pn\<rparr>) s) (\<lambda>_ s.
      attempt (for_each (close_native env) (map snd (peer_values p (se_channels s))) s) (\<lambda>_ s.
      for_each (\<lambda>i s. case map_of (se_media_sinks s) i of
            None \<Rightarrow> (Inr (), s) | Some sink \<Rightarrow> sink_close env sink s)
        (map fst (peer_values p (se_receivers s))) s)) = (r, s')"
    using assms(2) Inr c by (simp add: close_session_peer_def)
  then show ?thesis
  proof (rule attempt_prunes [OF _ assms(1)])
    show "prunes s (snd (q, put_peer p (v\<lparr>sp_value := pn\<rparr>) s))"
      using put_peer_prunes [OF assms(1) v] by simp
    fix a :: unit and t :: session and r :: "(peer_error, unit) result" and s'
    assume g: "graph_inv t" and k: "attempt (for_each (close_native env) (map snd (peer_values p (se_channels t))) t)
      (\<lambda>_ s. for_each (\<lambda>i s. case map_of (se_media_sinks s) i of
            None \<Rightarrow> (Inr (), s) | Some sink \<Rightarrow> sink_close env sink s)
        (map fst (peer_values p (se_receivers s))) s) = (r, s')"
    from k g show "prunes t s'"
    proof (rule attempt_prunes)
      show "prunes t (snd (for_each (close_native env) (map snd (peer_values p (se_channels t))) t))"
        by (rule for_each_prunes_snd [OF close_native_prunes g])
    qed (rule for_each_prunes [OF close_sink_of_prunes])
  qed
qed

lemma shutdown_prunes:
  assumes "graph_inv s" "shutdown env s = (r, s')"
  shows "prunes s s'"
proof (cases "se_closed s \<or> (\<exists>e. check_control_call env = Inl e)")
  case True
  with assms graph_prunes_refl show ?thesis
    by (cases "se_closed s") (auto simp: shutdown_def)
next
  case False
  then have "attempt (for_each (close_session_peer env) (keys (se_peers s)) s) (\<lambda>_ s.
      attempt (for_each (close_native env) (map snd (se_sources s)) s) (\<lambda>_ s.
      (Inr (), s\<lparr>se_sources := [], se_closed := True,
         se_readiness := snd (notify (se_readiness s))\<rparr>))) = (r, s')"
    using assms(2) by (auto simp: shutdown_def split: sum.splits)
  then show ?thesis
  proof (rule attempt_prunes [OF _ assms(1)])
    show "prunes s (snd (for_each (close_session_peer env) (keys (se_peers s)) s))"
      by (rule for_each_prunes_snd [OF close_session_peer_prunes assms(1)])
    fix a :: unit and t :: session and r :: "(peer_error, unit) result" and s'
    assume g: "graph_inv t" and k: "attempt (for_each (close_native env) (map snd (se_sources t)) t) (\<lambda>_ s.
      (Inr (), s\<lparr>se_sources := [], se_closed := True,
         se_readiness := snd (notify (se_readiness s))\<rparr>)) = (r, s')"
    from k g show "prunes t s'"
    proof (rule attempt_prunes)
      show "prunes t (snd (for_each (close_native env) (map snd (se_sources t)) t))"
        by (rule for_each_prunes_snd [OF close_native_prunes g])
    qed (use graph_prunes_refl in \<open>auto simp: prunes_def\<close>)
  qed
qed

lemma sinks_ok_delete: "sinks_ok rs m \<Longrightarrow> sinks_ok rs (AList.delete i m)"
  by (auto simp: sinks_ok_def delete_keys distinct_removeAll)

lemma sinks_ok_update: "sinks_ok rs m \<Longrightarrow> map_of rs i = Some x \<Longrightarrow> sinks_ok rs (AList.update i v m)"
  by (auto simp: sinks_ok_def distinct_update dom_update update_keys dest!: map_of_SomeD
      intro: rev_image_eqI)

lemma receiver_without_sink_Inr:
  "receiver_without_sink i s = Inr h \<longleftrightarrow> \<not> se_closed s \<and> map_of (se_media_sinks s) i = None
     \<and> map_option res_value (map_of (se_receivers s) i) = Some h"
proof -
  have k: "i \<in> set (map fst (se_media_sinks s)) \<longleftrightarrow> map_of (se_media_sinks s) i \<noteq> None"
    by (simp add: map_of_eq_None_iff)
  show ?thesis unfolding receiver_without_sink_def k
    by (cases "map_of (se_receivers s) i") (auto simp: check_open_def and_then_def ok_or_def)
qed

lemma sinks_ok_attach:
  "receiver_without_sink i s = Inr h \<Longrightarrow> sinks_ok (se_receivers s) m \<Longrightarrow>
     sinks_ok (se_receivers s) (AList.update i v m)"
  using sinks_ok_update by (auto simp: receiver_without_sink_Inr)

lemmas close_calls = close_media_sink_def close_channel_def close_session_source_def
  release_media_track_reference_def release_media_stream_def

lemma releasing_calls_prune:
  assumes "graph_inv s"
  shows "release_media_track_reference i s = (r, s') \<Longrightarrow> prunes s s'"
    "release_media_stream i s = (r, s') \<Longrightarrow> prunes s s'"
    "close_session_source env i s = (r, s') \<Longrightarrow> prunes s s'"
    "close_channel env i s = (r, s') \<Longrightarrow> prunes s s'"
    "close_media_sink env i s = (r, s') \<Longrightarrow> prunes s s'"
    "attach_one sink native i s = (r, s') \<Longrightarrow> prunes s s'"
    "attach_raw_and_encoded_video raw encoded i s = (r, s') \<Longrightarrow> prunes s s'"
proof -
  note k = graph_prunes_refl [OF assms]
  note sinks = graph_inv_parts(5) [OF assms]
  show "release_media_track_reference i s = (r, s') \<Longrightarrow> prunes s s'"
    "release_media_stream i s = (r, s') \<Longrightarrow> prunes s s'"
    using k by (auto simp: close_calls prunes_def split: option.splits)
  show "close_channel env i s = (r, s') \<Longrightarrow> prunes s s'"
    using k close_native_prunes [OF assms] by (auto simp: close_calls split: sum.splits)
  show "close_session_source env i s = (r, s') \<Longrightarrow> prunes s s'"
  proof (cases "map_of (se_sources s) i = None \<or> (\<exists>e. check_control_call env = Inl e)")
    case False
    then obtain h where h: "map_of (se_sources s) i = Some h" by auto
    assume "close_session_source env i s = (r, s')"
    with False h have "attempt (close_native env h s) (\<lambda>_ s.
        (Inr (), s\<lparr>se_sources := AList.delete i (se_sources s)\<rparr>)) = (r, s')"
      by (auto simp: close_calls split: sum.splits)
    then show ?thesis
    proof (rule attempt_prunes [OF _ assms])
      show "prunes s (snd (close_native env h s))"
        using close_native_prunes [OF assms] by (metis prod.collapse)
    qed (use graph_prunes_refl in \<open>auto simp: prunes_def\<close>)
  qed (use k in \<open>auto simp: close_calls split: option.splits\<close>)
  show "close_media_sink env i s = (r, s') \<Longrightarrow> prunes s s'"
  proof (cases "and_then (check_open s) (\<lambda>_. ok_or (map_of (se_receivers s) i) missing)")
    case (Inr x)
    assume "close_media_sink env i s = (r, s')"
    with Inr have "attempt (case map_of (se_media_sinks s) i of None \<Rightarrow> (Inr (), s)
        | Some sink \<Rightarrow> sink_close env sink s)
      (\<lambda>_ s. (Inr (), s\<lparr>se_media_sinks := AList.delete i (se_media_sinks s)\<rparr>)) = (r, s')"
      by (simp add: close_calls)
    then show ?thesis
    proof (rule attempt_prunes [OF _ assms])
      show "prunes s (snd (case map_of (se_media_sinks s) i of None \<Rightarrow> (Inr (), s)
        | Some sink \<Rightarrow> sink_close env sink s))"
        using close_sink_of_prunes [OF assms] by (metis prod.collapse)
    qed (use graph_prunes_refl sinks_ok_delete in \<open>auto simp: prunes_def\<close>)
  qed (use k in \<open>simp add: close_calls\<close>)
  show "attach_one sink native i s = (r, s') \<Longrightarrow> prunes s s'"
    using k sinks sinks_ok_attach
    by (auto simp: attach_one_def and_then_def prunes_def split: sum.splits)
  show "attach_raw_and_encoded_video raw encoded i s = (r, s') \<Longrightarrow> prunes s s'"
    using k sinks sinks_ok_attach
    by (auto simp: attach_raw_and_encoded_video_def prunes_def split: sum.splits)
qed

end
