(* ===== verification/SessionHistory.thy ===== *)
theory SessionHistory
  imports SessionGraph
begin

text \<open>
  Executions of a session: the application's calls, the SDK's callbacks, the taking of events and
  closing, in any order.  What a session does to a peer is a step of the peer (\<open>evolves\<close>), so the
  session keeps the contract of accepted operations and their outcomes for all its peers together,
  and no call panics.
\<close>

subsection \<open>Actions\<close>

datatype session_action =
    NewPeer "(peer_error, unit) result"
  | Request sdk peer_request u64
  | RequestLegacyStats sdk u64 "u64 option" legacy_stats_output_level
  | RequestStatsOfSender sdk u64
  | RequestStatsOfReceiver sdk u64
  | RequestSelectedSender sdk u64 "u64 option"
  | RequestSelectedReceiver sdk u64 "u64 option"
  | ModifyPeerCandidate sdk bool u64 ice_candidate
  | NativeCallback u64 sdk_callback
  | TakePeerEvent environment u64
  | Senders "nat list" u64
  | Receivers "nat list" u64
  | Transceivers environment "(peer_error, nat list) result" u64
  | AddTransceiver environment "(peer_error, nat) result" u64
  | PeerStreams "(peer_error, pointer list) result" u64
  | ReceiverStreams "pointer list" u64
  | StreamTracks "nat list" u64
  | FindTrack pointer u64
  | SenderTrack pointer u64
  | ReceiverTrack pointer u64
  | ReleaseTrack u64
  | ReleaseStream u64
  | CreateChannel "(peer_error, nat) result" u64
  | CreateSource "(peer_error, nat) result"
  | AttachPcm "nat \<Rightarrow> (peer_error, nat) result" u64
  | AttachRawVideo "nat \<Rightarrow> (peer_error, nat) result" u64
  | AttachEncodedAudio "nat \<Rightarrow> (peer_error, nat) result" u64
  | AttachEncodedVideo "nat \<Rightarrow> (peer_error, nat) result" u64
  | AttachRawAndEncodedVideo "nat \<Rightarrow> (peer_error, nat) result" "nat \<Rightarrow> (peer_error, nat) result" u64
  | CloseSink environment u64
  | CloseChannel environment u64
  | CloseSource environment u64
  | CloseSessionPeer environment u64
  | Shutdown environment

datatype session_reply =
    Admitted u64 u64
  | Observed u64 session_event
  | Answered

definition admission :: "u64 \<Rightarrow> session_admission \<Rightarrow> (session_reply \<times> session) option" where
  "admission p = map_option (\<lambda>(r, s). (case r of Inl _ \<Rightarrow> Answered | Inr i \<Rightarrow> Admitted p i, s))"

definition answer :: "'a outcome \<Rightarrow> (session_reply \<times> session) option" where
  "answer r = Some (Answered, snd r)"

definition owner :: "(u64 \<times> 'a resource) list \<Rightarrow> u64 \<Rightarrow> u64" where
  "owner m i = (case map_of m i of None \<Rightarrow> 0 | Some r \<Rightarrow> res_peer r)"

text \<open>A callback of the SDK reaches the events of a peer at any time.\<close>

definition native_callback :: "u64 \<Rightarrow> sdk_callback \<Rightarrow> session \<Rightarrow> session" where
  "native_callback p cb s = (case map_of (se_peers s) p of
       None \<Rightarrow> s
     | Some v \<Rightarrow> let pn = lend (se_readiness s) (sp_value v) in
         put_peer p (v\<lparr>sp_value := pn\<lparr>pn_events := deliver cb (pn_events pn)\<rparr>\<rparr>) s)"

fun session_step :: "session_action \<Rightarrow> session \<Rightarrow> (session_reply \<times> session) option" where
  "session_step (NewPeer native) s = answer (create_peer_with_dependencies native s)"
| "session_step (Request sdk req p) s = admission p (operation sdk req p s)"
| "session_step (RequestLegacyStats sdk p sel level) s =
     admission p (request_legacy_stats_selected sdk p sel level s)"
| "session_step (RequestStatsOfSender sdk i) s =
     admission (owner (se_senders s) i) (request_sender_stats sdk i s)"
| "session_step (RequestStatsOfReceiver sdk i) s =
     admission (owner (se_receivers s) i) (request_receiver_stats sdk i s)"
| "session_step (RequestSelectedSender sdk p sel) s =
     admission p (request_selected_sender_stats sdk p sel s)"
| "session_step (RequestSelectedReceiver sdk p sel) s =
     admission p (request_selected_receiver_stats sdk p sel s)"
| "session_step (ModifyPeerCandidate sdk remove p c) s =
     map_option (\<lambda>(r, s). (Answered, s)) (session_modify_ice_candidate sdk remove p c s)"
| "session_step (NativeCallback p cb) s = Some (Answered, native_callback p cb s)"
| "session_step (TakePeerEvent env p) s = map_option
     (\<lambda>(r, s). (case r of Inr (Some e) \<Rightarrow> Observed p e | _ \<Rightarrow> Answered, s)) (try_peer_event env p s)"
| "session_step (Senders vs p) s = answer (session_senders vs p s)"
| "session_step (Receivers vs p) s = answer (session_receivers vs p s)"
| "session_step (Transceivers env vs p) s = answer (session_transceivers env vs p s)"
| "session_step (AddTransceiver env v p) s = answer (add_session_transceiver env v p s)"
| "session_step (PeerStreams vs p) s = answer (peer_streams vs p s)"
| "session_step (ReceiverStreams vs i) s = answer (receiver_streams vs i s)"
| "session_step (StreamTracks vs i) s = answer (stream_tracks vs i s)"
| "session_step (FindTrack v i) s = answer (stream_find_track v i s)"
| "session_step (SenderTrack v i) s = answer (sender_track_reference v i s)"
| "session_step (ReceiverTrack v i) s = answer (receiver_track_reference v i s)"
| "session_step (ReleaseTrack i) s = answer (release_media_track_reference i s)"
| "session_step (ReleaseStream i) s = answer (release_media_stream i s)"
| "session_step (CreateChannel v p) s = answer (create_channel_bytes v p s)"
| "session_step (CreateSource v) s = answer (create_raw_video_source v s)"
| "session_step (AttachPcm f i) s = answer (attach_pcm f i s)"
| "session_step (AttachRawVideo f i) s = answer (attach_raw_video f i s)"
| "session_step (AttachEncodedAudio f i) s = answer (attach_encoded_audio f i s)"
| "session_step (AttachEncodedVideo f i) s = answer (attach_encoded_video f i s)"
| "session_step (AttachRawAndEncodedVideo f g i) s = answer (attach_raw_and_encoded_video f g i s)"
| "session_step (CloseSink env i) s = answer (close_media_sink env i s)"
| "session_step (CloseChannel env i) s = answer (close_channel env i s)"
| "session_step (CloseSource env i) s = answer (close_session_source env i s)"
| "session_step (CloseSessionPeer env p) s = answer (close_session_peer env p s)"
| "session_step (Shutdown env) s = answer (shutdown env s)"

fun session_ok :: "nat \<Rightarrow> session_action \<Rightarrow> bool" where
  "session_ok m (Request sdk _ _) = sdk_ok m sdk"
| "session_ok m (RequestLegacyStats sdk _ _ _) = sdk_ok m sdk"
| "session_ok m (RequestStatsOfSender sdk _) = sdk_ok m sdk"
| "session_ok m (RequestStatsOfReceiver sdk _) = sdk_ok m sdk"
| "session_ok m (RequestSelectedSender sdk _ _) = sdk_ok m sdk"
| "session_ok m (RequestSelectedReceiver sdk _ _) = sdk_ok m sdk"
| "session_ok m (ModifyPeerCandidate sdk _ _ _) = sdk_ok m sdk"
| "session_ok m (NativeCallback _ cb) = callback_ok cb"
| "session_ok m (CloseSessionPeer env _) = sdk_ok m (en_sdk env)"
| "session_ok m (Shutdown env) = sdk_ok m (en_sdk env)"
| "session_ok m _ = True"

fun admitted_by :: "session_reply \<Rightarrow> (u64 \<times> u64) option" where
  "admitted_by (Admitted p i) = Some (p, i)"
| "admitted_by _ = None"

fun settled_in :: "session_reply \<Rightarrow> (u64 \<times> u64) option" where
  "settled_in (Observed p (Passed e)) = map_option (Pair p) (settles e)"
| "settled_in _ = None"

definition outstanding :: "session \<Rightarrow> (u64 \<times> u64) set" where
  "outstanding s = {(p, i). \<exists>v. map_of (se_peers s) p = Some v \<and> i \<in> set (sp_outstanding v)}"

subsection \<open>Lending\<close>

lemma lend_fields [simp]:
  "pn_closed (lend r pn) = pn_closed pn" "pn_native_closed (lend r pn) = pn_native_closed pn"
  "pn_next_operation (lend r pn) = pn_next_operation pn"
  "es_admitted (pn_events (lend r pn)) = es_admitted (pn_events pn)"
  "es_closed (pn_events (lend r pn)) = es_closed (pn_events pn)"
  "es_events (pn_events (lend r pn)) = es_events (pn_events pn)"
  by (simp_all add: lend_def)

lemma lend_inv [simp]:
  "ledger_inv (lend r pn) = ledger_inv pn" "peer_inv n (lend r pn) = peer_inv n pn"
  "under_way (lend r pn) = under_way pn"
  by (simp_all add: lend_def ledger_inv_def peer_inv_def under_way_def ops_inv_def queue_inv_def
      arrivals_inv_def queued_ops_def event_backed_def Let_def)


subsection \<open>One peer\<close>

definition entry_ok :: "(peer_connection \<Rightarrow> bool) \<Rightarrow> session_peer \<Rightarrow> bool" where
  "entry_ok P v \<longleftrightarrow> P (sp_value v) \<and> distinct (sp_outstanding v)
     \<and> set (sp_outstanding v) = under_way (sp_value v)"

text \<open>A peer accepts \<open>acc\<close> or settles \<open>out\<close>.\<close>

definition evolves :: "nat \<Rightarrow> u64 option \<Rightarrow> u64 option \<Rightarrow> session_peer \<Rightarrow> session_peer \<Rightarrow> bool" where
  "evolves m acc out v v' \<longleftrightarrow>
     (entry_ok ledger_inv v \<longrightarrow> entry_ok ledger_inv v'
        \<and> set (sp_outstanding v') = set (sp_outstanding v) \<union> set_option acc - set_option out
        \<and> (\<forall>i. acc = Some i \<longrightarrow> i \<notin> set (sp_outstanding v) \<and> out = None)
        \<and> (\<forall>i. out = Some i \<longrightarrow> i \<in> set (sp_outstanding v)))
     \<and> (\<forall>n. entry_ok (peer_inv n) v \<longrightarrow> n + max 1 m < 2 ^ 64 \<longrightarrow> entry_ok (peer_inv (n + max 1 m)) v')"

lemma entry_ok_ledger: "entry_ok (peer_inv n) v \<Longrightarrow> entry_ok ledger_inv v"
  by (simp add: entry_ok_def peer_inv_def)

lemma evolves_refl [simp]: "evolves m None None v v"
  by (auto simp: evolves_def entry_ok_def intro: peer_inv_mono)

text \<open>Whatever a session does to a peer is a step of the peer.\<close>

lemma peer_step_evolves:
  assumes "action_ok m a" "peer_step a (lend rd (sp_value v)) = Some (reply, pn)"
  shows "evolves m (accepted reply) (outcome reply) v \<lparr>sp_value = pn, sp_outstanding =
     (case accepted reply of Some i \<Rightarrow> List.insert i (sp_outstanding v)
      | None \<Rightarrow> (case outcome reply of None \<Rightarrow> sp_outstanding v | Some i \<Rightarrow> remove1 i (sp_outstanding v)))\<rparr>"
    (is "evolves m _ _ v ?v")
proof -
  have l: "entry_ok ledger_inv ?v
        \<and> set (sp_outstanding ?v) = set (sp_outstanding v) \<union> set_option (accepted reply) - set_option (outcome reply)
        \<and> (\<forall>i. accepted reply = Some i \<longrightarrow> i \<notin> set (sp_outstanding v) \<and> outcome reply = None)
        \<and> (\<forall>i. outcome reply = Some i \<longrightarrow> i \<in> set (sp_outstanding v))" if "entry_ok ledger_inv v"
  proof -
    have "ledger_inv (lend rd (sp_value v))" "distinct (sp_outstanding v)"
      "set (sp_outstanding v) = under_way (sp_value v)" using that by (simp_all add: entry_ok_def)
    with peer_step_ledger [OF assms(1) _ assms(2)] show ?thesis
      by (auto simp: entry_ok_def split: option.splits)
  qed
  have "peer_inv (n + max 1 m) pn" if "peer_inv n (sp_value v)" "n + max 1 m < 2 ^ 64" for n
    using peer_step_total [OF assms(1) _ that(2), of "lend rd (sp_value v)"] that(1) assms(2) by auto
  with l entry_ok_ledger show ?thesis by (auto simp: evolves_def entry_ok_def)
qed

lemma peer_step_quiet:
  assumes "action_ok m a" "peer_step a (lend rd (sp_value v)) = Some (reply, pn)"
    "accepted reply = None" "outcome reply = None"
  shows "evolves m None None v (v\<lparr>sp_value := pn\<rparr>)"
  using peer_step_evolves [OF assms(1,2)] assms(3,4) by (cases v) simp


subsection \<open>One call\<close>

definition part :: "u64 \<Rightarrow> (u64 \<times> u64) option \<Rightarrow> u64 option" where
  "part p x = Option.bind x (\<lambda>(q, i). if q = p then Some i else None)"

lemma part_simps [simp]:
  "part p None = None" "part p (Some (q, i)) = (if q = p then Some i else None)"
  "part q (map_option (Pair p) x) = (if q = p then x else None)"
  by (cases x; simp add: part_def)+

text \<open>Every peer accounts for what the call reports of it.\<close>

definition accounts :: "nat \<Rightarrow> (u64 \<times> u64) option \<Rightarrow> (u64 \<times> u64) option \<Rightarrow> session \<Rightarrow> session \<Rightarrow> bool" where
  "accounts m acc out s s' \<longleftrightarrow> (\<forall>p. case map_of (se_peers s) p of
       Some v \<Rightarrow> (\<exists>v'. map_of (se_peers s') p = Some v' \<and> evolves m (part p acc) (part p out) v v')
     | None \<Rightarrow> part p acc = None \<and> part p out = None \<and> (\<forall>v'. map_of (se_peers s') p = Some v' \<longrightarrow>
         (\<exists>r. v' = \<lparr>sp_value = peer_connection_new r, sp_outstanding = []\<rparr>)))"

lemma accounts_same: "se_peers s' = se_peers s \<Longrightarrow> accounts m None None s s'"
  by (auto simp: accounts_def split: option.splits)

lemma accounts_put:
  assumes "map_of (se_peers s) p = Some v" "evolves m acc out v v'"
    "se_peers s' = AList.update p v' (se_peers s)"
  shows "accounts m (map_option (Pair p) acc) (map_option (Pair p) out) s s'"
  unfolding accounts_def
proof
  fix q
  show "case map_of (se_peers s) q of
       Some v \<Rightarrow> (\<exists>v'. map_of (se_peers s') q = Some v' \<and> evolves m (part q (map_option (Pair p) acc))
         (part q (map_option (Pair p) out)) v v')
     | None \<Rightarrow> part q (map_option (Pair p) acc) = None \<and> part q (map_option (Pair p) out) = None
         \<and> (\<forall>v'. map_of (se_peers s') q = Some v' \<longrightarrow>
         (\<exists>r. v' = \<lparr>sp_value = peer_connection_new r, sp_outstanding = []\<rparr>))"
    using assms by (cases "q = p"; cases "map_of (se_peers s) q") (simp_all add: update_conv)
qed

lemma accounts_then: "accounts m acc out s t \<Longrightarrow> se_peers s' = se_peers t \<Longrightarrow> accounts m acc out s s'"
  by (simp add: accounts_def cong: option.case_cong)

lemma put_peer_peers [simp]: "se_peers (put_peer p v s) = AList.update p v (se_peers s)"
  by (simp add: put_peer_def)

lemma request_total:
  assumes "ledger_inv pn" "sdk_ok m sdk"
  shows "\<exists>x pn'. request_result sdk req pn = (Some x, pn')
    \<and> peer_step (Submit sdk req) pn = Some (case x of Inl _ \<Rightarrow> Refused | Inr i \<Rightarrow> Accepted i, pn')"
proof -
  obtain q pn' where q: "request_result sdk req pn = (q, pn')" by (metis prod.exhaust)
  have "q \<noteq> None" using submit_done [OF assms, of req] q
    by (auto simp: request_done_def submit_def admission_reply_def)
  with q show ?thesis by (auto simp: submit_def admission_reply_def)
qed

definition peers_inv :: "(peer_connection \<Rightarrow> bool) \<Rightarrow> session \<Rightarrow> bool" where
  "peers_inv P s \<longleftrightarrow> (\<forall>p v. map_of (se_peers s) p = Some v \<longrightarrow> entry_ok P v)"

definition outcome_of :: "u64 \<Rightarrow> ('e, u64) result \<Rightarrow> (u64 \<times> u64) option" where
  "outcome_of p r = (case r of Inl _ \<Rightarrow> None | Inr i \<Rightarrow> Some (p, i))"

lemma submit_operation_accounts:
  assumes "graph_inv s" "map_of (se_peers s) p = Some v" "sdk_ok m sdk" "peers_inv ledger_inv s"
  shows "\<exists>r s'. submit_operation sdk req p v s = Some (r, s') \<and> prunes s s'
    \<and> accounts m (outcome_of p r) None s s'"
proof -
  let ?pn = "lend (se_readiness s) (sp_value v)"
  have "ledger_inv ?pn" using assms(2,4) by (auto simp: peers_inv_def entry_ok_def)
  from request_total [OF this assms(3), of req] obtain x pn where x: "request_result sdk req ?pn = (Some x, pn)"
    "peer_step (Submit sdk req) ?pn = Some (case x of Inl _ \<Rightarrow> Refused | Inr i \<Rightarrow> Accepted i, pn)"
    by blast
  note p = put_peer_prunes [OF assms(1,2)]
  note e = peer_step_evolves [OF _ x(2), of m, simplified, OF assms(3)]
  note a = accounts_put [OF assms(2), of m _ None, simplified]
  show ?thesis
  proof (cases x)
    case (Inl err)
    have "accounts m None None s (put_peer p (v\<lparr>sp_value := pn\<rparr>) s)"
      using a [of None "v\<lparr>sp_value := pn\<rparr>"] e Inl by (cases v) simp
    with x(1) Inl p show ?thesis using graph_prunes_refl [OF assms(1)]
      by (auto simp: submit_operation_def outcome_of_def accounts_same)
  next
    case (Inr i)
    have "accounts m (Some (p, i)) None s (put_peer p
        \<lparr>sp_value = pn, sp_outstanding = List.insert i (sp_outstanding v)\<rparr> s)"
      using a [of "Some i" "\<lparr>sp_value = pn, sp_outstanding = List.insert i (sp_outstanding v)\<rparr>"] e Inr
      by simp
    with x(1) Inr p show ?thesis using graph_prunes_refl [OF assms(1)]
      by (auto simp: submit_operation_def outcome_of_def accounts_same)
  qed
qed

lemma operation_for_accounts:
  assumes "graph_inv s" "sdk_ok m sdk" "peers_inv ledger_inv s"
  shows "\<exists>r s'. operation_for sdk req p s = Some (r, s') \<and> prunes s s'
    \<and> accounts m (outcome_of p r) None s s'"
proof (cases "and_then req (\<lambda>req. and_then (ok_or (map_of (se_peers s) p) missing) (\<lambda>v. Inr (req, v)))")
  case (Inl e)
  with graph_prunes_refl [OF assms(1)] show ?thesis
    by (simp add: operation_for_def outcome_of_def accounts_same)
next
  case (Inr rv)
  then have "map_of (se_peers s) p = Some (snd rv)"
    by (cases req; cases "map_of (se_peers s) p") (auto simp: and_then_def ok_or_def)
  from submit_operation_accounts [OF assms(1) this assms(2,3), of "fst rv"] Inr show ?thesis
    by (simp add: operation_for_def case_prod_beta)
qed

lemma nothing_accounted: "graph_inv s \<Longrightarrow> prunes s s \<and> accounts m (outcome_of p (Inl e)) None s s"
  by (simp add: graph_prunes_refl outcome_of_def accounts_same)

text \<open>The requests all come down to these two.\<close>

lemma requests_account:
  assumes "graph_inv s" "sdk_ok m sdk" "peers_inv ledger_inv s"
  shows "\<exists>r s'. operation sdk req p s = Some (r, s') \<and> prunes s s'
      \<and> accounts m (outcome_of p r) None s s'"
    "\<exists>r s'. request_legacy_stats_selected sdk p sel level s = Some (r, s') \<and> prunes s s'
      \<and> accounts m (outcome_of p r) None s s'"
    "\<exists>r s'. request_selected_sender_stats sdk p sel s = Some (r, s') \<and> prunes s s'
      \<and> accounts m (outcome_of p r) None s s'"
    "\<exists>r s'. request_selected_receiver_stats sdk p sel s = Some (r, s') \<and> prunes s s'
      \<and> accounts m (outcome_of p r) None s s'"
    "\<exists>r s'. request_sender_stats sdk i s = Some (r, s') \<and> prunes s s'
      \<and> accounts m (outcome_of (owner (se_senders s) i) r) None s s'"
    "\<exists>r s'. request_receiver_stats sdk i s = Some (r, s') \<and> prunes s s'
      \<and> accounts m (outcome_of (owner (se_receivers s) i) r) None s s'"
proof -
  note op = operation_for_accounts [OF assms] and no = nothing_accounted [OF assms(1)]
  show "\<exists>r s'. operation sdk req p s = Some (r, s') \<and> prunes s s'
      \<and> accounts m (outcome_of p r) None s s'"
    unfolding operation_def by (rule op)
  show "\<exists>r s'. request_legacy_stats_selected sdk p sel level s = Some (r, s') \<and> prunes s s'
      \<and> accounts m (outcome_of p r) None s s'"
    unfolding request_legacy_stats_selected_def by (rule op)
  show "\<exists>r s'. request_selected_sender_stats sdk p sel s = Some (r, s') \<and> prunes s s'
      \<and> accounts m (outcome_of p r) None s s'"
    unfolding request_selected_sender_stats_def by (rule op)
  show "\<exists>r s'. request_selected_receiver_stats sdk p sel s = Some (r, s') \<and> prunes s s'
      \<and> accounts m (outcome_of p r) None s s'"
    unfolding request_selected_receiver_stats_def by (rule op)
  show "\<exists>r s'. request_sender_stats sdk i s = Some (r, s') \<and> prunes s s'
      \<and> accounts m (outcome_of (owner (se_senders s) i) r) None s s'"
  proof (cases "and_then (check_open s) (\<lambda>_. ok_or (map_of (se_senders s) i) missing)")
    case (Inl e)
    with no show ?thesis by (simp add: request_sender_stats_def)
  next
    case (Inr x)
    then have "owner (se_senders s) i = res_peer x"
      by (cases "check_open s"; cases "map_of (se_senders s) i") (auto simp: and_then_def ok_or_def owner_def)
    with Inr op [of _ "res_peer x"] show ?thesis by (simp add: request_sender_stats_def)
  qed
  show "\<exists>r s'. request_receiver_stats sdk i s = Some (r, s') \<and> prunes s s'
      \<and> accounts m (outcome_of (owner (se_receivers s) i) r) None s s'"
  proof (cases "and_then (check_open s) (\<lambda>_. ok_or (map_of (se_receivers s) i) missing)")
    case (Inl e)
    with no show ?thesis by (simp add: request_receiver_stats_def)
  next
    case (Inr x)
    then have "owner (se_receivers s) i = res_peer x"
      by (cases "check_open s"; cases "map_of (se_receivers s) i") (auto simp: and_then_def ok_or_def owner_def)
    with Inr op [of _ "res_peer x"] show ?thesis by (simp add: request_receiver_stats_def)
  qed
qed

lemma modify_candidate_accounts:
  assumes "graph_inv s" "sdk_ok m sdk"
  shows "\<exists>r s'. session_modify_ice_candidate sdk remove p c s = Some (r, s') \<and> prunes s s'
    \<and> accounts m None None s s'"
proof (cases "and_then (check_open s) (\<lambda>_. ok_or (map_of (se_peers s) p) missing)")
  case (Inl e)
  with graph_prunes_refl [OF assms(1)] show ?thesis
    by (simp add: session_modify_ice_candidate_def accounts_same)
next
  case (Inr v)
  then have v: "map_of (se_peers s) p = Some v"
    by (cases "check_open s"; cases "map_of (se_peers s) p") (auto simp: and_then_def ok_or_def)
  let ?pn = "lend (se_readiness s) (sp_value v)"
  obtain d pn cbs where d: "modify_ice_candidate_bytes sdk c remove ?pn = (Some d, pn)"
    using modify_quiet [of sdk c remove ?pn] by metis
  then have "peer_step (ModifyCandidate sdk c remove) ?pn = Some (Returned, pn)" by simp
  from peer_step_quiet [OF _ this, of m] assms(2)
  have "evolves m None None v (v\<lparr>sp_value := pn\<rparr>)" by simp
  from accounts_put [OF v this] have "accounts m None None s (put_peer p (v\<lparr>sp_value := pn\<rparr>) s)" by simp
  with d Inr put_peer_prunes [OF assms(1) v] show ?thesis
    by (simp add: session_modify_ice_candidate_def)
qed

lemma native_callback_accounts:
  assumes "graph_inv s" "callback_ok cb"
  shows "prunes s (native_callback p cb s) \<and> accounts m None None s (native_callback p cb s)"
proof (cases "map_of (se_peers s) p")
  case None
  with graph_prunes_refl [OF assms(1)] show ?thesis by (simp add: native_callback_def accounts_same)
next
  case (Some v)
  let ?pn = "lend (se_readiness s) (sp_value v)"
  have "peer_step (Callback cb) ?pn = Some (Returned, ?pn\<lparr>pn_events := deliver cb (pn_events ?pn)\<rparr>)"
    by simp
  from peer_step_quiet [OF _ this, of m] assms(2)
  have "evolves m None None v (v\<lparr>sp_value := ?pn\<lparr>pn_events := deliver cb (pn_events ?pn)\<rparr>\<rparr>)" by simp
  from accounts_put [OF Some this] put_peer_prunes [OF assms(1) Some] Some show ?thesis
    by (simp add: native_callback_def Let_def)
qed

lemma session_event_passed: "session_event env p e s = Some (Inr (Passed e'), s') \<Longrightarrow> e' = e"
  by (cases e) (auto simp: session_event_def attempt_def split: prod.splits sum.splits)

lemma names_after_prunes:
  assumes "prunes s t" "names t u"
  shows "graph_inv u \<and> persists s u"
  using prunes_persists [OF assms(1)] names_persists [OF assms(2)] names_graph [OF assms(2)]
    persists_trans by blast

definition settled_of :: "u64 \<Rightarrow> (peer_error, session_event option) result \<Rightarrow> (u64 \<times> u64) option" where
  "settled_of p r = (case r of Inr (Some e) \<Rightarrow> settled_in (Observed p e) | _ \<Rightarrow> None)"

lemma settled_in_event: "(\<And>e'. x = Passed e' \<Longrightarrow> settles e' = None) \<Longrightarrow> settled_in (Observed p x) = None"
  by (cases x) simp_all

lemma take_event_accounts:
  assumes "graph_inv s" "map_of (se_peers s) p = Some v"
    "try_next_event (lend (se_readiness s) (sp_value v)) = Some (e, pn)"
  shows "\<exists>r s'. try_peer_event env p s = Some (r, s') \<and> graph_inv s' \<and> persists s s'
    \<and> accounts m None (settled_of p r) s s'"
proof (cases e)
  case None
  have "peer_step TakeEvent (lend (se_readiness s) (sp_value v)) = Some (Taken None, pn)"
    using assms(3) None by simp
  from peer_step_quiet [OF _ this, of m]
  have "evolves m None None v (v\<lparr>sp_value := pn\<rparr>)" by simp
  from accounts_put [OF assms(2) this] have "accounts m None None s (put_peer p (v\<lparr>sp_value := pn\<rparr>) s)"
    by simp
  with assms None put_peer_prunes [OF assms(1,2)] prunes_persists prunes_graph [OF assms(1)] show ?thesis
    by (auto simp: try_peer_event_def settled_of_def)
next
  case (Some x)
  let ?v = "\<lparr>sp_value = pn, sp_outstanding = (case settles x of None \<Rightarrow> sp_outstanding v
    | Some i \<Rightarrow> remove1 i (sp_outstanding v))\<rparr>"
  let ?s = "put_peer p ?v s"
  have "peer_step TakeEvent (lend (se_readiness s) (sp_value v)) = Some (Taken (Some x), pn)"
    using assms(3) Some by simp
  from peer_step_evolves [OF _ this, of m] have "evolves m None (settles x) v ?v" by simp
  from accounts_put [OF assms(2) this, of ?s]
  have a: "accounts m None (map_option (Pair p) (settles x)) s ?s" by simp
  note p = put_peer_prunes [OF assms(1,2), of ?v]
  have "p \<in> set (map fst (se_peers ?s))" by (simp add: update_keys)
  from session_event_names [OF prunes_graph [OF assms(1) p] this, of env x] obtain r s' where
    r: "session_event env p x ?s = Some (r, s')" "names ?s s'"
    "\<forall>i. settles x = Some i \<longrightarrow> r = Inr (Passed x)" by blast
  let ?r = "case r of Inl e \<Rightarrow> Inl e | Inr y \<Rightarrow> Inr (Some y)"
  have "try_peer_event env p s = Some (?r, s')"
    using assms(2,3) Some r(1) by (cases r) (simp_all add: try_peer_event_def)
  moreover have "settled_of p ?r = map_option (Pair p) (settles x)"
  proof (cases "settles x")
    case None
    have "settles e' = None" if "r = Inr (Passed e')" for e'
      using session_event_passed r(1) None that by blast
    with None show ?thesis by (cases r) (auto simp: settled_of_def intro: settled_in_event)
  next
    case (Some i)
    with r(3) show ?thesis by (simp add: settled_of_def)
  qed
  ultimately show ?thesis
    using names_after_prunes [OF p r(2)] accounts_then [OF a] names_peers [OF r(2)] by auto
qed

lemma try_peer_event_accounts:
  assumes "graph_inv s" "try_peer_event env p s = Some (r, s')"
  shows "graph_inv s' \<and> persists s s' \<and> accounts m None (settled_of p r) s s'"
proof (cases "map_of (se_peers s) p")
  case None
  with assms show ?thesis by (auto simp: try_peer_event_def settled_of_def accounts_same)
next
  case (Some v)
  with assms(2) obtain e pn where "try_next_event (lend (se_readiness s) (sp_value v)) = Some (e, pn)"
    by (auto simp: try_peer_event_def split: option.splits)
  from take_event_accounts [OF assms(1) Some this, of env m] assms(2) show ?thesis by auto
qed

lemma try_peer_event_total:
  assumes "graph_inv s" "peers_inv (peer_inv n) s"
  shows "try_peer_event env p s \<noteq> None"
proof (cases "map_of (se_peers s) p")
  case None
  then show ?thesis by (simp add: try_peer_event_def)
next
  case (Some v)
  then have "peer_inv n (lend (se_readiness s) (sp_value v))"
    using assms(2) by (simp add: peers_inv_def entry_ok_def)
  from take_total [OF this] obtain e pn where
    "try_next_event (lend (se_readiness s) (sp_value v)) = Some (e, pn)" by blast
  from take_event_accounts [OF assms(1) Some this, of env 0] show ?thesis by auto
qed

subsection \<open>New and closed peers\<close>

lemma create_peer_effect:
  assumes "graph_inv s" "create_peer_with_dependencies native s = (r, s')"
  shows "graph_inv s' \<and> persists s s' \<and> accounts m None None s s'"
proof (cases "check_open s")
  case (Inl e)
  with assms show ?thesis by (simp add: create_peer_with_dependencies_def accounts_same)
next
  case (Inr u)
  with assms(2) have "attempt (next_id s) (\<lambda>i s. case native of Inl e \<Rightarrow> (Inl e, s) | Inr _ \<Rightarrow>
        (Inr i, put_peer i \<lparr>sp_value = peer_connection_new (se_readiness s), sp_outstanding = []\<rparr> s))
      = (r, s')" by (simp add: create_peer_with_dependencies_def)
  then show ?thesis
  proof (cases rule: attempt_cases)
    case (1 e)
    with next_id_Inl [OF 1(1)] assms(1) show ?thesis by (simp add: accounts_same)
  next
    case (2 i t)
    note n = next_id_Inr [OF 2(1)] next_id_names [OF assms(1) 2(1)]
    show ?thesis
    proof (cases native)
      case (Inl e)
      with 2(2) n(4) show ?thesis
        by (auto simp: names_graph names_persists accounts_same names_peers)
    next
      case (Inr w)
      let ?v = "\<lparr>sp_value = peer_connection_new (se_readiness s), sp_outstanding = []\<rparr>"
      from Inr 2(2) n(1,2) have s': "s' = s\<lparr>se_next := i + 1, se_peers := se_peers s @ [(i, ?v)],
          se_readiness := se_readiness s'\<rparr>"
        using ids_inv_fresh(1) [OF graph_inv_parts(1) [OF assms(1)]]
        by (auto simp: put_peer_def update_unbound)
      note g = graph_inv_parts [OF assms(1)]
      note f = ids_inv_fresh [OF g(1)]
      have "se_peers s' = se_peers s @ [(i, ?v)]" "se_next s' = se_next s + 1"
        "se_channels s' = se_channels s" "se_senders s' = se_senders s"
        "se_receivers s' = se_receivers s" "se_transceivers s' = se_transceivers s"
        "se_media_tracks s' = se_media_tracks s" "se_media_streams s' = se_media_streams s"
        "se_sources s' = se_sources s" "se_media_sinks s' = se_media_sinks s"
        using n(1) by (subst s'; simp)+
      note e = this
      have "ids_inv s'"
        by (rule ids_inv_insert [OF g(1)]) (use e n(1,3) in \<open>simp_all add: session_ids_def\<close>)
      moreover have "owners s' = owners s" "one_name s' = one_name s" "linked s' = linked s"
        by (simp_all add: owners_def one_name_def linked_def e fun_eq_iff)
      ultimately have "graph_inv s'" using g by (auto simp: graph_inv_def e)
      moreover have "persists s s'" using n(1,3) by (simp add: persists_def e map_of_below less_imp_le)
      moreover have "accounts m None None s s'" using f(1) n(1) unfolding accounts_def
        by (auto simp: e map_add_def split: option.splits)
      ultimately show ?thesis by blast
    qed
  qed
qed

text \<open>Closing: of the peers in \<open>ps\<close>, each takes at most one step.\<close>

definition closing :: "nat \<Rightarrow> u64 set \<Rightarrow> session \<Rightarrow> session \<Rightarrow> bool" where
  "closing m ps s s' \<longleftrightarrow> (\<forall>p. (map_of (se_peers s) p = None \<longrightarrow> map_of (se_peers s') p = None)
     \<and> (\<forall>v. map_of (se_peers s) p = Some v \<longrightarrow> (\<exists>v'. map_of (se_peers s') p = Some v'
         \<and> evolves m None None v v' \<and> (p \<notin> ps \<longrightarrow> v' = v))))"

lemma closing_accounts:
  assumes "closing m ps s s'"
  shows "accounts m None None s s'"
  unfolding accounts_def
proof
  fix p
  show "case map_of (se_peers s) p of
       Some v \<Rightarrow> (\<exists>v'. map_of (se_peers s') p = Some v' \<and> evolves m (part p None) (part p None) v v')
     | None \<Rightarrow> part p None = None \<and> part p None = None \<and> (\<forall>v'. map_of (se_peers s') p = Some v' \<longrightarrow>
         (\<exists>r. v' = \<lparr>sp_value = peer_connection_new r, sp_outstanding = []\<rparr>))"
    using assms [unfolded closing_def, rule_format, of p] by (cases "map_of (se_peers s) p") auto
qed

lemma closing_same: "se_peers s' = se_peers s \<Longrightarrow> closing m ps s s'"
  by (simp add: closing_def)

lemma closing_then: "closing m ps s t \<Longrightarrow> se_peers s' = se_peers t \<Longrightarrow> closing m ps s s'"
  by (simp add: closing_def)

lemma closing_trans:
  assumes "closing m ps s t" "closing m qs t u" "ps \<inter> qs = {}"
  shows "closing m (ps \<union> qs) s u"
  unfolding closing_def
proof
  fix p
  note st = assms(1) [unfolded closing_def, rule_format, of p]
  note tu = assms(2) [unfolded closing_def, rule_format, of p]
  show "(map_of (se_peers s) p = None \<longrightarrow> map_of (se_peers u) p = None)
     \<and> (\<forall>v. map_of (se_peers s) p = Some v \<longrightarrow> (\<exists>v'. map_of (se_peers u) p = Some v'
         \<and> evolves m None None v v' \<and> (p \<notin> ps \<union> qs \<longrightarrow> v' = v)))"
  proof (cases "map_of (se_peers s) p")
    case (Some v)
    with st obtain v1 where v1: "map_of (se_peers t) p = Some v1" "evolves m None None v v1"
      "p \<notin> ps \<longrightarrow> v1 = v" by auto
    with tu obtain v2 where "map_of (se_peers u) p = Some v2" "evolves m None None v1 v2"
      "p \<notin> qs \<longrightarrow> v2 = v1" by auto
    with v1 Some assms(3) show ?thesis by (cases "p \<in> qs") auto
  qed (use st tu in simp)
qed

lemma for_each_peers:
  assumes "\<And>x s r s'. f x s = (r, s') \<Longrightarrow> se_peers s' = se_peers s"
  shows "for_each f xs s = (r, s') \<Longrightarrow> se_peers s' = se_peers s"
proof (induction xs arbitrary: s r s')
  case (Cons x xs)
  from Cons.prems have "attempt (f x s) (\<lambda>_ s. for_each f xs s) = (r, s')" by simp
  then show ?case by (cases rule: attempt_cases) (use assms Cons.IH in \<open>blast, metis\<close>)
qed simp

lemma close_native_peers: "close_native env h s = (r, s') \<Longrightarrow> se_peers s' = se_peers s"
  by (auto simp: close_native_def release_native_def split: sum.splits)

lemma sink_close_peers: "sink_close env sink s = (r, s') \<Longrightarrow> se_peers s' = se_peers s"
  by (cases sink) (auto simp: release_native_def close_native_peers elim!: attempt_cases)

lemma close_sink_of_peers: "(case map_of (se_media_sinks s) i of None \<Rightarrow> (Inr (), s)
    | Some sink \<Rightarrow> sink_close env sink s) = (r, s') \<Longrightarrow> se_peers s' = se_peers s"
  by (cases "map_of (se_media_sinks s) i") (auto simp: sink_close_peers)

lemma close_peer_step: "close_peer sdk a b c pn = (q, pn') \<Longrightarrow>
    peer_step (ClosePeer sdk a b c) pn = Some (Returned, pn')"
  by simp

lemma close_session_peer_closing:
  assumes "sdk_ok m (en_sdk env)" "close_session_peer env p s = (r, s')"
  shows "closing m {p} s s'"
proof (cases "and_then (ok_or (map_of (se_peers s) p) missing) (\<lambda>v.
        and_then (check_control_call env) (\<lambda>_. Inr v))")
  case (Inl e)
  with assms(2) show ?thesis by (simp add: close_session_peer_def closing_same)
next
  case (Inr v)
  then have v: "map_of (se_peers s) p = Some v"
    by (auto simp: and_then_def ok_or_def split: option.splits sum.splits)
  obtain q pn where c: "close_peer (en_sdk env) (en_callback_active env) (en_control_allowed env)
      (en_control_allowed env) (lend (se_readiness s) (sp_value v)) = (q, pn)" by (metis prod.exhaust)
  let ?s = "put_peer p (v\<lparr>sp_value := pn\<rparr>) s"
  have "evolves m None None v (v\<lparr>sp_value := pn\<rparr>)"
    using peer_step_quiet [OF _ close_peer_step [OF c], of m] assms(1) by simp
  with v have k: "closing m {p} s ?s"
    by (auto simp: closing_def update_conv)
  have "attempt (q, ?s) (\<lambda>_ s.
      attempt (for_each (close_native env) (map snd (peer_values p (se_channels s))) s) (\<lambda>_ s.
      for_each (\<lambda>i s. case map_of (se_media_sinks s) i of
            None \<Rightarrow> (Inr (), s) | Some sink \<Rightarrow> sink_close env sink s)
        (map fst (peer_values p (se_receivers s))) s)) = (r, s')"
    using assms(2) Inr c by (simp add: close_session_peer_def)
  then have "se_peers s' = se_peers ?s"
  proof (cases rule: attempt_cases)
    case (2 a t)
    from 2(2) show ?thesis
    proof (cases rule: attempt_cases)
      case (1 e)
      with for_each_peers [OF close_native_peers 1(1)] 2(1) show ?thesis by simp
    next
      case (2 b u)
      with for_each_peers [OF close_native_peers 2(1)] for_each_peers [OF close_sink_of_peers 2(2)]
        \<open>(q, ?s) = (Inr a, t)\<close> show ?thesis by simp
    qed
  qed simp
  with closing_then [OF k] show ?thesis by blast
qed

lemma for_each_closing:
  assumes "sdk_ok m (en_sdk env)"
  shows "distinct ps \<Longrightarrow> for_each (close_session_peer env) ps s = (r, s') \<Longrightarrow> closing m (set ps) s s'"
proof (induction ps arbitrary: s r s')
  case (Cons p ps)
  from Cons.prems(2) have "attempt (close_session_peer env p s)
    (\<lambda>_ s. for_each (close_session_peer env) ps s) = (r, s')" by simp
  then show ?case
  proof (cases rule: attempt_cases)
    case (1 e)
    have "closing m (set ps) s' s'" by (simp add: closing_same)
    from closing_trans [OF close_session_peer_closing [OF assms 1(1)] this] Cons.prems(1)
    show ?thesis by simp
  next
    case (2 a t)
    from closing_trans [OF close_session_peer_closing [OF assms 2(1)] Cons.IH [OF _ 2(2)]] Cons.prems(1)
    show ?thesis by simp
  qed
qed (simp add: closing_same)

lemma shutdown_closing:
  assumes "sdk_ok m (en_sdk env)" "graph_inv s" "shutdown env s = (r, s')"
  shows "closing m UNIV s s'"
proof (cases "se_closed s \<or> (\<exists>e. check_control_call env = Inl e)")
  case True
  with assms(3) show ?thesis by (cases "se_closed s") (auto simp: shutdown_def closing_same)
next
  case False
  then have "attempt (for_each (close_session_peer env) (keys (se_peers s)) s) (\<lambda>_ s.
      attempt (for_each (close_native env) (map snd (se_sources s)) s) (\<lambda>_ s.
      (Inr (), s\<lparr>se_sources := [], se_closed := True,
         se_readiness := snd (notify (se_readiness s))\<rparr>))) = (r, s')"
    using assms(3) by (auto simp: shutdown_def split: sum.splits)
  note d = ids_inv_distinct(1) [OF graph_inv_parts(1) [OF assms(2)]]
  have mono: "closing m UNIV s t" if "closing m ps s t" for ps t
    using that unfolding closing_def by (metis UNIV_I)
  show ?thesis using \<open>attempt _ _ = _\<close>
  proof (cases rule: attempt_cases)
    case (1 e)
    from mono [OF for_each_closing [OF assms(1) d 1(1)]] show ?thesis .
  next
    case (2 a t)
    note k = mono [OF for_each_closing [OF assms(1) d 2(1)]]
    from 2(2) show ?thesis
    proof (cases rule: attempt_cases)
      case (1 e)
      with closing_then [OF k] for_each_peers [OF close_native_peers 1(1)] show ?thesis by simp
    next
      case (2 b u)
      with closing_then [OF k, of s'] for_each_peers [OF close_native_peers 2(1)] show ?thesis by auto
    qed
  qed
qed

subsection \<open>Steps\<close>

lemma other_calls_peers:
  shows "release_media_track_reference i s = (r, s') \<Longrightarrow> se_peers s' = se_peers s"
    "release_media_stream i s = (r, s') \<Longrightarrow> se_peers s' = se_peers s"
    "close_session_source env i s = (r, s') \<Longrightarrow> se_peers s' = se_peers s"
    "close_channel env i s = (r, s') \<Longrightarrow> se_peers s' = se_peers s"
    "close_media_sink env i s = (r, s') \<Longrightarrow> se_peers s' = se_peers s"
    "attach_one sink native i s = (r, s') \<Longrightarrow> se_peers s' = se_peers s"
    "attach_raw_and_encoded_video raw encoded i s = (r, s') \<Longrightarrow> se_peers s' = se_peers s"
proof -
  show "release_media_track_reference i s = (r, s') \<Longrightarrow> se_peers s' = se_peers s"
    "release_media_stream i s = (r, s') \<Longrightarrow> se_peers s' = se_peers s"
    by (auto simp: close_calls split: option.splits)
  show "close_session_source env i s = (r, s') \<Longrightarrow> se_peers s' = se_peers s"
    by (auto simp: close_calls close_native_peers split: option.splits sum.splits elim!: attempt_cases)
  show "close_channel env i s = (r, s') \<Longrightarrow> se_peers s' = se_peers s"
    by (auto simp: close_calls close_native_peers split: sum.splits)
  show "close_media_sink env i s = (r, s') \<Longrightarrow> se_peers s' = se_peers s"
    by (auto simp: close_calls sink_close_peers split: option.splits sum.splits elim!: attempt_cases)
  show "attach_one sink native i s = (r, s') \<Longrightarrow> se_peers s' = se_peers s"
    by (auto simp: attach_one_def split: sum.splits)
  show "attach_raw_and_encoded_video raw encoded i s = (r, s') \<Longrightarrow> se_peers s' = se_peers s"
    by (auto simp: attach_raw_and_encoded_video_def split: sum.splits)
qed

lemma create_source_effect:
  assumes "graph_inv s" "create_raw_video_source native s = (r, s')"
  shows "graph_inv s' \<and> persists s s' \<and> accounts m None None s s'"
proof (cases "check_open s")
  case (Inl e)
  with assms show ?thesis by (simp add: create_raw_video_source_def accounts_same)
next
  case (Inr u)
  with assms(2) have "attempt (next_id s) (\<lambda>i s. case native of Inl e \<Rightarrow> (Inl e, s)
     | Inr v \<Rightarrow> (Inr i, s\<lparr>se_sources := AList.update i v (se_sources s)\<rparr>)) = (r, s')"
    by (simp add: create_raw_video_source_def)
  then show ?thesis
  proof (cases rule: attempt_cases)
    case (1 e)
    with next_id_Inl [OF 1(1)] assms(1) show ?thesis by (simp add: accounts_same)
  next
    case (2 i t)
    note n = next_id_Inr [OF 2(1)] next_id_names [OF assms(1) 2(1)]
    show ?thesis
    proof (cases native)
      case (Inl e)
      with 2(2) n(4) show ?thesis
        by (auto simp: names_graph names_persists accounts_same names_peers)
    next
      case (Inr v)
      note g = graph_inv_parts [OF assms(1)]
      note f = ids_inv_fresh [OF g(1)]
      from Inr 2(2) n(1,2) f(8) have s': "s' = s\<lparr>se_next := i + 1, se_sources := se_sources s @ [(i, v)]\<rparr>"
        by (simp add: update_unbound)
      have "ids_inv s'"
        by (rule ids_inv_insert [OF g(1)]) (use n(1,3) in \<open>simp_all add: s' session_ids_def\<close>)
      moreover have "owners s' = owners s" "one_name s' = one_name s" "linked s' = linked s"
        by (simp_all add: owners_def one_name_def linked_def s' fun_eq_iff)
      ultimately have "graph_inv s'" using g by (auto simp: graph_inv_def s')
      moreover have "persists s s'" using n(1,3) by (simp add: persists_def s' map_of_below less_imp_le)
      ultimately show ?thesis by (simp add: s' accounts_same)
    qed
  qed
qed

text \<open>What a step does, whatever it is.\<close>

definition step_done :: "nat \<Rightarrow> session \<Rightarrow> (session_reply \<times> session) option \<Rightarrow> bool" where
  "step_done m s x \<longleftrightarrow> (\<exists>r s'. x = Some (r, s') \<and> graph_inv s' \<and> persists s s'
     \<and> accounts m (admitted_by r) (settled_in r) s s')"

lemma answer_done:
  assumes "graph_inv s'" "persists s s'" "accounts m None None s s'"
  shows "step_done m s (answer (r, s'))"
  using assms by (simp add: step_done_def answer_def)

lemma names_done: "(\<And>r s'. x = (r, s') \<Longrightarrow> names s s') \<Longrightarrow> step_done m s (answer x)"
  by (cases x) (simp add: answer_done names_graph names_persists accounts_same names_peers)

lemma prunes_done:
  assumes "graph_inv s" "\<And>r s'. x = (r, s') \<Longrightarrow> prunes s s' \<and> accounts m None None s s'"
  shows "step_done m s (answer x)"
  using assms prunes_graph prunes_persists by (cases x) (simp add: answer_done)

lemma request_step_done:
  assumes "graph_inv s" "\<exists>r s'. x = Some (r, s') \<and> prunes s s' \<and> accounts m (outcome_of p r) None s s'"
  shows "step_done m s (admission p x)"
proof -
  from assms(2) obtain r s' where "x = Some (r, s')" "prunes s s'" "accounts m (outcome_of p r) None s s'"
    by blast
  moreover have "admitted_by (case r of Inl _ \<Rightarrow> Answered | Inr i \<Rightarrow> Admitted p i) = outcome_of p r"
    "settled_in (case r of Inl _ \<Rightarrow> Answered | Inr i \<Rightarrow> Admitted p i) = None"
    by (simp_all add: outcome_of_def split: sum.split)
  ultimately show ?thesis using prunes_graph [OF assms(1)] prunes_persists
    by (simp add: step_done_def admission_def)
qed

lemma naming_calls_done:
  assumes "graph_inv s"
  shows "step_done m s (answer (session_senders vs p s))"
    "step_done m s (answer (session_receivers vs p s))"
    "step_done m s (answer (session_transceivers env native p s))"
    "step_done m s (answer (add_session_transceiver env new p s))"
    "step_done m s (answer (peer_streams streams p s))"
    "step_done m s (answer (receiver_streams ws p s))"
    "step_done m s (answer (stream_tracks vs p s))"
    "step_done m s (answer (sender_track_reference w p s))"
    "step_done m s (answer (receiver_track_reference w p s))"
    "step_done m s (answer (stream_find_track w p s))"
    "step_done m s (answer (create_channel_bytes ch p s))"
  by (rule names_done, erule naming_calls_names [OF assms] create_channel_bytes_names [OF assms])+

lemma releasing_calls_done:
  assumes "graph_inv s"
  shows "step_done m s (answer (release_media_track_reference i s))"
    "step_done m s (answer (release_media_stream i s))"
    "step_done m s (answer (close_session_source env i s))"
    "step_done m s (answer (close_channel env i s))"
    "step_done m s (answer (close_media_sink env i s))"
    "step_done m s (answer (attach_one sink native i s))"
    "step_done m s (answer (attach_raw_and_encoded_video raw encoded i s))"
  by (rule prunes_done [OF assms], rule conjI, erule releasing_calls_prune [OF assms],
      rule accounts_same, erule other_calls_peers)+

lemma session_step_done:
  assumes "session_ok m a" "graph_inv s" "peers_inv ledger_inv s" "session_step a s \<noteq> None"
  shows "step_done m s (session_step a s)"
proof -
  note req = request_step_done [OF assms(2)]
  note rel = prunes_done [OF assms(2), of _ m]
  note attach = attach_pcm_def attach_raw_video_def attach_encoded_audio_def attach_encoded_video_def
  show ?thesis
  proof (cases a)
    case (NewPeer native)
    obtain r s' where "create_peer_with_dependencies native s = (r, s')" by (metis prod.exhaust)
    with create_peer_effect [OF assms(2) this] NewPeer show ?thesis by (simp add: answer_done)
  next
    case (CreateSource native)
    obtain r s' where "create_raw_video_source native s = (r, s')" by (metis prod.exhaust)
    with create_source_effect [OF assms(2) this] CreateSource show ?thesis by (simp add: answer_done)
  next
    case (ModifyPeerCandidate sdk remove p c)
    with modify_candidate_accounts [OF assms(2), of m sdk remove p c] assms(1)
      prunes_graph [OF assms(2)] prunes_persists show ?thesis
      by (auto simp: step_done_def)
  next
    case (NativeCallback p cb)
    with native_callback_accounts [OF assms(2), of cb p m] assms(1)
      prunes_graph [OF assms(2)] prunes_persists show ?thesis
      by (simp add: step_done_def)
  next
    case (TakePeerEvent env p)
    with assms(4) obtain r s' where t: "try_peer_event env p s = Some (r, s')" by auto
    have "settled_in (case r of Inr (Some e) \<Rightarrow> Observed p e | _ \<Rightarrow> Answered) = settled_of p r"
      "admitted_by (case r of Inr (Some e) \<Rightarrow> Observed p e | _ \<Rightarrow> Answered) = None"
      by (simp_all add: settled_of_def split: sum.split option.split)
    with try_peer_event_accounts [OF assms(2) t, of m] t TakePeerEvent show ?thesis
      by (simp add: step_done_def)
  next
    case (Request sdk r p)
    with req [OF requests_account(1) [OF assms(2) _ assms(3)]] assms(1) show ?thesis by simp
  next
    case (RequestLegacyStats sdk p sel level)
    with req [OF requests_account(2) [OF assms(2) _ assms(3)]] assms(1) show ?thesis by simp
  next
    case (RequestSelectedSender sdk p sel)
    with req [OF requests_account(3) [OF assms(2) _ assms(3)]] assms(1) show ?thesis by simp
  next
    case (RequestSelectedReceiver sdk p sel)
    with req [OF requests_account(4) [OF assms(2) _ assms(3)]] assms(1) show ?thesis by simp
  next
    case (RequestStatsOfSender sdk i)
    with req [OF requests_account(5) [OF assms(2) _ assms(3)]] assms(1) show ?thesis by simp
  next
    case (RequestStatsOfReceiver sdk i)
    with req [OF requests_account(6) [OF assms(2) _ assms(3)]] assms(1) show ?thesis by simp
  next
    case (CloseSessionPeer env p)
    then have "sdk_ok m (en_sdk env)" using assms(1) by simp
    then show ?thesis unfolding CloseSessionPeer session_step.simps
      using close_session_peer_prunes [OF assms(2)] closing_accounts [OF close_session_peer_closing]
      by (intro rel) blast
  next
    case (Shutdown env)
    then have "sdk_ok m (en_sdk env)" using assms(1) by simp
    then show ?thesis unfolding Shutdown session_step.simps
      using shutdown_prunes [OF assms(2)] closing_accounts [OF shutdown_closing [OF _ assms(2)]]
      by (intro rel) blast
  qed (simp_all add: attach naming_calls_done [OF assms(2)] releasing_calls_done [OF assms(2)])
qed

subsection \<open>The contract of the session's operations\<close>

lemma in_outstanding: "map_of (se_peers s) p = Some v \<Longrightarrow>
    (p, i) \<in> outstanding s \<longleftrightarrow> i \<in> set (sp_outstanding v)"
  by (simp add: outstanding_def)

lemma not_outstanding: "map_of (se_peers s) p = None \<Longrightarrow> (p, i) \<notin> outstanding s"
  by (simp add: outstanding_def)

lemma part_Some: "part p x = Some i \<longleftrightarrow> x = Some (p, i)"
  by (auto simp: part_def bind_eq_Some_conv split: if_splits)

lemma new_entry_ok:
  "entry_ok ledger_inv \<lparr>sp_value = peer_connection_new r, sp_outstanding = []\<rparr>"
  "1 \<le> n \<Longrightarrow> entry_ok (peer_inv n) \<lparr>sp_value = peer_connection_new r, sp_outstanding = []\<rparr>"
  using new_ledger peer_inv_mono [OF peer_connection_new_inv] by (simp_all add: entry_ok_def)

lemma accounts_ledger:
  assumes "accounts m acc out s s'" "peers_inv ledger_inv s"
  shows "peers_inv ledger_inv s'"
    "outstanding s' = outstanding s \<union> set_option acc - set_option out"
    "acc = Some x \<Longrightarrow> x \<notin> outstanding s" "out = Some x \<Longrightarrow> x \<in> outstanding s"
proof -
  note a = assms(1) [unfolded accounts_def, rule_format]
  have known: "\<exists>v'. map_of (se_peers s') p = Some v' \<and> entry_ok ledger_inv v'
      \<and> set (sp_outstanding v') = set (sp_outstanding v) \<union> set_option (part p acc) - set_option (part p out)
      \<and> (\<forall>i. part p acc = Some i \<longrightarrow> i \<notin> set (sp_outstanding v))
      \<and> (\<forall>i. part p out = Some i \<longrightarrow> i \<in> set (sp_outstanding v))"
    if v: "map_of (se_peers s) p = Some v" for p v
  proof -
    obtain v' where v': "map_of (se_peers s') p = Some v'" "evolves m (part p acc) (part p out) v v'"
      using a [of p] v by auto
    with assms(2) v show ?thesis unfolding evolves_def peers_inv_def by blast
  qed
  have unknown: "part p acc = None" "part p out = None"
    "map_of (se_peers s') p = Some v' \<Longrightarrow> entry_ok ledger_inv v' \<and> sp_outstanding v' = []"
    if "map_of (se_peers s) p = None" for p v'
    using a [of p] that new_entry_ok by auto
  show "peers_inv ledger_inv s'" unfolding peers_inv_def
    using known unknown(3) by (metis option.exhaust option.inject)
  have "(p, i) \<in> outstanding s' \<longleftrightarrow> (p, i) \<in> outstanding s \<union> set_option acc - set_option out" for p i
  proof (cases "map_of (se_peers s) p")
    case None
    from unknown [OF None] not_outstanding [OF None] show ?thesis
      using part_Some [of p acc i] by (auto simp: outstanding_def)
  next
    case (Some v)
    from known [OF Some] part_Some [of p acc] part_Some [of p out] show ?thesis
      by (auto simp: in_outstanding [OF Some] in_outstanding)
  qed
  then show "outstanding s' = outstanding s \<union> set_option acc - set_option out" by (auto simp: set_eq_iff)
  show "x \<notin> outstanding s" if "acc = Some x"
  proof (cases "map_of (se_peers s) (fst x)")
    case None
    with not_outstanding show ?thesis by (metis prod.collapse)
  next
    case (Some v)
    from known [OF Some] part_Some [of "fst x" acc "snd x"] that in_outstanding [OF Some, of "snd x"]
    show ?thesis by auto
  qed
  show "x \<in> outstanding s" if "out = Some x"
  proof (cases "map_of (se_peers s) (fst x)")
    case None
    with unknown(2) part_Some [of "fst x" out "snd x"] that show ?thesis by auto
  next
    case (Some v)
    from known [OF Some] part_Some [of "fst x" out "snd x"] that in_outstanding [OF Some, of "snd x"]
    show ?thesis by auto
  qed
qed

lemma accounts_inv:
  assumes "accounts m acc out s s'" "peers_inv (peer_inv n) s" "n + max 1 m < 2 ^ 64"
  shows "peers_inv (peer_inv (n + max 1 m)) s'"
  unfolding peers_inv_def
proof (intro allI impI)
  fix p v' assume v': "map_of (se_peers s') p = Some v'"
  note a = assms(1) [unfolded accounts_def, rule_format, of p]
  show "entry_ok (peer_inv (n + max 1 m)) v'"
  proof (cases "map_of (se_peers s) p")
    case None
    with a v' new_entry_ok(2) [of "n + max 1 m"] show ?thesis by auto
  next
    case (Some v)
    with assms(2) have "entry_ok (peer_inv n) v" by (simp add: peers_inv_def)
    with a v' Some assms(3) show ?thesis by (auto simp: evolves_def)
  qed
qed

definition session_ledger :: "session \<Rightarrow> bool" where
  "session_ledger s \<longleftrightarrow> graph_inv s \<and> peers_inv ledger_inv s"

lemma session_step_ledger:
  assumes "session_ok m a" "session_ledger s" "session_step a s = Some (r, s')"
  shows "session_ledger s'"
    "outstanding s' = outstanding s \<union> set_option (admitted_by r) - set_option (settled_in r)"
    "admitted_by r = Some x \<Longrightarrow> x \<notin> outstanding s \<and> settled_in r = None"
    "settled_in r = Some x \<Longrightarrow> x \<in> outstanding s" "persists s s'"
proof -
  from session_step_done [OF assms(1)] assms(2,3) have d: "graph_inv s'" "persists s s'"
    "accounts m (admitted_by r) (settled_in r) s s'"
    unfolding session_ledger_def step_done_def by fastforce+
  note l = accounts_ledger [OF d(3)]
  have "admitted_by r = Some x \<Longrightarrow> settled_in r = None" for x by (cases r) auto
  with l assms(2) d(1,2) show "session_ledger s'"
    "outstanding s' = outstanding s \<union> set_option (admitted_by r) - set_option (settled_in r)"
    "admitted_by r = Some x \<Longrightarrow> x \<notin> outstanding s \<and> settled_in r = None"
    "settled_in r = Some x \<Longrightarrow> x \<in> outstanding s" "persists s s'"
    unfolding session_ledger_def by blast+
qed

text \<open>The session keeps the contract its peers keep, for the operations of all peers together.\<close>

interpretation session_operations: outcome_ledger session_step session_ledger "session_ok m" outstanding
    admitted_by settled_in for m
  using session_step_ledger by unfold_locales blast+

lemma session_step_total:
  assumes "session_ok m a" "graph_inv s" "peers_inv (peer_inv n) s" "n + max 1 m < 2 ^ 64"
  shows "\<exists>r s'. session_step a s = Some (r, s') \<and> graph_inv s' \<and> peers_inv (peer_inv (n + max 1 m)) s'"
proof -
  have l: "peers_inv ledger_inv s" using assms(3) entry_ok_ledger by (auto simp: peers_inv_def)
  have "session_step a s \<noteq> None"
  proof (cases a)
    case (TakePeerEvent env p)
    with try_peer_event_total [OF assms(2,3)] show ?thesis by simp
  next
    case (ModifyPeerCandidate sdk remove p c)
    with modify_candidate_accounts [OF assms(2), of m sdk remove p c] assms(1) show ?thesis by auto
  qed (use requests_account [OF assms(2) _ l, of m] assms(1)
       in \<open>fastforce simp: admission_def answer_def\<close>)+
  from session_step_done [OF assms(1,2) l this] accounts_inv [OF _ assms(3,4)] show ?thesis
    unfolding step_done_def by blast
qed

lemma session_run_total:
  "list_all (session_ok m) as \<Longrightarrow> graph_inv s \<Longrightarrow> peers_inv (peer_inv n) s
     \<Longrightarrow> n + length as * max 1 m < 2 ^ 64
     \<Longrightarrow> \<exists>rs s'. run_steps session_step as s = Some (rs, s') \<and> graph_inv s'
         \<and> peers_inv (peer_inv (n + length as * max 1 m)) s'"
proof (induction as arbitrary: n s)
  case (Cons a as)
  have "n + max 1 m < 2 ^ 64" using Cons.prems(4) by simp
  with Cons.prems obtain r t where t: "session_step a s = Some (r, t)" "graph_inv t"
    "peers_inv (peer_inv (n + max 1 m)) t" using session_step_total [of m a s n] by auto
  have "n + max 1 m + length as * max 1 m < 2 ^ 64" using Cons.prems(4) by simp
  from Cons.IH [OF _ t(2,3) this] Cons.prems(1) t(1) show ?case
    by (auto simp: add.assoc)
qed simp

lemma session_new_ok: "graph_inv (session_new n)" "peers_inv P (session_new n)"
  "session_ledger (session_new n)" "outstanding (session_new n) = {}"
  by (simp_all add: session_ledger_def graph_inv_def ids_inv_def session_ids_def owners_def one_name_def
      sinks_ok_def peers_inv_def outstanding_def session_new_def)

lemma session_run_persists:
  "run_steps session_step as s = Some (rs, s') \<Longrightarrow> list_all (session_ok m) as \<Longrightarrow> session_ledger s
     \<Longrightarrow> persists s s'"
proof (induction as arbitrary: s rs)
  case (Cons a as)
  from Cons.prems(1) obtain r t rs' where t: "session_step a s = Some (r, t)"
    "run_steps session_step as t = Some (rs', s')" by (auto simp: run_steps_Cons simp del: run_steps.simps)
  note l = session_step_ledger [OF _ Cons.prems(3) t(1), of m]
  have "session_ok m a" "list_all (session_ok m) as" using Cons.prems(2) by simp_all
  with l(1,5) Cons.IH [OF t(2)] persists_trans show ?case by blast
qed simp

subsection \<open>Accounting over executions\<close>

definition mute_sdk :: sdk where
  "mute_sdk = \<lparr>sdk_parse_description = (\<lambda>_ _. Inl []), sdk_parse_candidate = (\<lambda>_ _ _. Inl []),
     sdk_callbacks = (\<lambda>_. []), sdk_accepts = (\<lambda>_. True), sdk_error = (\<lambda>_. (0, []))\<rparr>"

definition calm :: environment where
  "calm = \<lparr>en_sdk = mute_sdk, en_callback_active = False, en_control_allowed = True,
     en_close = (\<lambda>_. Inr ()), en_transceiver = (\<lambda>v. (v + 100, v + 200)), en_label = (\<lambda>_. [])\<rparr>"

text \<open>Two peers; a request of each, a transceiver with a sink, and the closing of the first peer.\<close>

definition sample_session :: "session_action list" where
  "sample_session = [NewPeer (Inr ()), NewPeer (Inr ()), Request mute_sdk RequestStats 1,
     Request mute_sdk RequestStats 2, AddTransceiver calm (Inr 7) 1,
     AttachRawAndEncodedVideo (\<lambda>_. Inr 11) (\<lambda>_. Inr 12) 3, CloseSessionPeer calm 1]"

definition sample_open :: "session_action list" where
  "sample_open = butlast sample_session"

lemma mute_sdk_ok: "sdk_ok 0 mute_sdk"
  by (simp add: sdk_ok_def mute_sdk_def)

lemma sample_session_ok: "list_all (session_ok 0) sample_session"
  using mute_sdk_ok by (simp add: sample_session_def calm_def)

lemmas session_steps = create_peer_with_dependencies_def check_open_def next_id_def put_peer_def answer_def
  admission_def operation_def operation_for_def submit_operation_def lend_def and_then_def ok_or_def
  into_legacy_def add_session_transceiver_def require_peer_def insert_transceiver_def insert_sender_def
  insert_receiver_def find_resource_def attach_raw_and_encoded_video_def receiver_without_sink_def
  close_session_peer_def check_control_call_def peer_values_def release_native_def close_native_def

lemma sample_session_run: "\<exists>s. run_steps session_step sample_session (session_new 1)
     = Some ([Answered, Answered, Admitted 1 1, Admitted 2 1, Answered, Answered, Answered], s)
   \<and> map_of (se_media_sinks s) 3 = Some (SinkRawAndEncodedVideo 11 12) \<and> se_released s = [12, 11]
   \<and> map_option (pn_closed \<circ> sp_value) (map_of (se_peers s) 1) = Some True
   \<and> se_next s = 6 \<and> map_of (se_receivers s) 3 = Some \<lparr>res_peer = 1, res_value = 207\<rparr>"
  by (simp add: session_steps sample_steps sample_values sample_session_def session_new_def calm_def
      mute_sdk_def peer_connection_new_def event_state_new_def)


lemma sample_open_ok: "list_all (session_ok 0) sample_open"
  using mute_sdk_ok by (simp add: sample_open_def sample_session_def calm_def)

lemma sample_open_run: "\<exists>s v s' s''. run_steps session_step sample_open (session_new 1)
     = Some ([Answered, Answered, Admitted 1 1, Admitted 2 1, Answered, Answered], s)
   \<and> map_of (se_peers s) 1 = Some v \<and> sp_outstanding v = [1] \<and> map fst (se_peers s) = [1, 2]
   \<and> \<not> se_closed s \<and> close_session_peer calm 1 s = (Inr (), s') \<and> shutdown calm s = (Inr (), s'')"
  by (simp add: session_steps sample_steps sample_values sample_session_def sample_open_def
      session_new_def calm_def mute_sdk_def peer_connection_new_def event_state_new_def shutdown_def)

text \<open>C4. The session settles every accepted operation exactly once.  Over any interleaving of calls,
  SDK callbacks, event taking and closing, an operation of a peer was accepted as often as an outcome
  of it was taken from that peer, plus one if it is outstanding; what the session counts as
  outstanding is what the native peer has under way, at most 64 operations of each peer.\<close>

theorem session_settles_exactly_once:
  assumes "list_all (session_ok m) as" "run_steps session_step as (session_new n) = Some (rs, s)"
  shows "occurrences admitted_by (p, i) rs
       = occurrences settled_in (p, i) rs + of_bool ((p, i) \<in> outstanding s)
    \<and> (\<forall>v. map_of (se_peers s) p = Some v \<longrightarrow> distinct (sp_outstanding v)
         \<and> set (sp_outstanding v) = under_way (sp_value v) \<and> length (sp_outstanding v) \<le> 64)"
proof (intro conjI allI impI)
  show "occurrences admitted_by (p, i) rs
       = occurrences settled_in (p, i) rs + of_bool ((p, i) \<in> outstanding s)"
    using session_operations.run_balance [OF assms(2,1) session_new_ok(3), of "(p, i)"]
    by (simp add: session_new_ok)
  fix v assume v: "map_of (se_peers s) p = Some v"
  have "session_ledger s" using session_operations.run_inv [OF assms(2,1) session_new_ok(3)] .
  with v have e: "entry_ok ledger_inv v" by (simp add: session_ledger_def peers_inv_def)
  then show "distinct (sp_outstanding v)" "set (sp_outstanding v) = under_way (sp_value v)"
    by (simp_all add: entry_ok_def)
  with e card_under_way [of "sp_value v"] show "length (sp_outstanding v) \<le> 64"
    by (metis distinct_card entry_ok_def)
qed

lemma session_settles_exactly_once_witness:
  "\<exists>s. run_steps session_step sample_session (session_new 1)
     = Some ([Answered, Answered, Admitted 1 1, Admitted 2 1, Answered, Answered, Answered], s)
   \<and> (1, 1) \<in> outstanding s \<and> (2, 1) \<in> outstanding s \<and> (1, 2) \<notin> outstanding s"
proof -
  let ?rs = "[Answered, Answered, Admitted 1 1, Admitted 2 1, Answered, Answered, Answered]"
  obtain s where r: "run_steps session_step sample_session (session_new 1) = Some (?rs, s)"
    using sample_session_run by blast
  note once = session_settles_exactly_once [OF sample_session_ok r, THEN conjunct1]
  have "(1, 1) \<in> outstanding s" using once [of 1 1] by (cases "(1, 1) \<in> outstanding s") simp_all
  moreover have "(2, 1) \<in> outstanding s" using once [of 2 1] by (cases "(2, 1) \<in> outstanding s") simp_all
  moreover have "(1, 2) \<notin> outstanding s" using once [of 1 2] by (cases "(1, 2) \<in> outstanding s") simp_all
  ultimately show ?thesis using r by blast
qed

text \<open>C8. No call on a session panics.  Any sequence of calls and callbacks, fewer than \<open>2 ^ 64\<close> in
  all, runs to its end: every event that is taken can be decoded and every identifier the session
  looks up without a check is known.\<close>

theorem session_never_panics:
  assumes "list_all (session_ok m) as" "Suc (length as * max 1 m) < 2 ^ 64"
  shows "\<exists>rs s. run_steps session_step as (session_new n) = Some (rs, s)
    \<and> (\<forall>p v. map_of (se_peers s) p = Some v \<longrightarrow> length (es_events (pn_events (sp_value v))) \<le> 199)"
proof -
  obtain rs s where r: "run_steps session_step as (session_new n) = Some (rs, s)"
    "peers_inv (peer_inv (1 + length as * max 1 m)) s"
    using session_run_total [OF assms(1) session_new_ok(1) [of n] session_new_ok(2) [of "peer_inv 1" n]]
      assms(2) by auto
  have "length (es_events (pn_events (sp_value v))) \<le> 199" if "map_of (se_peers s) p = Some v" for p v
  proof -
    from r(2) that have "peer_inv (1 + length as * max 1 m) (sp_value v)"
      by (auto simp: peers_inv_def entry_ok_def)
    then show ?thesis by (intro queue_length_bound) (simp_all add: peer_inv_def ledger_inv_def)
  qed
  with r(1) show ?thesis by blast
qed

lemma session_never_panics_witness:
  "\<exists>rs s. run_steps session_step sample_session (session_new 5) = Some (rs, s)
    \<and> (\<forall>p v. map_of (se_peers s) p = Some v \<longrightarrow> length (es_events (pn_events (sp_value v))) \<le> 199)"
  by (rule session_never_panics [OF sample_session_ok]) (simp add: sample_session_def)

subsection \<open>The graph over executions\<close>

text \<open>C6. The graph stays sound.  After any run, no identifier names two objects, of whatever kinds; a
  sender, receiver or transceiver of a peer and a track or stream has one identifier only; the
  sender and the receiver of a transceiver are known and of its peer; the owner of every object is a
  peer of the session, and only known receivers have a sink, one at most.\<close>

theorem session_graph_sound:
  assumes "list_all (session_ok m) as" "run_steps session_step as (session_new n) = Some (rs, s)"
  shows "distinct (session_ids s) \<and> set (owners s) \<subseteq> set (map fst (se_peers s))
    \<and> distinct (map snd (se_senders s)) \<and> distinct (map snd (se_receivers s))
    \<and> distinct (map (\<lambda>(_, r). (res_peer r, tr_value (res_value r))) (se_transceivers s))
    \<and> distinct (map (res_value \<circ> snd) (se_media_tracks s))
    \<and> distinct (map (res_value \<circ> snd) (se_media_streams s))
    \<and> (\<forall>i t. map_of (se_transceivers s) i = Some t \<longrightarrow>
         map_option res_peer (map_of (se_senders s) (tr_sender (res_value t))) = Some (res_peer t)
         \<and> map_option res_peer (map_of (se_receivers s) (tr_receiver (res_value t))) = Some (res_peer t))
    \<and> distinct (map fst (se_media_sinks s))
    \<and> set (map fst (se_media_sinks s)) \<subseteq> set (map fst (se_receivers s))"
proof -
  have "session_ledger s" using session_operations.run_inv [OF assms(2,1) session_new_ok(3)] .
  then have "graph_inv s" by (simp add: session_ledger_def)
  note g = graph_inv_parts [OF this]
  have "linked s t" if "map_of (se_transceivers s) i = Some t" for i t
    using g(4) map_of_SomeD [OF that] by blast
  with g(1-3,5) show ?thesis by (simp add: ids_inv_def one_name_def sinks_ok_def linked_def)
qed

lemma session_graph_sound_witness:
  "\<exists>s. run_steps session_step sample_session (session_new 1)
     = Some ([Answered, Answered, Admitted 1 1, Admitted 2 1, Answered, Answered, Answered], s)
   \<and> distinct (session_ids s) \<and> 3 \<in> set (map fst (se_receivers s))"
proof -
  obtain s where r: "run_steps session_step sample_session (session_new 1)
     = Some ([Answered, Answered, Admitted 1 1, Admitted 2 1, Answered, Answered, Answered], s)"
    "map_of (se_media_sinks s) 3 = Some (SinkRawAndEncodedVideo 11 12)"
    using sample_session_run by blast
  note g = session_graph_sound [OF sample_session_ok r(1)]
  have "3 \<in> set (map fst (se_media_sinks s))" using map_of_SomeD [OF r(2)] by force
  with g r(1) show ?thesis by blast
qed

text \<open>C7. An identifier never changes its meaning.  Whatever happens between two moments of a session,
  an identifier that had been given by the first is, at the second, a channel, sender, receiver or
  transceiver exactly as it was, and a track, stream or source as it was or released for ever: a
  released identifier is never given again.\<close>

theorem identifiers_keep_their_meaning:
  assumes "list_all (session_ok m) (as @ bs)" "run_steps session_step as (session_new n) = Some (rs, s)"
    "run_steps session_step bs s = Some (rs', s')" "i < se_next s"
  shows "map_of (se_channels s') i = map_of (se_channels s) i
    \<and> map_of (se_senders s') i = map_of (se_senders s) i
    \<and> map_of (se_receivers s') i = map_of (se_receivers s) i
    \<and> map_of (se_transceivers s') i = map_of (se_transceivers s) i
    \<and> map_of (se_media_tracks s') i \<in> {None, map_of (se_media_tracks s) i}
    \<and> map_of (se_media_streams s') i \<in> {None, map_of (se_media_streams s) i}
    \<and> map_of (se_sources s') i \<in> {None, map_of (se_sources s) i}
    \<and> (i \<in> set (map fst (se_peers s')) \<longleftrightarrow> i \<in> set (map fst (se_peers s)))"
proof -
  have l: "list_all (session_ok m) as" "list_all (session_ok m) bs" using assms(1) by simp_all
  have "session_ledger s" using session_operations.run_inv [OF assms(2) l(1) session_new_ok(3)] .
  from session_run_persists [OF assms(3) l(2) this] have p: "persists s s'" .
  have "(i \<in> set (map fst (se_peers s'))) = (i \<in> set (map fst (se_peers s)))"
    using p assms(4) map_of_eq_None_iff [of "se_peers s'" i] map_of_eq_None_iff [of "se_peers s" i]
    by (auto simp: persists_def)
  with p assms(4) show ?thesis by (simp add: persists_def)
qed

lemma identifiers_keep_their_meaning_witness:
  "\<exists>s rs s'. run_steps session_step sample_session (session_new 1)
     = Some ([Answered, Answered, Admitted 1 1, Admitted 2 1, Answered, Answered, Answered], s)
   \<and> run_steps session_step [ReleaseTrack 9, Senders [107, 3] 1] s = Some (rs, s')
   \<and> map_of (se_receivers s') 3 = Some \<lparr>res_peer = 1, res_value = 207\<rparr>"
proof -
  obtain s where r: "run_steps session_step sample_session (session_new 1)
     = Some ([Answered, Answered, Admitted 1 1, Admitted 2 1, Answered, Answered, Answered], s)"
    "se_next s = 6" "map_of (se_receivers s) 3 = Some \<lparr>res_peer = 1, res_value = 207\<rparr>"
    using sample_session_run by blast
  let ?bs = "[ReleaseTrack 9, Senders [107, 3] 1]"
  obtain rs s' where b: "run_steps session_step ?bs s = Some (rs, s')"
    by (auto simp: answer_def)
  have "list_all (session_ok 0) (sample_session @ ?bs)" using sample_session_ok by simp
  from identifiers_keep_their_meaning [OF this r(1) b, of 3] r b show ?thesis by auto
qed

end
