(* ===== verification/SessionClosing.thy ===== *)
theory SessionClosing
  imports SessionHistory
begin

text \<open>
  Closing a peer and shutting down: closing a peer reaches its own objects only, and a session that is shut down still yields every outcome it owes.
\<close>

subsection \<open>Sinks\<close>

fun sink_handles :: "media_sink \<Rightarrow> nat set" where
  "sink_handles (SinkPcm h) = {h}"
| "sink_handles (SinkRawVideo h) = {h}"
| "sink_handles (SinkEncodedAudio h) = {h}"
| "sink_handles (SinkEncodedVideo h) = {h}"
| "sink_handles (SinkRawAndEncodedVideo raw encoded) = {raw, encoded}"

subsection \<open>Closing a peer\<close>

lemma close_natives_released:
  "for_each (close_native env) hs s = (Inr (), s') \<Longrightarrow> s' = s\<lparr>se_released := rev hs @ se_released s\<rparr>"
proof (induction hs arbitrary: s)
  case (Cons h hs)
  from Cons.prems have "attempt (close_native env h s) (\<lambda>_ s. for_each (close_native env) hs s) = (Inr (), s')"
    by simp
  then show ?case
  proof (cases rule: attempt_cases)
    case (2 a t)
    then have "t = s\<lparr>se_released := h # se_released s\<rparr>"
      by (auto simp: close_native_def release_native_def split: sum.splits)
    with Cons.IH [OF 2(2)] show ?thesis by simp
  qed simp
qed simp

lemma sink_closed_released:
  assumes "sink_close env sink s = (Inr (), s')"
  shows "\<exists>hs. set hs = sink_handles sink \<and> s' = s\<lparr>se_released := hs @ se_released s\<rparr>"
proof -
  have one: "\<exists>hs. set hs = {h} \<and> s' = s\<lparr>se_released := hs @ se_released s\<rparr>"
    if "close_native env h s = (Inr (), s') \<or> release_native h s = (Inr (), s')" for h s s'
    using that by (intro exI [of _ "[h]"]) (auto simp: close_native_def release_native_def split: sum.splits)
  show ?thesis
  proof (cases sink)
    case (SinkRawAndEncodedVideo raw encoded)
    with assms have "attempt (close_native env raw s) (\<lambda>_ s. release_native encoded s) = (Inr (), s')"
      by simp
    then show ?thesis
    proof (cases rule: attempt_cases)
      case (2 a t)
      then have "s' = s\<lparr>se_released := [encoded, raw] @ se_released s\<rparr>"
        by (auto simp: close_native_def release_native_def split: sum.splits)
      moreover have "set [encoded, raw] = sink_handles sink" using SinkRawAndEncodedVideo by auto
      ultimately show ?thesis by blast
    qed simp
  qed (use assms one in auto)
qed

abbreviation close_sink_at :: "environment \<Rightarrow> u64 \<Rightarrow> session \<Rightarrow> unit outcome" where
  "close_sink_at env i s \<equiv> (case map_of (se_media_sinks s) i of
       None \<Rightarrow> (Inr (), s) | Some sink \<Rightarrow> sink_close env sink s)"

lemma close_sinks_released:
  "for_each (close_sink_at env) ids s = (Inr (), s') \<Longrightarrow>
     \<exists>hs. set hs = \<Union> {sink_handles k |i k. i \<in> set ids \<and> map_of (se_media_sinks s) i = Some k}
       \<and> s' = s\<lparr>se_released := hs @ se_released s\<rparr>"
proof (induction ids arbitrary: s)
  case Nil
  then show ?case by (intro exI [of _ "[]"]) simp
next
  case (Cons i ids)
  from Cons.prems have "attempt (close_sink_at env i s) (\<lambda>_ s. for_each (close_sink_at env) ids s) = (Inr (), s')"
    by simp
  then show ?case
  proof (cases rule: attempt_cases)
    case (2 a t)
    obtain hs where hs: "set hs = \<Union> {sink_handles k |k. map_of (se_media_sinks s) i = Some k}"
      "t = s\<lparr>se_released := hs @ se_released s\<rparr>"
    proof (cases "map_of (se_media_sinks s) i")
      case None
      with 2(1) show thesis by (intro that [of "[]"]) auto
    next
      case (Some k)
      with 2(1) have "sink_close env k s = (Inr (), t)" by simp
      with sink_closed_released obtain hs where "set hs = sink_handles k"
        "t = s\<lparr>se_released := hs @ se_released s\<rparr>" by blast
      with Some show thesis by (intro that [of hs]) auto
    qed
    from Cons.IH [OF 2(2)] hs(2) obtain hs' where
      "set hs' = \<Union> {sink_handles k |i k. i \<in> set ids \<and> map_of (se_media_sinks s) i = Some k}"
      "s' = s\<lparr>se_released := hs' @ hs @ se_released s\<rparr>" by auto
    with hs(1) show ?thesis by (intro exI [of _ "hs' @ hs"]) auto
  qed simp
qed

lemma peer_values_sets:
  "set (map snd (peer_values p m)) = res_value ` {r. \<exists>i. (i, r) \<in> set m \<and> res_peer r = p}"
  "i \<in> set (map fst (peer_values p m)) \<longleftrightarrow> (\<exists>r. (i, r) \<in> set m \<and> res_peer r = p)"
  by (force simp: peer_values_def)+

lemma close_peer_closes:
  assumes "close_peer sdk a b c pn = (Inr (), pn')"
  shows "pn_closed pn'"
  using assms by (auto simp: close_peer_def close_peer_connection_def Let_def split: if_splits prod.splits)

lemma close_session_peer_Inr:
  assumes "close_session_peer env p s = (Inr (), s')"
  obtains v pn hs where "map_of (se_peers s) p = Some v" "pn_closed pn" "check_control_call env = Inr ()"
    "set hs = res_value ` {r. \<exists>i. (i, r) \<in> set (se_channels s) \<and> res_peer r = p}
       \<union> \<Union> {sink_handles k |i r k. (i, r) \<in> set (se_receivers s) \<and> res_peer r = p
            \<and> map_of (se_media_sinks s) i = Some k}"
    "s' = (put_peer p (v\<lparr>sp_value := pn\<rparr>) s)\<lparr>se_released := hs @ se_released s\<rparr>"
proof (cases "and_then (ok_or (map_of (se_peers s) p) missing) (\<lambda>v.
        and_then (check_control_call env) (\<lambda>_. Inr v))")
  case (Inr v)
  then have v: "map_of (se_peers s) p = Some v" "check_control_call env = Inr ()"
    by (auto simp: and_then_def ok_or_def split: option.splits sum.splits)
  obtain q pn where c: "close_peer (en_sdk env) (en_callback_active env) (en_control_allowed env)
      (en_control_allowed env) (lend (se_readiness s) (sp_value v)) = (q, pn)" by (metis prod.exhaust)
  let ?s = "put_peer p (v\<lparr>sp_value := pn\<rparr>) s"
  have "attempt (q, ?s) (\<lambda>_ s.
      attempt (for_each (close_native env) (map snd (peer_values p (se_channels s))) s) (\<lambda>_ s.
      for_each (close_sink_at env) (map fst (peer_values p (se_receivers s))) s)) = (Inr (), s')"
    using assms Inr c by (simp add: close_session_peer_def)
  then show thesis
  proof (cases rule: attempt_cases)
    case (2 a t)
    then have t: "q = Inr ()" "t = ?s" by auto
    from 2(2) show thesis
    proof (cases rule: attempt_cases)
      case 2: (2 b u)
      from 2(1) have u: "u = t\<lparr>se_released := rev (map snd (peer_values p (se_channels t))) @ se_released t\<rparr>"
        by (intro close_natives_released) simp
      have "for_each (close_sink_at env) (map fst (peer_values p (se_receivers u))) u = (Inr (), s')"
        using 2(2) .
      from close_sinks_released [OF this] obtain hs where hs:
        "set hs = \<Union> {sink_handles k |i k. i \<in> set (map fst (peer_values p (se_receivers u)))
           \<and> map_of (se_media_sinks u) i = Some k}"
        "s' = u\<lparr>se_released := hs @ se_released u\<rparr>" by blast
      let ?hs = "hs @ rev (map snd (peer_values p (se_channels s)))"
      have "s' = ?s\<lparr>se_released := ?hs @ se_released s\<rparr>"
        using hs(2) u t(2) by (simp add: put_peer_def)
      moreover have "set ?hs = res_value ` {r. \<exists>i. (i, r) \<in> set (se_channels s) \<and> res_peer r = p}
       \<union> \<Union> {sink_handles k |i r k. (i, r) \<in> set (se_receivers s) \<and> res_peer r = p
            \<and> map_of (se_media_sinks s) i = Some k}"
      proof -
        have "se_receivers u = se_receivers s" "se_media_sinks u = se_media_sinks s"
          using u t(2) by (simp_all add: put_peer_def)
        moreover have "{sink_handles k |i k. i \<in> set (map fst (peer_values p m)) \<and> map_of sinks i = Some k}
            = {sink_handles k |i r k. (i, r) \<in> set m \<and> res_peer r = p \<and> map_of sinks i = Some k}"
          for m :: "(u64 \<times> nat resource) list" and sinks unfolding peer_values_sets(2) by blast
        ultimately have "set hs = \<Union> {sink_handles k |i r k. (i, r) \<in> set (se_receivers s)
            \<and> res_peer r = p \<and> map_of (se_media_sinks s) i = Some k}"
          using hs(1) by (simp only:)
        moreover have "set ?hs = set (map snd (peer_values p (se_channels s))) \<union> set hs"
          by (simp only: set_append set_rev Un_commute)
        ultimately show ?thesis using peer_values_sets(1) [of p "se_channels s"] by (simp only:)
      qed
      moreover have "pn_closed pn" using close_peer_closes c t(1) by blast
      ultimately show thesis by (intro that [OF v(1) _ v(2)])
    qed simp
  qed simp
qed (use assms in \<open>simp add: close_session_peer_def\<close>)

text \<open>C9. Closing a peer stops that peer and what hangs on it, and nothing else.  When the call
  succeeds the peer is closed, the channels of the peer and the sinks of its receivers have been
  closed and no other object; its outstanding operations stay outstanding, its identifiers known,
  the other peers untouched.  A call from a thread that may not close changes nothing.\<close>

theorem closing_a_peer_is_local:
  assumes "close_session_peer env p s = (r, s')" "map_of (se_peers s) p = Some v"
  shows "(r = Inr () \<longrightarrow>
      (\<exists>v'. map_of (se_peers s') p = Some v' \<and> pn_closed (sp_value v')
        \<and> sp_outstanding v' = sp_outstanding v)
      \<and> (\<forall>q. q \<noteq> p \<longrightarrow> map_of (se_peers s') q = map_of (se_peers s) q)
      \<and> set (se_released s') = set (se_released s)
          \<union> res_value ` {c. \<exists>i. (i, c) \<in> set (se_channels s) \<and> res_peer c = p}
          \<union> \<Union> {sink_handles k |i c k. (i, c) \<in> set (se_receivers s) \<and> res_peer c = p
               \<and> map_of (se_media_sinks s) i = Some k}
      \<and> session_ids s' = session_ids s \<and> se_media_sinks s' = se_media_sinks s
      \<and> se_closed s' = se_closed s)
    \<and> (\<forall>e. check_control_call env = Inl e \<longrightarrow> r = Inl e \<and> s' = s)"
proof (intro conjI [where P = "r = Inr () \<longrightarrow> _"] impI)
  show "\<forall>e. check_control_call env = Inl e \<longrightarrow> r = Inl e \<and> s' = s"
    using assms by (auto simp: close_session_peer_def and_then_def ok_or_def)
next
  assume "r = Inr ()"
  with assms(1) have c: "close_session_peer env p s = (Inr (), s')" by simp
  obtain w pn hs where w: "map_of (se_peers s) p = Some w"
    "pn_closed pn" "check_control_call env = Inr ()" "set hs = res_value ` {r. \<exists>i. (i, r) \<in> set (se_channels s) \<and> res_peer r = p}
       \<union> \<Union> {sink_handles k |i r k. (i, r) \<in> set (se_receivers s) \<and> res_peer r = p
            \<and> map_of (se_media_sinks s) i = Some k}"
    "s' = (put_peer p (w\<lparr>sp_value := pn\<rparr>) s)\<lparr>se_released := hs @ se_released s\<rparr>"
    by (rule close_session_peer_Inr [OF c])
  have "w = v" using w(1) assms(2) by simp
  have "p \<in> set (map fst (se_peers s))" using map_of_SomeD [OF w(1)] by force
  then have ids: "session_ids s' = session_ids s"
    by (simp add: w(5) session_ids_def put_peer_def update_keys)
  have rel: "se_released s' = hs @ se_released s" by (simp add: w(5))
  have "set (se_released s') = set (se_released s) \<union> set hs" unfolding rel by (simp only: set_append Un_commute)
  then have "set (se_released s') = set (se_released s)
          \<union> res_value ` {c. \<exists>i. (i, c) \<in> set (se_channels s) \<and> res_peer c = p}
          \<union> \<Union> {sink_handles k |i c k. (i, c) \<in> set (se_receivers s) \<and> res_peer c = p
               \<and> map_of (se_media_sinks s) i = Some k}" unfolding w(4) by (simp only: Un_assoc)
  moreover have "map_of (se_peers s') p = Some (v\<lparr>sp_value := pn\<rparr>)"
    "\<forall>q. q \<noteq> p \<longrightarrow> map_of (se_peers s') q = map_of (se_peers s) q"
    "se_media_sinks s' = se_media_sinks s" "se_closed s' = se_closed s"
    using \<open>w = v\<close> by (simp_all add: w(5) put_peer_def update_conv)
  ultimately show "(\<exists>v'. map_of (se_peers s') p = Some v' \<and> pn_closed (sp_value v')
        \<and> sp_outstanding v' = sp_outstanding v)
      \<and> (\<forall>q. q \<noteq> p \<longrightarrow> map_of (se_peers s') q = map_of (se_peers s) q)
      \<and> set (se_released s') = set (se_released s)
          \<union> res_value ` {c. \<exists>i. (i, c) \<in> set (se_channels s) \<and> res_peer c = p}
          \<union> \<Union> {sink_handles k |i c k. (i, c) \<in> set (se_receivers s) \<and> res_peer c = p
               \<and> map_of (se_media_sinks s) i = Some k}
      \<and> session_ids s' = session_ids s \<and> se_media_sinks s' = se_media_sinks s
      \<and> se_closed s' = se_closed s"
    using w(2) ids by (intro conjI exI [of _ "v\<lparr>sp_value := pn\<rparr>"]) simp_all
qed

lemma closing_a_peer_is_local_witness:
  "\<exists>s s' v. run_steps session_step sample_open (session_new 1)
       = Some ([Answered, Answered, Admitted 1 1, Admitted 2 1, Answered, Answered], s)
     \<and> close_session_peer calm 1 s = (Inr (), s')
     \<and> map_of (se_peers s') 1 = Some v \<and> pn_closed (sp_value v) \<and> sp_outstanding v = [1]
     \<and> map_of (se_peers s') 2 = map_of (se_peers s) 2"
proof -
  obtain s v s' where r: "run_steps session_step sample_open (session_new 1)
       = Some ([Answered, Answered, Admitted 1 1, Admitted 2 1, Answered, Answered], s)"
    "map_of (se_peers s) 1 = Some v" "sp_outstanding v = [1]"
    "close_session_peer calm 1 s = (Inr (), s')" using sample_open_run by blast
  note local = closing_a_peer_is_local [OF r(4,2), THEN conjunct1, THEN mp, OF refl]
  from local obtain v' where "map_of (se_peers s') 1 = Some v'" "pn_closed (sp_value v')"
    "sp_outstanding v' = [1]" using r(3) by auto
  moreover have "map_of (se_peers s') 2 = map_of (se_peers s) 2" using local by simp
  ultimately show ?thesis using r(1,4) by blast
qed

subsection \<open>Shutting down\<close>

definition closed_peer :: "u64 \<Rightarrow> session \<Rightarrow> bool" where
  "closed_peer p s \<longleftrightarrow> (\<exists>v. map_of (se_peers s) p = Some v \<and> pn_closed (sp_value v))"

lemma close_session_peer_closed:
  assumes "close_session_peer env p s = (Inr (), s')"
  shows "closed_peer p s'" "closed_peer q s \<Longrightarrow> closed_peer q s'" "se_closed s' = se_closed s"
  using assms
  by (auto elim!: close_session_peer_Inr simp: closed_peer_def put_peer_def update_conv)

lemma all_closed:
  "for_each (close_session_peer env) ps s = (Inr (), s') \<Longrightarrow>
     (\<forall>p \<in> set ps. closed_peer p s') \<and> (\<forall>q. closed_peer q s \<longrightarrow> closed_peer q s')"
proof (induction ps arbitrary: s)
  case (Cons p ps)
  from Cons.prems have "attempt (close_session_peer env p s) (\<lambda>_ s. for_each (close_session_peer env) ps s)
    = (Inr (), s')" by simp
  then show ?case
  proof (cases rule: attempt_cases)
    case (2 a t)
    then have "close_session_peer env p s = (Inr (), t)" by simp
    from close_session_peer_closed [OF this] Cons.IH [OF 2(2)] show ?thesis by auto
  qed simp
qed simp

lemma shutdown_closes:
  assumes "shutdown env s = (Inr (), s')" "\<not> se_closed s" "graph_inv s"
  shows "se_closed s'" "p \<in> set (map fst (se_peers s')) \<Longrightarrow> closed_peer p s'" "se_sources s' = []"
proof -
  obtain t u where t: "for_each (close_session_peer env) (keys (se_peers s)) s = (Inr (), t)"
    and u: "for_each (close_native env) (map snd (se_sources t)) t = (Inr (), u)"
    and s': "s' = u\<lparr>se_sources := [], se_closed := True, se_readiness := snd (notify (se_readiness u))\<rparr>"
    using assms(1,2) by (auto simp: shutdown_def split: sum.splits elim!: attempt_cases)
  have "se_peers s' = se_peers t"
    using for_each_peers [OF close_native_peers u] by (simp add: s')
  moreover have "map fst (se_peers s') = map fst (se_peers s)"
    using shutdown_prunes [OF assms(3,1)] by (simp add: prunes_def)
  ultimately show "p \<in> set (map fst (se_peers s')) \<Longrightarrow> closed_peer p s'"
    using all_closed [OF t] by (simp add: closed_peer_def del: set_map)
  show "se_closed s'" "se_sources s' = []" by (simp_all add: s')
qed

lemma take_event_peer:
  assumes "graph_inv s" "map_of (se_peers s) p = Some v" "peer_inv n (sp_value v)"
  shows "\<exists>r s' v'. session_step (TakePeerEvent env p) s = Some (r, s') \<and> graph_inv s'
    \<and> map_of (se_peers s') p = Some v' \<and> peer_inv n (sp_value v')
    \<and> es_events (pn_events (sp_value v')) = tl (es_events (pn_events (sp_value v)))
    \<and> es_closed (pn_events (sp_value v')) = es_closed (pn_events (sp_value v))"
proof -
  have "peer_inv n (lend (se_readiness s) (sp_value v))" using assms(3) by simp
  from take_shrinks [OF this] obtain e pn where
    pn: "try_next_event (lend (se_readiness s) (sp_value v)) = Some (e, pn)" "peer_inv n pn"
    "es_events (pn_events pn) = tl (es_events (pn_events (sp_value v)))"
    "es_closed (pn_events pn) = es_closed (pn_events (sp_value v))" by auto
  from take_event_accounts [OF assms(1,2) pn(1), of env 0] obtain r s' where
    r: "try_peer_event env p s = Some (r, s')" "graph_inv s'" by blast
  have "\<exists>v'. map_of (se_peers s') p = Some v' \<and> sp_value v' = pn"
  proof (cases e)
    case None
    with assms(2) pn(1) r(1) show ?thesis by (auto simp: try_peer_event_def update_conv)
  next
    case (Some x)
    let ?v = "\<lparr>sp_value = pn, sp_outstanding = (case settles x of None \<Rightarrow> sp_outstanding v
      | Some i \<Rightarrow> remove1 i (sp_outstanding v))\<rparr>"
    have "p \<in> set (map fst (se_peers (put_peer p ?v s)))" by (simp add: update_keys)
    from session_event_names [OF prunes_graph [OF assms(1) put_peer_prunes [OF assms(1,2)]] this]
    obtain q t where q: "session_event env p x (put_peer p ?v s) = Some (q, t)" "names (put_peer p ?v s) t"
      by blast
    with assms(2) pn(1) r(1) Some have "t = s'" by (cases q) (auto simp: try_peer_event_def)
    with names_peers [OF q(2)] show ?thesis by (simp add: update_conv)
  qed
  with r pn(2-4) show ?thesis by auto
qed

lemma drain_session:
  "graph_inv s \<Longrightarrow> map_of (se_peers s) p = Some v \<Longrightarrow> peer_inv n (sp_value v) \<Longrightarrow>
     length (es_events (pn_events (sp_value v))) \<le> k \<Longrightarrow>
     \<exists>rs s' v'. run_steps session_step (replicate k (TakePeerEvent env p)) s = Some (rs, s')
       \<and> map_of (se_peers s') p = Some v' \<and> peer_inv n (sp_value v')
       \<and> es_events (pn_events (sp_value v')) = []
       \<and> es_closed (pn_events (sp_value v')) = es_closed (pn_events (sp_value v))"
proof (induction k arbitrary: s v)
  case (Suc k)
  from take_event_peer [OF Suc.prems(1-3), of env] obtain r t w where
    t: "session_step (TakePeerEvent env p) s = Some (r, t)" "graph_inv t" "map_of (se_peers t) p = Some w"
    "peer_inv n (sp_value w)"
    "es_events (pn_events (sp_value w)) = tl (es_events (pn_events (sp_value v)))"
    "es_closed (pn_events (sp_value w)) = es_closed (pn_events (sp_value v))" by blast
  have "length (es_events (pn_events (sp_value w))) \<le> k" using t(5) Suc.prems(4) by simp
  from Suc.IH [OF t(2-4) this] t(1,6) show ?case by (auto simp: run_steps_Cons simp del: session_step.simps)
qed simp

lemma session_takes_accept_nothing:
  "run_steps session_step (replicate k (TakePeerEvent env p)) s = Some (rs, s') \<Longrightarrow>
     occurrences admitted_by x rs = 0"
proof (induction k arbitrary: s rs)
  case (Suc k)
  then obtain r t rs' where t: "session_step (TakePeerEvent env p) s = Some (r, t)"
    "run_steps session_step (replicate k (TakePeerEvent env p)) t = Some (rs', s')" "rs = r # rs'"
    by (auto simp: run_steps_Cons simp del: session_step.simps run_steps.simps)
  then obtain q u where "try_peer_event env p s = Some (q, u)" by auto
  with t(1) have "admitted_by r = None" by (cases q) (auto split: option.splits)
  with Suc.IH [OF t(2)] t(3) show ?case by simp
qed simp

text \<open>C5. Shutting down loses no outcome.  When \<open>shutdown\<close> succeeds the session and every peer of it
  are closed and no operation is forgotten: for each peer, taking 199 events never panics and yields
  exactly one outcome for every operation that was outstanding, after which none is.\<close>

theorem shutdown_loses_nothing:
  assumes "list_all (session_ok m) as" "Suc (Suc (length as) * max 1 m) < 2 ^ 64"
    "run_steps session_step as (session_new n) = Some (rs, s)" "\<not> se_closed s"
    "sdk_ok m (en_sdk env)" "shutdown env s = (Inr (), s')" "p \<in> set (map fst (se_peers s))"
  shows "se_closed s' \<and> closed_peer p s' \<and> outstanding s' = outstanding s
    \<and> (\<exists>rs' s''. run_steps session_step (replicate 199 (TakePeerEvent env p)) s' = Some (rs', s'')
         \<and> (\<forall>i. (p, i) \<notin> outstanding s''
             \<and> occurrences settled_in (p, i) rs' = of_bool ((p, i) \<in> outstanding s)))"
proof -
  have ok: "list_all (session_ok m) (as @ [Shutdown env])" using assms(1,5) by simp
  have l: "session_ledger s" using session_operations.run_inv [OF assms(3,1) session_new_ok(3)] .
  then have g: "graph_inv s" by (simp add: session_ledger_def)
  have step: "session_step (Shutdown env) s = Some (Answered, s')" using assms(6) by (simp add: answer_def)
  have k: "session_ok m (Shutdown env)" using assms(5) by simp
  note s' = session_step_ledger [OF k l step]
  obtain rs1 s1 where "run_steps session_step as (session_new n) = Some (rs1, s1)"
    "peers_inv (peer_inv (1 + length as * max 1 m)) s1"
    using session_run_total [OF assms(1) session_new_ok(1) [of n] session_new_ok(2) [of "peer_inv 1" n]]
      assms(2) by auto
  with assms(3) have b: "peers_inv (peer_inv (1 + length as * max 1 m)) s" by simp
  have "1 + length as * max 1 m + max 1 m < 2 ^ 64" using assms(2) by (simp add: algebra_simps)
  from session_step_total [OF k g b this] step
  have b': "graph_inv s'" "peers_inv (peer_inv (1 + length as * max 1 m + max 1 m)) s'" by auto
  have known: "map fst (se_peers s') = map fst (se_peers s)"
    using shutdown_prunes [OF g assms(6)] by (simp add: prunes_def)
  note cl = shutdown_closes [OF assms(6,4) g]
  have cp: "closed_peer p s'" using cl(2) assms(7) known by simp
  then obtain v where v: "map_of (se_peers s') p = Some v" "pn_closed (sp_value v)"
    by (auto simp: closed_peer_def)
  let ?n = "1 + length as * max 1 m + max 1 m"
  have pi: "peer_inv ?n (sp_value v)" using b'(2) v(1) by (simp add: peers_inv_def entry_ok_def)
  then have "length (es_events (pn_events (sp_value v))) \<le> 199"
    by (intro queue_length_bound) (simp_all add: peer_inv_def ledger_inv_def)
  from drain_session [OF b'(1) v(1) pi this, of env] obtain rs' s'' v' where d:
    "run_steps session_step (replicate 199 (TakePeerEvent env p)) s' = Some (rs', s'')"
    "map_of (se_peers s'') p = Some v'" "peer_inv ?n (sp_value v')"
    "es_events (pn_events (sp_value v')) = []"
    "es_closed (pn_events (sp_value v')) = es_closed (pn_events (sp_value v))" by blast
  have "under_way (sp_value v') = {}"
    using drained_nothing_under_way [OF d(3)] d(4,5) v(2) pi by (simp add: peer_inv_def)
  have tk: "list_all (session_ok m) (replicate 199 (TakePeerEvent env p))" by (simp add: list_all_iff)
  have "session_ledger s''" using session_operations.run_inv [OF d(1) tk s'(1)] .
  then have "entry_ok ledger_inv v'" using d(2) by (simp add: session_ledger_def peers_inv_def)
  then have none: "(p, i) \<notin> outstanding s''" for i
    using in_outstanding [OF d(2)] \<open>under_way (sp_value v') = {}\<close> by (simp add: entry_ok_def)
  have o: "outstanding s' = outstanding s" using s'(2) by simp
  have "occurrences settled_in (p, i) rs' = of_bool ((p, i) \<in> outstanding s)" for i
    using session_operations.run_balance [OF d(1) tk s'(1), of "(p, i)"] none [of i] o
      session_takes_accept_nothing [OF d(1), of "(p, i)"] by simp
  with none d(1) cl(1) cp o show ?thesis by blast
qed


lemma shutdown_loses_nothing_witness:
  "\<exists>s s' rs' s''. run_steps session_step sample_open (session_new 1)
       = Some ([Answered, Answered, Admitted 1 1, Admitted 2 1, Answered, Answered], s)
     \<and> shutdown calm s = (Inr (), s')
     \<and> run_steps session_step (replicate 199 (TakePeerEvent calm 1)) s' = Some (rs', s'')
     \<and> occurrences settled_in (1, 1) rs' = 1 \<and> (1, 1) \<notin> outstanding s''"
proof -
  obtain s v s1 s' where r: "run_steps session_step sample_open (session_new 1)
       = Some ([Answered, Answered, Admitted 1 1, Admitted 2 1, Answered, Answered], s)"
    "map_of (se_peers s) 1 = Some v" "sp_outstanding v = [1]" "map fst (se_peers s) = [1, 2]"
    "\<not> se_closed s" "shutdown calm s = (Inr (), s')"
    using sample_open_run by (elim exE conjE) (rule that)
  have n: "Suc (Suc (length sample_open) * max 1 0) < 2 ^ 64"
    by (simp add: sample_open_def sample_session_def)
  have k: "sdk_ok 0 (en_sdk calm)" "1 \<in> set (map fst (se_peers s))"
    using mute_sdk_ok r(4) by (simp_all add: calm_def)
  have o: "(1, 1) \<in> outstanding s" using in_outstanding [OF r(2), of 1] r(3) by simp
  from shutdown_loses_nothing [OF sample_open_ok n r(1,5) k(1) r(6) k(2)] obtain rs' s'' where
    "run_steps session_step (replicate 199 (TakePeerEvent calm 1)) s' = Some (rs', s'')"
    "\<forall>i. (1, i) \<notin> outstanding s'' \<and> occurrences settled_in (1, i) rs' = of_bool ((1, i) \<in> outstanding s)"
    by blast
  with o r(1,6) show ?thesis by fastforce
qed

end
