(* ===== verification/Scheduler.thy ===== *)
theory Scheduler
  imports TimeValues OutcomeLedger
begin

text \<open>
  Controlled execution (\<open>src/execution.rs\<close> and the cooperative queues of \<open>native/execution.cc\<close>): a
  manual clock, the task queues that share it, and the pump that runs due tasks on the thread of the
  owner.  The state is one clock's domain.  A running task may do whatever the owner may, pump again
  included, so an execution is a sequence of steps over an explicit stack of activities: a loop of
  the pump between two tasks, a task that runs, a queue that is being deleted.  Addresses are never
  used twice, and a task is the number of its closure: what it does are the steps that follow.
\<close>

subsection \<open>Time\<close>

definition kMaxTimeUs :: int where
  "kMaxTimeUs = (4294967295 - 2208988800) * 1000000 + 999999"

text \<open>A \<open>Duration\<close> is its nanoseconds, at most \<open>u64::MAX\<close> seconds and 999999999 nanoseconds.\<close>

type_synonym duration = nat

definition duration_limit :: duration where
  "duration_limit = 18446744073709551615 * 1000000000 + 999999999"

definition duration_from_micros :: "nat \<Rightarrow> duration" where "duration_from_micros us = us * 1000"
definition as_micros :: "duration \<Rightarrow> nat" where "as_micros d = d div 1000"

definition duration_checked_add :: "duration \<Rightarrow> duration \<Rightarrow> duration option" where
  "duration_checked_add a b = (if a + b \<le> duration_limit then Some (a + b) else None)"

definition MAX_CONTROLLED_TIME :: duration where
  "MAX_CONTROLLED_TIME = duration_from_micros ((4294967295 - 2208988800) * 1000000 + 999999)"

definition duration_micros :: "duration \<Rightarrow> i64 option" where
  "duration_micros d = to_i64 (int (as_micros d))"

subsection \<open>State\<close>

type_synonym address = nat
type_synonym thread_id = nat
type_synonym closure = nat

datatype task_key = TaskKey (key_deadline: int) (key_sequence: u64)

instantiation task_key :: linorder
begin

definition less_task_key :: "task_key \<Rightarrow> task_key \<Rightarrow> bool" where
  "less_task_key a b \<longleftrightarrow> key_deadline a < key_deadline b
     \<or> key_deadline a = key_deadline b \<and> key_sequence a < key_sequence b"

definition less_eq_task_key :: "task_key \<Rightarrow> task_key \<Rightarrow> bool" where
  "less_eq_task_key a b \<longleftrightarrow> a < b \<or> a = (b :: task_key)"

instance
proof
  fix x y :: task_key
  show "x \<le> y \<or> y \<le> x"
    by (cases x; cases y) (auto simp: less_task_key_def less_eq_task_key_def not_less_iff_gr_or_eq)
qed (auto simp: less_task_key_def less_eq_task_key_def task_key.expand)

end

record scheduled_task =
  st_queue :: address
  st_delayed :: bool
  st_task :: closure

record cooperative_queue =
  cq_factory :: address
  cq_name :: bytes
  cq_identity :: address
  cq_lifecycle :: bool

text \<open>The state of a factory.  An entry absent from \<open>running\<close> or \<open>deleted\<close> reads as zero or false.\<close>

record queue_state =
  qs_tasks :: "(task_key \<times> scheduled_task) list"
  qs_running :: "address \<Rightarrow> nat"
  qs_deleted :: "address \<Rightarrow> bool"

record pump_call =
  pc_states :: "address list"
  pc_budget :: nat
  pc_excluded :: "address option"
  pc_lifecycle_only :: bool
  pc_count :: nat
  pc_yield :: bool

text \<open>\<open>Current\<close> is the queue in scope and the identity that \<open>TaskQueueBase::Current()\<close> returns.\<close>

type_synonym current = "(address \<times> address) option"

datatype activity =
    Pumping pump_call
  | Running address address current
  | Deleting address bool current
  | Discarding address bool

record execution_domain =
  dm_creator :: thread_id
  dm_now :: int
  dm_next_sequence :: u64
  dm_factories :: "address list"
  dm_states :: "address \<Rightarrow> queue_state"
  dm_queues :: "address \<rightharpoonup> cooperative_queue"
  dm_open :: "address \<Rightarrow> bool"
  dm_fresh :: address
  dm_suspended :: "address option list"
  dm_current :: current
  dm_stack :: "activity list"

definition queue_state_new :: queue_state where
  "queue_state_new = \<lparr>qs_tasks = [], qs_running = (\<lambda>_. 0), qs_deleted = (\<lambda>_. False)\<rparr>"

definition on_state ::
  "address \<Rightarrow> (queue_state \<Rightarrow> queue_state) \<Rightarrow> execution_domain \<Rightarrow> execution_domain" where
  "on_state f g d = d\<lparr>dm_states := (dm_states d)(f := g (dm_states d f))\<rparr>"

subsection \<open>The clock\<close>

definition new_manual_clock :: "thread_id \<Rightarrow> int \<Rightarrow> execution_domain option" where
  "new_manual_clock creator initial_time_us =
     (if initial_time_us < 0 \<or> kMaxTimeUs < initial_time_us then None
      else Some \<lparr>dm_creator = creator, dm_now = initial_time_us, dm_next_sequence = 0,
        dm_factories = [], dm_states = (\<lambda>_. queue_state_new), dm_queues = Map.empty,
        dm_open = (\<lambda>_. False), dm_fresh = 1, dm_suspended = [], dm_current = None, dm_stack = []\<rparr>)"

definition advance_manual_clock :: "int \<Rightarrow> execution_domain \<Rightarrow> bool \<times> execution_domain" where
  "advance_manual_clock delta_us d =
     (if delta_us < 0 \<or> kMaxTimeUs - dm_now d < delta_us then (False, d)
      else (True, d\<lparr>dm_now := dm_now d + delta_us\<rparr>))"

subsection \<open>Factories and queues\<close>

text \<open>A clock is one dispatch domain: a second factory of a foreign thread is refused.\<close>

definition new_cooperative_task_queue_factory ::
  "thread_id \<Rightarrow> execution_domain \<Rightarrow> address option \<times> execution_domain" where
  "new_cooperative_task_queue_factory thread d =
     (if dm_factories d \<noteq> [] \<and> thread \<noteq> dm_creator d then (None, d)
      else (Some (dm_fresh d),
        (on_state (dm_fresh d) (\<lambda>_. queue_state_new) d)
          \<lparr>dm_creator := thread, dm_factories := dm_factories d @ [dm_fresh d], dm_fresh := dm_fresh d + 1\<rparr>))"

definition task_queue_factory_is_current :: "thread_id \<Rightarrow> execution_domain \<Rightarrow> bool" where
  "task_queue_factory_is_current thread d \<longleftrightarrow> thread = dm_creator d"

definition cooperative_queue_new ::
  "address \<Rightarrow> bytes \<Rightarrow> bool \<Rightarrow> bool \<Rightarrow> execution_domain \<Rightarrow> address \<times> execution_domain" where
  "cooperative_queue_new f name of_thread lifecycle d =
     (let q = dm_fresh d; identity = (if of_thread then q + 1 else q) in
      (q, d\<lparr>dm_queues := (dm_queues d)(q \<mapsto> \<lparr>cq_factory = f, cq_name = name, cq_identity = identity,
              cq_lifecycle = lifecycle\<rparr>),
            dm_open := (dm_open d)(q := True), dm_fresh := q + 2\<rparr>))"

text \<open>Posting: \<open>std::map::emplace\<close> keeps an entry that has the key already.\<close>

fun emplace ::
  "task_key \<Rightarrow> scheduled_task \<Rightarrow> (task_key \<times> scheduled_task) list \<Rightarrow> (task_key \<times> scheduled_task) list"
  where
  "emplace k t [] = [(k, t)]"
| "emplace k t ((k', t') # m) =
     (if k < k' then (k, t) # (k', t') # m
      else if k = k' then (k', t') # m
      else (k', t') # emplace k t m)"

definition schedule ::
  "address \<Rightarrow> cooperative_queue \<Rightarrow> int \<Rightarrow> bool \<Rightarrow> closure \<Rightarrow> execution_domain
     \<Rightarrow> u64 option \<times> execution_domain" where
  "schedule q c deadline delayed task d =
     (Some (dm_next_sequence d),
      (on_state (cq_factory c) (\<lambda>s. s\<lparr>qs_tasks :=
           emplace (TaskKey deadline (dm_next_sequence d))
             \<lparr>st_queue = q, st_delayed = delayed, st_task = task\<rparr> (qs_tasks s)\<rparr>) d)
        \<lparr>dm_next_sequence := dm_next_sequence d + 1\<rparr>)"

definition post_task_impl ::
  "address \<Rightarrow> cooperative_queue \<Rightarrow> closure \<Rightarrow> execution_domain \<Rightarrow> u64 option \<times> execution_domain" where
  "post_task_impl q c task d =
     (if qs_deleted (dm_states d (cq_factory c)) q then (None, d)
      else schedule q c (dm_now d) False task d)"

definition post_delayed_task_impl ::
  "address \<Rightarrow> cooperative_queue \<Rightarrow> closure \<Rightarrow> int \<Rightarrow> execution_domain \<Rightarrow> u64 option \<times> execution_domain"
  where
  "post_delayed_task_impl q c task delay_us d =
     (if qs_deleted (dm_states d (cq_factory c)) q then (None, d)
      else (let delta = max 0 delay_us in
        if kMaxTimeUs - dm_now d < delta then (None, d)
        else schedule q c (dm_now d + delta) True task d))"

text \<open>\<open>CooperativeTaskQueue::Delete\<close>: first the entries go, then the closures of the immediate tasks are
  destroyed in the scope of the queue, then those of the delayed ones, and the queue itself unless one
  of its tasks is running.\<close>

definition delete_begin ::
  "address \<Rightarrow> cooperative_queue \<Rightarrow> execution_domain \<Rightarrow> task_key list \<times> execution_domain" where
  "delete_begin q c d =
     (let s = dm_states d (cq_factory c);
          (mine, others) = partition (\<lambda>(k, t). st_queue t = q) (qs_tasks s);
          (later, now) = partition (\<lambda>(k, t). st_delayed t) mine;
          destroy = (qs_running s q = 0) in
      (map fst (now @ later),
       (on_state (cq_factory c) (\<lambda>s. s\<lparr>qs_tasks := others,
            qs_running := (if destroy then (qs_running s)(q := 0) else qs_running s),
            qs_deleted := (qs_deleted s)(q := \<not> destroy)\<rparr>) d)
         \<lparr>dm_open := (dm_open d)(q := False), dm_current := Some (q, cq_identity c),
          dm_stack := Deleting q destroy (dm_current d) # dm_stack d\<rparr>))"

definition free_queue :: "address \<Rightarrow> execution_domain \<Rightarrow> execution_domain" where
  "free_queue q d = d\<lparr>dm_queues := (dm_queues d)(q := None)\<rparr>"

subsection \<open>The pump\<close>

text \<open>Walking the due tasks of one factory up to the first that may run.  \<open>None\<close> stands for the read of
  a queue that has been freed.\<close>

fun first_ready ::
  "execution_domain \<Rightarrow> pump_call \<Rightarrow> queue_state \<Rightarrow> (task_key \<times> scheduled_task) list
     \<Rightarrow> task_key option option" where
  "first_ready d c s [] = Some None"
| "first_ready d c s ((k, t) # m) =
     (if dm_now d < key_deadline k then Some None
      else case dm_queues d (st_queue t) of
        None \<Rightarrow> None
      | Some q \<Rightarrow>
          if pc_lifecycle_only c \<and> \<not> cq_lifecycle q \<or> qs_running s (st_queue t) \<noteq> 0
            \<or> Some (cq_identity q) = pc_excluded c \<or> Some (cq_identity q) \<in> set (dm_suspended d)
          then first_ready d c s m
          else Some (Some k))"

fun select_task ::
  "execution_domain \<Rightarrow> pump_call \<Rightarrow> address list \<Rightarrow> address option \<times> task_key
     \<Rightarrow> (address option \<times> task_key) option" where
  "select_task d c [] best = Some best"
| "select_task d c (f # fs) best = (case first_ready d c (dm_states d f) (qs_tasks (dm_states d f)) of
      None \<Rightarrow> None
    | Some None \<Rightarrow> select_task d c fs best
    | Some (Some k) \<Rightarrow> select_task d c fs (if k < snd best then (Some f, k) else best))"

definition no_key :: task_key where "no_key = TaskKey i64_max u64_max"

datatype control_reply =
    NotNow
  | Refused
  | MadeFactory address
  | MadeQueue address
  | Posted u64
  | PostedToDying u64
  | NotPosted
  | Advanced
  | Dropped "task_key list"
  | Done
  | Entered
  | Started address address task_key
  | Finished
  | Pumped nat

definition pump_return :: "pump_call \<Rightarrow> activity list \<Rightarrow> execution_domain \<Rightarrow> control_reply \<times> execution_domain"
  where
  "pump_return c rest d = (Pumped (pc_count c), d\<lparr>dm_stack := rest,
      dm_suspended := (if pc_yield c then butlast (dm_suspended d) else dm_suspended d)\<rparr>)"

definition pump_dispatch ::
  "address \<Rightarrow> task_key \<Rightarrow> execution_domain \<Rightarrow> (control_reply \<times> execution_domain) option" where
  "pump_dispatch f k d = (case map_of (qs_tasks (dm_states d f)) k of
      None \<Rightarrow> None
    | Some t \<Rightarrow> (case dm_queues d (st_queue t) of
        None \<Rightarrow> None
      | Some q \<Rightarrow> Some (Started (st_queue t) f k,
          (on_state f (\<lambda>s. s\<lparr>qs_running := (qs_running s)(st_queue t := qs_running s (st_queue t) + 1),
              qs_tasks := filter (\<lambda>(k', _). k' \<noteq> k) (qs_tasks s)\<rparr>) d)
            \<lparr>dm_current := Some (st_queue t, cq_identity q),
             dm_stack := Running (st_queue t) f (dm_current d) # dm_stack d\<rparr>)))"

definition pump_turn ::
  "pump_call \<Rightarrow> activity list \<Rightarrow> execution_domain \<Rightarrow> (control_reply \<times> execution_domain) option" where
  "pump_turn c rest d =
     (if pc_budget c \<le> pc_count c then Some (pump_return c rest d)
      else case select_task d c (pc_states c) (None, no_key) of
        None \<Rightarrow> None
      | Some (None, _) \<Rightarrow> Some (pump_return c rest d)
      | Some (Some f, k) \<Rightarrow> pump_dispatch f k d)"

definition run_end ::
  "address \<Rightarrow> address \<Rightarrow> current \<Rightarrow> pump_call \<Rightarrow> activity list \<Rightarrow> execution_domain \<Rightarrow> execution_domain"
  where
  "run_end q f previous c rest d =
     (let s = dm_states d f; left = qs_running s q - 1; destroy = (left = 0 \<and> qs_deleted s q);
          d = (on_state f (\<lambda>s. s\<lparr>qs_running := (qs_running s)(q := left),
                  qs_deleted := (if destroy then (qs_deleted s)(q := False) else qs_deleted s)\<rparr>) d)
                \<lparr>dm_current := previous, dm_stack := Pumping (c\<lparr>pc_count := pc_count c + 1\<rparr>) # rest\<rparr>
      in if destroy then free_queue q d else d)"

definition pump_states :: "pump_call \<Rightarrow> execution_domain \<Rightarrow> execution_domain" where
  "pump_states c d = d\<lparr>dm_stack := Pumping c # dm_stack d\<rparr>"

definition pump_ready_tasks :: "address \<Rightarrow> nat \<Rightarrow> execution_domain \<Rightarrow> execution_domain" where
  "pump_ready_tasks f budget = pump_states \<lparr>pc_states = [f], pc_budget = budget, pc_excluded = None,
     pc_lifecycle_only = False, pc_count = 0, pc_yield = False\<rparr>"

definition pump_clock ::
  "nat \<Rightarrow> address option \<Rightarrow> bool \<Rightarrow> bool \<Rightarrow> execution_domain \<Rightarrow> execution_domain" where
  "pump_clock budget excluded lifecycle_only yield d = pump_states \<lparr>pc_states = dm_factories d,
     pc_budget = budget, pc_excluded = excluded, pc_lifecycle_only = lifecycle_only, pc_count = 0,
     pc_yield = yield\<rparr> d"

definition driver_pump :: "nat \<Rightarrow> execution_domain \<Rightarrow> control_reply \<times> execution_domain" where
  "driver_pump budget d =
     (if budget = 0 then (Pumped 0, d) else (Entered, pump_clock budget None False False d))"

definition yield_execution :: "execution_domain \<Rightarrow> execution_domain" where
  "yield_execution d =
     (let identity = map_option snd (dm_current d) in
      pump_clock (usize_limit - 1) identity True True
        (d\<lparr>dm_suspended := dm_suspended d @ [identity]\<rparr>))"

subsection \<open>Deadlines\<close>

definition state_deadline :: "queue_state \<Rightarrow> int option" where
  "state_deadline s = (case qs_tasks s of [] \<Rightarrow> None | (k, _) # _ \<Rightarrow> Some (key_deadline k))"

definition clock_deadline :: "execution_domain \<Rightarrow> int option" where
  "clock_deadline d = fold (\<lambda>f deadline. case state_deadline (dm_states d f) of
       None \<Rightarrow> deadline
     | Some v \<Rightarrow> (case deadline of None \<Rightarrow> Some v
         | Some w \<Rightarrow> if v < w then Some v else deadline)) (dm_factories d) None"

subsection \<open>Executions\<close>

datatype control_action =
    NewFactory thread_id
  | CreateQueue thread_id address bytes
  | CreateEngineQueue address bytes
  | CreateDriverQueue address
  | PostTask address closure
  | PostDelayedTask address int closure
  | PostCurrent closure
  | Advance int
  | DeleteQueue address
  | ClosuresDropped
  | PumpFactory thread_id address nat
  | PumpDriver thread_id nat
  | YieldExecution
  | NextTurn
  | TaskReturned

text \<open>Between two tasks of a pump only the pump itself goes on, on its thread.  Posting and advancing
  the clock are possible at any time, from any thread.\<close>

fun pumping :: "activity list \<Rightarrow> bool" where
  "pumping (Pumping _ # _) = True"
| "pumping _ = False"

definition dying :: "address \<Rightarrow> execution_domain \<Rightarrow> bool" where
  "dying q d \<longleftrightarrow> list_ex (\<lambda>a. case a of Deleting q' True _ \<Rightarrow> q' = q | Discarding q' True \<Rightarrow> q' = q
     | _ \<Rightarrow> False) (dm_stack d)"

definition post_reply :: "address \<Rightarrow> execution_domain \<Rightarrow> u64 option \<Rightarrow> control_reply" where
  "post_reply q d r = (case r of None \<Rightarrow> NotPosted
     | Some s \<Rightarrow> if dying q d then PostedToDying s else Posted s)"

text \<open>A post through \<open>TaskQueueContext\<close> goes to the current queue.  A controlled thread forwards to its
  queue until that has been deleted.\<close>

definition post_current ::
  "closure \<Rightarrow> execution_domain \<Rightarrow> (control_reply \<times> execution_domain) option" where
  "post_current t d = (case dm_current d of
      None \<Rightarrow> Some (Refused, d)
    | Some (q, identity) \<Rightarrow>
        if identity \<noteq> q \<and> \<not> dm_open d q then Some (NotPosted, d)
        else map_option (\<lambda>c. let (r, d') = post_task_impl q c t d in (post_reply q d r, d'))
               (dm_queues d q))"

definition on_open_queue ::
  "address \<Rightarrow> (cooperative_queue \<Rightarrow> control_reply \<times> execution_domain) \<Rightarrow> execution_domain
     \<Rightarrow> (control_reply \<times> execution_domain) option" where
  "on_open_queue q g d = (if \<not> dm_open d q then Some (Refused, d) else map_option g (dm_queues d q))"

definition make_queue ::
  "address \<Rightarrow> bytes \<Rightarrow> bool \<Rightarrow> bool \<Rightarrow> execution_domain \<Rightarrow> control_reply \<times> execution_domain" where
  "make_queue f name of_thread lifecycle d =
     (if f \<notin> set (dm_factories d) then (Refused, d)
      else let (q, d) = cooperative_queue_new f name of_thread lifecycle d in (MadeQueue q, d))"

definition closures_dropped :: "execution_domain \<Rightarrow> control_reply \<times> execution_domain" where
  "closures_dropped d = (case dm_stack d of
      Deleting q destroy previous # rest \<Rightarrow>
        (Done, d\<lparr>dm_current := previous, dm_stack := Discarding q destroy # rest\<rparr>)
    | Discarding q destroy # rest \<Rightarrow>
        (Done, (if destroy then free_queue q else id) (d\<lparr>dm_stack := rest\<rparr>))
    | _ \<Rightarrow> (NotNow, d))"

fun owner_step :: "control_action \<Rightarrow> execution_domain \<Rightarrow> (control_reply \<times> execution_domain) option" where
  "owner_step (NewFactory thread) d = Some (case new_cooperative_task_queue_factory thread d of
      (None, d) \<Rightarrow> (Refused, d) | (Some f, d) \<Rightarrow> (MadeFactory f, d))"
| "owner_step (CreateQueue thread f name) d =
     (if \<not> task_queue_factory_is_current thread d then Some (Refused, d)
      else Some (make_queue f name False False d))"
| "owner_step (CreateEngineQueue f name) d = Some (make_queue f name False True d)"
| "owner_step (CreateDriverQueue f) d = Some (make_queue f (map (of_nat \<circ> of_char) ''peer'') True True d)"
| "owner_step (PostCurrent t) d = post_current t d"
| "owner_step (DeleteQueue q) d =
     on_open_queue q (\<lambda>c. let (ks, d) = delete_begin q c d in (Dropped ks, d)) d"
| "owner_step ClosuresDropped d = Some (closures_dropped d)"
| "owner_step (PumpFactory thread f budget) d =
     (if f \<notin> set (dm_factories d) then Some (Refused, d)
      else if thread \<noteq> dm_creator d then Some (Pumped 0, d)
      else Some (Entered, pump_ready_tasks f budget d))"
| "owner_step (PumpDriver thread budget) d =
     (if thread \<noteq> dm_creator d then Some (Pumped 0, d) else Some (driver_pump budget d))"
| "owner_step YieldExecution d = Some (Entered, yield_execution d)"
| "owner_step TaskReturned d = (case dm_stack d of
      Running q f previous # Pumping c # rest \<Rightarrow> Some (Finished, run_end q f previous c rest d)
    | _ \<Rightarrow> Some (NotNow, d))"
| "owner_step _ d = Some (NotNow, d)"

definition control_step ::
  "control_action \<Rightarrow> execution_domain \<Rightarrow> (control_reply \<times> execution_domain) option" where
  "control_step a d = (case a of
      PostTask q t \<Rightarrow>
        on_open_queue q (\<lambda>c. let (r, d') = post_task_impl q c t d in (post_reply q d r, d')) d
    | PostDelayedTask q delay t \<Rightarrow>
        on_open_queue q (\<lambda>c. let (r, d') = post_delayed_task_impl q c t delay d in (post_reply q d r, d')) d
    | Advance delta \<Rightarrow>
        Some (let (ok, d) = advance_manual_clock delta d in (if ok then Advanced else Refused, d))
    | NextTurn \<Rightarrow> (case dm_stack d of
          Pumping c # rest \<Rightarrow> pump_turn c rest d
        | _ \<Rightarrow> Some (NotNow, d))
    | _ \<Rightarrow> if pumping (dm_stack d) then Some (NotNow, d) else owner_step a d)"

fun posts :: "control_reply \<Rightarrow> u64 list" where
  "posts (Posted s) = [s]"
| "posts (PostedToDying s) = [s]"
| "posts _ = []"

fun ends :: "control_reply \<Rightarrow> u64 list" where
  "ends (Started _ _ k) = [key_sequence k]"
| "ends (Dropped ks) = map key_sequence ks"
| "ends _ = []"

definition queued :: "execution_domain \<Rightarrow> u64 list" where
  "queued d = concat (map (\<lambda>f. map (key_sequence \<circ> fst) (qs_tasks (dm_states d f))) (dm_factories d))"

end
