(* ===== verification/SchedulerRuns.thy ===== *)
theory SchedulerRuns
  imports Scheduler "HOL-Library.Multiset"
begin

text \<open>
  Executions of a domain of cooperative queues.  \<open>timeline_inv\<close>: tasks are ordered, within the time the
  clock may show, and told apart by their sequence numbers.  \<open>memory_inv\<close>: whatever a task, an activity
  or the current context names is a live queue, and the counters of running tasks count activities.
\<close>

subsection \<open>Task maps\<close>

lemma emplace_set: "set (emplace k t m) \<subseteq> insert (k, t) (set m)"
  by (induction k t m rule: emplace.induct) auto

lemma emplace_mset: "k \<notin> fst ` set m \<Longrightarrow> mset (emplace k t m) = add_mset (k, t) (mset m)"
  by (induction k t m rule: emplace.induct) auto

lemma emplace_sorted:
  "sorted_wrt (<) (map fst m) \<Longrightarrow> sorted_wrt (<) (map fst (emplace k t m))"
proof (induction k t m rule: emplace.induct)
  case (2 k t k' t' m)
  have "\<forall>x\<in>fst ` set (emplace k t m). k' < x" if "k' < k"
    using 2(2) that emplace_set [of k t m] by auto
  with 2 show ?case by (auto simp: not_less_iff_gr_or_eq intro: less_trans)
qed simp

lemma sorted_keys_distinct: "sorted_wrt (<) (ks :: task_key list) \<Longrightarrow> distinct ks"
  by (induction ks) auto

lemma count_list_mset: "count_list xs x = count (mset xs) x"
  by (induction xs) auto

lemma mset_concat_upd:
  assumes "distinct fs" "f \<in> set fs"
  shows "mset (concat (map (g(f := x)) fs)) + mset (g f) = mset (concat (map g fs)) + mset x"
  using assms
proof (induction fs)
  case (Cons e fs)
  show ?case
  proof (cases "e = f")
    case True
    with Cons.prems have "concat (map (g(f := x)) fs) = concat (map g fs)"
      by (intro arg_cong [where f = concat] map_cong) auto
    with True show ?thesis
      by (simp only: list.map concat.simps fun_upd_same mset_append) simp
  next
    case False
    with Cons show ?thesis by (simp add: add.assoc)
  qed
qed simp

lemma mset_split_map:
  "mset (map h (filter P xs)) + mset (map h (filter (\<lambda>x. \<not> P x) xs)) = mset (map h xs)"
  by (induction xs) auto

lemma mset_cancel: "a + b = c \<Longrightarrow> x + c = y + a \<Longrightarrow> x + b = (y :: 'a multiset)"
  by (metis add.assoc add.commute add_right_cancel)

lemma distinct_part: "mset ys + M = mset xs \<Longrightarrow> distinct xs \<Longrightarrow> distinct ys"
  by (metis distinct_append ex_mset mset_append mset_eq_imp_distinct_iff)

lemma map_of_filter_key:
  "distinct (map fst m) \<Longrightarrow> map_of m k = Some t \<Longrightarrow> filter (\<lambda>e. fst e = k) m = [(k, t)]"
proof (induction m)
  case (Cons e m)
  show ?case
  proof (cases "fst e = k")
    case True
    with Cons.prems have "filter (\<lambda>e. fst e = k) m = []" by (auto simp: filter_empty_conv image_iff)
    with True Cons.prems show ?thesis by (cases e) simp
  next
    case False
    with Cons show ?thesis by (cases e) simp
  qed
qed simp

subsection \<open>The timeline\<close>

definition key_ok :: "u64 \<Rightarrow> task_key \<Rightarrow> bool" where
  "key_ok next k \<longleftrightarrow> 0 \<le> key_deadline k \<and> key_deadline k \<le> kMaxTimeUs \<and> key_sequence k < next"

definition tasks_ok :: "u64 \<Rightarrow> (task_key \<times> scheduled_task) list \<Rightarrow> bool" where
  "tasks_ok next m \<longleftrightarrow> sorted_wrt (<) (map fst m) \<and> (\<forall>(k, t) \<in> set m. key_ok next k)"

abbreviation tasks_of :: "execution_domain \<Rightarrow> address \<Rightarrow> (task_key \<times> scheduled_task) list" where
  "tasks_of d f \<equiv> qs_tasks (dm_states d f)"

definition factories_ok :: "execution_domain \<Rightarrow> bool" where
  "factories_ok d \<longleftrightarrow> distinct (dm_factories d) \<and> (\<forall>f\<in>set (dm_factories d). f < dm_fresh d)"

definition timeline_inv :: "nat \<Rightarrow> execution_domain \<Rightarrow> bool" where
  "timeline_inv n d \<longleftrightarrow> 0 \<le> dm_now d \<and> dm_now d \<le> kMaxTimeUs \<and> factories_ok d
     \<and> unat (dm_next_sequence d) + n < 2 ^ 64
     \<and> (\<forall>f\<in>set (dm_factories d). tasks_ok (dm_next_sequence d) (tasks_of d f))
     \<and> distinct (queued d)
     \<and> (\<forall>q c. dm_queues d q = Some c \<longrightarrow> cq_factory c \<in> set (dm_factories d))
     \<and> (\<forall>c. Pumping c \<in> set (dm_stack d) \<longrightarrow> set (pc_states c) \<subseteq> set (dm_factories d))"

text \<open>What most steps leave alone.\<close>

definition same_timeline :: "execution_domain \<Rightarrow> execution_domain \<Rightarrow> bool" where
  "same_timeline d d' \<longleftrightarrow> dm_now d' = dm_now d \<and> dm_factories d' = dm_factories d
     \<and> dm_next_sequence d' = dm_next_sequence d \<and> dm_fresh d \<le> dm_fresh d'
     \<and> (\<forall>f\<in>set (dm_factories d). tasks_of d' f = tasks_of d f)
     \<and> (\<forall>q c. dm_queues d' q = Some c \<longrightarrow> dm_queues d q = Some c \<or> cq_factory c \<in> set (dm_factories d))
     \<and> (\<forall>c. Pumping c \<in> set (dm_stack d') \<longrightarrow> set (pc_states c) \<subseteq> set (dm_factories d)
          \<or> (\<exists>c'. Pumping c' \<in> set (dm_stack d) \<and> pc_states c' = pc_states c))"

lemma same_timeline_queued: "same_timeline d d' \<Longrightarrow> queued d' = queued d"
  by (simp add: same_timeline_def queued_def cong: map_cong)

lemma same_timeline_inv:
  assumes s: "same_timeline d d'" and t: "timeline_inv (Suc n) d"
  shows "timeline_inv n d'"
proof -
  from s have d': "dm_now d' = dm_now d" "dm_factories d' = dm_factories d"
    "dm_next_sequence d' = dm_next_sequence d" "dm_fresh d \<le> dm_fresh d'"
    "\<forall>f\<in>set (dm_factories d). tasks_of d' f = tasks_of d f"
    by (auto simp: same_timeline_def)
  have "cq_factory c \<in> set (dm_factories d)" if "dm_queues d' q = Some c" for q c
    using s t that unfolding same_timeline_def timeline_inv_def by metis
  moreover have "set (pc_states c) \<subseteq> set (dm_factories d)" if "Pumping c \<in> set (dm_stack d')" for c
    using s t that unfolding same_timeline_def timeline_inv_def by metis
  ultimately show ?thesis
    using t d' same_timeline_queued [OF s] unfolding timeline_inv_def factories_ok_def
    by (auto intro: less_le_trans)
qed

lemma key_ok_next:
  "unat next + Suc n < 2 ^ 64 \<Longrightarrow> key_ok next k \<Longrightarrow> key_ok (next + 1) k"
  by (auto simp: key_ok_def word_less_nat_alt unat_word_ariths)

lemma next_greater: "unat (next :: u64) + Suc n < 2 ^ 64 \<Longrightarrow> next < next + 1"
  by (auto simp: word_less_nat_alt unat_word_ariths)

lemma queued_sequences:
  assumes "timeline_inv n d" "i \<in> set (queued d)"
  shows "i < dm_next_sequence d"
  using assms by (fastforce simp: timeline_inv_def queued_def tasks_ok_def key_ok_def)

lemma queued_upd:
  assumes "distinct (dm_factories d)" "f \<in> set (dm_factories d)"
    "dm_factories d' = dm_factories d" "\<And>g. g \<in> set (dm_factories d) \<Longrightarrow> g \<noteq> f \<Longrightarrow> tasks_of d' g = tasks_of d g"
  shows "mset (queued d') + mset (map (key_sequence \<circ> fst) (tasks_of d f))
    = mset (queued d) + mset (map (key_sequence \<circ> fst) (tasks_of d' f))"
proof -
  let ?g = "\<lambda>f. map (key_sequence \<circ> fst) (tasks_of d f)"
  let ?x = "map (key_sequence \<circ> fst) (tasks_of d' f)"
  have "queued d' = concat (map (?g(f := ?x)) (dm_factories d))"
    using assms(3,4) by (auto simp: queued_def intro!: arg_cong [where f = concat] map_cong)
  then show ?thesis using mset_concat_upd [OF assms(1,2), of ?g ?x] by (simp add: queued_def)
qed

lemma schedule_timeline:
  assumes "timeline_inv (Suc n) d" "dm_queues d q = Some c"
    "0 \<le> deadline" "deadline \<le> kMaxTimeUs" "schedule q c deadline delayed task d = (r, d')"
  shows "timeline_inv n d'" "r = Some (dm_next_sequence d)"
    "mset (queued d') = add_mset (dm_next_sequence d) (mset (queued d))"
proof -
  let ?f = "cq_factory c" and ?k = "TaskKey deadline (dm_next_sequence d)"
  let ?t = "\<lparr>st_queue = q, st_delayed = delayed, st_task = task\<rparr>"
  from assms(1,2) have f: "?f \<in> set (dm_factories d)" and i: "factories_ok d"
    and t: "tasks_ok (dm_next_sequence d) (tasks_of d ?f)"
    by (auto simp: timeline_inv_def)
  from assms(5) have r: "r = Some (dm_next_sequence d)" and d': "dm_now d' = dm_now d"
    "dm_factories d' = dm_factories d" "dm_next_sequence d' = dm_next_sequence d + 1"
    "dm_queues d' = dm_queues d" "dm_fresh d' = dm_fresh d" "dm_stack d' = dm_stack d"
    "tasks_of d' ?f = emplace ?k ?t (tasks_of d ?f)"
    "\<And>g. g \<noteq> ?f \<Longrightarrow> tasks_of d' g = tasks_of d g"
    by (auto simp: schedule_def on_state_def)
  show "r = Some (dm_next_sequence d)" by (rule r)
  have "?k \<notin> fst ` set (tasks_of d ?f)" using t by (fastforce simp: tasks_ok_def key_ok_def)
  then have m: "mset (tasks_of d' ?f) = add_mset (?k, ?t) (mset (tasks_of d ?f))"
    using d'(7) emplace_mset by simp
  have "mset (queued d') + mset (map (key_sequence \<circ> fst) (tasks_of d ?f))
      = mset (queued d) + mset (map (key_sequence \<circ> fst) (tasks_of d' ?f))"
    using queued_upd [of d ?f d'] f i d' by (simp add: factories_ok_def)
  then show q: "mset (queued d') = add_mset (dm_next_sequence d) (mset (queued d))"
    by (simp add: m)
  have u: "unat (dm_next_sequence d) + Suc n < 2 ^ 64" using assms(1) by (simp add: timeline_inv_def)
  have "dm_next_sequence d \<notin> set (queued d)" using queued_sequences [OF assms(1)] by blast
  with q have di: "distinct (queued d')"
    using assms(1) by (metis distinct.simps(2) mset.simps(2) mset_eq_imp_distinct_iff timeline_inv_def)
  have "tasks_ok (dm_next_sequence d + 1) (tasks_of d' g)" if "g \<in> set (dm_factories d)" for g
  proof -
    have "tasks_ok (dm_next_sequence d) (tasks_of d g)" using assms(1) that by (simp add: timeline_inv_def)
    then have g: "sorted_wrt (<) (map fst (tasks_of d g))" "\<forall>(k, t) \<in> set (tasks_of d g). key_ok (dm_next_sequence d + 1) k"
      using key_ok_next [OF u] by (auto simp: tasks_ok_def)
    show ?thesis
    proof (cases "g = ?f")
      case True
      have "key_ok (dm_next_sequence d + 1) ?k"
        using assms(3,4) next_greater [OF u] by (simp add: key_ok_def)
      with g emplace_sorted emplace_set [of ?k ?t "tasks_of d ?f"] True d'(7) show ?thesis
        by (fastforce simp: tasks_ok_def)
    next
      case False
      with g d'(8) show ?thesis by (simp add: tasks_ok_def)
    qed
  qed
  moreover have "unat (dm_next_sequence d + 1) + n < 2 ^ 64" using u by (auto simp: unat_word_ariths)
  ultimately show "timeline_inv n d'"
    using assms(1) d' di by (auto simp: timeline_inv_def factories_ok_def)
qed

text \<open>Entries leave one factory.\<close>

lemma shrink_timeline:
  assumes "timeline_inv (Suc n) d" "f \<in> set (dm_factories d)"
    "tasks_of d' f = filter P (tasks_of d f)"
    "\<forall>g. g \<noteq> f \<longrightarrow> tasks_of d' g = tasks_of d g"
    "dm_now d' = dm_now d" "dm_next_sequence d' = dm_next_sequence d"
    "dm_factories d' = dm_factories d" "dm_queues d' = dm_queues d" "dm_fresh d' = dm_fresh d"
    "\<forall>c. Pumping c \<in> set (dm_stack d') \<longrightarrow> Pumping c \<in> set (dm_stack d)"
  shows "timeline_inv n d'"
    "mset (queued d') + mset (map (key_sequence \<circ> fst) (filter (\<lambda>e. \<not> P e) (tasks_of d f)))
       = mset (queued d)"
proof -
  let ?seq = "key_sequence \<circ> fst"
  from mset_split_map [of ?seq P "tasks_of d f"]
  have "mset (map ?seq (filter P (tasks_of d f))) + mset (map ?seq (filter (\<lambda>e. \<not> P e) (tasks_of d f)))
      = mset (map ?seq (tasks_of d f))" .
  moreover have "mset (queued d') + mset (map ?seq (tasks_of d f))
      = mset (queued d) + mset (map ?seq (filter P (tasks_of d f)))"
    using queued_upd [of d f d'] assms by (simp add: timeline_inv_def factories_ok_def)
  ultimately show m: "mset (queued d') + mset (map ?seq (filter (\<lambda>e. \<not> P e) (tasks_of d f)))
       = mset (queued d)"
    by (rule mset_cancel)
  then have "distinct (queued d')" using distinct_part assms(1) by (metis timeline_inv_def)
  moreover have "tasks_ok (dm_next_sequence d) (tasks_of d' g)" if "g \<in> set (dm_factories d)" for g
  proof -
    have "tasks_ok (dm_next_sequence d) (tasks_of d g)" using assms(1) that by (simp add: timeline_inv_def)
    with assms(3,4) show ?thesis
      by (cases "g = f") (auto simp: tasks_ok_def sorted_wrt_map intro: sorted_wrt_filter)
  qed
  ultimately show "timeline_inv n d'"
    using assms by (auto simp: timeline_inv_def factories_ok_def)
qed

lemma delete_begin_timeline:
  assumes "timeline_inv (Suc n) d" "dm_queues d q = Some c" "delete_begin q c d = (ks, d')"
  shows "timeline_inv n d'" "mset (queued d') + mset (map key_sequence ks) = mset (queued d)"
proof -
  let ?f = "cq_factory c"
  have f: "?f \<in> set (dm_factories d)" using assms(1,2) by (auto simp: timeline_inv_def)
  have d': "tasks_of d' ?f = filter (\<lambda>e. st_queue (snd e) \<noteq> q) (tasks_of d ?f)"
    "\<forall>g. g \<noteq> ?f \<longrightarrow> tasks_of d' g = tasks_of d g" "dm_now d' = dm_now d"
    "dm_next_sequence d' = dm_next_sequence d" "dm_factories d' = dm_factories d"
    "dm_queues d' = dm_queues d" "dm_fresh d' = dm_fresh d"
    "\<forall>c. Pumping c \<in> set (dm_stack d') \<longrightarrow> Pumping c \<in> set (dm_stack d)"
    using assms(3) by (auto simp: delete_begin_def on_state_def Let_def o_def case_prod_beta)
  let ?mine = "filter (\<lambda>e. st_queue (snd e) = q) (tasks_of d ?f)" and ?seq = "key_sequence \<circ> fst"
  have "ks = map fst (filter (\<lambda>e. \<not> st_delayed (snd e)) ?mine @ filter (\<lambda>e. st_delayed (snd e)) ?mine)"
    using assms(3) by (auto simp: delete_begin_def Let_def o_def case_prod_beta)
  then have "mset (map key_sequence ks) = mset (map ?seq (filter (\<lambda>e. \<not> st_delayed (snd e)) ?mine))
      + mset (map ?seq (filter (\<lambda>e. st_delayed (snd e)) ?mine))" by simp
  then have ks: "mset (map key_sequence ks) = mset (map ?seq ?mine)"
    using mset_split_map [of ?seq "\<lambda>e. st_delayed (snd e)" ?mine] by (simp only: add.commute)
  from shrink_timeline [OF assms(1) f d'(1,2,3,4,5,6,7,8)]
  show "timeline_inv n d'" "mset (queued d') + mset (map key_sequence ks) = mset (queued d)"
    by (simp_all only: ks not_not)
qed

lemma pump_dispatch_timeline:
  assumes "timeline_inv (Suc n) d" "f \<in> set (dm_factories d)" "pump_dispatch f k d = Some (r, d')"
  shows "timeline_inv n d'" "mset (queued d') + mset (ends r) = mset (queued d)"
proof -
  from assms(3) obtain t where t: "map_of (tasks_of d f) k = Some t" "ends r = [key_sequence k]"
    by (auto simp: pump_dispatch_def split: option.splits)
  have d': "tasks_of d' f = filter (\<lambda>e. fst e \<noteq> k) (tasks_of d f)"
    "\<forall>g. g \<noteq> f \<longrightarrow> tasks_of d' g = tasks_of d g" "dm_now d' = dm_now d"
    "dm_next_sequence d' = dm_next_sequence d" "dm_factories d' = dm_factories d"
    "dm_queues d' = dm_queues d" "dm_fresh d' = dm_fresh d"
    "\<forall>c. Pumping c \<in> set (dm_stack d') \<longrightarrow> Pumping c \<in> set (dm_stack d)"
    using assms(3) by (auto simp: pump_dispatch_def on_state_def case_prod_unfold split: option.splits)
  have "distinct (map fst (tasks_of d f))"
    using assms(1,2) sorted_keys_distinct by (auto simp: timeline_inv_def tasks_ok_def)
  from map_of_filter_key [OF this t(1)]
  have "mset (map (key_sequence \<circ> fst) (filter (\<lambda>e. \<not> fst e \<noteq> k) (tasks_of d f))) = {#key_sequence k#}"
    by simp
  with shrink_timeline [OF assms(1,2) d'(1,2,3,4,5,6,7,8)]
  show "timeline_inv n d'" "mset (queued d') + mset (ends r) = mset (queued d)" by (simp_all add: t)
qed

lemma factory_timeline:
  assumes "timeline_inv (Suc n) d" "new_cooperative_task_queue_factory t d = (r, d')"
  shows "timeline_inv n d' \<and> queued d' = queued d"
proof (cases r)
  case None
  with assms show ?thesis
    by (auto simp: new_cooperative_task_queue_factory_def timeline_inv_def split: if_splits)
next
  case (Some f)
  with assms(2) have d': "f = dm_fresh d" "dm_now d' = dm_now d" "dm_next_sequence d' = dm_next_sequence d"
    "dm_factories d' = dm_factories d @ [f]" "dm_fresh d' = f + 1" "dm_queues d' = dm_queues d"
    "dm_stack d' = dm_stack d" "tasks_of d' f = []" "\<forall>g. g \<noteq> f \<longrightarrow> tasks_of d' g = tasks_of d g"
    by (auto simp: new_cooperative_task_queue_factory_def on_state_def queue_state_new_def split: if_splits)
  have f: "f \<notin> set (dm_factories d)" using assms(1) d'(1) by (auto simp: timeline_inv_def factories_ok_def)
  then have q: "queued d' = queued d"
    using d' by (auto simp: queued_def intro!: arg_cong [where f = concat] map_cong)
       metis
  with f d' assms(1) show ?thesis
    by (fastforce simp: timeline_inv_def factories_ok_def tasks_ok_def)
qed

lemma select_task_member:
  "select_task d c fs best = Some (Some f, k) \<Longrightarrow> f \<in> set fs \<or> fst best = Some f"
  by (induction fs arbitrary: best) (fastforce split: option.splits if_splits)+

lemma pump_turn_timeline:
  assumes "timeline_inv (Suc n) d" "dm_stack d = Pumping c # rest" "pump_turn c rest d = Some (r, d')"
  shows "timeline_inv n d' \<and> mset (queued d') + mset (ends r) = mset (queued d) \<and> posts r = []"
proof -
  consider "pump_return c rest d = (r, d')"
    | f k where "select_task d c (pc_states c) (None, no_key) = Some (Some f, k)" "pump_dispatch f k d = Some (r, d')"
    using assms(3) by (auto simp: pump_turn_def split: if_splits option.splits)
  then show ?thesis
  proof cases
    case 1
    then have "same_timeline d d'" "ends r = []" "posts r = []"
      using assms(1,2) by (auto simp: same_timeline_def pump_return_def timeline_inv_def)
    with same_timeline_inv same_timeline_queued assms(1) show ?thesis by simp
  next
    case (2 f k)
    with select_task_member [OF 2(1)] assms(1,2) have "f \<in> set (dm_factories d)"
      by (auto simp: timeline_inv_def)
    moreover have "posts r = []" using 2(2) by (auto simp: pump_dispatch_def split: option.splits)
    ultimately show ?thesis using pump_dispatch_timeline [OF assms(1) _ 2(2)] by blast
  qed
qed

lemma post_timeline:
  assumes "timeline_inv (Suc n) d" "dm_queues d q = Some c"
    "post_task_impl q c t d = (r, d') \<or> post_delayed_task_impl q c t delay d = (r, d')"
  shows "timeline_inv n d' \<and> mset (queued d') = mset (queued d) + mset (posts (post_reply q d r))
    \<and> ends (post_reply q d r) = []"
proof -
  consider "(r, d') = (None, d)"
    | deadline late where "schedule q c deadline late t d = (r, d')" "0 \<le> deadline" "deadline \<le> kMaxTimeUs"
    using assms(1,3) by (force simp: post_task_impl_def post_delayed_task_impl_def Let_def timeline_inv_def
        split: if_splits)
  then show ?thesis
  proof cases
    case 1
    then show ?thesis using assms(1) by (auto simp: post_reply_def timeline_inv_def)
  next
    case 2
    from schedule_timeline [OF assms(1,2) 2(2,3,1)] show ?thesis by (auto simp: post_reply_def)
  qed
qed

text \<open>A step gives out the next sequence number or leaves the counter alone.\<close>

definition numbers :: "execution_domain \<Rightarrow> u64 list \<Rightarrow> execution_domain \<Rightarrow> bool" where
  "numbers d is d' \<longleftrightarrow> is = [] \<and> dm_next_sequence d' = dm_next_sequence d
     \<or> is = [dm_next_sequence d] \<and> dm_next_sequence d' = dm_next_sequence d + 1"

lemma post_numbers:
  "post_task_impl q c t d = (r, d') \<or> post_delayed_task_impl q c t delay d = (r, d')
     \<Longrightarrow> numbers d (posts (post_reply q d r)) d'"
  by (auto simp: numbers_def post_task_impl_def post_delayed_task_impl_def schedule_def Let_def post_reply_def
      on_state_def split: if_splits)

definition balanced :: "nat \<Rightarrow> execution_domain \<Rightarrow> control_reply \<Rightarrow> execution_domain \<Rightarrow> bool" where
  "balanced n d r d' \<longleftrightarrow> timeline_inv n d'
     \<and> mset (posts r) + mset (queued d) = mset (ends r) + mset (queued d')
     \<and> numbers d (posts r) d'"

lemma balanced_same:
  "timeline_inv (Suc n) d \<Longrightarrow> same_timeline d d' \<Longrightarrow> posts r = [] \<Longrightarrow> ends r = [] \<Longrightarrow> balanced n d r d'"
  by (simp add: balanced_def numbers_def same_timeline_inv same_timeline_queued) (simp add: same_timeline_def)

lemma same_timeline_refl [simp]: "same_timeline d d"
  by (auto simp: same_timeline_def)

lemma make_queue_timeline:
  assumes "make_queue f name th l d = (r, d')"
  shows "same_timeline d d' \<and> posts r = [] \<and> ends r = []"
  using assms by (auto simp: make_queue_def cooperative_queue_new_def same_timeline_def Let_def split: if_splits)

lemma closures_dropped_timeline:
  assumes "closures_dropped d = (r, d')"
  shows "same_timeline d d' \<and> posts r = [] \<and> ends r = []"
  using assms
  by (auto simp: closures_dropped_def same_timeline_def free_queue_def split: list.splits activity.splits if_splits)

lemma pump_enter_timeline:
  "timeline_inv n d \<Longrightarrow> f \<in> set (dm_factories d) \<Longrightarrow> same_timeline d (pump_ready_tasks f b d)"
  "same_timeline d (pump_clock b e l y d)" "same_timeline d (yield_execution d)"
  by (auto simp: pump_ready_tasks_def pump_states_def pump_clock_def yield_execution_def Let_def same_timeline_def)

lemma run_end_timeline:
  assumes "dm_stack d = Running q f p # Pumping c # rest"
  shows "same_timeline d (run_end q f p c rest d)"
  using assms
  by (auto simp: run_end_def Let_def same_timeline_def free_queue_def on_state_def)

lemma on_open_queue_iff:
  "on_open_queue q g d = Some (r, d') \<longleftrightarrow> \<not> dm_open d q \<and> r = Refused \<and> d' = d
     \<or> dm_open d q \<and> (\<exists>c. dm_queues d q = Some c \<and> g c = (r, d'))"
  by (auto simp: on_open_queue_def)

lemma reply_iff: "(case p of (x, y) \<Rightarrow> (f x, y)) = (r, d') \<longleftrightarrow> (\<exists>x. p = (x, d') \<and> r = f x)"
  by (cases p) auto

lemma owner_step_timeline:
  assumes t: "timeline_inv (Suc n) d" and s: "owner_step a d = Some (r, d')"
  shows "balanced n d r d'"
proof (cases a)
  case (NewFactory th)
  with s obtain r' where "new_cooperative_task_queue_factory th d = (r', d')" "posts r = []" "ends r = []"
    by (auto split: prod.splits option.splits)
  with factory_timeline [OF t this(1)] show ?thesis
    by (auto simp: balanced_def numbers_def new_cooperative_task_queue_factory_def on_state_def split: if_splits)
next
  case (PostCurrent x)
  then consider "posts r = []" "ends r = []" "d' = d"
    | q c r' where "dm_queues d q = Some c" "post_task_impl q c x d = (r', d')" "r = post_reply q d r'"
    using s by (auto simp: post_current_def Let_def reply_iff split: option.splits if_splits)
  then show ?thesis
  proof cases
    case 1
    with balanced_same [OF t] show ?thesis by simp
  next
    case 2
    with post_timeline [OF t 2(1), of x r' d'] show ?thesis using post_numbers [of q c x d r' d'] by (simp add: balanced_def add.commute)
  qed
next
  case (DeleteQueue q)
  with s consider "posts r = []" "ends r = []" "d' = d"
    | c ks where "dm_queues d q = Some c" "delete_begin q c d = (ks, d')" "r = Dropped ks"
    by (auto simp: on_open_queue_iff Let_def reply_iff)
  then show ?thesis
  proof cases
    case 1
    with balanced_same [OF t] show ?thesis by simp
  next
    case 2
    with delete_begin_timeline [OF t 2(1,2)] show ?thesis
      by (auto simp: balanced_def add.commute numbers_def delete_begin_def Let_def on_state_def case_prod_unfold)
  qed
qed (use s t make_queue_timeline closures_dropped_timeline pump_enter_timeline run_end_timeline in
  \<open>auto split: if_splits list.splits activity.splits simp: driver_pump_def intro!: balanced_same\<close>)

lemma advance_timeline:
  assumes "timeline_inv (Suc n) d" "advance_manual_clock delta d = (ok, d')"
  shows "timeline_inv n d' \<and> queued d' = queued d"
proof -
  have "queued d' = queued d" using assms(2) by (auto simp: advance_manual_clock_def queued_def split: if_splits)
  with assms show ?thesis
    by (auto simp: advance_manual_clock_def timeline_inv_def factories_ok_def split: if_splits) blast+
qed

lemma step_timeline:
  assumes t: "timeline_inv (Suc n) d" and s: "control_step a d = Some (r, d')"
  shows "balanced n d r d'"
proof (cases a)
  case (PostTask q x)
  with s consider "posts r = []" "ends r = []" "d' = d"
    | c r' where "dm_queues d q = Some c" "post_task_impl q c x d = (r', d')" "r = post_reply q d r'"
    by (auto simp: control_step_def on_open_queue_iff Let_def reply_iff)
  then show ?thesis
  proof cases
    case 1
    with balanced_same [OF t] show ?thesis by simp
  next
    case 2
    with post_timeline [OF t 2(1), of x r' d'] show ?thesis using post_numbers [of q c x d r' d'] by (simp add: balanced_def add.commute)
  qed
next
  case (PostDelayedTask q delay x)
  with s consider "posts r = []" "ends r = []" "d' = d"
    | c r' where "dm_queues d q = Some c" "post_delayed_task_impl q c x delay d = (r', d')" "r = post_reply q d r'"
    by (auto simp: control_step_def on_open_queue_iff Let_def reply_iff)
  then show ?thesis
  proof cases
    case 1
    with balanced_same [OF t] show ?thesis by simp
  next
    case 2
    with post_timeline [OF t 2(1), of x r' d' delay] show ?thesis using post_numbers [of q c x d r' d' delay] by (simp add: balanced_def add.commute)
  qed
next
  case (Advance delta)
  with s obtain ok where "advance_manual_clock delta d = (ok, d')" "posts r = []" "ends r = []"
    by (auto simp: control_step_def Let_def split: prod.splits if_splits)
  with advance_timeline [OF t this(1)] show ?thesis
    by (auto simp: balanced_def numbers_def advance_manual_clock_def split: if_splits)
next
  case NextTurn
  show ?thesis
  proof (cases "\<exists>c rest. dm_stack d = Pumping c # rest")
    case True
    then obtain c rest where st: "dm_stack d = Pumping c # rest" by blast
    with s NextTurn have "pump_turn c rest d = Some (r, d')" by (simp add: control_step_def)
    from pump_turn_timeline [OF t st this] this show ?thesis
      by (auto simp: balanced_def add.commute numbers_def pump_turn_def pump_return_def pump_dispatch_def on_state_def
          split: if_splits option.splits)
  next
    case False
    with s NextTurn have "r = NotNow" "d' = d"
      by (auto simp: control_step_def split: list.splits activity.splits)
    then show ?thesis using balanced_same [OF t] by simp
  qed
qed (use s owner_step_timeline [OF t] balanced_same [OF t] in 
  \<open>auto simp: control_step_def simp del: owner_step.simps split: if_splits\<close>)

interpretation scheduled_tasks: settlement control_step timeline_inv "\<lambda>_. True" "\<lambda>d. count_list (queued d)" posts ends
proof
  fix a n d r d' i
  assume t: "timeline_inv (Suc n) d" "control_step a d = Some (r, d')"
  from step_timeline [OF this] have "count (mset (posts r) + mset (queued d)) i = count (mset (ends r) + mset (queued d')) i"
    by (simp add: balanced_def)
  then show "count_list (posts r) i + count_list (queued d) i = count_list (ends r) i + count_list (queued d') i"
    by (simp add: count_list_mset)
qed (use step_timeline in \<open>auto simp: balanced_def\<close>)

lemma new_clock_timeline:
  "new_manual_clock th us = Some d \<Longrightarrow> n < 2 ^ 64 \<Longrightarrow> timeline_inv n d"
  by (auto simp: new_manual_clock_def timeline_inv_def factories_ok_def queued_def split: if_splits)

subsection \<open>Each task once\<close>

lemma posted_once:
  "run_steps control_step as d = Some (rs, d') \<Longrightarrow> timeline_inv (length as + n) d \<Longrightarrow>
     count_list (concat (map posts rs)) i \<le> of_bool (dm_next_sequence d \<le> i)"
proof (induction as arbitrary: d rs)
  case (Cons a as)
  from Cons.prems(1) obtain r t rs' where t: "control_step a d = Some (r, t)"
    "run_steps control_step as t = Some (rs', d')" "rs = r # rs'"
    by (auto simp: run_steps_Cons simp del: run_steps.simps)
  from Cons.prems(2) have "timeline_inv (Suc (length as + n)) d" by simp
  from step_timeline [OF this t(1)] Cons.IH [OF t(2)] this
  have "count_list (concat (map posts rs')) i \<le> of_bool (dm_next_sequence t \<le> i)"
    "numbers d (posts r) t" "unat (dm_next_sequence d) + Suc (length as + n) < 2 ^ 64"
    by (auto simp: balanced_def timeline_inv_def)
  note u = this
  show ?case
  proof (cases "posts r = []")
    case True
    with u t(3) show ?thesis by (simp add: numbers_def)
  next
    case False
    with u have p: "posts r = [dm_next_sequence d]" "dm_next_sequence d < dm_next_sequence t"
      using next_greater [of "dm_next_sequence d"] by (auto simp: numbers_def)
    have "of_bool (dm_next_sequence d = i) + of_bool (dm_next_sequence t \<le> i)
        \<le> (of_bool (dm_next_sequence d \<le> i) :: nat)"
      using p(2) by auto
    with u(1) p(1) t(3) show ?thesis by (auto split: if_splits)
  qed
qed simp

subsection \<open>Which task is next\<close>

definition may_run :: "execution_domain \<Rightarrow> pump_call \<Rightarrow> queue_state \<Rightarrow> scheduled_task \<Rightarrow> bool" where
  "may_run d c s t \<longleftrightarrow> (case dm_queues d (st_queue t) of None \<Rightarrow> False
     | Some q \<Rightarrow> (pc_lifecycle_only c \<longrightarrow> cq_lifecycle q) \<and> qs_running s (st_queue t) = 0
         \<and> Some (cq_identity q) \<noteq> pc_excluded c \<and> Some (cq_identity q) \<notin> set (dm_suspended d))"

lemma first_ready_some:
  assumes "first_ready d c s m = Some (Some k)" "sorted_wrt (<) (map fst m)"
  shows "(\<exists>t. (k, t) \<in> set m \<and> may_run d c s t) \<and> key_deadline k \<le> dm_now d
    \<and> (\<forall>(k', t') \<in> set m. may_run d c s t' \<longrightarrow> k \<le> k')"
  using assms
proof (induction m)
  case (Cons e m)
  obtain k0 t0 where e: "e = (k0, t0)" by (cases e)
  from Cons.prems e consider
      "may_run d c s t0" "k0 = k" "key_deadline k \<le> dm_now d"
    | "\<not> may_run d c s t0" "first_ready d c s m = Some (Some k)"
    by (auto simp: may_run_def split: if_splits option.splits)
  then show ?case
  proof cases
    case 1
    with Cons.prems(2) e show ?thesis by auto
  next
    case 2
    with Cons.IH Cons.prems(2) e show ?thesis by fastforce
  qed
qed simp

lemma first_ready_none:
  assumes "first_ready d c s m = Some None" "sorted_wrt (<) (map fst m)" "(k, t) \<in> set m"
    "key_deadline k \<le> dm_now d"
  shows "\<not> may_run d c s t"
  using assms
proof (induction m)
  case (Cons e m)
  obtain k0 t0 where e: "e = (k0, t0)" by (cases e)
  show ?case
  proof (cases "dm_now d < key_deadline k0")
    case True
    with Cons.prems e show ?thesis by (auto simp: less_task_key_def)
  next
    case False
    with Cons e show ?thesis by (auto simp: may_run_def split: option.splits if_splits)
  qed
qed simp

lemma select_task_some:
  assumes "select_task d c fs best = Some (b, k)"
  shows "k \<le> snd best
    \<and> (b, k) \<in> insert best {(Some f, k) |f k. f \<in> set fs \<and> first_ready d c (dm_states d f) (tasks_of d f) = Some (Some k)}
    \<and> (\<forall>f\<in>set fs. \<exists>o'. first_ready d c (dm_states d f) (tasks_of d f) = Some o' \<and> (\<forall>k'. o' = Some k' \<longrightarrow> k \<le> k'))"
  using assms
proof (induction fs arbitrary: best)
  case (Cons f fs)
  from Cons.prems obtain o' where o: "first_ready d c (dm_states d f) (tasks_of d f) = Some o'"
    by (auto split: option.splits)
  show ?case
  proof (cases o')
    case None
    with Cons.IH [of best] Cons.prems o show ?thesis by auto
  next
    case (Some k')
    let ?best = "if k' < snd best then (Some f, k') else best"
    from Cons.IH [of ?best] Cons.prems o Some show ?thesis by (auto split: if_splits)
  qed
qed auto

lemma tasks_ok_below:
  assumes "tasks_ok next m" "(k, t) \<in> set m" shows "k < no_key"
proof -
  have "key_ok next k" using assms by (auto simp: tasks_ok_def)
  then show ?thesis by (auto simp: key_ok_def less_task_key_def no_key_def kMaxTimeUs_def)
qed

end
