(* ===== verification/SchedulerMemory.thy ===== *)
theory SchedulerMemory
  imports SchedulerRuns
begin

text \<open>
  No task is run for a queue that has been freed, and no queue runs two tasks at once.  The invariant
  \<open>memory_inv\<close> says who may still name a queue: its tasks, the activities on the stack and the current
  context.  It is kept by every step but a post to a queue whose tasks are being destroyed, and that
  one exception is what the code gets wrong.
\<close>

subsection \<open>The invariant\<close>

definition is_running :: "address \<Rightarrow> address \<Rightarrow> activity \<Rightarrow> bool" where
  "is_running f q a \<longleftrightarrow> (case a of Running q' f' _ \<Rightarrow> q' = q \<and> f' = f | _ \<Rightarrow> False)"

definition is_dying :: "address \<Rightarrow> activity \<Rightarrow> bool" where
  "is_dying q a \<longleftrightarrow> (case a of Deleting q' b _ \<Rightarrow> b \<and> q' = q | Discarding q' b \<Rightarrow> b \<and> q' = q | _ \<Rightarrow> False)"

lemma is_running_simps [simp]:
  "is_running f q (Running q' f' p) \<longleftrightarrow> q' = q \<and> f' = f"
  "\<not> is_running f q (Pumping c)" "\<not> is_running f q (Deleting q' b p)" "\<not> is_running f q (Discarding q' b)"
  by (simp_all add: is_running_def)

lemma is_dying_simps [simp]:
  "is_dying q (Deleting q' b p) \<longleftrightarrow> b \<and> q' = q" "is_dying q (Discarding q' b) \<longleftrightarrow> b \<and> q' = q"
  "\<not> is_dying q (Pumping c)" "\<not> is_dying q (Running q' f' p)"
  by (simp_all add: is_dying_def)

definition running_count :: "address \<Rightarrow> address \<Rightarrow> activity list \<Rightarrow> nat" where
  "running_count f q st = length (filter (is_running f q) st)"

definition dying_count :: "address \<Rightarrow> activity list \<Rightarrow> nat" where
  "dying_count q st = length (filter (is_dying q) st)"

lemma counts_simps [simp]:
  "running_count f q [] = 0" "dying_count q [] = 0"
  "running_count f q (a # st) = of_bool (is_running f q a) + running_count f q st"
  "dying_count q (a # st) = of_bool (is_dying q a) + dying_count q st"
  by (simp_all add: running_count_def dying_count_def)

lemma dying_iff: "dying q d \<longleftrightarrow> 0 < dying_count q (dm_stack d)"
proof -
  have "list_ex (\<lambda>a. case a of Deleting q' True _ \<Rightarrow> q' = q | Discarding q' True \<Rightarrow> q' = q | _ \<Rightarrow> False) st
      \<longleftrightarrow> 0 < dying_count q st" for st
    by (induction st) (auto split: activity.splits bool.splits)
  then show ?thesis by (simp add: dying_def)
qed

text \<open>The queue in whose scope the activities run, and what each activity needs of those below it.\<close>

fun scope :: "activity list \<Rightarrow> address option" where
  "scope [] = None"
| "scope (Running q f p # st) = Some q"
| "scope (Deleting q b p # st) = Some q"
| "scope (_ # st) = scope st"

definition in_scope :: "current \<Rightarrow> activity list \<Rightarrow> bool" where
  "in_scope p st \<longleftrightarrow> (\<forall>q i. p = Some (q, i) \<longrightarrow> scope st = Some q)"

fun stack_ok :: "activity list \<Rightarrow> bool" where
  "stack_ok [] = True"
| "stack_ok (Pumping c # st) \<longleftrightarrow> \<not> pumping st \<and> stack_ok st"
| "stack_ok (Running q f p # st) \<longleftrightarrow> pumping st \<and> in_scope p st \<and> stack_ok st"
| "stack_ok (Deleting q b p # st) \<longleftrightarrow> \<not> pumping st \<and> in_scope p st
     \<and> (b \<or> (\<exists>f. 0 < running_count f q st)) \<and> stack_ok st"
| "stack_ok (Discarding q b # st) \<longleftrightarrow> \<not> pumping st \<and> stack_ok st"

definition no_tasks :: "address \<Rightarrow> queue_state \<Rightarrow> bool" where
  "no_tasks q s \<longleftrightarrow> (\<forall>(k, t) \<in> set (qs_tasks s). st_queue t \<noteq> q)"

definition state_ok :: "execution_domain \<Rightarrow> address \<Rightarrow> bool" where
  "state_ok d f \<longleftrightarrow> (let s = dm_states d f in
     (\<forall>(k, t) \<in> set (qs_tasks s). \<exists>c. dm_queues d (st_queue t) = Some c \<and> cq_factory c = f)
     \<and> (\<forall>q. qs_running s q = running_count f q (dm_stack d))
     \<and> (\<forall>q. qs_deleted s q \<longrightarrow> 0 < running_count f q (dm_stack d) \<and> \<not> dm_open d q \<and> no_tasks q s))"

definition queue_ok :: "execution_domain \<Rightarrow> address \<Rightarrow> bool" where
  "queue_ok d q \<longleftrightarrow>
     (dm_open d q \<longrightarrow> dm_queues d q \<noteq> None \<and> dying_count q (dm_stack d) = 0)
     \<and> dying_count q (dm_stack d) \<le> 1
     \<and> (\<forall>f. running_count f q (dm_stack d) \<le> 1
          \<and> (0 < running_count f q (dm_stack d) \<longrightarrow> (\<exists>c. dm_queues d q = Some c \<and> cq_factory c = f)))
     \<and> (0 < dying_count q (dm_stack d) \<longrightarrow> (\<exists>c. dm_queues d q = Some c
          \<and> running_count (cq_factory c) q (dm_stack d) = 0 \<and> no_tasks q (dm_states d (cq_factory c))))
     \<and> (\<forall>c. dm_queues d q = Some c \<longrightarrow> q < dm_fresh d \<and> cq_factory c \<in> set (dm_factories d))"

definition memory_inv :: "execution_domain \<Rightarrow> bool" where
  "memory_inv d \<longleftrightarrow> (\<forall>f\<in>set (dm_factories d). state_ok d f) \<and> (\<forall>q. queue_ok d q)
     \<and> stack_ok (dm_stack d) \<and> in_scope (dm_current d) (dm_stack d)
     \<and> (\<forall>f\<in>set (dm_factories d). f < dm_fresh d)
     \<and> (\<forall>c. Pumping c \<in> set (dm_stack d) \<longrightarrow> set (pc_states c) \<subseteq> set (dm_factories d))"

subsection \<open>Consequences\<close>

lemma memory_state: "memory_inv d \<Longrightarrow> f \<in> set (dm_factories d) \<Longrightarrow> state_ok d f"
  by (simp add: memory_inv_def)

lemma memory_queue: "memory_inv d \<Longrightarrow> queue_ok d q"
  by (simp add: memory_inv_def)

lemma scope_cases: "scope st = Some q \<Longrightarrow>
    (\<exists>f p. Running q f p \<in> set st) \<or> (\<exists>b p. Deleting q b p \<in> set st)"
  by (induction st rule: scope.induct) auto

lemma running_count_pos: "Running q f p \<in> set st \<Longrightarrow> 0 < running_count f q st"
  by (induction st) auto

lemma dying_count_pos: "a \<in> set st \<Longrightarrow> is_dying q a \<Longrightarrow> 0 < dying_count q st"
  by (induction st) auto

lemma running_suffix: "stack_ok st \<Longrightarrow> Deleting q False p \<in> set st \<Longrightarrow> \<exists>f. 0 < running_count f q st"
  by (induction st rule: stack_ok.induct) auto

text \<open>Whatever is in scope is running or dying, hence a live queue.\<close>

lemma scope_running_or_dying:
  assumes "stack_ok st" "scope st = Some q"
  shows "(\<exists>f. 0 < running_count f q st) \<or> 0 < dying_count q st"
  using scope_cases [OF assms(2)] running_count_pos dying_count_pos running_suffix [OF assms(1)]
  by (metis is_dying_simps(1))

lemma current_alive:
  assumes "memory_inv d" "dm_current d = Some (q, i)"
  shows "\<exists>c. dm_queues d q = Some c"
proof -
  from assms have "scope (dm_stack d) = Some q" "stack_ok (dm_stack d)"
    by (auto simp: memory_inv_def in_scope_def)
  from scope_running_or_dying [OF this(2,1)] memory_queue [OF assms(1), of q] show ?thesis
    by (auto simp: queue_ok_def)
qed

lemma tasks_alive:
  assumes "memory_inv d" "f \<in> set (dm_factories d)" "(k, t) \<in> set (tasks_of d f)"
  shows "\<exists>c. dm_queues d (st_queue t) = Some c \<and> cq_factory c = f"
  using memory_state [OF assms(1,2)] assms(3) by (auto simp: state_ok_def Let_def)

subsection \<open>Each operation\<close>

lemma schedule_memory:
  assumes m: "memory_inv d" and c: "dm_queues d q = Some c"
    and q: "\<not> qs_deleted (dm_states d (cq_factory c)) q" "\<not> dying q d"
    and s: "schedule q c deadline late t d = (r, d')"
  shows "memory_inv d'"
proof -
  let ?f = "cq_factory c"
  obtain k e where d': "tasks_of d' ?f = emplace k e (tasks_of d ?f)" "st_queue e = q"
    "\<forall>g. g \<noteq> ?f \<longrightarrow> dm_states d' g = dm_states d g"
    "qs_running (dm_states d' ?f) = qs_running (dm_states d ?f)"
    "qs_deleted (dm_states d' ?f) = qs_deleted (dm_states d ?f)"
    "dm_queues d' = dm_queues d" "dm_stack d' = dm_stack d" "dm_open d' = dm_open d"
    "dm_fresh d' = dm_fresh d" "dm_factories d' = dm_factories d" "dm_current d' = dm_current d"
    using s by (auto simp: schedule_def on_state_def)
  have set: "set (tasks_of d' ?f) \<subseteq> insert (k, e) (set (tasks_of d ?f))"
    using d'(1) emplace_set by simp
  have n: "no_tasks q' (dm_states d g) \<Longrightarrow> q' \<noteq> q \<Longrightarrow> no_tasks q' (dm_states d' g)" for q' g
    using set d'(2,3) by (cases "g = ?f") (fastforce simp: no_tasks_def)+
  have "state_ok d' g" if "g \<in> set (dm_factories d)" for g
  proof (cases "g = ?f")
    case True
    have i: "\<exists>c. dm_queues d (st_queue t) = Some c \<and> cq_factory c = ?f" if "(k', t) \<in> set (tasks_of d' ?f)" for k' t
      using that set tasks_alive [OF m] c d'(2) \<open>g \<in> set (dm_factories d)\<close> True by fastforce
    have "no_tasks q' (dm_states d' ?f)" if "qs_deleted (dm_states d ?f) q'" for q'
    proof -
      from that q(1) have "q' \<noteq> q" by auto
      with n that memory_state [OF m] \<open>g \<in> set (dm_factories d)\<close> True show ?thesis
        by (auto simp: state_ok_def Let_def)
    qed
    with i memory_state [OF m that] True d'(4-8) show ?thesis by (auto simp: state_ok_def Let_def)
  next
    case False
    with memory_state [OF m that] d'(3,6-8) show ?thesis by (simp add: state_ok_def Let_def)
  qed
  moreover have "queue_ok d' q'" for q'
    using memory_queue [OF m, of q'] n [of q'] q(2) d'(6-9,10)
    by (cases "q' = q") (auto simp: queue_ok_def dying_iff)
  ultimately show ?thesis using m d' by (simp add: memory_inv_def)
qed

lemma post_memory:
  assumes "memory_inv d" "dm_queues d q = Some c"
    "post_task_impl q c t d = (r, d') \<or> post_delayed_task_impl q c t delay d = (r, d')"
    "\<forall>i. post_reply q d r \<noteq> PostedToDying i"
  shows "memory_inv d'"
proof -
  consider "d' = d"
    | deadline late where "schedule q c deadline late t d = (r, d')" "r = Some (dm_next_sequence d)"
        "\<not> qs_deleted (dm_states d (cq_factory c)) q"
    using assms(3) by (force simp: post_task_impl_def post_delayed_task_impl_def Let_def schedule_def
        split: if_splits)
  then show ?thesis
  proof cases
    case 1
    with assms(1) show ?thesis by simp
  next
    case 2
    with assms(4) have "\<not> dying q d" by (auto simp: post_reply_def split: if_splits)
    from schedule_memory [OF assms(1,2) 2(3) this 2(1)] show ?thesis .
  qed
qed

lemma delete_memory:
  assumes m: "memory_inv d" and c: "dm_queues d q = Some c" and o: "dm_open d q"
    and p: "\<not> pumping (dm_stack d)" and s: "delete_begin q c d = (ks, d')"
  shows "memory_inv d'"
proof -
  let ?f = "cq_factory c" and ?idle = "qs_running (dm_states d (cq_factory c)) q = 0"
  have d': "tasks_of d' ?f = filter (\<lambda>e. st_queue (snd e) \<noteq> q) (tasks_of d ?f)"
    "\<forall>g. g \<noteq> ?f \<longrightarrow> dm_states d' g = dm_states d g"
    "qs_running (dm_states d' ?f) = qs_running (dm_states d ?f)"
    "qs_deleted (dm_states d' ?f) = (qs_deleted (dm_states d ?f))(q := \<not> ?idle)"
    "dm_queues d' = dm_queues d" "dm_stack d' = Deleting q ?idle (dm_current d) # dm_stack d"
    "dm_open d' = (dm_open d)(q := False)" "dm_fresh d' = dm_fresh d"
    "dm_factories d' = dm_factories d" "dm_current d' = Some (q, cq_identity c)"
    using s by (auto simp: delete_begin_def on_state_def Let_def o_def case_prod_beta fun_eq_iff)
  have f: "?f \<in> set (dm_factories d)" and z: "dying_count q (dm_stack d) = 0"
    and other: "0 < running_count g q (dm_stack d) \<longrightarrow> g = ?f" for g
    using memory_queue [OF m, of q] c o by (auto simp: queue_ok_def)
  have idle: "?idle \<longleftrightarrow> running_count ?f q (dm_stack d) = 0"
    using memory_state [OF m f] by (simp add: state_ok_def Let_def)
  have n: "no_tasks q (dm_states d' ?f)"
    "no_tasks q' (dm_states d g) \<Longrightarrow> no_tasks q' (dm_states d' g)" for q' g
    using d'(1,2) by (cases "g = ?f"; auto simp: no_tasks_def)+
  have "state_ok d' g" if "g \<in> set (dm_factories d)" for g
  proof (cases "g = ?f")
    case True
    with memory_state [OF m that] d' n idle show ?thesis by (auto simp: state_ok_def Let_def)
  next
    case False
    with memory_state [OF m that] d' show ?thesis by (auto simp: state_ok_def Let_def)
  qed
  moreover have "queue_ok d' q'" for q'
    using memory_queue [OF m, of q'] n(1) n(2) [of q'] d'(5-9) c f z idle
    by (cases "q' = q") (auto simp: queue_ok_def)
  moreover have "stack_ok (dm_stack d')"
    using m p d'(6) idle by (auto simp: memory_inv_def)
  ultimately show ?thesis using m d' by (auto simp: memory_inv_def in_scope_def)
qed

lemma free_memory:
  assumes m: "memory_inv d" and q: "\<not> dm_open d q" "\<forall>f. running_count f q (dm_stack d) = 0"
    "dying_count q (dm_stack d) = 0" "\<forall>f\<in>set (dm_factories d). no_tasks q (dm_states d f)"
  shows "memory_inv (free_queue q d)"
proof -
  have "state_ok (free_queue q d) f" if "f \<in> set (dm_factories d)" for f
    using memory_state [OF m that] q(4) that
    by (fastforce simp: state_ok_def Let_def free_queue_def no_tasks_def)
  moreover have "queue_ok (free_queue q d) q'" for q'
    using memory_queue [OF m, of q'] q by (auto simp: queue_ok_def free_queue_def)
  ultimately show ?thesis using m by (simp add: memory_inv_def free_queue_def)
qed

lemma only_own_factory:
  assumes "memory_inv d" "dm_queues d q = Some c" "no_tasks q (dm_states d (cq_factory c))"
  shows "\<forall>f\<in>set (dm_factories d). no_tasks q (dm_states d f)"
proof
  fix f assume f: "f \<in> set (dm_factories d)"
  show "no_tasks q (dm_states d f)"
    using tasks_alive [OF assms(1) f] assms(2,3) by (fastforce simp: no_tasks_def)
qed

text \<open>An activity that ends or changes, with the counters adjusted.\<close>

lemma restack_memory:
  assumes m: "memory_inv d" and d': "dm_factories d' = dm_factories d" "dm_queues d' = dm_queues d"
    "dm_open d' = dm_open d" "dm_fresh d' = dm_fresh d" "\<forall>f. tasks_of d' f = tasks_of d f"
    and r: "\<forall>f q. qs_running (dm_states d f) q = running_count f q (dm_stack d)
      \<longrightarrow> qs_running (dm_states d' f) q = running_count f q (dm_stack d')"
    and del: "\<forall>f q. qs_deleted (dm_states d' f) q
      \<longrightarrow> qs_deleted (dm_states d f) q
        \<and> (0 < running_count f q (dm_stack d) \<longrightarrow> 0 < running_count f q (dm_stack d'))"
    and le: "\<forall>f q. running_count f q (dm_stack d') \<le> running_count f q (dm_stack d)"
      "\<forall>q. dying_count q (dm_stack d') \<le> dying_count q (dm_stack d)"
    and st: "stack_ok (dm_stack d')" "in_scope (dm_current d') (dm_stack d')"
      "\<forall>c. Pumping c \<in> set (dm_stack d') \<longrightarrow> set (pc_states c) \<subseteq> set (dm_factories d)"
  shows "memory_inv d'"
proof -
  have n: "no_tasks q (dm_states d' f) = no_tasks q (dm_states d f)" for q f
    using d'(5) by (simp add: no_tasks_def)
  have "state_ok d' f" if "f \<in> set (dm_factories d)" for f
    using memory_state [OF m that] d' n r del by (simp add: state_ok_def Let_def)
  moreover have "queue_ok d' q" for q
  proof -
    have r: "running_count f q (dm_stack d') \<le> running_count f q (dm_stack d)" for f using le by blast
    have y: "dying_count q (dm_stack d') \<le> dying_count q (dm_stack d)" using le by blast
    from memory_queue [OF m, of q] have one: "dying_count q (dm_stack d) \<le> 1"
      and o: "dm_open d q \<Longrightarrow> dm_queues d q \<noteq> None \<and> dying_count q (dm_stack d) = 0"
      and run: "running_count f q (dm_stack d) \<le> 1
        \<and> (0 < running_count f q (dm_stack d) \<longrightarrow> (\<exists>c. dm_queues d q = Some c \<and> cq_factory c = f))"
      and die: "0 < dying_count q (dm_stack d) \<Longrightarrow> \<exists>c. dm_queues d q = Some c
          \<and> running_count (cq_factory c) q (dm_stack d) = 0 \<and> no_tasks q (dm_states d (cq_factory c))"
      and known: "dm_queues d q = Some c \<Longrightarrow> q < dm_fresh d \<and> cq_factory c \<in> set (dm_factories d)" for f c
      unfolding queue_ok_def by blast+
    show ?thesis unfolding queue_ok_def d' n
    proof (intro conjI allI impI)
      assume "0 < dying_count q (dm_stack d')"
      with y die obtain c where "dm_queues d q = Some c" "running_count (cq_factory c) q (dm_stack d) = 0"
        "no_tasks q (dm_states d (cq_factory c))" by (metis less_le_trans)
      with r [of "cq_factory c"] show "\<exists>c. dm_queues d q = Some c
          \<and> running_count (cq_factory c) q (dm_stack d') = 0 \<and> no_tasks q (dm_states d (cq_factory c))"
        by auto
    next
      fix f
      show "running_count f q (dm_stack d') \<le> 1" using run [of f] r [of f] by simp
      assume "0 < running_count f q (dm_stack d')"
      with run [of f] r [of f] show "\<exists>c. dm_queues d q = Some c \<and> cq_factory c = f" by simp
    qed (use one o y known in auto)
  qed
  ultimately show ?thesis using m d' st by (simp add: memory_inv_def)
qed

lemma closures_memory:
  assumes m: "memory_inv d" and s: "closures_dropped d = (r, d')"
  shows "memory_inv d'"
proof -
  from m have stack: "stack_ok (dm_stack d)" "in_scope (dm_current d) (dm_stack d)"
      "\<forall>c. Pumping c \<in> set (dm_stack d) \<longrightarrow> set (pc_states c) \<subseteq> set (dm_factories d)"
    by (simp_all add: memory_inv_def)
  consider "d' = d"
    | q b p rest where "dm_stack d = Deleting q b p # rest"
        "d' = d\<lparr>dm_current := p, dm_stack := Discarding q b # rest\<rparr>"
    | q b rest where "dm_stack d = Discarding q b # rest"
        "d' = (if b then free_queue q else id) (d\<lparr>dm_stack := rest\<rparr>)"
    using s by (auto simp: closures_dropped_def split: list.splits activity.splits)
  then show ?thesis
  proof cases
    case 1
    with m show ?thesis by simp
  next
    case 2
    with stack show ?thesis
      by (intro restack_memory [OF m]) (auto simp: in_scope_def)
  next
    case 3
    let ?d = "d\<lparr>dm_stack := rest\<rparr>"
    have k: "memory_inv ?d"
      using 3 stack by (intro restack_memory [OF m]) (auto simp: in_scope_def)
    show ?thesis
    proof (cases b)
      case True
      with 3 memory_queue [OF m, of q] obtain c where c: "dm_queues d q = Some c"
        "running_count (cq_factory c) q rest = 0" "no_tasks q (dm_states d (cq_factory c))"
        "\<not> dm_open d q" "dying_count q rest = 0"
        "\<forall>f. 0 < running_count f q rest \<longrightarrow> cq_factory c = f"
        by (auto simp: queue_ok_def)
      then have "\<forall>f. running_count f q rest = 0" by (metis gr0I)
      with c only_own_factory [OF m c(1,3)] free_memory [OF k, of q] 3(2) True show ?thesis by simp
    next
      case False
      with k 3(2) show ?thesis by simp
    qed
  qed
qed

lemma dispatch_memory:
  assumes m: "memory_inv d" and f: "f \<in> set (dm_factories d)" and st: "dm_stack d = Pumping c # rest"
    and i: "qs_running (dm_states d f) (st_queue t) = 0" and t: "map_of (tasks_of d f) k = Some t"
    and s: "pump_dispatch f k d = Some (r, d')"
  shows "memory_inv d'"
proof -
  let ?q = "st_queue t"
  from map_of_SomeD [OF t] tasks_alive [OF m f] obtain x where x: "dm_queues d ?q = Some x" "cq_factory x = f"
    "\<not> no_tasks ?q (dm_states d f)"
    by (fastforce simp: no_tasks_def)
  have d': "tasks_of d' f = filter (\<lambda>e. fst e \<noteq> k) (tasks_of d f)"
    "\<forall>g. g \<noteq> f \<longrightarrow> dm_states d' g = dm_states d g"
    "qs_running (dm_states d' f) = (qs_running (dm_states d f))(?q := 1)"
    "qs_deleted (dm_states d' f) = qs_deleted (dm_states d f)"
    "dm_queues d' = dm_queues d" "dm_stack d' = Running ?q f (dm_current d) # dm_stack d"
    "dm_open d' = dm_open d" "dm_fresh d' = dm_fresh d"
    "dm_factories d' = dm_factories d" "dm_current d' = Some (?q, cq_identity x)"
    using s t x i by (auto simp: pump_dispatch_def on_state_def case_prod_unfold)
  have zero: "running_count g ?q (dm_stack d) = 0" for g
    using memory_state [OF m f] memory_queue [OF m, of ?q] x i
    by (cases "g = f") (auto simp: state_ok_def Let_def queue_ok_def)
  have alive: "dying_count ?q (dm_stack d) = 0"
    using memory_queue [OF m, of ?q] x by (auto simp: queue_ok_def)
  have n: "no_tasks q' (dm_states d g) \<Longrightarrow> no_tasks q' (dm_states d' g)" for q' g
    using d'(1,2) by (cases "g = f"; auto simp: no_tasks_def)
  have "state_ok d' g" if "g \<in> set (dm_factories d)" for g
  proof (cases "g = f")
    case True
    with memory_state [OF m f] d' n zero show ?thesis by (auto simp: state_ok_def Let_def)
  next
    case False
    with memory_state [OF m that] d' show ?thesis by (auto simp: state_ok_def Let_def)
  qed
  moreover have "queue_ok d' q'" for q'
  proof (cases "q' = ?q")
    case True
    with memory_queue [OF m, of ?q] zero alive d'(5-9) x f show ?thesis by (simp add: queue_ok_def)
  next
    case False
    with memory_queue [OF m, of q'] n [of q'] d'(5-9) show ?thesis by (auto simp: queue_ok_def)
  qed
  ultimately show ?thesis using m d' st by (auto simp: memory_inv_def in_scope_def)
qed

lemma run_end_memory:
  assumes m: "memory_inv d" and st: "dm_stack d = Running q f p # Pumping c # rest"
  shows "memory_inv (run_end q f p c rest d)"
proof -
  let ?c = "c\<lparr>pc_count := pc_count c + 1\<rparr>" and ?left = "qs_running (dm_states d f) q - 1"
  let ?destroy = "?left = 0 \<and> qs_deleted (dm_states d f) q"
  define e where "e = (on_state f (\<lambda>s. s\<lparr>qs_running := (qs_running s)(q := ?left),
      qs_deleted := (if ?destroy then (qs_deleted s)(q := False) else qs_deleted s)\<rparr>) d)
        \<lparr>dm_current := p, dm_stack := Pumping ?c # rest\<rparr>"
  have r: "run_end q f p c rest d = (if ?destroy then free_queue q e else e)"
    by (simp add: run_end_def e_def Let_def)
  from memory_queue [OF m, of q] have run: "running_count g q (dm_stack d) \<le> 1"
      "0 < running_count g q (dm_stack d) \<Longrightarrow> \<exists>x. dm_queues d q = Some x \<and> cq_factory x = g"
    and die: "0 < dying_count q (dm_stack d) \<Longrightarrow>
      \<exists>x. dm_queues d q = Some x \<and> running_count (cq_factory x) q (dm_stack d) = 0"
    and known: "dm_queues d q = Some x \<Longrightarrow> cq_factory x \<in> set (dm_factories d)" for g x
    unfolding queue_ok_def by blast+
  from st have more: "running_count g q (dm_stack d) = of_bool (g = f) + running_count g q rest"
      "dying_count q (dm_stack d) = dying_count q rest" for g by auto
  from run(2) [of f] more(1) [of f] obtain x where x: "dm_queues d q = Some x" "cq_factory x = f" by auto
  have y: "f \<in> set (dm_factories d)" "running_count f q rest = 0" "dying_count q rest = 0"
    "0 < running_count g q rest \<Longrightarrow> g = f" for g
    using known [OF x(1)] x run(1) [of f] run(2) [of g] die more by fastforce+
  note x = x y
  have run: "qs_running (dm_states d f) q = 1"
    using memory_state [OF m x(3)] st x(4) by (simp add: state_ok_def Let_def)
  have e: "dm_factories e = dm_factories d" "dm_queues e = dm_queues d" "dm_open e = dm_open d"
    "dm_fresh e = dm_fresh d" "\<forall>f. tasks_of e f = tasks_of d f" "dm_stack e = Pumping ?c # rest"
    "dm_current e = p"
    by (simp_all add: e_def on_state_def)
  have k: "memory_inv e"
  proof (rule restack_memory [OF m e(1-5)])
    show "\<forall>g q'. qs_running (dm_states d g) q' = running_count g q' (dm_stack d)
        \<longrightarrow> qs_running (dm_states e g) q' = running_count g q' (dm_stack e)"
      using st run x(4) by (auto simp: e_def on_state_def)
    show "\<forall>g q'. qs_deleted (dm_states e g) q' \<longrightarrow> qs_deleted (dm_states d g) q'
        \<and> (0 < running_count g q' (dm_stack d) \<longrightarrow> 0 < running_count g q' (dm_stack e))"
      using st run x(4) by (auto simp: e_def on_state_def split: if_splits)
  qed (use st m e in \<open>auto simp: memory_inv_def in_scope_def\<close>)
  show ?thesis
  proof (cases ?destroy)
    case True
    with memory_state [OF m x(3)] have "\<not> dm_open d q" "no_tasks q (dm_states d f)"
      by (auto simp: state_ok_def Let_def)
    moreover have "\<forall>g. running_count g q (dm_stack e) = 0" using x(4,6) e(6) by (metis counts_simps(3)
        add_0 gr0I is_running_simps(2) of_bool_eq(1))
    ultimately show ?thesis
      using free_memory [OF k, of q] only_own_factory [OF m x(1)] x e r True
      by (simp add: no_tasks_def)
  next
    case False
    then show ?thesis using k by (simp only: r if_False)
  qed
qed

lemma enter_memory:
  assumes "memory_inv d" "\<not> pumping (dm_stack d)" "set (pc_states c) \<subseteq> set (dm_factories d)"
  shows "memory_inv (d\<lparr>dm_suspended := xs, dm_stack := Pumping c # dm_stack d\<rparr>)"
  using assms by (intro restack_memory [OF assms(1)]) (auto simp: memory_inv_def in_scope_def)

lemma return_memory:
  assumes "memory_inv d" "dm_stack d = Pumping c # rest" "pump_return c rest d = (r, d')"
  shows "memory_inv d'"
  using assms by (intro restack_memory [OF assms(1)]) (auto simp: pump_return_def memory_inv_def in_scope_def)

lemma advance_memory:
  "memory_inv d \<Longrightarrow> advance_manual_clock delta d = (ok, d') \<Longrightarrow> memory_inv d'"
  by (rule restack_memory [of d]) (auto simp: advance_manual_clock_def memory_inv_def split: if_splits)

lemma fresh_unused:
  assumes "memory_inv d" "dm_fresh d \<le> q"
  shows "dm_queues d q = None" "running_count f q (dm_stack d) = 0" "dying_count q (dm_stack d) = 0"
    "\<not> dm_open d q"
  using memory_queue [OF assms(1), of q] assms(2) unfolding queue_ok_def
  by (metis leD not_None_eq, metis gr0I leD, metis gr0I leD, metis leD not_None_eq)

lemma factory_memory:
  assumes m: "memory_inv d" and s: "new_cooperative_task_queue_factory th d = (r, d')"
  shows "memory_inv d'"
proof (cases r)
  case None
  with m s show ?thesis by (auto simp: new_cooperative_task_queue_factory_def split: if_splits)
next
  case (Some f)
  with s have d': "f = dm_fresh d" "dm_factories d' = dm_factories d @ [f]" "dm_fresh d' = f + 1"
    "dm_queues d' = dm_queues d" "dm_stack d' = dm_stack d" "dm_open d' = dm_open d"
    "dm_current d' = dm_current d" "dm_states d' f = queue_state_new"
    "\<forall>g. g \<noteq> f \<longrightarrow> dm_states d' g = dm_states d g"
    by (auto simp: new_cooperative_task_queue_factory_def on_state_def split: if_splits)
  have f: "f \<notin> set (dm_factories d)" using m d'(1) by (auto simp: memory_inv_def)
  have zero: "running_count f q (dm_stack d) = 0" for q
    using memory_queue [OF m, of q] f unfolding queue_ok_def by (metis gr0I)
  have "state_ok d' g" if "g \<in> set (dm_factories d')" for g
  proof (cases "g = f")
    case True
    with d' zero show ?thesis by (simp add: state_ok_def Let_def queue_state_new_def)
  next
    case False
    with that d' memory_state [OF m, of g] show ?thesis by (simp add: state_ok_def Let_def)
  qed
  moreover have "queue_ok d' q" for q
  proof -
    have "dm_states d' (cq_factory c) = dm_states d (cq_factory c)" if "dm_queues d q = Some c" for c
      using memory_queue [OF m, of q] that f d'(9) by (metis queue_ok_def)
    with memory_queue [OF m, of q] d' show ?thesis by (fastforce simp: queue_ok_def)
  qed
  ultimately show ?thesis using m d' by (fastforce simp: memory_inv_def)
qed

lemma make_queue_memory:
  assumes m: "memory_inv d" and s: "make_queue f name th l d = (r, d')"
  shows "memory_inv d'"
proof (cases "f \<in> set (dm_factories d)")
  case False
  with m s show ?thesis by (simp add: make_queue_def)
next
  case True
  let ?q = "dm_fresh d"
  from True s obtain c where d': "dm_queues d' = (dm_queues d)(?q \<mapsto> c)" "cq_factory c = f"
    "dm_open d' = (dm_open d)(?q := True)" "dm_fresh d' = ?q + 2" "dm_factories d' = dm_factories d"
    "dm_states d' = dm_states d" "dm_stack d' = dm_stack d" "dm_current d' = dm_current d"
    by (auto simp: make_queue_def cooperative_queue_new_def Let_def)
  note u = fresh_unused [OF m, of ?q, simplified]
  have "state_ok d' g" if "g \<in> set (dm_factories d)" for g
  proof -
    have "\<not> qs_deleted (dm_states d g) ?q" using memory_state [OF m that] u(2) [of g]
      by (auto simp: state_ok_def Let_def)
    moreover have "no_tasks ?q (dm_states d g)"
      using tasks_alive [OF m that] u(1) by (fastforce simp: no_tasks_def)
    ultimately show ?thesis using memory_state [OF m that] d'
      by (auto simp: state_ok_def Let_def no_tasks_def)
  qed
  moreover have "queue_ok d' q" for q
  proof (cases "q = ?q")
    case True
    with d' u \<open>f \<in> set (dm_factories d)\<close> show ?thesis by (simp add: queue_ok_def)
  next
    case False
    with memory_queue [OF m, of q] d' show ?thesis by (auto simp: queue_ok_def)
  qed
  ultimately show ?thesis using m d' by (auto simp: memory_inv_def)
qed

subsection \<open>A turn of the pump\<close>

lemma first_ready_total:
  assumes "\<forall>(k, t) \<in> set m. dm_queues d (st_queue t) \<noteq> None"
  shows "first_ready d c s m \<noteq> None"
  using assms by (induction m) (auto split: option.splits)

lemma select_total:
  assumes "memory_inv d" "set fs \<subseteq> set (dm_factories d)"
  shows "\<exists>b k. select_task d c fs best = Some (b, k)"
proof -
  have "first_ready d c (dm_states d f) (tasks_of d f) \<noteq> None" if "f \<in> set fs" for f
    using tasks_alive [OF assms(1)] assms(2) that
    by (intro first_ready_total) (auto; metis option.distinct(1) subsetD)
  then have "select_task d c fs best \<noteq> None"
    by (induction fs arbitrary: best) (auto split: option.splits)
  then show ?thesis by auto
qed

lemma select_first:
  assumes t: "timeline_inv n d" and fs: "set fs \<subseteq> set (dm_factories d)"
    and s: "select_task d c fs (None, no_key) = Some (Some f, k)"
  shows "f \<in> set fs" "\<exists>t. map_of (tasks_of d f) k = Some t \<and> may_run d c (dm_states d f) t"
    "key_deadline k \<le> dm_now d"
    "g \<in> set fs \<Longrightarrow> (k', t') \<in> set (tasks_of d g) \<Longrightarrow> may_run d c (dm_states d g) t' \<Longrightarrow> k \<le> k'"
proof -
  have ok: "tasks_ok (dm_next_sequence d) (tasks_of d g)" if "g \<in> set fs" for g
    using t fs that by (auto simp: timeline_inv_def)
  then have sorted: "sorted_wrt (<) (map fst (tasks_of d g))" if "g \<in> set fs" for g
    using that by (simp add: tasks_ok_def)
  note u = select_task_some [OF s]
  from u show f: "f \<in> set fs" by auto
  from u have "first_ready d c (dm_states d f) (tasks_of d f) = Some (Some k)" by auto
  note w = first_ready_some [OF this sorted [OF f]]
  from w show due: "key_deadline k \<le> dm_now d" by simp
  from w sorted_keys_distinct [OF sorted [OF f]]
  show "\<exists>t. map_of (tasks_of d f) k = Some t \<and> may_run d c (dm_states d f) t"
    by (auto simp: map_of_eq_Some_iff)
  assume g: "g \<in> set fs" and e: "(k', t') \<in> set (tasks_of d g)" "may_run d c (dm_states d g) t'"
  from u g obtain r where r: "first_ready d c (dm_states d g) (tasks_of d g) = Some r"
    "\<forall>k'. r = Some k' \<longrightarrow> k \<le> k'" by auto
  show "k \<le> k'"
  proof (cases r)
    case None
    with first_ready_none [OF _ sorted [OF g] e(1)] r e(2) have "dm_now d < key_deadline k'"
      by (meson not_le)
    with due show ?thesis by (simp add: less_eq_task_key_def less_task_key_def)
  next
    case (Some k0)
    with first_ready_some [OF _ sorted [OF g]] r e have "k0 \<le> k'" by fastforce
    with r Some show ?thesis by (auto intro: order.trans)
  qed
qed

lemma select_nothing:
  assumes t: "timeline_inv n d" and fs: "set fs \<subseteq> set (dm_factories d)"
    and s: "select_task d c fs (None, no_key) = Some (None, k)"
    and g: "g \<in> set fs" "(k', t') \<in> set (tasks_of d g)" "key_deadline k' \<le> dm_now d"
  shows "\<not> may_run d c (dm_states d g) t'"
proof -
  have ok: "tasks_ok (dm_next_sequence d) (tasks_of d g)" using t fs g(1) by (auto simp: timeline_inv_def)
  then have sorted: "sorted_wrt (<) (map fst (tasks_of d g))" by (simp add: tasks_ok_def)
  from select_task_some [OF s] g(1) obtain r where r: "first_ready d c (dm_states d g) (tasks_of d g) = Some r"
    "\<forall>k'. r = Some k' \<longrightarrow> no_key \<le> k'" by auto
  have "r = None"
  proof (cases r)
    case (Some k0)
    with first_ready_some [OF _ sorted] r(1) obtain t0 where "(k0, t0) \<in> set (tasks_of d g)" by blast
    with tasks_ok_below [OF ok] r(2) Some show ?thesis by fastforce
  qed simp
  with first_ready_none [OF _ sorted g(2,3)] r(1) show ?thesis by simp
qed

text \<open>A turn returns when the budget is used or nothing may run, and otherwise begins the first task.\<close>

lemma pump_turn_cases:
  assumes t: "timeline_inv n d" and m: "memory_inv d" and st: "dm_stack d = Pumping c # rest"
  obtains "pump_turn c rest d = Some (pump_return c rest d)"
      "pc_budget c \<le> pc_count c \<or> (\<forall>f\<in>set (pc_states c). \<forall>(k, t) \<in> set (tasks_of d f).
         key_deadline k \<le> dm_now d \<longrightarrow> \<not> may_run d c (dm_states d f) t)"
    | f k t d' where "f \<in> set (pc_states c)" "f \<in> set (dm_factories d)" "pc_count c < pc_budget c"
      "map_of (tasks_of d f) k = Some t" "may_run d c (dm_states d f) t" "key_deadline k \<le> dm_now d"
      "\<forall>g\<in>set (pc_states c). \<forall>(k', t') \<in> set (tasks_of d g). may_run d c (dm_states d g) t' \<longrightarrow> k \<le> k'"
      "pump_turn c rest d = Some (Started (st_queue t) f k, d')"
      "pump_dispatch f k d = Some (Started (st_queue t) f k, d')"
proof -
  have fs: "set (pc_states c) \<subseteq> set (dm_factories d)" using m st by (auto simp: memory_inv_def)
  obtain b k where s: "select_task d c (pc_states c) (None, no_key) = Some (b, k)"
    using select_total [OF m fs] by blast
  show thesis
  proof (cases "pc_budget c \<le> pc_count c")
    case True
    then show thesis by (intro that(1)) (auto simp: pump_turn_def)
  next
    case False
    show thesis
    proof (cases b)
      case None
      with s False select_nothing [OF t fs] show thesis
        by (intro that(1)) (auto simp: pump_turn_def)
    next
      case (Some f)
      with s have s: "select_task d c (pc_states c) (None, no_key) = Some (Some f, k)" by simp
      note sel = select_first [OF t fs s]
      from sel(2) obtain u where u: "map_of (tasks_of d f) k = Some u" "may_run d c (dm_states d f) u" by blast
      then obtain q where "dm_queues d (st_queue u) = Some q" by (auto simp: may_run_def split: option.splits)
      with u(1) obtain d' where d': "pump_dispatch f k d = Some (Started (st_queue u) f k, d')"
        by (simp add: pump_dispatch_def)
      show thesis
      proof (rule that(2))
        show "f \<in> set (pc_states c)" "f \<in> set (dm_factories d)" using sel(1) fs by auto
        show "\<forall>g\<in>set (pc_states c). \<forall>(k', t') \<in> set (tasks_of d g). may_run d c (dm_states d g) t' \<longrightarrow> k \<le> k'"
          using sel(4) by blast
        show "pump_turn c rest d = Some (Started (st_queue u) f k, d')"
          using s d' False by (simp add: pump_turn_def)
      qed (use u d' False sel(3) in auto)
    qed
  qed
qed

subsection \<open>Every step\<close>

definition sound :: "control_reply \<Rightarrow> bool" where
  "sound r \<longleftrightarrow> (\<forall>i. r \<noteq> PostedToDying i)"

lemma turn_memory:
  assumes t: "timeline_inv n d" and m: "memory_inv d" and st: "dm_stack d = Pumping c # rest"
  shows "\<exists>r d'. pump_turn c rest d = Some (r, d') \<and> memory_inv d'"
proof (rule pump_turn_cases [OF t m st])
  assume "pump_turn c rest d = Some (pump_return c rest d)"
  moreover obtain r d' where "pump_return c rest d = (r, d')" by (cases "pump_return c rest d")
  ultimately show ?thesis using return_memory [OF m st] by auto
next
  fix f k t d'
  assume a: "f \<in> set (dm_factories d)" "map_of (tasks_of d f) k = Some t" "may_run d c (dm_states d f) t"
    "pump_turn c rest d = Some (Started (st_queue t) f k, d')"
    "pump_dispatch f k d = Some (Started (st_queue t) f k, d')"
  have "qs_running (dm_states d f) (st_queue t) = 0" using a(3) by (auto simp: may_run_def split: option.splits)
  from dispatch_memory [OF m a(1) st this a(2,5)] a(4) show ?thesis by simp
qed

lemma post_current_memory:
  assumes m: "memory_inv d"
  shows "\<exists>r d'. post_current x d = Some (r, d') \<and> (sound r \<longrightarrow> memory_inv d')"
proof (cases "dm_current d")
  case None
  with m show ?thesis by (simp add: post_current_def)
next
  case (Some p)
  obtain q i where p: "p = (q, i)" by (cases p)
  from current_alive [OF m] Some p obtain c where c: "dm_queues d q = Some c" by blast
  obtain r d' where "post_task_impl q c x d = (r, d')" by (cases "post_task_impl q c x d")
  with post_memory [OF m c, of x r d'] Some p c m show ?thesis
    by (auto simp: post_current_def sound_def)
qed

lemma open_alive:
  assumes "memory_inv d" "dm_open d q"
  obtains c where "dm_queues d q = Some c"
  using memory_queue [OF assms(1), of q] assms(2) by (auto simp: queue_ok_def)

lemma owner_step_memory:
  assumes m: "memory_inv d" and p: "\<not> pumping (dm_stack d)"
  shows "\<exists>r d'. owner_step a d = Some (r, d') \<and> (sound r \<longrightarrow> memory_inv d')"
proof (cases a)
  case (NewFactory th)
  obtain r d' where "new_cooperative_task_queue_factory th d = (r, d')"
    by (cases "new_cooperative_task_queue_factory th d")
  with factory_memory [OF m this] NewFactory show ?thesis by (auto split: option.splits)
next
  case (CreateQueue th f name)
  obtain r d' where "make_queue f name False False d = (r, d')" by (cases "make_queue f name False False d")
  with make_queue_memory [OF m this] CreateQueue m show ?thesis by auto
next
  case (CreateEngineQueue f name)
  obtain r d' where "make_queue f name False True d = (r, d')" by (cases "make_queue f name False True d")
  with make_queue_memory [OF m this] CreateEngineQueue show ?thesis by auto
next
  case (CreateDriverQueue f)
  let ?name = "map (of_nat \<circ> of_char) ''peer'' :: bytes"
  obtain r d' where "make_queue f ?name True True d = (r, d')" by (cases "make_queue f ?name True True d")
  with make_queue_memory [OF m this] CreateDriverQueue show ?thesis by auto
next
  case (PostCurrent x)
  with post_current_memory [OF m] show ?thesis by simp
next
  case (DeleteQueue q)
  show ?thesis
  proof (cases "dm_open d q")
    case True
    with m obtain c where c: "dm_queues d q = Some c" by (rule open_alive)
    obtain ks d' where "delete_begin q c d = (ks, d')" by (cases "delete_begin q c d")
    with delete_memory [OF m c True p this] True c DeleteQueue show ?thesis
      by (simp add: on_open_queue_def)
  next
    case False
    with m DeleteQueue show ?thesis by (simp add: on_open_queue_def)
  qed
next
  case ClosuresDropped
  obtain r d' where "closures_dropped d = (r, d')" by (cases "closures_dropped d")
  with closures_memory [OF m this] ClosuresDropped show ?thesis by simp
next
  case (PumpFactory th f b)
  with m p enter_memory [OF m p, of _ "dm_suspended d"] show ?thesis
    by (simp add: pump_ready_tasks_def pump_states_def)
next
  case (PumpDriver th b)
  with m p enter_memory [OF m p, of _ "dm_suspended d"] show ?thesis
    by (simp add: driver_pump_def pump_clock_def pump_states_def)
next
  case YieldExecution
  with enter_memory [OF m p] show ?thesis
    by (simp add: yield_execution_def pump_clock_def pump_states_def Let_def)
next
  case TaskReturned
  show ?thesis
  proof (cases "\<exists>q f p c rest. dm_stack d = Running q f p # Pumping c # rest")
    case True
    then obtain q f p c rest where "dm_stack d = Running q f p # Pumping c # rest" by blast
    with run_end_memory [OF m this] TaskReturned show ?thesis by simp
  next
    case False
    with m TaskReturned show ?thesis by (auto split: list.splits activity.splits)
  qed
qed (use m in simp_all)

lemma step_memory:
  assumes t: "timeline_inv n d" and m: "memory_inv d"
  shows "\<exists>r d'. control_step a d = Some (r, d') \<and> (sound r \<longrightarrow> memory_inv d')"
proof -
  have owner: "\<exists>r d'. (if pumping (dm_stack d) then Some (NotNow, d) else owner_step a d) = Some (r, d')
      \<and> (sound r \<longrightarrow> memory_inv d')" for a
    using owner_step_memory [OF m] m by simp
  show ?thesis
  proof (cases a)
    case (PostTask q x)
    show ?thesis
    proof (cases "dm_open d q")
      case True
      with m obtain c where c: "dm_queues d q = Some c" by (rule open_alive)
      obtain r d' where "post_task_impl q c x d = (r, d')" by (cases "post_task_impl q c x d")
      with post_memory [OF m c, of x r d'] True c PostTask show ?thesis
        by (simp add: control_step_def on_open_queue_def sound_def)
    next
      case False
      with m PostTask show ?thesis by (simp add: control_step_def on_open_queue_def)
    qed
  next
    case (PostDelayedTask q delay x)
    show ?thesis
    proof (cases "dm_open d q")
      case True
      with m obtain c where c: "dm_queues d q = Some c" by (rule open_alive)
      obtain r d' where "post_delayed_task_impl q c x delay d = (r, d')"
        by (cases "post_delayed_task_impl q c x delay d")
      with post_memory [OF m c, of x r d' delay] True c PostDelayedTask show ?thesis
        by (simp add: control_step_def on_open_queue_def sound_def)
    next
      case False
      with m PostDelayedTask show ?thesis by (simp add: control_step_def on_open_queue_def)
    qed
  next
    case (Advance delta)
    obtain ok d' where "advance_manual_clock delta d = (ok, d')" by (cases "advance_manual_clock delta d")
    with advance_memory [OF m this] Advance show ?thesis by (simp add: control_step_def)
  next
    case NextTurn
    show ?thesis
    proof (cases "\<exists>c rest. dm_stack d = Pumping c # rest")
      case True
      then obtain c rest where "dm_stack d = Pumping c # rest" by blast
      with turn_memory [OF t m this] NextTurn show ?thesis by (auto simp: control_step_def)
    next
      case False
      with m NextTurn show ?thesis by (auto simp: control_step_def split: list.splits activity.splits)
    qed
  qed (use owner [of a] in \<open>simp_all only: control_step_def control_action.case\<close>)
qed

lemma new_clock_memory: "new_manual_clock th us = Some d \<Longrightarrow> memory_inv d"
  by (auto simp: new_manual_clock_def memory_inv_def queue_ok_def in_scope_def split: if_splits)

lemma run_memory:
  "run_steps control_step as d = Some (rs, d') \<Longrightarrow> list_all sound rs \<Longrightarrow> timeline_inv (length as + n) d
     \<Longrightarrow> memory_inv d \<Longrightarrow> timeline_inv n d' \<and> memory_inv d'"
proof (induction as arbitrary: d rs)
  case (Cons a as)
  from Cons.prems(1) obtain r t rs' where t: "control_step a d = Some (r, t)"
    "run_steps control_step as t = Some (rs', d')" "rs = r # rs'"
    by (auto simp: run_steps_Cons simp del: run_steps.simps)
  from Cons.prems(3) have u: "timeline_inv (Suc (length as + n)) d" by simp
  from step_timeline [OF u t(1)] step_memory [OF u Cons.prems(4), of a] Cons.IH [OF t(2)] t Cons.prems(2)
  show ?case by (simp add: balanced_def)
qed simp

subsection \<open>Properties\<close>

lemma reachable:
  assumes "new_manual_clock th us = Some d0" "length as < 2 ^ 64 - 1"
    "run_steps control_step as d0 = Some (rs, d)" "list_all sound rs"
  shows "timeline_inv (Suc 0) d \<and> memory_inv d"
proof -
  have "timeline_inv (length as + Suc 0) d0" using new_clock_timeline assms(1,2) by simp
  from run_memory [OF assms(3,4) this new_clock_memory [OF assms(1)]] show ?thesis .
qed

text \<open>C10. A task posted to a domain of cooperative queues is begun once, dropped once with its queue, or
  still waits: over any execution of fewer than \<open>2 ^ 64\<close> steps its number is given to one post, and
  the posts of a number are its beginnings, droppings and waiting entries taken together.\<close>

theorem tasks_begin_or_drop_once:
  assumes "new_manual_clock th us = Some d0" "length as < 2 ^ 64"
    "run_steps control_step as d0 = Some (rs, d)"
  shows "count_list (concat (map posts rs)) i
      = count_list (concat (map ends rs)) i + count_list (queued d) i
    \<and> count_list (concat (map posts rs)) i \<le> 1"
proof -
  have t: "timeline_inv (length as + 0) d0" using new_clock_timeline assms(1,2) by simp
  have "queued d0 = []" using assms(1) by (auto simp: new_manual_clock_def queued_def split: if_splits)
  moreover have "of_bool (dm_next_sequence d0 \<le> i) \<le> (1 :: nat)" by simp
  ultimately show ?thesis
    using scheduled_tasks.run_balances [OF assms(3) _ t, of i] posted_once [OF assms(3) t, of i]
    by (simp add: list_all_iff)
qed

text \<open>C11. No queue is used after it is freed, with one exception.  From any fresh clock, whatever is
  created, posted, deleted, pumped and yielded in whatever order, nested pumps included, the execution
  goes on for ever, or there was a post to a queue whose destruction was already under way.\<close>

theorem freed_queue_never_used:
  assumes "new_manual_clock th us = Some d0" "length as < 2 ^ 64"
  shows "(\<exists>rs d. run_steps control_step as d0 = Some (rs, d))
    \<or> (\<exists>n rs d i. run_steps control_step (take n as) d0 = Some (rs, d) \<and> PostedToDying i \<in> set rs)"
proof -
  have main: "timeline_inv (length as + n) d \<Longrightarrow> memory_inv d \<Longrightarrow>
      (\<exists>rs d'. run_steps control_step as d = Some (rs, d'))
      \<or> (\<exists>n rs d' i. run_steps control_step (take n as) d = Some (rs, d') \<and> PostedToDying i \<in> set rs)"
    for as :: "control_action list" and n d
  proof (induction as arbitrary: d)
    case (Cons a as)
    from Cons.prems(1) have u: "timeline_inv (Suc (length as + n)) d" by simp
    from step_memory [OF u Cons.prems(2), of a] obtain r d1 where
      s: "control_step a d = Some (r, d1)" "sound r \<longrightarrow> memory_inv d1" by blast
    show ?case
    proof (cases "sound r")
      case False
      with s(1) have "run_steps control_step (take 1 (a # as)) d = Some ([r], d1) \<and> (\<exists>i. PostedToDying i \<in> set [r])"
        by (auto simp: sound_def)
      then show ?thesis by blast
    next
      case True
      with Cons.IH [of d1] s step_timeline [OF u s(1)] consider
          rs d' where "run_steps control_step as d1 = Some (rs, d')"
        | m rs d' i where "run_steps control_step (take m as) d1 = Some (rs, d')" "PostedToDying i \<in> set rs"
        by (auto simp: balanced_def)
      then show ?thesis
      proof cases
        case 1
        with s(1) show ?thesis by simp
      next
        case 2
        with s(1) have "run_steps control_step (take (Suc m) (a # as)) d = Some (r # rs, d')
            \<and> PostedToDying i \<in> set (r # rs)" by simp
        then show ?thesis by blast
      qed
    qed
  qed simp
  have "timeline_inv (length as + 0) d0" using new_clock_timeline assms by simp
  from main [OF this new_clock_memory [OF assms(1)]] show ?thesis .
qed

text \<open>C12. A queue never runs two tasks at once, not even when tasks pump or wait: in any state reached
  without such a post, at most one task of each queue is on the stack, and the counter that the pump
  consults is the number of its tasks there.\<close>

theorem queues_never_reenter:
  assumes "new_manual_clock th us = Some d0" "length as < 2 ^ 64 - 1"
    "run_steps control_step as d0 = Some (rs, d)" "list_all sound rs"
    "f \<in> set (dm_factories d)"
  shows "qs_running (dm_states d f) q = length (filter (\<lambda>a. \<exists>p. a = Running q f p) (dm_stack d))
    \<and> qs_running (dm_states d f) q \<le> 1"
proof -
  from reachable [OF assms(1-4)] have m: "memory_inv d" by simp
  have e: "is_running f q = (\<lambda>a. \<exists>p. a = Running q f p)"
    by (rule ext) (auto simp: is_running_def split: activity.splits)
  have "qs_running (dm_states d f) q = running_count f q (dm_stack d)"
    using memory_state [OF m assms(5)] by (simp add: state_ok_def Let_def)
  moreover have "running_count f q (dm_stack d) \<le> 1"
    using memory_queue [OF m, of q] unfolding queue_ok_def by blast
  ultimately show ?thesis by (simp add: running_count_def e)
qed

text \<open>C13. The pump begins tasks in the order of their deadlines and then of their posting: a task that is
  begun is due, time has not moved, it is the first of all waiting tasks of its queue, and the first of
  all tasks in the pumped factories that may run at all.\<close>

theorem dispatch_in_order:
  assumes "new_manual_clock th us = Some d0" "length as < 2 ^ 64 - 1"
    "run_steps control_step as d0 = Some (rs, d)" "list_all sound rs"
    "control_step NextTurn d = Some (Started q f k, d')"
  shows "\<exists>c rest t. dm_stack d = Pumping c # rest \<and> map_of (tasks_of d f) k = Some t \<and> st_queue t = q
    \<and> key_deadline k \<le> dm_now d \<and> dm_now d' = dm_now d
    \<and> (\<forall>(k', t') \<in> set (tasks_of d f). st_queue t' = q \<longrightarrow> k \<le> k')
    \<and> (\<forall>g\<in>set (pc_states c). \<forall>(k', t') \<in> set (tasks_of d g). may_run d c (dm_states d g) t' \<longrightarrow> k \<le> k')"
proof -
  from reachable [OF assms(1-4)] have t: "timeline_inv (Suc 0) d" and m: "memory_inv d" by simp_all
  from assms(5) obtain c rest where st: "dm_stack d = Pumping c # rest" "pump_turn c rest d = Some (Started q f k, d')"
    by (auto simp: control_step_def split: list.splits activity.splits)
  show ?thesis
  proof (rule pump_turn_cases [OF t m st(1)])
    assume "pump_turn c rest d = Some (pump_return c rest d)"
    with st(2) show ?thesis by (simp add: pump_return_def)
  next
    fix f1 k1 u e
    assume a: "f1 \<in> set (pc_states c)" "map_of (tasks_of d f1) k1 = Some u" "may_run d c (dm_states d f1) u"
      "key_deadline k1 \<le> dm_now d"
      "\<forall>g\<in>set (pc_states c). \<forall>(k', t') \<in> set (tasks_of d g). may_run d c (dm_states d g) t' \<longrightarrow> k1 \<le> k'"
      "pump_turn c rest d = Some (Started (st_queue u) f1 k1, e)"
      "pump_dispatch f1 k1 d = Some (Started (st_queue u) f1 k1, e)"
    with st(2) have i: "f1 = f" "k1 = k" "st_queue u = q" "e = d'" by simp_all
    have "dm_now d' = dm_now d" using a(7) i by (auto simp: pump_dispatch_def on_state_def split: option.splits)
    moreover have "k \<le> k'" if "(k', t') \<in> set (tasks_of d f)" "st_queue t' = q" for k' t'
    proof -
      have "may_run d c (dm_states d f) t'" using a(3) unfolding may_run_def i(1,3) that(2) .
      with a(1,5) i that(1) show ?thesis by blast
    qed
    ultimately show ?thesis using st(1) a i by blast
  qed
qed

text \<open>The suspended identities are those of the waits on the stack.\<close>

definition waits :: "activity list \<Rightarrow> nat" where
  "waits st = length (filter (\<lambda>a. case a of Pumping c \<Rightarrow> pc_yield c | _ \<Rightarrow> False) st)"

lemma waits_simps [simp]:
  "waits [] = 0" "waits (Pumping c # st) = of_bool (pc_yield c) + waits st"
  "waits (Running q f p # st) = waits st" "waits (Deleting q b p # st) = waits st"
  "waits (Discarding q b # st) = waits st"
  by (simp_all add: waits_def)

lemma post_waits:
  "post_task_impl q c x d = (r, d') \<Longrightarrow> dm_stack d' = dm_stack d \<and> dm_suspended d' = dm_suspended d"
  "post_delayed_task_impl q c x delay d = (r, d')
     \<Longrightarrow> dm_stack d' = dm_stack d \<and> dm_suspended d' = dm_suspended d"
  by (auto simp: post_task_impl_def post_delayed_task_impl_def schedule_def Let_def on_state_def split: if_splits)

lemma owner_step_waits:
  assumes "owner_step a d = Some (r, d')" "length (dm_suspended d) = waits (dm_stack d)"
  shows "length (dm_suspended d') = waits (dm_stack d')"
proof (cases a)
  case (PostCurrent x)
  with assms show ?thesis
    by (auto dest!: post_waits simp: post_current_def Let_def reply_iff split: option.splits if_splits)
next
  case ClosuresDropped
  with assms show ?thesis
    by (auto simp: closures_dropped_def free_queue_def split: list.splits activity.splits if_splits)
next
  case TaskReturned
  with assms show ?thesis
    by (auto simp: run_end_def Let_def free_queue_def on_state_def split: list.splits activity.splits if_splits)
qed (use assms in \<open>auto simp: new_cooperative_task_queue_factory_def on_state_def make_queue_def
      cooperative_queue_new_def Let_def on_open_queue_iff delete_begin_def case_prod_unfold pump_ready_tasks_def
      pump_states_def driver_pump_def pump_clock_def yield_execution_def split: if_splits\<close>)

lemma step_waits:
  assumes "control_step a d = Some (r, d')" "length (dm_suspended d) = waits (dm_stack d)"
  shows "length (dm_suspended d') = waits (dm_stack d')"
proof (cases a)
  case (PostTask q x)
  with assms show ?thesis
    by (auto dest!: post_waits simp: control_step_def on_open_queue_iff Let_def reply_iff)
next
  case (PostDelayedTask q delay x)
  with assms show ?thesis
    by (auto dest!: post_waits simp: control_step_def on_open_queue_iff Let_def reply_iff)
next
  case NextTurn
  with assms show ?thesis
    by (auto simp: control_step_def pump_turn_def pump_return_def pump_dispatch_def on_state_def
        split: list.splits activity.splits if_splits option.splits)
next
  case (Advance delta)
  with assms show ?thesis
    by (auto simp: control_step_def advance_manual_clock_def Let_def split: if_splits)
qed (use assms owner_step_waits in \<open>auto simp: control_step_def simp del: owner_step.simps split: if_splits\<close>)

lemma run_waits:
  "run_steps control_step as d = Some (rs, d') \<Longrightarrow> length (dm_suspended d) = waits (dm_stack d)
     \<Longrightarrow> length (dm_suspended d') = waits (dm_stack d')"
  by (induction as arbitrary: d rs) (auto simp: run_steps_Cons simp del: run_steps.simps(2) dest: step_waits)

text \<open>When the owner's pump returns with budget left, nothing is due any more.\<close>

lemma pump_drains:
  assumes "new_manual_clock th us = Some d0" "length as < 2 ^ 64 - 1"
    "run_steps control_step as d0 = Some (rs, d)" "list_all sound rs"
    "dm_stack d = [Pumping c]" "pc_excluded c = None" "\<not> pc_lifecycle_only c" "\<not> pc_yield c"
    "control_step NextTurn d = Some (Pumped n, d')" "n < pc_budget c"
  shows "(\<forall>f\<in>set (pc_states c). \<forall>(k, t) \<in> set (tasks_of d' f). dm_now d' < key_deadline k)
    \<and> dm_factories d' = dm_factories d \<and> timeline_inv 0 d'"
proof -
  from reachable [OF assms(1-4)] have t: "timeline_inv (Suc 0) d" and m: "memory_inv d" by simp_all
  have "length (dm_suspended d0) = waits (dm_stack d0)"
    using assms(1) by (auto simp: new_manual_clock_def split: if_splits)
  with run_waits [OF assms(3)] assms(5,8) have s: "dm_suspended d = []" by simp
  have fs: "set (pc_states c) \<subseteq> set (dm_factories d)" using m assms(5) by (simp add: memory_inv_def)
  have may: "may_run d c (dm_states d f) u" if "f \<in> set (dm_factories d)" "(k, u) \<in> set (tasks_of d f)" for f k u
    using tasks_alive [OF m that] memory_state [OF m that(1)] assms(5-7) s
    by (auto simp: may_run_def state_ok_def Let_def)
  from assms(5,9) have p: "pump_turn c [] d = Some (Pumped n, d')" by (simp add: control_step_def)
  show ?thesis
  proof (rule pump_turn_cases [OF t m assms(5)])
    assume a: "pump_turn c [] d = Some (pump_return c [] d)"
      "pc_budget c \<le> pc_count c \<or> (\<forall>f\<in>set (pc_states c). \<forall>(k, t) \<in> set (tasks_of d f).
         key_deadline k \<le> dm_now d \<longrightarrow> \<not> may_run d c (dm_states d f) t)"
    with p assms(10) have "\<forall>f\<in>set (pc_states c). \<forall>(k, t) \<in> set (tasks_of d f). dm_now d < key_deadline k"
      using may fs by (fastforce simp: pump_return_def)
    moreover have "timeline_inv 0 d'"
      using step_timeline [OF _ assms(9)] t by (simp add: balanced_def)
    ultimately show ?thesis using a(1) p by (auto simp: pump_return_def)
  qed (use p in simp)
qed

subsection \<open>A destructor that posts\<close>

lemmas control_eval = new_manual_clock_def kMaxTimeUs_def control_step_def on_state_def
  new_cooperative_task_queue_factory_def task_queue_factory_is_current_def make_queue_def
  cooperative_queue_new_def Let_def on_open_queue_def post_task_impl_def post_delayed_task_impl_def
  schedule_def post_reply_def dying_def queue_state_new_def delete_begin_def post_current_def
  closures_dropped_def free_queue_def pump_ready_tasks_def pump_states_def pump_turn_def no_key_def
  advance_manual_clock_def driver_pump_def pump_clock_def yield_execution_def pump_dispatch_def
  pump_return_def run_end_def less_task_key_def sound_def

definition destructor_run :: "control_action list" where
  "destructor_run = [NewFactory 1, CreateQueue 1 1 [], PostTask 2 0, DeleteQueue 2, PostCurrent 1,
     ClosuresDropped, ClosuresDropped, PumpFactory 1 1 8, NextTurn]"

lemma destructor_example:
  "\<exists>d0. new_manual_clock 1 0 = Some d0 \<and> run_steps control_step destructor_run d0 = None"
  by (simp add: control_eval destructor_run_def)

lemma emplace_first:
  "\<forall>(k', t') \<in> set m. k < k' \<Longrightarrow> emplace k t m = (k, t) # m"
  by (cases m) auto

text \<open>C14. The exception to the absence of such uses is real, and every deletion is exposed to it.  In any
  state reached without it, delete any open queue that has no task running and is its own identity, and
  let one of the closures being destroyed post to the current queue: the post is accepted, the queue is
  freed, and its task stays in the map of the factory; if no task of another queue there is due,
  the next pump of the factory reads the freed queue.\<close>

theorem destructor_post_dangles:
  assumes "new_manual_clock th us = Some d0" "length as < 2 ^ 64 - 1"
    "run_steps control_step as d0 = Some (rs, d)" "list_all sound rs"
    "dm_open d q" "dm_queues d q = Some c" "cq_identity c = q" "qs_running (dm_states d (cq_factory c)) q = 0"
    "\<not> pumping (dm_stack d)" "0 < budget"
  shows "\<exists>ks d'. run_steps control_step [DeleteQueue q, PostCurrent t, ClosuresDropped, ClosuresDropped] d
      = Some ([Dropped ks, PostedToDying (dm_next_sequence d), Done, Done], d')
    \<and> dm_queues d' q = None \<and> dm_stack d' = dm_stack d
    \<and> (TaskKey (dm_now d) (dm_next_sequence d), \<lparr>st_queue = q, st_delayed = False, st_task = t\<rparr>)
        \<in> set (tasks_of d' (cq_factory c))
    \<and> ((\<forall>(k, u) \<in> set (tasks_of d (cq_factory c)). st_queue u \<noteq> q \<longrightarrow> dm_now d < key_deadline k) \<longrightarrow>
        run_steps control_step [PumpFactory (dm_creator d) (cq_factory c) budget, NextTurn] d' = None)"
proof -
  from reachable [OF assms(1-4)] have tl: "timeline_inv (Suc 0) d" and m: "memory_inv d" by simp_all
  have f: "cq_factory c \<in> set (dm_factories d)" using tl assms(6) by (auto simp: timeline_inv_def)
  let ?f = "cq_factory c" and ?s = "dm_states d (cq_factory c)"
  let ?others = "filter (\<lambda>(k, t). st_queue t \<noteq> q) (qs_tasks ?s)"
  let ?k = "TaskKey (dm_now d) (dm_next_sequence d)"
  let ?t = "\<lparr>st_queue = q, st_delayed = False, st_task = t\<rparr>"
  obtain ks where del: "delete_begin q c d = (ks,
      (on_state ?f (\<lambda>s. s\<lparr>qs_tasks := ?others, qs_running := (qs_running s)(q := 0),
           qs_deleted := (qs_deleted s)(q := False)\<rparr>) d)
        \<lparr>dm_open := (dm_open d)(q := False), dm_current := Some (q, q),
         dm_stack := Deleting q True (dm_current d) # dm_stack d\<rparr>)"
    using assms(7,8) by (simp add: delete_begin_def Let_def partition_filter2 comp_def case_prod_unfold)
  let ?d1 = "snd (delete_begin q c d)"
  let ?d2 = "(on_state ?f (\<lambda>s. s\<lparr>qs_tasks := emplace ?k ?t (qs_tasks s)\<rparr>) ?d1)
      \<lparr>dm_next_sequence := dm_next_sequence d + 1\<rparr>"
  let ?d4 = "?d2\<lparr>dm_queues := (dm_queues d)(q := None), dm_current := dm_current d, dm_stack := dm_stack d\<rparr>"
  have run: "run_steps control_step [DeleteQueue q, PostCurrent t, ClosuresDropped, ClosuresDropped] d
      = Some ([Dropped ks, PostedToDying (dm_next_sequence d), Done, Done], ?d4)"
    using assms(5,6,9) by (simp add: control_step_def on_open_queue_def del post_current_def post_task_impl_def
      schedule_def on_state_def Let_def post_reply_def dying_def closures_dropped_def free_queue_def)
  have tasks: "tasks_of ?d4 ?f = emplace ?k ?t ?others" by (simp add: del on_state_def)
  have ok: "tasks_ok (dm_next_sequence d) (qs_tasks ?s)" using tl f by (simp add: timeline_inv_def)
  then have "?k \<notin> fst ` set ?others" by (fastforce simp: tasks_ok_def key_ok_def)
  from emplace_mset [OF this, of ?t] have "(?k, ?t) \<in> set (emplace ?k ?t ?others)"
    by (metis set_mset_mset union_single_eq_member)
  then have entry: "(?k, ?t) \<in> set (tasks_of ?d4 ?f)" unfolding tasks .
  define d4 where "d4 = ?d4"
  have d4: "dm_factories d4 = dm_factories d" "dm_creator d4 = dm_creator d" "dm_now d4 = dm_now d"
    "dm_queues d4 q = None" "dm_stack d4 = dm_stack d"
    by (simp_all add: d4_def del on_state_def)
  have "run_steps control_step [PumpFactory (dm_creator d) ?f budget, NextTurn] d4 = None"
    if "\<forall>(k, u) \<in> set (tasks_of d ?f). st_queue u \<noteq> q \<longrightarrow> dm_now d < key_deadline k"
  proof -
    have "\<forall>(k', u) \<in> set ?others. ?k < k'" using that by (auto simp: less_task_key_def)
    from emplace_first [OF this] have "tasks_of d4 ?f = (?k, ?t) # ?others" unfolding d4_def tasks .
    with f assms(9,10) d4 show ?thesis
      by (simp add: control_step_def pump_ready_tasks_def pump_states_def pump_turn_def)
  qed
  then have "run_steps control_step [PumpFactory (dm_creator d) ?f budget, NextTurn] ?d4 = None"
    if "\<forall>(k, u) \<in> set (tasks_of d ?f). st_queue u \<noteq> q \<longrightarrow> dm_now d < key_deadline k"
    using that unfolding d4_def by blast
  then show ?thesis using run entry d4(4,5) unfolding d4_def [symmetric] by blast
qed

text \<open>One queue with one waiting task, whose closure posts when it is destroyed.\<close>

lemma destructor_starts:
  "\<exists>d0 rs d c. new_manual_clock 1 0 = Some d0
    \<and> run_steps control_step [NewFactory 1, CreateQueue 1 1 [], PostTask 2 0] d0 = Some (rs, d)
    \<and> list_all sound rs \<and> dm_open d 2 \<and> dm_queues d 2 = Some c \<and> cq_identity c = 2 \<and> cq_factory c = 1
    \<and> qs_running (dm_states d 1) 2 = 0 \<and> dm_stack d = [] \<and> dm_creator d = 1
    \<and> (\<forall>(k, u) \<in> set (tasks_of d 1). st_queue u = 2)"
  by (simp add: control_eval)

lemma destructor_post_dangles_witness:
  "\<exists>d d' rs. run_steps control_step [DeleteQueue 2, PostCurrent 1, ClosuresDropped, ClosuresDropped] d
      = Some (rs, d') \<and> dm_queues d' 2 = None
    \<and> run_steps control_step [PumpFactory 1 1 8, NextTurn] d' = None"
proof -
  obtain d0 rs d c where r: "new_manual_clock 1 0 = Some d0"
    "run_steps control_step [NewFactory 1, CreateQueue 1 1 [], PostTask 2 0] d0 = Some (rs, d)"
    "list_all sound rs" "dm_open d 2" "dm_queues d 2 = Some c" "cq_identity c = 2" "cq_factory c = 1"
    "qs_running (dm_states d 1) 2 = 0" "dm_stack d = []" "dm_creator d = 1"
    "\<forall>(k, u) \<in> set (tasks_of d 1). st_queue u = 2"
    using destructor_starts by blast
  from destructor_post_dangles [OF r(1) _ r(2-6), of 8 1] r(7-11) obtain ks d' where
    "run_steps control_step [DeleteQueue 2, PostCurrent 1, ClosuresDropped, ClosuresDropped] d
      = Some ([Dropped ks, PostedToDying (dm_next_sequence d), Done, Done], d')" "dm_queues d' 2 = None"
    "run_steps control_step [PumpFactory 1 1 8, NextTurn] d' = None"
    by (auto simp del: run_steps.simps)
  then show ?thesis by blast
qed

subsection \<open>An execution\<close>

text \<open>One queue of the owner and one of the engine, a delayed task, a task that waits and lets the engine
  work in between.\<close>

definition sample_start :: "control_action list" where
  "sample_start = [NewFactory 1, CreateQueue 1 1 [], CreateEngineQueue 1 [], PostDelayedTask 2 5 7, PostTask 2 8,
     PostTask 4 9, Advance 5, PumpDriver 1 8]"

definition sample_rest :: "control_action list" where
  "sample_rest = [NextTurn, YieldExecution, NextTurn, TaskReturned, NextTurn, TaskReturned, NextTurn, TaskReturned]"

lemma sample_lengths [simp]: "length sample_start = 8" "length sample_rest = 8"
  by (simp_all add: sample_start_def sample_rest_def)

lemma sample_begins:
  "\<exists>d0 rs d d'. new_manual_clock 1 0 = Some d0 \<and> run_steps control_step sample_start d0 = Some (rs, d)
    \<and> list_all sound rs \<and> control_step NextTurn d = Some (Started 2 1 (TaskKey 0 1), d')"
  by (simp add: control_eval sample_start_def)

lemma sample_ends:
  "\<exists>d0 rs d c d'. new_manual_clock 1 0 = Some d0
    \<and> run_steps control_step (sample_start @ sample_rest) d0 = Some (rs, d)
    \<and> list_all sound rs \<and> dm_stack d = [Pumping c] \<and> pc_states c = dm_factories d \<and> pc_excluded c = None
    \<and> \<not> pc_lifecycle_only c \<and> \<not> pc_yield c \<and> pc_budget c = 8
    \<and> control_step NextTurn d = Some (Pumped 2, d') \<and> dm_factories d' = dm_factories d
    \<and> dm_factories d = [1] \<and> dm_open d 2 \<and> dm_creator d = 1
    \<and> dm_now d = 5
    \<and> filter (\<lambda>r. ends r \<noteq> []) rs = [Started 2 1 (TaskKey 0 1), Started 4 1 (TaskKey 0 2), Started 2 1 (TaskKey 5 0)]"
  by (simp add: control_eval sample_start_def sample_rest_def)

subsection \<open>Witnesses\<close>

lemma tasks_begin_or_drop_once_witness:
  "\<exists>d0 rs d. run_steps control_step (sample_start @ sample_rest) d0 = Some (rs, d)
    \<and> count_list (concat (map ends rs)) 1 = 1
    \<and> count_list (concat (map posts rs)) 1 = count_list (concat (map ends rs)) 1 + count_list (queued d) 1"
proof -
  obtain d0 rs d where r: "new_manual_clock 1 0 = Some d0"
    "run_steps control_step (sample_start @ sample_rest) d0 = Some (rs, d)"
    "filter (\<lambda>r. ends r \<noteq> []) rs = [Started 2 1 (TaskKey 0 1), Started 4 1 (TaskKey 0 2), Started 2 1 (TaskKey 5 0)]"
    using sample_ends by blast
  have "concat (map ends rs) = concat (map ends (filter (\<lambda>r. ends r \<noteq> []) rs))" by (induction rs) auto
  with r(3) have "count_list (concat (map ends rs)) 1 = 1" by simp
  with tasks_begin_or_drop_once [OF r(1) _ r(2), of 1] r(2) show ?thesis
    by (intro exI [of _ d0] exI [of _ rs] exI [of _ d]) simp
qed

lemma freed_queue_never_used_witness:
  "\<exists>d0 as. new_manual_clock 1 0 = Some d0 \<and> length as = 9 \<and> run_steps control_step as d0 = None
    \<and> (\<exists>n rs d i. run_steps control_step (take n as) d0 = Some (rs, d) \<and> PostedToDying i \<in> set rs)"
proof -
  obtain d0 where d0: "new_manual_clock 1 0 = Some d0" "run_steps control_step destructor_run d0 = None"
    using destructor_example by blast
  have n: "length destructor_run = 9" by (simp add: destructor_run_def)
  with freed_queue_never_used [OF d0(1), of destructor_run] d0(2)
  have "\<exists>n rs d i. run_steps control_step (take n destructor_run) d0 = Some (rs, d) \<and> PostedToDying i \<in> set rs"
    by simp
  with d0 n show ?thesis by blast
qed

lemma queues_never_reenter_witness:
  "\<exists>d0 rs d. new_manual_clock 1 0 = Some d0 \<and> run_steps control_step (sample_start @ sample_rest) d0 = Some (rs, d)
    \<and> qs_running (dm_states d 1) 2 \<le> 1"
proof -
  obtain d0 rs d where r: "new_manual_clock 1 0 = Some d0"
    "run_steps control_step (sample_start @ sample_rest) d0 = Some (rs, d)" "list_all sound rs" "dm_factories d = [1]"
    using sample_ends by blast
  from queues_never_reenter [OF r(1) _ r(2,3), of 1 2] r(4) have "qs_running (dm_states d 1) 2 \<le> 1"
    by simp
  with r show ?thesis by blast
qed

lemma dispatch_in_order_witness:
  "\<exists>d0 rs d d'. run_steps control_step sample_start d0 = Some (rs, d)
    \<and> control_step NextTurn d = Some (Started 2 1 (TaskKey 0 1), d')
    \<and> (\<forall>(k', t') \<in> set (tasks_of d 1). st_queue t' = 2 \<longrightarrow> TaskKey 0 1 \<le> k')"
proof -
  obtain d0 rs d d' where r: "new_manual_clock 1 0 = Some d0" "run_steps control_step sample_start d0 = Some (rs, d)"
    "list_all sound rs" "control_step NextTurn d = Some (Started 2 1 (TaskKey 0 1), d')"
    using sample_begins by blast
  from dispatch_in_order [OF r(1) _ r(2,3,4)] r(2,4) show ?thesis by auto
qed

end
