(* ===== verification/ControlledQueues.thy ===== *)
theory ControlledQueues
  imports SchedulerMemory
begin

text \<open>
  The Rust handles on a controlled clock, its factories and queues (\<open>ManualClock\<close>, \<open>TaskQueueFactory\<close> and
  \<open>TaskQueue\<close> of \<open>src/execution.rs\<close>, for cooperative factories): range checks of durations, posting with
  a delay, and the snapshot that a pump returns.
\<close>

subsection \<open>Errors\<close>

datatype build_environment_error =
    EnvironmentClosed | UnqualifiedEnvironment | ProductionRuntimeUnavailable | InvalidQueueName
  | MismatchedCooperativeClock | NativeConstructionFailed | TimestampOutOfRange | WrongThread
  | NotCooperative | UnsupportedNativeDelay

type_synonym 'a built = "(build_environment_error, 'a) result"

definition native_delay_result :: "u8 \<Rightarrow> bool built" where
  "native_delay_result code =
     (if code = 0 then Inr True else if code = 2 then Inl UnsupportedNativeDelay else Inr False)"

subsection \<open>The clock\<close>

definition manual_clock_new :: "thread_id \<Rightarrow> duration \<Rightarrow> execution_domain built" where
  "manual_clock_new thread initial_time =
     (if MAX_CONTROLLED_TIME < initial_time then Inl TimestampOutOfRange
      else and_then (ok_or (duration_micros initial_time) TimestampOutOfRange) (\<lambda>us.
        ok_or (new_manual_clock thread (sint us)) NativeConstructionFailed))"

definition clock_now :: "execution_domain \<Rightarrow> duration" where
  "clock_now d = duration_from_micros (nat (dm_now d))"

definition clock_advance :: "duration \<Rightarrow> execution_domain \<Rightarrow> unit built \<times> execution_domain" where
  "clock_advance delta d = (case duration_micros delta of
      None \<Rightarrow> (Inl TimestampOutOfRange, d)
    | Some us \<Rightarrow> (case advance_manual_clock (sint us) d of
        (ok, d) \<Rightarrow> (if ok then Inr () else Inl TimestampOutOfRange, d)))"

subsection \<open>Factories\<close>

definition check_current :: "thread_id \<Rightarrow> execution_domain \<Rightarrow> unit built" where
  "check_current thread d = (if task_queue_factory_is_current thread d then Inr () else Inl WrongThread)"

record task_queue =
  tq_native :: "address option"
  tq_factory :: address

definition create_queue_bytes ::
  "thread_id \<Rightarrow> address \<Rightarrow> bytes \<Rightarrow> execution_domain \<Rightarrow> task_queue built \<times> execution_domain" where
  "create_queue_bytes thread f name d = (case check_current thread d of
      Inl e \<Rightarrow> (Inl e, d)
    | Inr _ \<Rightarrow> (case make_queue f name False False d of
        (MadeQueue q, d) \<Rightarrow> (Inr \<lparr>tq_native = Some q, tq_factory = f\<rparr>, d)
      | (_, d) \<Rightarrow> (Inl NativeConstructionFailed, d)))"

definition create_queue ::
  "thread_id \<Rightarrow> address \<Rightarrow> bytes \<Rightarrow> execution_domain \<Rightarrow> task_queue built \<times> execution_domain" where
  "create_queue thread f name d = (case check_current thread d of
      Inl e \<Rightarrow> (Inl e, d)
    | Inr _ \<Rightarrow> if 0 \<in> set name then (Inl InvalidQueueName, d) else create_queue_bytes thread f name d)"

subsection \<open>Posting\<close>

text \<open>\<open>None\<close> stands for the use of a queue that has been freed.\<close>

definition native_post_task :: "address \<Rightarrow> closure \<Rightarrow> execution_domain \<Rightarrow> execution_domain option" where
  "native_post_task q t d = map_option (\<lambda>c. snd (post_task_impl q c t d)) (dm_queues d q)"

definition post_native_delayed_task ::
  "address \<Rightarrow> i64 \<Rightarrow> closure \<Rightarrow> execution_domain \<Rightarrow> (u8 \<times> execution_domain) option" where
  "post_native_delayed_task q bits t d =
     (if bits = i64_MIN \<or> bits = i64_MAX then Some (2, d)
      else map_option (\<lambda>c. (0, snd (post_delayed_task_impl q c t (sint bits) d))) (dm_queues d q))"

definition queue_post ::
  "task_queue \<Rightarrow> closure \<Rightarrow> execution_domain \<Rightarrow> (bool \<times> execution_domain) option" where
  "queue_post tq t d = (case tq_native tq of
      None \<Rightarrow> Some (False, d)
    | Some q \<Rightarrow> map_option (Pair True) (native_post_task q t d))"

definition queue_post_local ::
  "thread_id \<Rightarrow> task_queue \<Rightarrow> closure \<Rightarrow> execution_domain \<Rightarrow> (bool built \<times> execution_domain) option"
  where
  "queue_post_local thread tq t d = (case check_current thread d of
      Inl e \<Rightarrow> Some (Inl e, d)
    | Inr _ \<Rightarrow> map_option (\<lambda>(ok, d). (Inr ok, d)) (queue_post tq t d))"

definition queue_post_delayed_native ::
  "thread_id \<Rightarrow> task_queue \<Rightarrow> time_delta \<Rightarrow> closure \<Rightarrow> execution_domain
     \<Rightarrow> (bool built \<times> execution_domain) option" where
  "queue_post_delayed_native thread tq delay t d = (case check_current thread d of
      Inl e \<Rightarrow> Some (Inl e, d)
    | Inr _ \<Rightarrow> (case tq_native tq of
        None \<Rightarrow> Some (Inr False, d)
      | Some q \<Rightarrow> map_option (\<lambda>(code, d). (native_delay_result code, d))
          (post_native_delayed_task q (td_bits delay) t d)))"

definition queue_post_delayed ::
  "thread_id \<Rightarrow> task_queue \<Rightarrow> duration \<Rightarrow> closure \<Rightarrow> execution_domain
     \<Rightarrow> (bool built \<times> execution_domain) option" where
  "queue_post_delayed thread tq delay t d = (case duration_micros delay of
      None \<Rightarrow> Some (Inl TimestampOutOfRange, d)
    | Some us \<Rightarrow>
        if case duration_checked_add (clock_now d) delay of
             None \<Rightarrow> True | Some deadline \<Rightarrow> MAX_CONTROLLED_TIME < deadline
        then Some (Inl TimestampOutOfRange, d)
        else case td_from_microseconds us of
          Inl _ \<Rightarrow> Some (Inl UnsupportedNativeDelay, d)
        | Inr delay \<Rightarrow> queue_post_delayed_native thread tq delay t d)"

definition queue_close ::
  "task_queue \<Rightarrow> execution_domain \<Rightarrow> (task_queue \<times> execution_domain) option" where
  "queue_close tq d = (case tq_native tq of
      None \<Rightarrow> Some (tq, d)
    | Some q \<Rightarrow> map_option (\<lambda>c. (tq\<lparr>tq_native := None\<rparr>, snd (delete_begin q c d))) (dm_queues d q))"

subsection \<open>Snapshots\<close>

record pump_result =
  pr_dispatched :: nat
  pr_blocked :: bool
  pr_ready :: bool
  pr_next_deadline :: "duration option"

definition factory_next_deadline :: "address \<Rightarrow> execution_domain \<Rightarrow> duration option" where
  "factory_next_deadline f d =
     map_option (\<lambda>us. duration_from_micros (nat us)) (state_deadline (dm_states d f))"

definition driver_next_deadline :: "execution_domain \<Rightarrow> duration option" where
  "driver_next_deadline d = map_option (\<lambda>us. duration_from_micros (nat us)) (clock_deadline d)"

definition pump_snapshot :: "nat \<Rightarrow> bool \<Rightarrow> duration option \<Rightarrow> execution_domain \<Rightarrow> pump_result" where
  "pump_snapshot dispatched blocked next d = \<lparr>pr_dispatched = dispatched, pr_blocked = blocked,
     pr_ready = (case next of None \<Rightarrow> False | Some deadline \<Rightarrow> deadline \<le> clock_now d),
     pr_next_deadline = next\<rparr>"

subsection \<open>Delays are exact\<close>

lemma durations [simp]: "duration_from_micros a \<le> duration_from_micros b \<longleftrightarrow> a \<le> b"
  by (simp add: duration_from_micros_def)

lemma max_controlled: "MAX_CONTROLLED_TIME = duration_from_micros (nat kMaxTimeUs)"
  by (simp add: MAX_CONTROLLED_TIME_def kMaxTimeUs_def)

lemma duration_micros_small:
  assumes "delay \<le> MAX_CONTROLLED_TIME"
  shows "duration_micros delay = Some (word_of_int (int (as_micros delay)))"
    "sint (word_of_int (int (as_micros delay)) :: i64) = int (as_micros delay)"
    "td_from_microseconds (word_of_int (int (as_micros delay))) = Inr (td_of_bits (word_of_int (int (as_micros delay))))"
proof -
  have s: "as_micros delay \<le> 2085978495999999"
    using assms by (simp add: as_micros_def MAX_CONTROLLED_TIME_def duration_from_micros_def)
  then show "duration_micros delay = Some (word_of_int (int (as_micros delay)))"
    by (simp add: duration_micros_def to_i64_def i64_in_range_def)
  from s show v: "sint (word_of_int (int (as_micros delay)) :: i64) = int (as_micros delay)"
    by (intro sint_of_int_i64) simp_all
  have "word_of_int (int (as_micros delay)) \<noteq> i64_MIN" "word_of_int (int (as_micros delay)) \<noteq> i64_MAX"
    using v s by (auto dest: arg_cong [where f = sint])
  then show "td_from_microseconds (word_of_int (int (as_micros delay)))
      = Inr (td_of_bits (word_of_int (int (as_micros delay))))"
    by (simp add: td_from_microseconds_def from_microseconds_def and_then_def)
qed

text \<open>C31. A delayed post either is refused, exactly when its deadline lies beyond the controlled clock, or
  puts one task on the queue whose deadline is the current time plus the delay in whole microseconds:
  on an open queue \<open>Ok(true)\<close> never hides the discarding that the native queue is capable of.\<close>

theorem post_delayed_exact:
  assumes "new_manual_clock th us = Some d0" "length as < 2 ^ 64 - 1"
    "run_steps control_step as d0 = Some (rs, d)" "list_all sound rs"
    "dm_open d q" "tq_native tq = Some q" "check_current thread d = Inr ()"
  shows "\<exists>c. dm_queues d q = Some c \<and>
    queue_post_delayed thread tq delay t d =
      (if clock_now d + delay \<le> MAX_CONTROLLED_TIME
       then Some (Inr True, snd (schedule q c (dm_now d + int (as_micros delay)) True t d))
       else Some (Inl TimestampOutOfRange, d))
    \<and> (clock_now d + delay \<le> MAX_CONTROLLED_TIME \<longrightarrow>
        (TaskKey (dm_now d + int (as_micros delay)) (dm_next_sequence d),
         \<lparr>st_queue = q, st_delayed = True, st_task = t\<rparr>)
        \<in> set (tasks_of (snd (schedule q c (dm_now d + int (as_micros delay)) True t d)) (cq_factory c)))"
proof -
  from reachable [OF assms(1-4)] have tl: "timeline_inv (Suc 0) d" and m: "memory_inv d" by simp_all
  from m assms(5) obtain c where c: "dm_queues d q = Some c" by (rule open_alive)
  then have f: "cq_factory c \<in> set (dm_factories d)" using tl by (auto simp: timeline_inv_def)
  have del: "\<not> qs_deleted (dm_states d (cq_factory c)) q"
    using memory_state [OF m f] assms(5) by (auto simp: state_ok_def Let_def)
  have now: "0 \<le> dm_now d" "dm_now d \<le> kMaxTimeUs" using tl by (simp_all add: timeline_inv_def)
  have limit: "MAX_CONTROLLED_TIME \<le> duration_limit"
    by (simp add: MAX_CONTROLLED_TIME_def duration_limit_def duration_from_micros_def)
  let ?at = "dm_now d + int (as_micros delay)"
  show ?thesis
  proof (cases "clock_now d + delay \<le> MAX_CONTROLLED_TIME")
    case True
    then have "delay \<le> MAX_CONTROLLED_TIME" by simp
    note w = duration_micros_small [OF this]
    have "int (clock_now d + delay) \<le> kMaxTimeUs * 1000"
      using True by (simp add: MAX_CONTROLLED_TIME_def duration_from_micros_def kMaxTimeUs_def)
    then have small: "int (as_micros delay) \<le> kMaxTimeUs - dm_now d"
      using now by (simp add: clock_now_def duration_from_micros_def as_micros_def)
    have b: "word_of_int (int (as_micros delay)) \<noteq> i64_MIN" "word_of_int (int (as_micros delay)) \<noteq> i64_MAX"
      using w(3) by (auto simp: td_from_microseconds_def from_microseconds_def and_then_def split: if_splits)
    have "queue_post_delayed_native thread tq (td_of_bits (word_of_int (int (as_micros delay)))) t d
        = Some (Inr True, snd (schedule q c ?at True t d))"
      using b c del small assms(6,7) w(2)
      by (simp add: queue_post_delayed_native_def post_native_delayed_task_def post_delayed_task_impl_def
          native_delay_result_def Let_def)
    then have "queue_post_delayed thread tq delay t d = Some (Inr True, snd (schedule q c ?at True t d))"
      using True limit w by (simp add: queue_post_delayed_def duration_checked_add_def)
    moreover have k: "TaskKey ?at (dm_next_sequence d) \<notin> fst ` set (tasks_of d (cq_factory c))"
      using tl f by (fastforce simp: timeline_inv_def tasks_ok_def key_ok_def)
    then have "(TaskKey ?at (dm_next_sequence d), \<lparr>st_queue = q, st_delayed = True, st_task = t\<rparr>)
        \<in> set (tasks_of (snd (schedule q c ?at True t d)) (cq_factory c))"
      using emplace_mset [OF k] by (simp add: schedule_def on_state_def flip: set_mset_mset)
    ultimately show ?thesis using c True by auto
  next
    case False
    have "queue_post_delayed thread tq delay t d = Some (Inl TimestampOutOfRange, d)"
      using False by (auto simp: queue_post_delayed_def duration_checked_add_def split: option.splits)
    with c False show ?thesis by simp
  qed
qed

subsection \<open>Snapshots are true\<close>

lemma state_deadline_least:
  assumes "tasks_ok next (qs_tasks s)"
  shows "state_deadline s = None \<longleftrightarrow> qs_tasks s = []"
    "state_deadline s = Some v \<Longrightarrow> (\<exists>(k, t) \<in> set (qs_tasks s). key_deadline k = v)
       \<and> (\<forall>(k, t) \<in> set (qs_tasks s). v \<le> key_deadline k)"
  using assms
  by (cases "qs_tasks s"; force simp: state_deadline_def tasks_ok_def less_task_key_def)+

lemma least_deadline:
  assumes "fold (\<lambda>f deadline. case g f of None \<Rightarrow> deadline
       | Some v \<Rightarrow> (case deadline of None \<Rightarrow> Some v | Some w \<Rightarrow> if v < w then Some v else deadline)) fs acc = r"
  shows "(r = None \<longleftrightarrow> acc = None \<and> (\<forall>f\<in>set fs. g f = None))
    \<and> (\<forall>v. r = Some (v :: int) \<longrightarrow> (acc = Some v \<or> (\<exists>f\<in>set fs. g f = Some v))
         \<and> (\<forall>w. acc = Some w \<or> (\<exists>f\<in>set fs. g f = Some w) \<longrightarrow> v \<le> w))"
  using assms
proof (induction fs arbitrary: acc)
  case (Cons f fs)
  show ?case
  proof (cases "g f")
    case None
    with Cons.IH [of acc] Cons.prems show ?thesis by auto
  next
    case (Some v)
    let ?acc = "case acc of None \<Rightarrow> Some v | Some w \<Rightarrow> if v < w then Some v else acc"
    from Cons.prems Some have "fold (\<lambda>f deadline. case g f of None \<Rightarrow> deadline
       | Some v \<Rightarrow> (case deadline of None \<Rightarrow> Some v | Some w \<Rightarrow> if v < w then Some v else deadline)) fs ?acc = r"
      by simp
    from Cons.IH [OF this] Some show ?thesis by (cases acc) (fastforce split: if_splits)+
  qed
qed auto

text \<open>C30. What a pump of the driver returns is true and complete.  Called from outside any task, if it ran
  fewer tasks than its budget, nothing is ready in the factories it started with; the deadline it
  reports is the first of all waiting tasks, those of factories made meanwhile included, and it reports
  none only when no task waits; and it reports that something is ready exactly when a task of a factory
  made during the pump is due.\<close>

theorem driver_pump_reports:
  assumes "new_manual_clock th us = Some d0" "length as < 2 ^ 64 - 1"
    "run_steps control_step as d0 = Some (rs, d)" "list_all sound rs"
    "dm_stack d = [Pumping c]" "pc_excluded c = None" "\<not> pc_lifecycle_only c" "\<not> pc_yield c"
    "control_step NextTurn d = Some (Pumped n, d')" "n < pc_budget c"
    "r = pump_snapshot n False (driver_next_deadline d') d'"
  shows "(\<forall>f\<in>set (pc_states c). \<forall>(k, t) \<in> set (tasks_of d' f). dm_now d' < key_deadline k)
    \<and> (case pr_next_deadline r of
      None \<Rightarrow> queued d' = []
    | Some at \<Rightarrow>
        (\<exists>f\<in>set (dm_factories d'). \<exists>(k, t) \<in> set (tasks_of d' f). at = duration_from_micros (nat (key_deadline k)))
        \<and> (\<forall>f\<in>set (dm_factories d'). \<forall>(k, t) \<in> set (tasks_of d' f). at \<le> duration_from_micros (nat (key_deadline k))))
    \<and> (pr_ready r \<longleftrightarrow> (\<exists>f\<in>set (dm_factories d') - set (pc_states c).
        \<exists>(k, t) \<in> set (tasks_of d' f). key_deadline k \<le> dm_now d'))"
proof -
  from pump_drains [OF assms(1-10)]
  have future: "\<And>f k t. f \<in> set (pc_states c) \<Longrightarrow> (k, t) \<in> set (tasks_of d' f) \<Longrightarrow> dm_now d' < key_deadline k"
    and t: "timeline_inv 0 d'" by auto
  then have ok: "tasks_ok (dm_next_sequence d') (tasks_of d' f)" if "f \<in> set (dm_factories d')" for f
    using that by (simp add: timeline_inv_def)
  have now: "0 \<le> dm_now d'" using t by (simp add: timeline_inv_def)
  have new: "f \<notin> set (pc_states c)" if "(k, t) \<in> set (tasks_of d' f)" "key_deadline k \<le> dm_now d'" for f k t
    using future [OF _ that(1)] that(2) by auto
  note l = least_deadline [OF clock_deadline_def [of d', symmetric]]
  show ?thesis
  proof (cases "clock_deadline d'")
    case None
    with l ok have "\<forall>f\<in>set (dm_factories d'). tasks_of d' f = []"
      by (metis state_deadline_least(1))
    with None assms(11) future show ?thesis
      by (auto simp: pump_snapshot_def driver_next_deadline_def queued_def)
  next
    case (Some v)
    with l obtain f where f: "f \<in> set (dm_factories d')" "state_deadline (dm_states d' f) = Some v" by auto
    from state_deadline_least(2) [OF ok [OF f(1)] f(2)] obtain k t where
      k: "(k, t) \<in> set (tasks_of d' f)" "key_deadline k = v" by auto
    have least: "v \<le> key_deadline k'" if "g \<in> set (dm_factories d')" "(k', t') \<in> set (tasks_of d' g)" for g k' t'
    proof -
      from that state_deadline_least(1) [OF ok [OF that(1)]] obtain w where
        w: "state_deadline (dm_states d' g) = Some w" by fastforce
      with l Some that(1) have "v \<le> w" by blast
      with state_deadline_least(2) [OF ok [OF that(1)] w] that(2) show ?thesis by fastforce
    qed
    have "pr_ready r \<longleftrightarrow> v \<le> dm_now d'"
      using Some assms(11) now
      by (simp add: pump_snapshot_def driver_next_deadline_def clock_now_def nat_le_eq_zle)
    moreover have "v \<le> dm_now d' \<longleftrightarrow> (\<exists>f\<in>set (dm_factories d') - set (pc_states c).
        \<exists>(k, t) \<in> set (tasks_of d' f). key_deadline k \<le> dm_now d')"
    proof
      assume "v \<le> dm_now d'"
      with k have "key_deadline k \<le> dm_now d'" by simp
      moreover from new [OF k(1) this] f(1) have "f \<in> set (dm_factories d') - set (pc_states c)" by simp
      ultimately show "\<exists>f\<in>set (dm_factories d') - set (pc_states c).
          \<exists>(k, t) \<in> set (tasks_of d' f). key_deadline k \<le> dm_now d'"
        using k(1) by blast
    next
      assume "\<exists>f\<in>set (dm_factories d') - set (pc_states c).
          \<exists>(k, t) \<in> set (tasks_of d' f). key_deadline k \<le> dm_now d'"
      then obtain g k' t' where "g \<in> set (dm_factories d')" "(k', t') \<in> set (tasks_of d' g)"
        "key_deadline k' \<le> dm_now d'" by blast
      with least [of g k' t'] show "v \<le> dm_now d'" by simp
    qed
    moreover have "\<forall>f\<in>set (dm_factories d'). \<forall>(k, t) \<in> set (tasks_of d' f). nat v \<le> nat (key_deadline k)"
      using least by fastforce
    moreover have "pr_next_deadline r = Some (duration_from_micros (nat v))"
      using Some assms(11) by (simp add: pump_snapshot_def driver_next_deadline_def)
    moreover have "\<forall>f\<in>set (pc_states c). \<forall>(k, t) \<in> set (tasks_of d' f). dm_now d' < key_deadline k"
      using future by blast
    moreover have "\<exists>f\<in>set (dm_factories d'). \<exists>(k, t) \<in> set (tasks_of d' f).
        duration_from_micros (nat v) = duration_from_micros (nat (key_deadline k))"
      using f(1) k by (intro bexI [of _ f] bexI [of _ "(k, t)"]) simp_all
    ultimately show ?thesis by simp
  qed
qed

lemma driver_pump_reports_witness:
  "\<exists>d d' n. control_step NextTurn d = Some (Pumped n, d')
    \<and> \<not> pr_ready (pump_snapshot n False (driver_next_deadline d') d')"
proof -
  obtain d0 rs d c d' where r: "new_manual_clock 1 0 = Some d0"
    "run_steps control_step (sample_start @ sample_rest) d0 = Some (rs, d)" "list_all sound rs"
    "dm_stack d = [Pumping c]" "pc_excluded c = None" "\<not> pc_lifecycle_only c"
    "\<not> pc_yield c" "pc_budget c = 8" "control_step NextTurn d = Some (Pumped 2, d')"
    and f: "pc_states c = dm_factories d" "dm_factories d' = dm_factories d"
    using sample_ends by blast
  from driver_pump_reports [OF r(1) _ r(2-7,9) _ refl] r(8,9) f show ?thesis
    by auto
qed

lemma post_delayed_exact_witness:
  "\<exists>d tq. \<exists>d'. queue_post_delayed 1 tq 2500 11 d = Some (Inr True, d') \<and> dm_now d = 5
    \<and> (TaskKey 7 (dm_next_sequence d), \<lparr>st_queue = 2, st_delayed = True, st_task = 11\<rparr>) \<in> set (tasks_of d' 1)"
proof -
  obtain d0 rs d where r: "new_manual_clock 1 0 = Some d0"
    "run_steps control_step (sample_start @ sample_rest) d0 = Some (rs, d)" "list_all sound rs"
    "dm_open d 2" "dm_creator d = 1" "dm_factories d = [1]" "dm_now d = 5"
    using sample_ends by blast
  have "check_current 1 d = Inr ()" using r(5) by (simp add: check_current_def task_queue_factory_is_current_def)
  from post_delayed_exact [OF r(1) _ r(2,3,4) _ this, of "\<lparr>tq_native = Some 2, tq_factory = 1\<rparr>" 2500 11] r(7)
  obtain c where c: "dm_queues d 2 = Some c"
    "queue_post_delayed 1 \<lparr>tq_native = Some 2, tq_factory = 1\<rparr> 2500 11 d
       = Some (Inr True, snd (schedule 2 c 7 True 11 d))"
    "(TaskKey 7 (dm_next_sequence d), \<lparr>st_queue = 2, st_delayed = True, st_task = 11\<rparr>)
       \<in> set (tasks_of (snd (schedule 2 c 7 True 11 d)) (cq_factory c))"
    by (auto simp: clock_now_def duration_from_micros_def
        MAX_CONTROLLED_TIME_def as_micros_def)
  have "timeline_inv (Suc 0) d" using reachable [OF r(1) _ r(2,3)] by simp
  with c(1) r(6) have "cq_factory c = 1" by (auto simp: timeline_inv_def)
  with c r(7) show ?thesis by auto
qed

end
