(* ===== verification/ControlledWorld.thy ===== *)
theory ControlledWorld
  imports ControlledQueues
begin

text \<open>
  What is global to a process under controlled execution: the hooks for the clock and for random numbers
  (\<open>native/execution.cc\<close>), of which a controlled world takes exclusive possession, and the seeded
  generator of random numbers.
\<close>

subsection \<open>Hooks\<close>

record process_hooks =
  ph_driver_active :: bool
  ph_randomness_active :: bool
  ph_production_leases :: nat
  ph_test_clock :: bool
  ph_thread :: "thread_id \<Rightarrow> bool"

definition no_hooks :: process_hooks where
  "no_hooks = \<lparr>ph_driver_active = False, ph_randomness_active = False, ph_production_leases = 0,
     ph_test_clock = False, ph_thread = (\<lambda>_. False)\<rparr>"

definition new_production_lease :: "process_hooks \<Rightarrow> bool \<times> process_hooks" where
  "new_production_lease h =
     (if ph_driver_active h then (False, h)
      else (True, h\<lparr>ph_production_leases := ph_production_leases h + 1\<rparr>))"

definition drop_production_lease :: "process_hooks \<Rightarrow> process_hooks" where
  "drop_production_lease h = h\<lparr>ph_production_leases := ph_production_leases h - 1\<rparr>"

definition new_seeded_randomness :: "process_hooks \<Rightarrow> bool \<times> process_hooks" where
  "new_seeded_randomness h =
     (if ph_randomness_active h then (False, h) else (True, h\<lparr>ph_randomness_active := True\<rparr>))"

definition drop_randomness_lease :: "process_hooks \<Rightarrow> process_hooks" where
  "drop_randomness_lease h = h\<lparr>ph_randomness_active := False\<rparr>"

text \<open>\<open>queues\<close>: whether the clock accepts another factory of this thread; \<open>wraps\<close>: whether the SDK wraps it.\<close>

definition new_driver_thread :: "thread_id \<Rightarrow> bool \<Rightarrow> bool \<Rightarrow> process_hooks \<Rightarrow> bool \<times> process_hooks" where
  "new_driver_thread thread queues wraps h =
     (if ph_driver_active h \<or> ph_production_leases h \<noteq> 0 \<or> ph_thread h thread \<or> ph_test_clock h
      then (False, h)
      else if \<not> queues then (False, h)
      else if \<not> wraps then (False, h)
      else (True, h\<lparr>ph_driver_active := True, ph_test_clock := True,
        ph_thread := (ph_thread h)(thread := True)\<rparr>))"

definition new_seeded_driver_thread ::
  "thread_id \<Rightarrow> bool \<Rightarrow> bool \<Rightarrow> process_hooks \<Rightarrow> bool \<times> process_hooks" where
  "new_seeded_driver_thread thread queues wraps h =
     (if ph_driver_active h \<or> ph_production_leases h \<noteq> 0 \<or> ph_randomness_active h \<or> ph_thread h thread
        \<or> ph_test_clock h
      then (False, h)
      else if \<not> queues then (False, h)
      else if \<not> wraps then (False, h)
      else (True, h\<lparr>ph_driver_active := True, ph_randomness_active := True, ph_test_clock := True,
        ph_thread := (ph_thread h)(thread := True)\<rparr>))"

definition drop_driver_thread :: "thread_id \<Rightarrow> bool \<Rightarrow> process_hooks \<Rightarrow> process_hooks" where
  "drop_driver_thread thread seeded h = h\<lparr>ph_thread := (ph_thread h)(thread := False),
     ph_test_clock := False,
     ph_randomness_active := (if seeded then False else ph_randomness_active h),
     ph_driver_active := False\<rparr>"

subsection \<open>Acquiring\<close>

datatype world_acquire_error = EnvironmentError build_environment_error | HooksUnavailable

text \<open>\<open>ControlledWorld::acquire\<close>: the clock, its factory, and the hooks with the driver's own queue.\<close>

definition world_acquire ::
  "thread_id \<Rightarrow> duration \<Rightarrow> bool \<Rightarrow> process_hooks
     \<Rightarrow> (world_acquire_error, address \<times> execution_domain) result \<times> process_hooks" where
  "world_acquire thread initial_time wraps h = (case manual_clock_new thread initial_time of
      Inl e \<Rightarrow> (Inl (EnvironmentError e), h)
    | Inr d \<Rightarrow> (case new_cooperative_task_queue_factory thread d of
        (None, _) \<Rightarrow> (Inl (EnvironmentError NativeConstructionFailed), h)
      | (Some f, d) \<Rightarrow> (case new_seeded_driver_thread thread (task_queue_factory_is_current thread d) wraps h of
          (False, h) \<Rightarrow> (Inl HooksUnavailable, h)
        | (True, h) \<Rightarrow> (Inr (f, d), h))))"

text \<open>The native objects that hold hooks, and what may happen to them.\<close>

datatype hook_holder = ProductionLease | RandomnessHolder | DriverHolder thread_id bool

datatype hook_action =
    AcquireProduction
  | AcquireRandomness
  | NewDriver thread_id bool bool
  | AcquireWorld thread_id duration bool
  | ReleaseHolder hook_holder

fun drop_holder :: "hook_holder \<Rightarrow> process_hooks \<Rightarrow> process_hooks" where
  "drop_holder ProductionLease h = drop_production_lease h"
| "drop_holder RandomnessHolder h = drop_randomness_lease h"
| "drop_holder (DriverHolder thread seeded) h = drop_driver_thread thread seeded h"

definition acquire ::
  "hook_holder \<Rightarrow> bool \<times> process_hooks \<Rightarrow> hook_holder list \<Rightarrow> bool \<times> hook_holder list \<times> process_hooks"
  where
  "acquire x r hs = (case r of (ok, h) \<Rightarrow> (ok, (if ok then x # hs else hs), h))"

fun hook_step ::
  "hook_action \<Rightarrow> hook_holder list \<times> process_hooks \<Rightarrow> bool \<times> hook_holder list \<times> process_hooks" where
  "hook_step AcquireProduction (hs, h) = acquire ProductionLease (new_production_lease h) hs"
| "hook_step AcquireRandomness (hs, h) = acquire RandomnessHolder (new_seeded_randomness h) hs"
| "hook_step (NewDriver thread queues wraps) (hs, h) =
     acquire (DriverHolder thread False) (new_driver_thread thread queues wraps h) hs"
| "hook_step (AcquireWorld thread initial_time wraps) (hs, h) =
     acquire (DriverHolder thread True)
       (case world_acquire thread initial_time wraps h of (r, h) \<Rightarrow> (is_ok r, h)) hs"
| "hook_step (ReleaseHolder x) (hs, h) =
     (if x \<in> set hs then (True, remove1 x hs, drop_holder x h) else (False, hs, h))"

definition is_driver :: "hook_holder \<Rightarrow> bool" where
  "is_driver x \<longleftrightarrow> (case x of DriverHolder _ _ \<Rightarrow> True | _ \<Rightarrow> False)"

definition is_seeded :: "hook_holder \<Rightarrow> bool" where
  "is_seeded x \<longleftrightarrow> (case x of DriverHolder _ seeded \<Rightarrow> seeded | RandomnessHolder \<Rightarrow> True | _ \<Rightarrow> False)"

lemma holder_simps [simp]:
  "\<not> is_driver ProductionLease" "\<not> is_driver RandomnessHolder" "is_driver (DriverHolder t s)"
  "\<not> is_seeded ProductionLease" "is_seeded RandomnessHolder" "is_seeded (DriverHolder t s) = s"
  by (simp_all add: is_driver_def is_seeded_def)

definition holders :: "(hook_holder \<Rightarrow> bool) \<Rightarrow> hook_holder list \<Rightarrow> nat" where
  "holders P hs = length (filter P hs)"

lemma holders_simps [simp]:
  "holders P [] = 0" "holders P (x # hs) = of_bool (P x) + holders P hs"
  by (simp_all add: holders_def)

lemma holders_remove1: "x \<in> set hs \<Longrightarrow> holders P hs = of_bool (P x) + holders P (remove1 x hs)"
  by (induction hs) auto

definition hooks_inv :: "hook_holder list \<Rightarrow> process_hooks \<Rightarrow> bool" where
  "hooks_inv hs h \<longleftrightarrow> ph_production_leases h = holders ((=) ProductionLease) hs
     \<and> holders is_driver hs = of_bool (ph_driver_active h)
     \<and> holders is_seeded hs = of_bool (ph_randomness_active h)
     \<and> (ph_test_clock h \<longleftrightarrow> ph_driver_active h)
     \<and> (ph_driver_active h \<longrightarrow> ph_production_leases h = 0)"

lemma drop_holder_inv:
  assumes "hooks_inv hs h" "x \<in> set hs"
  shows "hooks_inv (remove1 x hs) (drop_holder x h)"
proof -
  note r = holders_remove1 [OF assms(2)]
  from assms(1) r [of "(=) ProductionLease"] r [of is_driver] r [of is_seeded] show ?thesis
    by (cases x; cases "ph_randomness_active h") (auto simp: hooks_inv_def drop_production_lease_def drop_randomness_lease_def
        drop_driver_thread_def split: if_splits)
qed

lemma world_acquire_hooks:
  "world_acquire thread initial_time wraps h = (r, h') \<Longrightarrow>
     (is_ok r \<longrightarrow> new_seeded_driver_thread thread True True h = (True, h')) \<and> (\<not> is_ok r \<longrightarrow> h' = h)"
  by (auto simp: world_acquire_def is_ok_def new_seeded_driver_thread_def split: sum.splits option.splits
      if_splits prod.splits)

lemma hook_step_inv:
  assumes "hooks_inv hs h" "hook_step a (hs, h) = (ok, hs', h')"
  shows "hooks_inv hs' h' \<and> (\<not> ok \<longrightarrow> hs' = hs \<and> h' = h)"
proof (cases a)
  case (AcquireWorld th us w)
  obtain r h1 where w: "world_acquire th us w h = (r, h1)" by (cases "world_acquire th us w h")
  with world_acquire_hooks [OF w] assms AcquireWorld show ?thesis
    by (cases "is_ok r") (auto simp: acquire_def hooks_inv_def new_seeded_driver_thread_def split: if_splits)
next
  case (ReleaseHolder x)
  with assms drop_holder_inv show ?thesis by (auto split: if_splits)
qed (use assms in \<open>auto simp: acquire_def hooks_inv_def new_production_lease_def new_seeded_randomness_def
      new_driver_thread_def split: if_splits\<close>)

text \<open>C32. Controlled and production execution never coexist.  After any acquisitions and releases there
  is at most one driver, at most one owner of the random hook, and no production lease beside a driver;
  the flags tell exactly what is held; and an acquisition that is refused leaves the process as it was.\<close>

theorem hooks_exclusive:
  assumes "fold (\<lambda>a s. snd (hook_step a s)) as ([], no_hooks) = (hs, h)"
  shows "holders is_driver hs \<le> 1 \<and> holders is_seeded hs \<le> 1
    \<and> (holders is_driver hs = 1 \<longrightarrow> ProductionLease \<notin> set hs)
    \<and> ph_driver_active h = (holders is_driver hs = 1) \<and> ph_randomness_active h = (holders is_seeded hs = 1)
    \<and> (fst (hook_step a (hs, h)) \<or> snd (hook_step a (hs, h)) = (hs, h))"
proof -
  have "hooks_inv (fst (fold (\<lambda>a s. snd (hook_step a s)) as s)) (snd (fold (\<lambda>a s. snd (hook_step a s)) as s))"
    if "hooks_inv (fst s) (snd s)" for s
    using that
  proof (induction as arbitrary: s)
    case (Cons a as)
    from hook_step_inv [OF Cons.prems, of a] Cons.IH [of "snd (hook_step a s)"] show ?case
      by (cases "hook_step a s") simp
  qed simp
  moreover have "hooks_inv [] no_hooks" by (simp add: hooks_inv_def no_hooks_def)
  ultimately have i: "hooks_inv hs h" using assms by (metis fst_conv snd_conv)
  have "ProductionLease \<notin> set hs" if "holders is_driver hs = 1"
  proof -
    from i that have "holders ((=) ProductionLease) hs = 0"
      by (cases "ph_driver_active h") (simp_all add: hooks_inv_def)
    then show ?thesis by (auto simp: holders_def filter_empty_conv)
  qed
  with i hook_step_inv [OF i, of a] show ?thesis
    by (cases "hook_step a (hs, h)") (auto simp: hooks_inv_def)
qed

definition sample_hooks :: "hook_action list" where
  "sample_hooks = [AcquireProduction, AcquireWorld 1 0 True, ReleaseHolder ProductionLease, AcquireWorld 1 0 True,
     AcquireRandomness, AcquireProduction]"

lemma hooks_exclusive_witness:
  "\<exists>h. fold (\<lambda>a s. snd (hook_step a s)) sample_hooks ([], no_hooks) = ([DriverHolder 1 True], h)
    \<and> ph_driver_active h \<and> snd (hook_step AcquireRandomness ([DriverHolder 1 True], h)) = ([DriverHolder 1 True], h)"
proof -
  obtain h where h: "fold (\<lambda>a s. snd (hook_step a s)) sample_hooks ([], no_hooks) = ([DriverHolder 1 True], h)"
    "\<not> fst (hook_step AcquireRandomness ([DriverHolder 1 True], h))"
    by (auto simp: sample_hooks_def acquire_def new_production_lease_def new_seeded_randomness_def
        drop_production_lease_def no_hooks_def world_acquire_def manual_clock_new_def duration_micros_def
        as_micros_def to_i64_def i64_in_range_def ok_or_def and_then_def new_manual_clock_def kMaxTimeUs_def
        new_cooperative_task_queue_factory_def task_queue_factory_is_current_def on_state_def
        new_seeded_driver_thread_def is_ok_def)
  from hooks_exclusive [OF h(1), of AcquireRandomness] h show ?thesis by auto
qed

subsection \<open>The seeded generator\<close>

definition seeded_next :: "u64 \<Rightarrow> u64 \<times> u64" where
  "seeded_next s =
     (let s = s + 0x9e3779b97f4a7c15;
          v = (xor s (drop_bit 30 s)) * 0xbf58476d1ce4e5b9;
          v = (xor v (drop_bit 27 v)) * 0x94d049bb133111eb
      in (xor v (drop_bit 31 v), s))"

fun seeded_generate :: "nat \<Rightarrow> u64 \<Rightarrow> bytes \<times> u64" where
  "seeded_generate n s =
     (if n = 0 then ([], s)
      else let (v, s) = seeded_next s; count = min n 8;
               (rest, s) = seeded_generate (n - count) s
           in (map (\<lambda>i. ucast (drop_bit (i * 8) v)) [0..<count] @ rest, s))"

declare seeded_generate.simps [simp del]

lemma xor_drop_bit_inj:
  assumes "xor x (drop_bit n x) = xor y (drop_bit n y)" "0 < n"
  shows "x = (y :: u64)"
proof (rule bit_word_eqI)
  fix k :: nat
  have e: "bit x k \<noteq> bit x (n + k) \<longleftrightarrow> bit y k \<noteq> bit y (n + k)" for k
    using arg_cong [OF assms(1), of "\<lambda>w. bit w k"] by (simp add: bit_xor_iff bit_drop_bit_eq)
  show "bit x k = bit y k"
  proof (induction "64 - k" arbitrary: k rule: less_induct)
    case less
    show ?case
    proof (cases "k < 64")
      case True
      with less assms(2) have "bit x (n + k) = bit y (n + k)" by simp
      with e [of k] show ?thesis by blast
    next
      case False
      then show ?thesis using bit_imp_le_length [of x k] bit_imp_le_length [of y k] by auto
    qed
  qed
qed

lemma odd_mult_inj:
  assumes "c * i = (1 :: u64)" "x * c = y * c" shows "x = y"
  using arg_cong [OF assms(2), of "\<lambda>z. z * i"] assms(1) by (simp add: mult.assoc)

lemma seeded_next_inj: "fst (seeded_next s) = fst (seeded_next t) \<Longrightarrow> s = t"
proof -
  assume a: "fst (seeded_next s) = fst (seeded_next t)"
  let ?f = "\<lambda>s. xor s (drop_bit 30 s) * 0xbf58476d1ce4e5b9 :: u64"
  let ?g = "\<lambda>v. xor v (drop_bit 27 v) * 0x94d049bb133111eb :: u64"
  let ?a = "s + 0x9e3779b97f4a7c15" and ?b = "t + 0x9e3779b97f4a7c15"
  from a have "xor (?g (?f ?a)) (drop_bit 31 (?g (?f ?a))) = xor (?g (?f ?b)) (drop_bit 31 (?g (?f ?b)))"
    by (simp only: seeded_next_def Let_def fst_conv)
  then have "?g (?f ?a) = ?g (?f ?b)" by (rule xor_drop_bit_inj) simp
  then have "xor (?f ?a) (drop_bit 27 (?f ?a)) = xor (?f ?b) (drop_bit 27 (?f ?b))"
    by (rule odd_mult_inj [where i = "0x319642b2d24d8ec3", rotated]) simp
  then have "?f ?a = ?f ?b" by (rule xor_drop_bit_inj) simp
  then have "xor ?a (drop_bit 30 ?a) = xor ?b (drop_bit 30 ?b)"
    by (rule odd_mult_inj [where i = "0x96de1b173f119089", rotated]) simp
  then have "?a = ?b" by (rule xor_drop_bit_inj) simp
  then show "s = t" by simp
qed

lemma generate_eight:
  "seeded_generate 8 s
     = (map (\<lambda>i. ucast (drop_bit (i * 8) (fst (seeded_next s)))) [0..<8], s + 0x9e3779b97f4a7c15)"
  by (simp add: seeded_generate.simps [of 8] seeded_generate.simps [of 0] seeded_next_def Let_def)

text \<open>A draw of \<open>n\<close> bytes moves the state by one step for each word it needs, eight bytes or fewer.\<close>

definition words_drawn :: "nat \<Rightarrow> nat" where "words_drawn n = (n + 7) div 8"

definition draws :: "nat list \<Rightarrow> u64 \<Rightarrow> u64" where
  "draws ns s = fold (\<lambda>n s. snd (seeded_generate n s)) ns s"

lemma generate_state: "snd (seeded_generate n s) = s + of_nat (words_drawn n) * 0x9e3779b97f4a7c15"
proof (induction n arbitrary: s rule: less_induct)
  case (less n)
  show ?case
  proof (cases "n = 0")
    case True
    then show ?thesis by (simp add: words_drawn_def seeded_generate.simps [of 0])
  next
    case False
    have w: "words_drawn n = Suc (words_drawn (n - min n 8))"
      using False by (cases "n < 8") (simp_all add: words_drawn_def div_if [of "n + 7"] min_def)
    have "snd (seeded_generate n s) = snd (seeded_generate (n - min n 8) (s + 0x9e3779b97f4a7c15))"
      using False by (subst seeded_generate.simps) (simp add: seeded_next_def Let_def split: prod.splits)
    also have "\<dots> = s + of_nat (words_drawn n) * 0x9e3779b97f4a7c15"
      using False by (subst less.IH) (simp_all add: w algebra_simps)
    finally show ?thesis .
  qed
qed

lemma draws_state: "draws ns s = s + of_nat (sum_list (map words_drawn ns)) * 0x9e3779b97f4a7c15"
  by (induction ns arbitrary: s) (simp_all add: draws_def generate_state algebra_simps)

lemma bytes_determine:
  assumes "map (\<lambda>i. ucast (drop_bit (i * 8) v) :: u8) [0..<8] = map (\<lambda>i. ucast (drop_bit (i * 8) w)) [0..<8]"
  shows "v = (w :: u64)"
proof (rule bit_word_eqI)
  fix k :: nat assume "k < LENGTH(64)"
  then have i: "k div 8 < 8" by simp
  with assms have "ucast (drop_bit (k div 8 * 8) v) = (ucast (drop_bit (k div 8 * 8) w) :: u8)"
    by (simp only: map_eq_conv) simp
  then have "bit (ucast (drop_bit (k div 8 * 8) v) :: u8) (k mod 8)
      = bit (ucast (drop_bit (k div 8 * 8) w) :: u8) (k mod 8)" by simp
  then show "bit v k = bit w k" by (simp add: bit_ucast_iff bit_drop_bit_eq)
qed

text \<open>C34. The seeded generator does not repeat itself: whatever its state, the eight bytes of one
  draw differ from the eight bytes of any later draw of eight, with draws of any lengths in between, as
  long as fewer than \<open>2 ^ 64\<close> words are drawn from the first to the second.\<close>

theorem seeded_draws_differ:
  assumes "words_drawn 8 + sum_list (map words_drawn ns) < 2 ^ 64"
  shows "fst (seeded_generate 8 s) \<noteq> fst (seeded_generate 8 (draws (8 # ns) s))"
proof
  define m where "m = sum_list (map words_drawn (8 # ns))"
  have m: "0 < m" "m < 2 ^ 64" using assms by (simp_all add: m_def words_drawn_def)
  assume "fst (seeded_generate 8 s) = fst (seeded_generate 8 (draws (8 # ns) s))"
  then have "fst (seeded_next s) = fst (seeded_next (s + of_nat m * 0x9e3779b97f4a7c15))"
    by (intro bytes_determine) (simp only: draws_state generate_eight fst_conv m_def)
  from seeded_next_inj [OF this] have "of_nat m * 0x9e3779b97f4a7c15 = (0 * 0x9e3779b97f4a7c15 :: u64)"
    by simp
  from odd_mult_inj [OF _ this, of "0xf1de83e19937733d"] have "of_nat m = (0 :: u64)" by simp
  then have "unat (of_nat m :: u64) = 0" by simp
  with m show False by (simp add: unat_of_nat take_bit_nat_eq_self)
qed

lemma seeded_draws_differ_witness:
  "fst (seeded_generate 8 81) \<noteq> fst (seeded_generate 8 (draws [8, 3, 20] 81))"
  using seeded_draws_differ [of "[3, 20]" 81] by (simp add: words_drawn_def)

end
