(* ===== verification/OwnerTurns.thy ===== *)
theory OwnerTurns
  imports OutcomeLedger
begin

text \<open>
  The owner turns of a controlled driver (\<open>DriverOwners\<close>, \<open>owner_turn\<close> and \<open>Drop for ControlledOwnerTurn\<close> of
  \<open>src/execution.rs\<close>).  The driver keeps weak references to the factories and peers of its graph; while
  the engine is on the stack it holds them strongly, and lets go of them after the outermost turn.
  Strong references are counted: those of the application (\<open>ow_outside\<close>), those held, and the batch that
  the retirement is dropping.  A destructor may run any of these operations.
\<close>

type_synonym owner = nat

record driver_owners =
  ow_factories :: "owner list"
  ow_peers :: "owner list"
  ow_held_factories :: "owner list"
  ow_held_peers :: "owner list"
  ow_depth :: nat
  ow_retiring :: bool
  ow_batch :: "owner list"
  ow_outside :: "owner \<Rightarrow> nat"
  ow_dead :: "owner list"

definition driver_owners_new :: driver_owners where
  "driver_owners_new = \<lparr>ow_factories = [], ow_peers = [], ow_held_factories = [], ow_held_peers = [],
     ow_depth = 0, ow_retiring = False, ow_batch = [], ow_outside = (\<lambda>_. 0), ow_dead = []\<rparr>"

definition strong_count :: "driver_owners \<Rightarrow> owner \<Rightarrow> nat" where
  "strong_count w a = ow_outside w a
     + count_list (ow_held_factories w @ ow_held_peers w @ ow_batch w) a"

definition prune :: "driver_owners \<Rightarrow> driver_owners" where
  "prune w = w\<lparr>ow_factories := filter (\<lambda>a. strong_count w a \<noteq> 0) (ow_factories w),
     ow_peers := filter (\<lambda>a. strong_count w a \<noteq> 0) (ow_peers w)\<rparr>"

definition upgrade :: "driver_owners \<Rightarrow> owner list \<Rightarrow> owner list" where
  "upgrade w owners = filter (\<lambda>a. strong_count w a \<noteq> 0) owners"

definition owner_turn :: "driver_owners \<Rightarrow> driver_owners" where
  "owner_turn w =
     (let w = (if ow_depth w = 0 \<and> \<not> ow_retiring w then
          (let w = prune w; factories = upgrade w (ow_factories w); peers = upgrade w (ow_peers w)
           in w\<lparr>ow_held_factories := ow_held_factories w @ factories,
                ow_held_peers := ow_held_peers w @ peers\<rparr>)
        else w)
      in w\<lparr>ow_depth := ow_depth w + 1\<rparr>)"

definition register_factory :: "owner \<Rightarrow> driver_owners \<Rightarrow> driver_owners" where
  "register_factory a w =
     (let w = prune w; w = w\<lparr>ow_factories := ow_factories w @ [a]\<rparr>
      in if ow_depth w \<noteq> 0 \<or> ow_retiring w then w\<lparr>ow_held_factories := ow_held_factories w @ [a]\<rparr> else w)"

definition register_peer :: "owner \<Rightarrow> driver_owners \<Rightarrow> driver_owners" where
  "register_peer a w =
     (let w = prune w; w = w\<lparr>ow_peers := ow_peers w @ [a]\<rparr>
      in if ow_depth w \<noteq> 0 \<or> ow_retiring w then w\<lparr>ow_held_peers := ow_held_peers w @ [a]\<rparr> else w)"

text \<open>The end of a turn: the outermost one begins a retirement, unless one is under way.\<close>

definition end_turn :: "driver_owners \<Rightarrow> driver_owners" where
  "end_turn w =
     (let w = w\<lparr>ow_depth := ow_depth w - 1\<rparr>
      in if ow_depth w = 0 \<and> \<not> ow_retiring w then w\<lparr>ow_retiring := True\<rparr> else w)"

text \<open>One iteration of the retirement loop: the end, or the next batch, peers before factories.\<close>

definition drain_turn :: "driver_owners \<Rightarrow> driver_owners" where
  "drain_turn w =
     (if ow_held_peers w = [] \<and> ow_held_factories w = []
      then (prune w)\<lparr>ow_retiring := False\<rparr>
      else w\<lparr>ow_batch := ow_held_peers w @ ow_held_factories w, ow_held_peers := [],
             ow_held_factories := []\<rparr>)"

datatype owner_reply = OwnerIgnored | OwnerDone | Destroyed owner

text \<open>A strong reference is gone.\<close>

definition released :: "owner \<Rightarrow> driver_owners \<Rightarrow> owner_reply \<times> driver_owners" where
  "released a w =
     (if strong_count w a = 0 then (Destroyed a, w\<lparr>ow_dead := a # ow_dead w\<rparr>) else (OwnerDone, w))"

datatype owner_action =
    BeginTurn | EndTurn | DrainBatch | DropNext
  | RegisterFactory owner | RegisterPeer owner
  | CreateOwner owner | RetainOwner owner | ReleaseOwner owner

fun owners_step :: "owner_action \<Rightarrow> driver_owners \<Rightarrow> owner_reply \<times> driver_owners" where
  "owners_step BeginTurn w = (OwnerDone, owner_turn w)"
| "owners_step EndTurn w = (if ow_depth w = 0 then (OwnerIgnored, w) else (OwnerDone, end_turn w))"
| "owners_step DrainBatch w =
     (if ow_retiring w \<and> ow_batch w = [] \<and> ow_depth w = 0 then (OwnerDone, drain_turn w) else (OwnerIgnored, w))"
| "owners_step DropNext w = (case ow_batch w of
       [] \<Rightarrow> (OwnerIgnored, w)
     | a # rest \<Rightarrow> if ow_depth w = 0 then released a (w\<lparr>ow_batch := rest\<rparr>) else (OwnerIgnored, w))"
| "owners_step (RegisterFactory a) w =
     (if strong_count w a = 0 then (OwnerIgnored, w) else (OwnerDone, register_factory a w))"
| "owners_step (RegisterPeer a) w =
     (if strong_count w a = 0 then (OwnerIgnored, w) else (OwnerDone, register_peer a w))"
| "owners_step (CreateOwner a) w =
     (if strong_count w a = 0 \<and> a \<notin> set (ow_dead w) then (OwnerDone, w\<lparr>ow_outside := (ow_outside w)(a := 1)\<rparr>)
      else (OwnerIgnored, w))"
| "owners_step (RetainOwner a) w =
     (if strong_count w a = 0 then (OwnerIgnored, w)
      else (OwnerDone, w\<lparr>ow_outside := (ow_outside w)(a := ow_outside w a + 1)\<rparr>))"
| "owners_step (ReleaseOwner a) w =
     (if ow_outside w a = 0 then (OwnerIgnored, w)
      else released a (w\<lparr>ow_outside := (ow_outside w)(a := ow_outside w a - 1)\<rparr>))"

text \<open>The driver refuses to dispatch while it retires owners, and from within a provider's callback.\<close>

definition dispatch_blocked :: "bool \<Rightarrow> driver_owners \<Rightarrow> bool" where
  "dispatch_blocked callback_active w \<longleftrightarrow> ow_retiring w \<or> callback_active"

subsection \<open>The invariant\<close>

definition registered :: "driver_owners \<Rightarrow> owner set" where
  "registered w = set (ow_factories w) \<union> set (ow_peers w)"

definition held :: "driver_owners \<Rightarrow> owner set" where
  "held w = set (ow_held_factories w) \<union> set (ow_held_peers w)"

lemma registered_upd [simp]:
  "registered (w\<lparr>ow_depth := n\<rparr>) = registered w" "registered (w\<lparr>ow_retiring := x\<rparr>) = registered w"
  "registered (w\<lparr>ow_batch := b\<rparr>) = registered w" "registered (w\<lparr>ow_outside := f\<rparr>) = registered w"
  "registered (w\<lparr>ow_dead := b\<rparr>) = registered w"
  by (simp_all add: registered_def)

lemma held_upd [simp]:
  "held (w\<lparr>ow_depth := n\<rparr>) = held w" "held (w\<lparr>ow_retiring := x\<rparr>) = held w"
  "held (w\<lparr>ow_batch := b\<rparr>) = held w" "held (w\<lparr>ow_outside := f\<rparr>) = held w"
  "held (w\<lparr>ow_dead := b\<rparr>) = held w"
  by (simp_all add: held_def)

definition owner_ok :: "driver_owners \<Rightarrow> owner \<Rightarrow> bool" where
  "owner_ok w a \<longleftrightarrow> (a \<in> registered w \<longrightarrow>
     (0 < ow_depth w \<and> \<not> ow_retiring w \<and> 0 < strong_count w a \<longrightarrow> a \<in> held w)
     \<and> (strong_count w a = 0 \<longrightarrow> a \<in> set (ow_dead w)))"

definition owners_inv :: "driver_owners \<Rightarrow> bool" where
  "owners_inv w \<longleftrightarrow> (\<forall>a. owner_ok w a)
     \<and> (\<not> ow_retiring w \<longrightarrow> ow_batch w = [] \<and> (ow_depth w = 0 \<longrightarrow> held w = {}))"

lemma count_list_zero: "count_list xs a = 0 \<longleftrightarrow> a \<notin> set xs"
  by (induction xs) auto

lemma strong_zero: "strong_count w a = 0 \<longleftrightarrow>
    ow_outside w a = 0 \<and> a \<notin> held w \<and> a \<notin> set (ow_batch w)"
  by (auto simp: strong_count_def count_list_zero held_def)

lemma strong_count_upd [simp]:
  "strong_count (w\<lparr>ow_depth := n\<rparr>) = strong_count w" "strong_count (w\<lparr>ow_retiring := x\<rparr>) = strong_count w"
  "strong_count (w\<lparr>ow_dead := b\<rparr>) = strong_count w"
  by (simp_all add: strong_count_def fun_eq_iff)

lemma strong_pos: "0 < strong_count w a \<longleftrightarrow>
    0 < ow_outside w a \<or> a \<in> held w \<or> a \<in> set (ow_batch w)"
  using strong_zero [of w a] by auto

lemmas strong_iff = strong_zero strong_pos

text \<open>What the operations do to who is registered and who is held.\<close>

lemma owner_turn_fields:
  "ow_batch (owner_turn w) = ow_batch w" "ow_retiring (owner_turn w) = ow_retiring w"
  "ow_dead (owner_turn w) = ow_dead w" "ow_outside (owner_turn w) = ow_outside w"
  "ow_depth (owner_turn w) = ow_depth w + 1"
  "b \<in> registered (owner_turn w) \<Longrightarrow> b \<in> registered w"
  "b \<in> held (owner_turn w) \<longleftrightarrow> b \<in> held w
     \<or> ow_depth w = 0 \<and> \<not> ow_retiring w \<and> b \<in> registered w \<and> 0 < strong_count w b"
  by (auto simp: owner_turn_def Let_def upgrade_def prune_def registered_def held_def strong_iff split: if_splits)

lemma owner_turn_inv:
  assumes i: "owners_inv w" shows "owners_inv (owner_turn w)"
proof -
  note f = owner_turn_fields [where w = w]
  have "owner_ok (owner_turn w) b" for b
  proof -
    from i have "owner_ok w b" by (simp add: owners_inv_def)
    then show ?thesis using f(1-5) f(6,7) [where b = b]
      by (auto simp: owner_ok_def strong_iff)
  qed
  with i f show ?thesis by (simp add: owners_inv_def)
qed

lemma register_inv:
  assumes i: "owners_inv w" and a: "strong_count w a \<noteq> 0"
    and r: "w' = register_factory a w \<or> w' = register_peer a w"
  shows "owners_inv w'"
proof -
  have f: "ow_batch w' = ow_batch w" "ow_retiring w' = ow_retiring w" "ow_dead w' = ow_dead w"
    "ow_outside w' = ow_outside w" "ow_depth w' = ow_depth w"
    and g: "b \<in> registered w' \<Longrightarrow> b = a \<or> b \<in> registered w"
    and h: "b \<in> held w' \<longleftrightarrow> b \<in> held w \<or> (ow_depth w \<noteq> 0 \<or> ow_retiring w) \<and> b = a" for b
    using r by (elim disjE; cases "ow_depth w = 0"; cases "ow_retiring w";
        auto simp: register_factory_def register_peer_def Let_def prune_def registered_def held_def)+
  have "owner_ok w' b" for b
  proof (cases "b = a")
    case True
    with a f h [of b] show ?thesis by (auto simp: owner_ok_def strong_iff)
  next
    case False
    from i have "owner_ok w b" by (simp add: owners_inv_def)
    with f g [of b] h [of b] False show ?thesis by (auto simp: owner_ok_def strong_iff)
  qed
  moreover have "held w' = {}" if "held w = {}" "ow_depth w = 0" "\<not> ow_retiring w" using h that by auto
  ultimately show ?thesis using i f by (simp add: owners_inv_def)
qed

lemma prune_fields:
  "ow_batch (prune w) = ow_batch w" "ow_dead (prune w) = ow_dead w" "ow_outside (prune w) = ow_outside w"
  "ow_depth (prune w) = ow_depth w" "held (prune w) = held w"
  "strong_count (prune w) = strong_count w" "b \<in> registered (prune w) \<Longrightarrow> b \<in> registered w"
  by (auto simp: prune_def held_def registered_def strong_count_def fun_eq_iff)

lemma drain_turn_cases:
  assumes "ow_batch w = []"
  obtains (finished) "held w = {}" "drain_turn w = (prune w)\<lparr>ow_retiring := False\<rparr>"
    | (batch) b where "set b = held w" "drain_turn w =
        w\<lparr>ow_batch := b, ow_held_peers := [], ow_held_factories := []\<rparr>"
proof (cases "ow_held_peers w = [] \<and> ow_held_factories w = []")
  case True
  then show ?thesis using finished by (simp add: drain_turn_def held_def)
next
  case False
  then have "drain_turn w = w\<lparr>ow_batch := ow_held_peers w @ ow_held_factories w, ow_held_peers := [],
      ow_held_factories := []\<rparr>" by (simp only: drain_turn_def if_False)
  then show ?thesis by (rule batch [rotated]) (simp add: held_def Un_commute)
qed

lemma drain_turn_fields:
  assumes "ow_batch w = []"
  shows "ow_dead (drain_turn w) = ow_dead w" "ow_outside (drain_turn w) = ow_outside w"
    "ow_depth (drain_turn w) = ow_depth w"
    "b \<in> registered (drain_turn w) \<Longrightarrow> b \<in> registered w"
    "strong_count (drain_turn w) b = 0 \<longleftrightarrow> strong_count w b = 0"
    "ow_retiring (drain_turn w) = ow_retiring w
      \<or> ow_batch (drain_turn w) = [] \<and> held (drain_turn w) = {}"
proof -
  from assms have "ow_dead (drain_turn w) = ow_dead w \<and> ow_outside (drain_turn w) = ow_outside w
    \<and> ow_depth (drain_turn w) = ow_depth w \<and> (b \<in> registered (drain_turn w) \<longrightarrow> b \<in> registered w)
    \<and> (strong_count (drain_turn w) b = 0 \<longleftrightarrow> strong_count w b = 0)
    \<and> (ow_retiring (drain_turn w) = ow_retiring w
      \<or> ow_batch (drain_turn w) = [] \<and> held (drain_turn w) = {})"
  proof (cases rule: drain_turn_cases)
    case finished
    with assms show ?thesis by (simp add: prune_fields)
  next
    case (batch c)
    let ?w = "w\<lparr>ow_batch := c, ow_held_peers := [], ow_held_factories := []\<rparr>"
    have "held ?w = {}" "registered ?w = registered w" by (simp_all add: held_def registered_def)
    with assms batch show ?thesis by (simp add: strong_zero)
  qed
  then show "ow_dead (drain_turn w) = ow_dead w" "ow_outside (drain_turn w) = ow_outside w"
    "ow_depth (drain_turn w) = ow_depth w"
    "b \<in> registered (drain_turn w) \<Longrightarrow> b \<in> registered w"
    "strong_count (drain_turn w) b = 0 \<longleftrightarrow> strong_count w b = 0"
    "ow_retiring (drain_turn w) = ow_retiring w
      \<or> ow_batch (drain_turn w) = [] \<and> held (drain_turn w) = {}" by blast+
qed

lemma drain_turn_inv:
  assumes i: "owners_inv w" and w: "ow_retiring w" "ow_batch w = []" "ow_depth w = 0"
  shows "owners_inv (drain_turn w)"
proof -
  note f = drain_turn_fields [OF w(2)]
  have "owner_ok (drain_turn w) b" for b
  proof -
    from i have "owner_ok w b" by (simp add: owners_inv_def)
    then show ?thesis using f(1,3) f(4,5) [of b] w by (auto simp: owner_ok_def)
  qed
  with f(3,6) w(1) show ?thesis by (auto simp: owners_inv_def)
qed

lemma released_inv:
  assumes r: "released a w = (r, w')"
    and o: "\<forall>b. b \<noteq> a \<longrightarrow> owner_ok w b"
      "a \<in> registered w \<Longrightarrow> 0 < ow_depth w \<Longrightarrow> \<not> ow_retiring w
        \<Longrightarrow> 0 < strong_count w a \<Longrightarrow> a \<in> held w"
    and b: "\<not> ow_retiring w \<longrightarrow> ow_batch w = [] \<and> (ow_depth w = 0 \<longrightarrow> held w = {})"
  shows "owners_inv w'"
proof -
  from r consider "w' = w" "strong_count w a \<noteq> 0"
    | "w' = w\<lparr>ow_dead := a # ow_dead w\<rparr>" "strong_count w a = 0"
    by (auto simp: released_def split: if_splits)
  then show ?thesis
  proof cases
    case 1
    have "owner_ok w a" using o(2) 1(2) by (auto simp: owner_ok_def)
    with o(1) have "owner_ok w y" for y by (cases "y = a") simp_all
    with b 1(1) show ?thesis by (simp add: owners_inv_def)
  next
    case 2
    have c: "strong_count w' y = strong_count w y" for y using 2(1) by (simp add: strong_count_def)
    have "owner_ok w' y" for y
      using o(1) 2 c [of y] by (cases "y = a") (simp_all add: owner_ok_def)
    with b 2(1) show ?thesis by (simp add: owners_inv_def)
  qed
qed

lemma owners_step_inv:
  assumes i: "owners_inv w" and s: "owners_step a w = (r, w')"
  shows "owners_inv w'"
proof -
  from i have o: "owner_ok w b" for b by (simp add: owners_inv_def)
  from i have h: "\<not> ow_retiring w \<longrightarrow> ow_batch w = [] \<and> (ow_depth w = 0 \<longrightarrow> held w = {})"
    by (simp add: owners_inv_def)
  show ?thesis
  proof (cases a)
    case BeginTurn
    with s owner_turn_inv [OF i] show ?thesis by simp
  next
    case (RegisterFactory x)
    with i s register_inv [OF i, of x w'] show ?thesis by (auto split: if_splits)
  next
    case (RegisterPeer x)
    with i s register_inv [OF i, of x w'] show ?thesis by (auto split: if_splits)
  next
    case EndTurn
    consider "w' = w" | "w' = w\<lparr>ow_depth := ow_depth w - 1\<rparr>" "ow_retiring w \<or> 1 < ow_depth w"
      | "w' = w\<lparr>ow_depth := 0, ow_retiring := True\<rparr>"
      using s EndTurn by (fastforce simp: end_turn_def Let_def split: if_splits)
    then show ?thesis
    proof cases
      case 1
      with i show ?thesis by simp
    next
      case 2
      have "owner_ok w' b" for b using o [of b] 2 by (auto simp: owner_ok_def)
      with h 2 show ?thesis by (auto simp: owners_inv_def)
    next
      case 3
      have "owner_ok w' b" for b using o [of b] 3 by (auto simp: owner_ok_def)
      with 3 show ?thesis by (simp add: owners_inv_def)
    qed
  next
    case DrainBatch
    show ?thesis
    proof (cases "ow_retiring w \<and> ow_batch w = [] \<and> ow_depth w = 0")
      case True
      have "owners_step DrainBatch w = (OwnerDone, drain_turn w)" by (simp only: owners_step.simps if_P [OF True])
      with s DrainBatch have "w' = drain_turn w" by (simp only: prod.inject)
      with drain_turn_inv [OF i] True show ?thesis by simp
    next
      case False
      have "owners_step DrainBatch w = (OwnerIgnored, w)" by (simp only: owners_step.simps if_not_P [OF False])
      with s DrainBatch have "w' = w" by (simp only: prod.inject)
      with i show ?thesis by simp
    qed
  next
    case DropNext
    show ?thesis
    proof (cases "ow_batch w = [] \<or> ow_depth w \<noteq> 0")
      case True
      with DropNext s i show ?thesis by (auto split: list.splits)
    next
      case False
      then obtain x rest where b: "ow_batch w = x # rest" "ow_depth w = 0" by (cases "ow_batch w") auto
      with DropNext s have r: "released x (w\<lparr>ow_batch := rest\<rparr>) = (r, w')" by simp
      have "owner_ok (w\<lparr>ow_batch := rest\<rparr>) y" if "y \<noteq> x" for y
        using o [of y] b that by (auto simp: owner_ok_def strong_iff)
      with h b show ?thesis by (intro released_inv [OF r]) auto
    qed
  next
    case (CreateOwner x)
    have "owner_ok w' b" for b
      using o [of b] o [of x] s CreateOwner
      by (cases "b = x") (auto simp: owner_ok_def strong_iff split: if_splits)
    with h s CreateOwner show ?thesis by (auto simp: owners_inv_def split: if_splits)
  next
    case (RetainOwner x)
    have "owner_ok w' b" for b
      using o [of b] s RetainOwner
      by (cases "b = x") (auto simp: owner_ok_def strong_iff split: if_splits)
    with h s RetainOwner show ?thesis by (auto simp: owners_inv_def split: if_splits)
  next
    case (ReleaseOwner x)
    show ?thesis
    proof (cases "ow_outside w x = 0")
      case True
      with ReleaseOwner s i show ?thesis by simp
    next
      case False
      let ?w = "w\<lparr>ow_outside := (ow_outside w)(x := ow_outside w x - 1)\<rparr>"
      from False ReleaseOwner s have r: "released x ?w = (r, w')" by simp
      have "owner_ok ?w y" if "y \<noteq> x" for y using o [of y] that by (auto simp: owner_ok_def strong_iff)
      with h o [of x] False show ?thesis
        by (intro released_inv [OF r]) (auto simp: owner_ok_def strong_iff)
    qed
  qed
qed

subsection \<open>Executions\<close>

definition owners_run :: "owner_action list \<Rightarrow> driver_owners" where
  "owners_run acts = fold (\<lambda>a w. snd (owners_step a w)) acts driver_owners_new"

lemma owners_run_inv: "owners_inv (owners_run acts)"
proof -
  have "owners_inv (fold (\<lambda>a w. snd (owners_step a w)) acts w)" if "owners_inv w" for w
    using that
  proof (induction acts arbitrary: w)
    case (Cons a acts)
    obtain r w' where s: "owners_step a w = (r, w')" by fastforce
    from Cons.IH [OF owners_step_inv [OF Cons.prems s]] s show ?case by simp
  qed simp
  moreover have "owners_inv driver_owners_new"
    by (simp add: owners_inv_def owner_ok_def driver_owners_new_def registered_def held_def)
  ultimately show ?thesis by (simp add: owners_run_def)
qed

text \<open>A registered owner that some step destroys is destroyed outside every turn, or while owners retire.\<close>

lemma released_destroys: "released a w = (Destroyed b, w') \<Longrightarrow> b = a \<and> strong_count w a = 0"
  by (simp add: released_def split: if_splits)

lemma destroyed_by:
  assumes "owners_step act w = (Destroyed a, w')"
  shows "(\<exists>rest. ow_batch w = a # rest \<and> ow_depth w = 0) \<or> a \<notin> held w \<and> 0 < strong_count w a"
proof (cases act)
  case DropNext
  with assms show ?thesis by (auto dest!: released_destroys split: list.splits if_splits)
next
  case (ReleaseOwner x)
  with assms have x: "ow_outside w x \<noteq> 0"
    and d: "released x (w\<lparr>ow_outside := (ow_outside w)(x := ow_outside w x - 1)\<rparr>) = (Destroyed a, w')"
    by (simp_all split: if_splits)
  from released_destroys [OF d] x show ?thesis by (auto simp: strong_iff)
next
  case DrainBatch
  with assms show ?thesis by (simp only: owners_step.simps split: if_splits) simp_all
qed (use assms in \<open>simp_all split: if_splits\<close>)

text \<open>C33. A native turn keeps its graph alive: whatever the application and the callbacks do with their
  references, in any history of turns, registrations, retirements and releases, no step taken while a
  turn is open and no retirement is under way destroys a registered factory or peer; and once the
  outermost turn and its retirement are over the driver holds nothing, so it keeps no idle owner alive.\<close>

theorem owners_survive_turn:
  assumes w: "w = owners_run acts" and r: "\<not> ow_retiring w"
  shows "if ow_depth w = 0 then ow_held_factories w = [] \<and> ow_held_peers w = [] \<and> ow_batch w = []
    else \<forall>act a. a \<in> registered w \<longrightarrow> fst (owners_step act w) \<noteq> Destroyed a"
proof -
  have i: "owners_inv w" using owners_run_inv w by simp
  show ?thesis
  proof (cases "ow_depth w = 0")
    case True
    with i r show ?thesis by (simp add: owners_inv_def held_def)
  next
    case False
    have "fst (owners_step act w) \<noteq> Destroyed a" if a: "a \<in> registered w" for act a
    proof
      assume "fst (owners_step act w) = Destroyed a"
      then have "owners_step act w = (Destroyed a, snd (owners_step act w))" by (metis prod.collapse)
      from destroyed_by [OF this] False have "a \<notin> held w" "0 < strong_count w a" by simp_all
      moreover from i have "owner_ok w a" by (simp add: owners_inv_def)
      ultimately show False using a r False by (simp add: owner_ok_def)
    qed
    with False show ?thesis by simp
  qed
qed

definition one_turn :: "owner_action list" where
  "one_turn = [CreateOwner 7, RegisterPeer 7, BeginTurn, ReleaseOwner 7]"

text \<open>The application lets go of its peer from within a turn; the peer is dropped when the turn ends.\<close>

lemma owners_survive_turn_witness:
  "\<not> ow_retiring (owners_run one_turn) \<and> ow_depth (owners_run one_turn) = 1
    \<and> ow_outside (owners_run one_turn) 7 = 0 \<and> 7 \<in> registered (owners_run one_turn)
    \<and> fst (owners_step EndTurn (owners_run one_turn)) \<noteq> Destroyed 7
    \<and> owners_run (one_turn @ [EndTurn, DrainBatch]) = (owners_run one_turn)\<lparr>ow_depth := 0,
        ow_retiring := True, ow_batch := [7], ow_held_peers := []\<rparr>
    \<and> ow_dead (owners_run (one_turn @ [EndTurn, DrainBatch, DropNext, DrainBatch])) = [7]"
proof -
  let ?w = "owners_run one_turn"
  have w: "ow_depth ?w = 1" "\<not> ow_retiring ?w" "7 \<in> registered ?w" "ow_outside ?w 7 = 0"
    by (simp_all add: owners_run_def one_turn_def driver_owners_new_def strong_count_def register_peer_def
      owner_turn_def prune_def upgrade_def Let_def released_def registered_def)
  moreover from owners_survive_turn [OF refl w(2)] w have "fst (owners_step EndTurn ?w) \<noteq> Destroyed 7" by simp
  moreover have "owners_run (one_turn @ [EndTurn, DrainBatch]) = ?w\<lparr>ow_depth := 0,
        ow_retiring := True, ow_batch := [7], ow_held_peers := []\<rparr>"
    "ow_dead (owners_run (one_turn @ [EndTurn, DrainBatch, DropNext, DrainBatch])) = [7]"
    by (simp_all add: owners_run_def one_turn_def driver_owners_new_def strong_count_def register_peer_def
      owner_turn_def prune_def upgrade_def Let_def released_def end_turn_def drain_turn_def)
  ultimately show ?thesis by blast
qed

end
