(* ===== verification/Spec2Isabelle.thy ===== *)
theory Spec2Isabelle
  imports FrameBuffers InputEncoder CodecProviders TimeValues ArtifactResolve SessionClosing ControlledWorld OwnerTurns
begin

text \<open>
  Safe Rust bindings to the WebRTC SDK (\<open>pulsebeam-libwebrtc-sys\<close>).  Most of the repository
  forwards to the SDK through a \<open>cxx\<close> bridge; this development models the parts that decide
  something themselves: in Rust, with the C++ observer state of \<open>native/peer.cc\<close> they read.

  \<^bold>\<open>1. Encoded video input\<close> (\<open>src/encoded_video.rs\<close>, with \<open>src/readiness.rs\<close> and the value types
  of \<open>src/codec.rs\<close>).  An application that already has encoded frames submits them to a source;
  the engine only knows raw frames, so a source pushes a one-token frame and keeps the encoded
  units in a broker, and the encoder the engine calls for that frame redeems the token:

    \<^item> \<open>Prelude\<close>: machine integers, checked arithmetic, doubles by their bits, results, hash maps.
    \<^item> \<open>Readiness\<close>: \<open>Readiness::notify\<close>, \<open>poll\<close>; the locale \<open>level_signal\<close> is what its users
      rely on, interpreted on these two functions.  Refinement of a three-state signal, no lost
      wake-up, at most one wake-up for a pending poll.
    \<^item> \<open>CodecValues\<close>: formats, metadata, settings, rates, allocations, loss notifications and errors
      with their native projections (\<open>from_ffi\<close>, \<open>native\<close>, \<open>from_raw\<close>); the locale
      \<open>native_projection\<close> (a reading that undoes a projection) is interpreted on five of them.
    \<^item> \<open>SourceFeedback\<close>: the shared cells of a source as an explicit store (\<open>world\<close>, addresses for
      \<open>Arc\<close>s) with each critical section of \<open>SourceFeedback\<close>.
    \<^item> \<open>Bitstream\<close>: access units, the VP8 header check and the Annex-B scanner (\<open>valid_vp8\<close>,
      \<open>valid_annex_b\<close>), proved equivalent to a grammar of start codes and NAL units.
    \<^item> \<open>Broker\<close>: \<open>Broker::insert\<close> with its eviction loop, \<open>take\<close>, \<open>remove_source\<close> and the operations
      on a batch; \<open>broker_core\<close> and \<open>broker_inv\<close> are the invariant, \<open>queue\<close> the abstract FIFO, and
      the locale \<open>token_broker\<close> (submit and redeem, over any operations in between) is the contract the
      encoder adapter uses.
    \<^item> \<open>EncodedInput\<close>: \<open>EncodedH264Input\<close> (every builder) and \<open>EncodedH264Source\<close> (push, close,
      queries), with admission order, atomic submission and final close.
    \<^item> \<open>InputEncoder\<close>: \<open>InputFactory\<close>, \<open>InputEncoder\<close>, \<open>ReferenceChains\<close> and the image callback of
      \<open>src/codec.rs\<close>.  The engine is an arbitrary function of the calls made so far, so the
      theorems on decodability, conservation of units and keyframe requests hold for every engine.
    \<^item> \<open>CodecProviders\<close>: the entry points of \<open>src/codec.rs\<close> around video codecs and factories of the
      application, whose answers and panics are arguments.  The locale \<open>containment\<close> (a panic condemns
      its provider, a condemned or destroyed one is not called) is interpreted on the calls to an
      encoder factory and its encoders, and on those to a decoder factory and its decoders.

  \<^bold>\<open>2. Raw frames\<close>, \<open>FrameBuffers\<close> (\<open>VideoFrameBuffer\<close>, \<open>VideoFrame\<close> of \<open>src/codec.rs\<close>): packed and
  strided I420 and NV12 storage with every checked size computation; pixel-exact packing and the
  NV12 round trip.

  \<^bold>\<open>3. Time values\<close>, \<open>TimeValues\<close> (\<open>src/timestamp.rs\<close>, \<open>src/time_delta.rs\<close>, \<open>src/ntp_time.rs\<close> and the
  dispatch of \<open>native/clock.cc\<close>): 64-bit microseconds with two infinities, related to the integers
  extended by infinities (\<open>extended\<close>); sums, scaling and rounding are exact or refused.

  \<^bold>\<open>4. Artifacts\<close> (\<open>build_support/artifact.rs\<close>, \<open>build_support/manifest.rs\<close>).  The build script selects
  a prebuilt native library from a lock, downloads, unpacks and validates it:

    \<^item> \<open>ArtifactLock\<close>: targets, both lock schemas, selection, release tags and canonical URLs.
    \<^item> \<open>ArtifactFiles\<close>: the machine the resolver runs on, a file tree, a scripted server and a clock
      of pauses, with every call of \<open>std::fs\<close> free to fail (\<open>h_fails\<close>); programs are functions of
      a host and a machine, sequenced by \<open>io_bind\<close>.  The locale \<open>world_frame\<close> carries what a
      program leaves alone, interpreted on \<open>touches\<close> (files outside a set), \<open>silent\<close> (no request)
      and, in \<open>ArtifactStore\<close>, \<open>confined\<close> (a directory stays standing).
    \<^item> \<open>ArtifactManifest\<close>: \<open>ArtifactManifest::parse_and_validate\<close>, \<open>validate_payloads\<close>,
      \<open>cargo_link_directives\<close> and what an accepted manifest guarantees.
    \<^item> \<open>ArtifactStore\<close>: the release-lock cache, \<open>download\<close>, \<open>extract_safely\<close>, \<open>resolve\<close>, with the
      offline and confinement theorems.
    \<^item> \<open>ArtifactResolve\<close>: bounded retries and the soundness of a resolved path over the whole chain.

  \<^bold>\<open>5. Peer connection\<close> (\<open>src/peer.rs\<close>, \<open>native/peer.cc\<close>).  An owner sends requests to a native
  peer; SDK threads call observers that fill a bounded queue; the owner takes and decodes the events:

    \<^item> \<open>PeerStats\<close>: typed statistics, the rows an observer writes and the fields Rust reads.
    \<^item> \<open>PeerEvents\<close>: \<open>EventState\<close> with its operations and the observers, the error values of a peer,
      every event kind with its decoding.
    \<^item> \<open>PeerOperations\<close>: the owner's requests, validation and descriptions, \<open>drain_events\<close>, \<open>next_event\<close>
      and \<open>close_result\<close>.
    \<^item> \<open>OutcomeLedger\<close>: the locale \<open>outcome_ledger\<close>, the contract of whoever accepts operations and
      reports their outcomes, that each accepted operation is settled once; it is an instance of the
      locale \<open>settlement\<close>, where steps post and end numbered things.
    \<^item> \<open>PeerHistory\<close>: executions (\<open>peer_step\<close>) of requests, callbacks, taking and closing in any order;
      \<open>peer_ledger\<close> interprets the contract.  Settlement exactly once, no panic in decoding, bounds of
      the queue, what closing completes.

  \<^bold>\<open>6. Session\<close> (\<open>src/production.rs\<close>, \<open>src/production_media.rs\<close>).  The owner of many peers and their
  media, which hands out identifiers and merges the events of all peers:

    \<^item> \<open>Session\<close>: the record of the actor's tables, each command on peers, transceivers, senders, sinks
      and operations, the poll that turns native events into session events, and closing.
    \<^item> \<open>SessionGraph\<close>: the invariant of the tables and the two kinds of change, \<open>names\<close> (an identifier is
      handed out) and \<open>prunes\<close> (entries go away).
    \<^item> \<open>SessionHistory\<close>: executions (\<open>session_step\<close>).  Whatever a session does to a peer is a \<open>peer_step\<close>
      (\<open>evolves\<close>), so the facts of part 5 carry over, and \<open>session_operations\<close> interprets
      \<open>outcome_ledger\<close> again, on the session's pending operations.
    \<^item> \<open>SessionClosing\<close>: closing one peer and shutting down.

  \<^bold>\<open>7. Controlled execution\<close> (\<open>src/execution.rs\<close>, \<open>native/execution.cc\<close>).  A manual clock, the task queues
  that share it, and a driver that runs due tasks on its owner's thread; tasks may pump, wait, delete
  queues and post again:

    \<^item> \<open>Scheduler\<close>: the domain of one clock (\<open>execution_domain\<close>), with the maps of every factory and a stack
      of activities; \<open>control_step\<close> is one action.  A loop of the pump is one step for each selection,
      so tasks of other actions come between; reading a freed queue has no successor (\<open>None\<close>).
    \<^item> \<open>SchedulerRuns\<close>: the invariant of keys and deadlines, and \<open>settlement\<close> interpreted on
      \<open>control_step\<close> (\<open>scheduled_tasks\<close>): a task is begun or dropped once.
    \<^item> \<open>SchedulerMemory\<close>: the invariant of queues and the stack (\<open>memory_inv\<close>).  No freed queue is used, no
      queue is reentered, tasks begin in order; and the one exception, a destructor that posts to the
      queue being deleted, with an execution that shows it.
    \<^item> \<open>ControlledQueues\<close>: the Rust handles, exact delays and truthful snapshots.
    \<^item> \<open>ControlledWorld\<close>: the process-wide hooks and who may hold them, and the seeded generator.
    \<^item> \<open>OwnerTurns\<close>: what a driver keeps alive while the engine is on the stack.

  \<^bold>\<open>Composition.\<close>  \<open>EncodedInput\<close> submits to \<open>Broker\<close> and signals through \<open>SourceFeedback\<close> and
  \<open>Readiness\<close>; \<open>InputEncoder\<close> redeems and reports back through the same cells; a mutex section is
  one step, so the histories in the theorems are arbitrary interleavings of such steps.
  \<open>ArtifactStore\<close> calls \<open>ArtifactLock\<close> for the entry and \<open>ArtifactManifest\<close> for the contents.  Peers
  signal through the \<open>Readiness\<close> they are built with; a session lends all its peers its own (\<open>lend\<close>),
  and changes a peer only through the operations of \<open>PeerOperations\<close>.

  \<^bold>\<open>Parameters\<close> stand for code outside the sources: \<open>sdk_same\<close> (\<open>SdpVideoFormat::is_same_codec\<close>),
  \<open>mode_valid\<close> (the SDK's scalability modes), \<open>provider_ok\<close> and its like (whether a native object
  could be built), \<open>alive\<close> (whether a \<open>Weak\<close> upgrades), the engine's answers, \<open>reserve\<close> (the
  allocator), \<open>sdk\<close> and the session's environment (what native calls return, with the hypotheses
  \<open>sdk_ok\<close>, gathered in \<open>action_ok\<close> and \<open>session_ok\<close>, and \<open>callback_ok\<close> on documented results and callback
  arguments), \<open>unit_base\<close> with the hypothesis \<open>unit_base_exact\<close> (the SDK's time operators),
  \<open>lock_codec\<close> (serde), \<open>toolkit\<close> (SHA-256, serde, \<open>shlex\<close>, embedded files), \<open>unpack\<close> (gzip and tar) and
  \<open>host\<close> (faults, server, environment).

  \<^bold>\<open>Bounds and termination.\<close>  The broker holds at most 16 batches and 8 MiB (\<open>MAX_PENDING\<close>,
  \<open>MAX_PENDING_BYTES\<close>), a lock body is at most 1 MiB and a download makes at most three attempts, as
  in the code.  A peer has at most 64 operations, 128 control events, 256 KiB of control text and 199
  queued events; identifiers of operations and of the session are 64-bit counters, and the
  theorems on their freshness are of executions of fewer than \<open>2 ^ 64\<close> steps, as are those on the
  posting sequence of a clock, whose time stays in NTP era zero (\<open>kMaxTimeUs\<close>).  No definition uses fuel: the eviction loop ends because each turn shortens the
  order, the Annex-B scan because its cursor moves, the download loop because the attempt count
  does, publication and extraction because their input is a list.  Lengths are natural numbers
  compared with the 64-bit \<open>usize\<close> limit wherever the code checks; counters, tokens and time stamps
  keep their width.

  \<^bold>\<open>Not modelled.\<close>  Floating-point entry points of the time values, display texts and trace output.
  Of the adapters around caller codecs in \<open>src/codec.rs\<close>: the projection of frames, settings and
  results, image callbacks, and calls of one factory that overlap; the calls of \<open>CodecProviders\<close> are
  taken one at a time.  Of controlled execution: environments and
  their factories, threaded and provider-backed queues, captured driver tasks, the retirement table;
  a clock's factories live as long as it, addresses are never reused, and the selection of one task,
  which takes the lock of one factory after the other, is one step.  Of a peer: its configuration and construction, the retirement of legacy
  continuations, track leases and the event log.  Of a session: its tables of codecs, connectivity,
  capture and observers, its command channel and retirement worker; the iteration order of its hash
  maps is their insertion order.  Audio, network, socket, RTP, statistics and capture wrappers:
  owners of SDK objects that forward each call, whose behaviour is the SDK's.  The other C++
  adapters, \<open>cxx\<close> declarations, vendored code, build tools, tests and examples.
\<close>

end
